(* ===== verification/Prelude.thy ===== *)
theory Prelude
  imports Main "HOL-Library.Word"
begin

text \<open>
  The vocabulary shared by every component: bytes and the machine integers the code uses, the
  big-endian encodings of \<open>qToBigEndian\<close> / \<open>qFromBigEndian\<close>, and the generic facts on
  lists and association lists that the component proofs use.

  Machine integers: \<open>quint8\<close>, \<open>quint16\<close>, \<open>quint32\<close> and \<open>quint64\<close> are words;
  \<open>qint32\<close> and \<open>qint64\<close> values that the code only compares, adds small amounts to or prints are
  \<open>int\<close>, with the width written out where it can be left. Sizes of byte arrays are \<open>nat\<close>.
\<close>

unbundle bit_operations_syntax

subsection \<open>Types and hint collections\<close>

type_synonym byte = "8 word"
type_synonym bytes = "byte list"
type_synonym u16 = "16 word"
type_synonym u32 = "32 word"
type_synonym u64 = "64 word"

named_theorems step_defs \<open>definitions of a component's operations\<close>
named_theorems inv_intros \<open>invariant preservation, one fact per operation\<close>

abbreviation asc :: "string \<Rightarrow> bytes" where
  "asc s \<equiv> map of_char s"

definition i32_of :: "u32 \<Rightarrow> int" where
  "i32_of w = sint w"

definition u32_of :: "int \<Rightarrow> u32" where
  "u32_of i = word_of_int i"

lemma i32_of_u32_of [simp]:
  assumes "- (2 ^ 31) \<le> i" and "i < 2 ^ 31"
  shows "i32_of (u32_of i) = i"
  using assms by (simp add: i32_of_def u32_of_def sint_sbintrunc' signed_take_bit_int_eq_self)

lemma i32_of_range: "- (2 ^ 31) \<le> i32_of w \<and> i32_of w < 2 ^ 31"
  unfolding i32_of_def using sint_range_size[of w] by (simp add: word_size)

subsection \<open>Big-endian numbers\<close>

lemma unat_less_pow: "unat (w :: 'a::len word) < 2 ^ LENGTH('a)"
  by (rule unsigned_less)

fun be_bytes :: "nat \<Rightarrow> nat \<Rightarrow> bytes" where
  "be_bytes 0 v = []"
| "be_bytes (Suc n) v = be_bytes n (v div 256) @ [of_nat (v mod 256)]"

definition be_val :: "bytes \<Rightarrow> nat" where
  "be_val bs = foldl (\<lambda>a b. a * 256 + unat b) 0 bs"

lemma length_be_bytes [simp]: "length (be_bytes n v) = n"
  by (induction n arbitrary: v) auto

lemma be_val_Nil [simp]: "be_val [] = 0"
  by (simp add: be_val_def)

lemma be_val_snoc [simp]: "be_val (bs @ [b]) = be_val bs * 256 + unat b"
  by (simp add: be_val_def)

lemma unat_of_nat_byte [simp]: "unat (of_nat (v mod 256) :: byte) = v mod 256"
  by (simp add: unat_of_nat)

lemma be_val_be_bytes: "be_val (be_bytes n v) = v mod 256 ^ n"
proof (induction n arbitrary: v)
  case 0
  then show ?case by simp
next
  case (Suc n)
  have "be_val (be_bytes (Suc n) v) = (v div 256) mod 256 ^ n * 256 + v mod 256"
    by (simp add: Suc.IH)
  also have "\<dots> = v mod (256 * 256 ^ n)"
    by (simp add: mod_mult2_eq)
  finally show ?case by simp
qed

lemma unat_byte_less: "unat (b :: byte) < 256"
  using unat_less_pow[of b] by simp

lemma be_val_less: "be_val bs < 256 ^ length bs"
proof (induction bs rule: rev_induct)
  case Nil
  then show ?case by simp
next
  case (snoc b bs)
  have "be_val bs * 256 + unat b < (be_val bs + 1) * 256"
    using unat_byte_less[of b] by simp
  also have "\<dots> \<le> 256 ^ length bs * 256"
    using snoc by (intro mult_le_mono1) simp
  finally show ?case by simp
qed

lemma be_bytes_be_val: "be_bytes (length bs) (be_val bs) = bs"
proof (induction bs rule: rev_induct)
  case Nil
  then show ?case by simp
next
  case (snoc b bs)
  then show ?case using unat_byte_less[of b] by simp
qed

text \<open>The three widths the protocols use.\<close>

definition be16 :: "u16 \<Rightarrow> bytes" where "be16 w = be_bytes 2 (unat w)"
definition be32 :: "u32 \<Rightarrow> bytes" where "be32 w = be_bytes 4 (unat w)"
definition be64 :: "u64 \<Rightarrow> bytes" where "be64 w = be_bytes 8 (unat w)"

definition de16 :: "bytes \<Rightarrow> u16" where "de16 bs = of_nat (be_val bs)"
definition de32 :: "bytes \<Rightarrow> u32" where "de32 bs = of_nat (be_val bs)"
definition de64 :: "bytes \<Rightarrow> u64" where "de64 bs = of_nat (be_val bs)"

lemma length_be [simp]: "length (be16 a) = 2" "length (be32 b) = 4" "length (be64 c) = 8"
  by (simp_all add: be16_def be32_def be64_def)

lemma de16_be16 [simp]: "de16 (be16 w) = w"
  using unat_less_pow[of w] by (simp add: de16_def be16_def be_val_be_bytes)

lemma de32_be32 [simp]: "de32 (be32 w) = w"
  using unat_less_pow[of w] by (simp add: de32_def be32_def be_val_be_bytes)

lemma de64_be64 [simp]: "de64 (be64 w) = w"
  using unat_less_pow[of w] by (simp add: de64_def be64_def be_val_be_bytes)

lemma be32_de32 [simp]:
  assumes "length bs = 4"
  shows "be32 (de32 bs) = bs"
proof -
  have "be_val bs < 2 ^ 32" using be_val_less[of bs] assms by simp
  then show ?thesis
    using be_bytes_be_val[of bs] assms by (simp add: be32_def de32_def unat_of_nat)
qed

subsection \<open>Lists\<close>

lemma take_append_ge [simp]: "n \<le> length xs \<Longrightarrow> take n (xs @ ys) = take n xs"
  by simp

lemma drop_append_ge [simp]: "n \<le> length xs \<Longrightarrow> drop n (xs @ ys) = drop n xs @ ys"
  by simp

text \<open>\<open>QByteArray::split\<close> and \<open>QString::split\<close>: always one piece more than there are separators.\<close>

fun split_bytes :: "'b \<Rightarrow> 'b list \<Rightarrow> 'b list list" where
  "split_bytes sep [] = [[]]"
| "split_bytes sep (x # xs) =
     (if x = sep then [] # split_bytes sep xs
      else case split_bytes sep xs of [] \<Rightarrow> [[x]] | p # ps \<Rightarrow> (x # p) # ps)"

lemma split_bytes_not_Nil [simp]: "split_bytes sep xs \<noteq> []"
  by (cases xs) (auto split: list.splits)

lemma split_bytes_no_sep: "p \<in> set (split_bytes sep xs) \<Longrightarrow> sep \<notin> set p"
  by (induction xs arbitrary: p) (auto split: list.splits if_splits)

lemma split_bytes_no_sep_id: "sep \<notin> set xs \<Longrightarrow> split_bytes sep xs = [xs]"
  by (induction xs) (auto split: list.splits)

lemma split_bytes_append:
  "split_bytes sep (xs @ sep # ys) = split_bytes sep xs @ split_bytes sep ys"
  by (induction xs) (auto split: list.splits)

subsection \<open>Association lists: \<open>QHash\<close> and \<open>QMap\<close>\<close>

text \<open>
  A hash is an association list with distinct keys. \<open>al_insert\<close> replaces an existing entry in place and
  appends a new one; \<open>al_remove\<close> drops the key. Nothing in the code depends on the iteration order.
\<close>

fun al_insert :: "'k \<Rightarrow> 'v \<Rightarrow> ('k \<times> 'v) list \<Rightarrow> ('k \<times> 'v) list" where
  "al_insert k v [] = [(k, v)]"
| "al_insert k v ((k', v') # xs) = (if k = k' then (k, v) # xs else (k', v') # al_insert k v xs)"

definition al_remove :: "'k \<Rightarrow> ('k \<times> 'v) list \<Rightarrow> ('k \<times> 'v) list" where
  "al_remove k xs = filter (\<lambda>p. fst p \<noteq> k) xs"

definition al_has :: "'k \<Rightarrow> ('k \<times> 'v) list \<Rightarrow> bool" where
  "al_has k xs = (map_of xs k \<noteq> None)"

abbreviation al_keys :: "('k \<times> 'v) list \<Rightarrow> 'k set" where
  "al_keys xs \<equiv> fst ` set xs"

lemma al_has_iff: "al_has k xs \<longleftrightarrow> k \<in> al_keys xs"
  by (simp add: al_has_def map_of_eq_None_iff)

lemma map_of_al_insert [simp]: "map_of (al_insert k v xs) = (map_of xs)(k \<mapsto> v)"
  by (induction k v xs rule: al_insert.induct) (auto simp: fun_eq_iff)

lemma map_of_al_remove [simp]: "map_of (al_remove k xs) = (map_of xs)(k := None)"
  by (induction xs) (auto simp: al_remove_def fun_eq_iff)

lemma keys_al_insert [simp]: "al_keys (al_insert k v xs) = insert k (al_keys xs)"
  by (induction k v xs rule: al_insert.induct) auto

lemma keys_al_remove [simp]: "al_keys (al_remove k xs) = al_keys xs - {k}"
  by (auto simp: al_remove_def)

lemma distinct_al_insert [simp]: "distinct (map fst xs) \<Longrightarrow> distinct (map fst (al_insert k v xs))"
proof (induction k v xs rule: al_insert.induct)
  case (1 k v)
  then show ?case by simp
next
  case (2 k v k' v' xs)
  have "fst ` set (al_insert k v xs) = insert k (fst ` set xs)" by simp
  with 2 show ?case by auto
qed

lemma distinct_map_filter: "distinct (map f xs) \<Longrightarrow> distinct (map f (filter p xs))"
  by (induction xs) auto

lemma distinct_al_remove [simp]: "distinct (map fst xs) \<Longrightarrow> distinct (map fst (al_remove k xs))"
  by (simp add: al_remove_def distinct_map_filter)

lemma length_al_insert:
  "length (al_insert k v xs) = (if k \<in> al_keys xs then length xs else Suc (length xs))"
  by (induction k v xs rule: al_insert.induct) auto

lemma length_al_remove_le: "length (al_remove k xs) \<le> length xs"
  by (simp add: al_remove_def)

lemma al_insert_mem:
  "(k', v') \<in> set (al_insert k v xs) \<Longrightarrow> (k', v') = (k, v) \<or> (k', v') \<in> set xs"
  by (induction k v xs rule: al_insert.induct) (auto split: if_splits)

lemma al_remove_mem: "p \<in> set (al_remove k xs) \<longleftrightarrow> p \<in> set xs \<and> fst p \<noteq> k"
  by (simp add: al_remove_def)

lemma al_insert_twice [simp]: "al_insert k v (al_insert k v' xs) = al_insert k v xs"
  by (induction k v' xs rule: al_insert.induct) auto

lemma al_insert_same: "map_of xs k = Some v \<Longrightarrow> al_insert k v xs = xs"
  by (induction k v xs rule: al_insert.induct) (auto split: if_splits)

lemma map_of_filter_key:
  "map_of (filter (\<lambda>(k, v). P k) xs) k = (if P k then map_of xs k else None)"
  by (induction xs) auto

end
