(* ===== verification/Framing.thy ===== *)
theory Framing
  imports Prelude
begin

text \<open>
  Byte streams arrive in pieces the sender does not choose. Every reader of the program (record marking of
  ONC-RPC, HiSLIP messages, the telnet filter of RFC 2217) keeps what is left of the previous piece, appends
  the new one and takes whole messages off the front. This theory has the loop shape they share and, as
  locales, the laws under which the result cannot depend on how the stream was cut.

  \<open>stream_consumer\<close> is the contract; \<open>framer\<close> is the contract of one ``take a message off the buffer'' step,
  from which the loop \<open>pump\<close> gets the contract.
\<close>

subsection \<open>The loop\<close>

text \<open>
  \<open>More\<close>: the buffer holds no whole message yet. \<open>Bad e\<close>: the connection is given up, because of \<open>e\<close>. \<open>Cut m r\<close>: the message
  \<open>m\<close>, and the rest of the buffer.
\<close>

datatype ('m, 'r) piece = More | Bad 'r | Cut 'm bytes

text \<open>
  The \<open>for (;;)\<close> loop of the readers: it stops when the connection is no longer alive (what is still in the
  buffer is dropped with it), when there is no whole message, or when the buffer is malformed. The test that
  the rest is shorter only makes the recursion total; the laws below imply it.
\<close>

function pump :: "('s \<Rightarrow> bool) \<Rightarrow> ('s \<Rightarrow> bytes \<Rightarrow> ('m, 'r) piece) \<Rightarrow> ('r \<Rightarrow> 's \<Rightarrow> 's) \<Rightarrow> ('m \<Rightarrow> 's \<Rightarrow> 's)
    \<Rightarrow> 's \<Rightarrow> bytes \<Rightarrow> 's \<times> bytes" where
  "pump alive tk bad act s b =
     (if \<not> alive s then (s, [])
      else case tk s b of
        More \<Rightarrow> (s, b)
      | Bad e \<Rightarrow> (bad e s, [])
      | Cut m r \<Rightarrow> if length r < length b then pump alive tk bad act (act m s) r else (s, b))"
  by pat_completeness auto
termination
  by (relation "measure (\<lambda>(alive, tk, bad, act, s, b). length b)") auto

declare pump.simps [simp del]

subsection \<open>The contracts\<close>

locale stream_consumer =
  fixes feed :: "'s \<Rightarrow> 'b list \<Rightarrow> 's"
  assumes feed_append: "feed s (xs @ ys) = feed (feed s xs) ys"
begin

lemma feed_chunks: "foldl feed (feed s c) cs = feed s (c @ concat cs)"
proof (induction cs arbitrary: s c)
  case Nil
  then show ?case by simp
next
  case (Cons d ds)
  have "foldl feed (feed s c) (d # ds) = foldl feed (feed s (c @ d)) ds"
    by (simp add: feed_append)
  also have "\<dots> = feed s ((c @ d) @ concat ds)"
    by (rule Cons.IH)
  finally show ?case by simp
qed

lemma segmentation_irrelevant:
  assumes "concat cs = concat ds" and "cs \<noteq> []" and "ds \<noteq> []"
  shows "foldl feed s cs = foldl feed s ds"
proof -
  obtain c cs' d ds' where "cs = c # cs'" and "ds = d # ds'"
    using assms(2,3) by (meson list.exhaust)
  then show ?thesis
    using assms(1) by (simp add: feed_chunks)
qed

end

locale framer =
  fixes alive :: "'s \<Rightarrow> bool"
    and tk :: "'s \<Rightarrow> bytes \<Rightarrow> ('m, 'r) piece"
    and bad :: "'r \<Rightarrow> 's \<Rightarrow> 's"
    and act :: "'m \<Rightarrow> 's \<Rightarrow> 's"
  assumes cut_shorter: "tk s b = Cut m r \<Longrightarrow> length r < length b"
    and cut_stable: "tk s b = Cut m r \<Longrightarrow> tk s (b @ x) = Cut m (r @ x)"
    and bad_stable: "tk s b = Bad e \<Longrightarrow> tk s (b @ x) = Bad e"
    and bad_dead: "\<not> alive (bad e s)"
begin

lemma pump_append:
  "pump alive tk bad act s (b @ x) =
     (case pump alive tk bad act s b of (s', r) \<Rightarrow> pump alive tk bad act s' (r @ x))"
proof (induction "length b" arbitrary: s b rule: less_induct)
  case less
  show ?case
  proof (cases "alive s")
    case False
    then show ?thesis
      by (simp add: pump.simps[of _ _ _ _ s])
  next
    case True
    show ?thesis
    proof (cases "tk s b")
      case More
      then show ?thesis using True by (simp add: pump.simps[of _ _ _ _ s b])
    next
      case (Bad e)
      then show ?thesis
        using True bad_dead bad_stable[OF Bad, of x]
        by (simp add: pump.simps[of _ _ _ _ s] pump.simps[of _ _ _ _ "bad e s"])
    next
      case (Cut m r)
      have "length r < length b" using Cut by (rule cut_shorter)
      then show ?thesis
        using True Cut cut_stable[OF Cut, of x] less.hyps[of r "act m s"]
        by (simp add: pump.simps[of _ _ _ _ s])
    qed
  qed
qed

lemma pump_induct:
  assumes inv: "P s"
    and step: "\<And>s b m r. P s \<Longrightarrow> alive s \<Longrightarrow> tk s b = Cut m r \<Longrightarrow> P (act m s)"
    and stop: "\<And>s b e. P s \<Longrightarrow> alive s \<Longrightarrow> tk s b = Bad e \<Longrightarrow> P (bad e s)"
  shows "P (fst (pump alive tk bad act s b))"
  using inv
proof (induction "length b" arbitrary: s b rule: less_induct)
  case less
  show ?case
  proof (cases "tk s b")
    case (Cut m r)
    then show ?thesis
      using less cut_shorter[OF Cut] step by (simp add: pump.simps[of _ _ _ _ s b])
  qed (use less.prems stop in \<open>simp_all add: pump.simps[of _ _ _ _ s b]\<close>)
qed

sublocale stream: stream_consumer "\<lambda>(s, b) x. pump alive tk bad act s (b @ x)"
proof
  fix sb :: "'s \<times> bytes" and xs ys
  show "(case sb of (s, b) \<Rightarrow> \<lambda>x. pump alive tk bad act s (b @ x)) (xs @ ys) =
        (case (case sb of (s, b) \<Rightarrow> \<lambda>x. pump alive tk bad act s (b @ x)) xs of
           (s, b) \<Rightarrow> \<lambda>x. pump alive tk bad act s (b @ x)) ys"
    by (cases sb) (simp add: pump_append[of _ "_ @ xs" ys, simplified] split: prod.splits)
qed

end

end
