(* ===== verification/Xdr.thy ===== *)
theory Xdr
  imports Prelude
begin

text \<open>
  \<open>src/src/service/xdr.h\<close>: the minimal XDR reader and writer (RFC 4506), big endian, everything aligned to
  four bytes. The reader is a value (data, position, ok flag) that every read returns updated; the writer is
  the byte list written so far.
\<close>

record xdr_reader =
  rd_data :: bytes
  rd_pos :: nat
  rd_ok :: bool

definition xdr_reader_of :: "bytes \<Rightarrow> xdr_reader" where
  "xdr_reader_of d = \<lparr>rd_data = d, rd_pos = 0, rd_ok = True\<rparr>"

text \<open>\<open>XdrReader::u32\<close>: past the end it gives 0, clears the flag and moves to the end.\<close>

definition rd_u32 :: "xdr_reader \<Rightarrow> u32 \<times> xdr_reader" where
  "rd_u32 r =
     (if rd_pos r + 4 > length (rd_data r)
      then (0, r\<lparr>rd_ok := False, rd_pos := length (rd_data r)\<rparr>)
      else (de32 (take 4 (drop (rd_pos r) (rd_data r))), r\<lparr>rd_pos := rd_pos r + 4\<rparr>))"

definition rd_i32 :: "xdr_reader \<Rightarrow> int \<times> xdr_reader" where
  "rd_i32 r = (case rd_u32 r of (v, r') \<Rightarrow> (i32_of v, r'))"

definition pad4 :: "nat \<Rightarrow> nat" where
  "pad4 n = (n + 3) div 4 * 4"

text \<open>\<open>XdrReader::opaque\<close>: length, data, padding.\<close>

definition rd_opaque :: "xdr_reader \<Rightarrow> bytes \<times> xdr_reader" where
  "rd_opaque r0 =
     (let (n, r) = rd_u32 r0; padded = pad4 (unat n)
      in if \<not> rd_ok r \<or> rd_pos r + padded > length (rd_data r)
         then ([], r\<lparr>rd_ok := False\<rparr>)
         else (take (unat n) (drop (rd_pos r) (rd_data r)), r\<lparr>rd_pos := rd_pos r + padded\<rparr>))"

definition wr_u32 :: "u32 \<Rightarrow> bytes \<Rightarrow> bytes" where
  "wr_u32 v d = d @ be32 v"

definition wr_i32 :: "int \<Rightarrow> bytes \<Rightarrow> bytes" where
  "wr_i32 i d = wr_u32 (u32_of i) d"

text \<open>\<open>XdrWriter::opaque\<close>: the padding is \<open>(4 - (size & 3)) & 3\<close> zero bytes.\<close>

definition wr_opaque :: "bytes \<Rightarrow> bytes \<Rightarrow> bytes" where
  "wr_opaque x d =
     wr_u32 (of_nat (length x)) d @ x @ replicate ((4 - length x mod 4) mod 4) 0"

definition wr_raw :: "bytes \<Rightarrow> bytes \<Rightarrow> bytes" where
  "wr_raw x d = d @ x"

lemmas xdr_defs = rd_u32_def rd_i32_def rd_opaque_def wr_u32_def wr_i32_def wr_opaque_def wr_raw_def

subsection \<open>Reader invariant\<close>

definition rd_wf :: "xdr_reader \<Rightarrow> bool" where
  "rd_wf r \<longleftrightarrow> rd_pos r \<le> length (rd_data r)"

lemma rd_wf_of [simp]: "rd_wf (xdr_reader_of d)"
  by (simp add: rd_wf_def xdr_reader_of_def)

lemma rd_wf_u32 [intro]: "rd_wf r \<Longrightarrow> rd_wf (snd (rd_u32 r))"
  by (simp add: rd_wf_def rd_u32_def)

lemma rd_wf_opaque [intro]: "rd_wf r \<Longrightarrow> rd_wf (snd (rd_opaque r))"
  by (auto simp: rd_wf_def rd_opaque_def rd_u32_def Let_def split: prod.splits if_splits)

text \<open>A failed read is never forgotten: the flag only goes down, and reads never touch the data.\<close>

lemma rd_u32_mono: "rd_ok (snd (rd_u32 r)) \<Longrightarrow> rd_ok r"
  by (simp add: rd_u32_def split: if_splits)

lemma rd_opaque_mono: "rd_ok (snd (rd_opaque r)) \<Longrightarrow> rd_ok r"
  by (auto simp: rd_opaque_def Let_def rd_u32_def split: if_splits)

lemma rd_data_u32 [simp]: "rd_data (snd (rd_u32 r)) = rd_data r"
  by (simp add: rd_u32_def)

lemma rd_data_opaque [simp]: "rd_data (snd (rd_opaque r)) = rd_data r"
  by (auto simp: rd_opaque_def rd_u32_def Let_def split: prod.splits)

subsection \<open>Round trips\<close>

lemma pad4_eq: "n + (4 - n mod 4) mod 4 = pad4 n"
proof -
  obtain q r where n: "n = 4 * q + r" and r: "r < 4"
    by (metis div_mult_mod_eq mod_less_divisor mult.commute zero_less_numeral)
  then consider "r = 0" | "r = 1" | "r = 2" | "r = 3" by linarith
  then show ?thesis by cases (simp_all add: n pad4_def mod_Suc)
qed

lemma length_wr_opaque: "length (wr_opaque x d) = length d + 4 + pad4 (length x)"
  using pad4_eq[of "length x"] by (simp add: wr_opaque_def wr_u32_def)

lemma rd_u32_written:
  assumes "rd_data r = pre @ be32 v @ post" and "rd_pos r = length pre"
  shows "rd_u32 r = (v, r\<lparr>rd_pos := length pre + 4\<rparr>)"
  using assms by (simp add: rd_u32_def)

text \<open>
  A reader in good standing with the bytes \<open>rest\<close> still to read: what the proofs about whole messages step
  through.
\<close>

definition rd_at :: "xdr_reader \<Rightarrow> bytes \<Rightarrow> bool" where
  "rd_at r rest \<longleftrightarrow> rd_ok r \<and> rd_pos r \<le> length (rd_data r) \<and> drop (rd_pos r) (rd_data r) = rest"

lemma rd_at_ok [dest]: "rd_at r rest \<Longrightarrow> rd_ok r"
  by (simp add: rd_at_def)

lemma rd_at_start: "rd_at (xdr_reader_of d) d"
  by (simp add: rd_at_def xdr_reader_of_def)

lemma rd_at_length: "rd_at r rest \<Longrightarrow> length (rd_data r) = rd_pos r + length rest"
  by (auto simp: rd_at_def)

lemma rd_at_skip:
  assumes "rd_at r (x @ rest)"
  shows "rd_at (r\<lparr>rd_pos := rd_pos r + length x\<rparr>) rest"
proof -
  have "drop (rd_pos r + length x) (rd_data r) = drop (length x) (drop (rd_pos r) (rd_data r))"
    by (simp add: add.commute)
  also have "\<dots> = rest"
    using assms by (simp only: rd_at_def) simp
  finally show ?thesis
    using rd_at_ok[OF assms] rd_at_length[OF assms] by (simp add: rd_at_def)
qed

lemma rd_u32_at:
  assumes "rd_at r (be32 v @ rest)"
  obtains r' where "rd_u32 r = (v, r')" and "rd_at r' rest"
proof -
  have "rd_u32 r = (v, r\<lparr>rd_pos := rd_pos r + length (be32 v)\<rparr>)"
    using assms rd_at_length[OF assms] by (simp add: rd_u32_def rd_at_def)
  then show thesis using that rd_at_skip[OF assms] by blast
qed

lemma rd_opaque_at:
  assumes "rd_at r (wr_opaque x [] @ rest)" and "length x < 2 ^ 32"
  obtains r' where "rd_opaque r = (x, r')" and "rd_at r' rest"
proof -
  let ?p = "replicate ((4 - length x mod 4) mod 4) 0 :: bytes"
  have "rd_at r (be32 (of_nat (length x)) @ (x @ ?p) @ rest)"
    using assms(1) by (simp add: wr_opaque_def wr_u32_def)
  then obtain r1 where u: "rd_u32 r = (of_nat (length x), r1)" and at: "rd_at r1 ((x @ ?p) @ rest)"
    by (rule rd_u32_at)
  have n: "unat (of_nat (length x) :: u32) = length x"
    using assms(2) by (simp add: unat_of_nat)
  have l: "length (x @ ?p) = pad4 (length x)"
    using pad4_eq[of "length x"] by simp
  have "rd_opaque r = (x, r1\<lparr>rd_pos := rd_pos r1 + length (x @ ?p)\<rparr>)"
    using rd_at_ok[OF at] rd_at_length[OF at] at l by (simp add: rd_opaque_def u n rd_at_def)
  then show thesis using that rd_at_skip[OF at] by blast
qed

lemma rd_opaque_written:
  assumes "rd_data r = wr_opaque x pre @ post" and "rd_pos r = length pre" and "rd_ok r"
    and "length x < 2 ^ 32"
  shows "rd_opaque r = (x, r\<lparr>rd_pos := length (wr_opaque x pre)\<rparr>)"
proof -
  have n: "unat (of_nat (length x) :: u32) = length x"
    using assms(4) by (simp add: unat_of_nat)
  have u: "rd_u32 r = (of_nat (length x), r\<lparr>rd_pos := length pre + 4\<rparr>)"
    by (rule rd_u32_written) (simp_all add: assms wr_opaque_def wr_u32_def)
  have len: "length (rd_data r) = length pre + 4 + pad4 (length x) + length post"
    by (simp add: assms length_wr_opaque)
  have "take (length x) (drop (length pre + 4) (rd_data r)) = x"
    by (simp add: assms wr_opaque_def wr_u32_def)
  then show ?thesis
    using assms(3) len n by (simp add: rd_opaque_def u length_wr_opaque)
qed

end
