(* ===== verification/Onc_Rpc.thy ===== *)
theory Onc_Rpc
  imports Framing Xdr
begin

text \<open>
  \<open>src/src/service/oncrpc.h\<close>, \<open>oncrpc.cpp\<close> and \<open>rpcbindclient.cpp\<close>: the ONC-RPC dispatcher
  (RFC 5531), the portmapper of version 2, the record marking of the TCP server, and the client that asks a
  portmapper. The objects behind the services (the VXI-11 core, the portmapper's table) are one state
  \<open>'s\<close> that every call gets and returns.

  The re-entrancy guards of \<open>RpcConnection\<close> (\<open>m_busy\<close>, \<open>m_deleteAfter\<close>: a call that spins an event
  loop while its own socket goes away) are not modelled; bytes that arrive while a call runs are.
\<close>

subsection \<open>Services and the dispatcher\<close>

datatype rpc_status = Success | ProcUnavail | GarbageArgs | NoReply

text \<open>\<open>RpcService\<close>: one program in exactly one version.\<close>

record 's rpc_service =
  svc_program :: u32
  svc_version :: u32
  svc_call :: "u32 \<Rightarrow> xdr_reader \<Rightarrow> u64 \<Rightarrow> 's \<Rightarrow> rpc_status \<times> xdr_reader \<times> bytes \<times> 's"
  svc_closed :: "u64 \<Rightarrow> 's \<Rightarrow> 's"

text \<open>
  The loop over the services: the one of the program and version asked for (the last, should two be
  registered), whether the program is known at all, and the range of its versions.
\<close>

record 's svc_search =
  found :: "'s rpc_service option"
  prog_known :: bool
  lo :: u32
  hi :: u32

definition svc_search0 :: "'s svc_search" where
  "svc_search0 = \<lparr>found = None, prog_known = False, lo = - 1, hi = 0\<rparr>"

definition search_step :: "u32 \<Rightarrow> u32 \<Rightarrow> 's rpc_service \<Rightarrow> 's svc_search \<Rightarrow> 's svc_search" where
  "search_step prog vers s a =
     (if svc_program s \<noteq> prog then a
      else \<lparr>found = (if svc_version s = vers then Some s else found a), prog_known = True,
            lo = min (lo a) (svc_version s), hi = max (hi a) (svc_version s)\<rparr>)"

definition svc_find :: "'s rpc_service list \<Rightarrow> u32 \<Rightarrow> u32 \<Rightarrow> 's svc_search" where
  "svc_find ss prog vers = fold (search_step prog vers) ss svc_search0"

text \<open>\<open>RpcDispatcher::handle\<close>: one complete call message to one reply message, empty for no reply.\<close>

definition rpc_handle :: "'s rpc_service list \<Rightarrow> bytes \<Rightarrow> u64 \<Rightarrow> 's \<Rightarrow> bytes \<times> 's" where
  "rpc_handle ss msg conn s =
     (let (xid, r) = rd_u32 (xdr_reader_of msg); (msgType, r) = rd_u32 r in
      if \<not> rd_ok r \<or> msgType \<noteq> 0 then ([], s) else
      let (rpcVers, r) = rd_u32 r; (prog, r) = rd_u32 r; (vers, r) = rd_u32 r; (proc, r) = rd_u32 r;
          (_, r) = rd_u32 r; (_, r) = rd_opaque r; (_, r) = rd_u32 r; (_, r) = rd_opaque r in
      if \<not> rd_ok r then ([], s) else
      let w = wr_u32 1 (wr_u32 xid []) in
      if rpcVers \<noteq> 2 then (wr_u32 2 (wr_u32 2 (wr_u32 0 (wr_u32 1 w))), s) else
      let w = wr_u32 0 (wr_u32 0 (wr_u32 0 w)); f = svc_find ss prog vers in
      if \<not> prog_known f then (wr_u32 1 w, s) else
      case found f of
        None \<Rightarrow> (wr_u32 (hi f) (wr_u32 (lo f) (wr_u32 2 w)), s)
      | Some svc \<Rightarrow>
          if proc = 0 then (wr_u32 0 w, s) else
          (case svc_call svc proc r conn s of
             (NoReply, r, res, s') \<Rightarrow> ([], s')
           | (ProcUnavail, r, res, s') \<Rightarrow> (wr_u32 3 w, s')
           | (GarbageArgs, r, res, s') \<Rightarrow> (wr_u32 4 w, s')
           | (Success, r, res, s') \<Rightarrow>
               if \<not> rd_ok r then (wr_u32 4 w, s') else (wr_raw res (wr_u32 0 w), s')))"

definition rpc_closed :: "'s rpc_service list \<Rightarrow> u64 \<Rightarrow> 's \<Rightarrow> 's" where
  "rpc_closed ss conn s = fold (\<lambda>svc. svc_closed svc conn) ss s"

subsection \<open>The portmapper\<close>

record pmap_entry =
  pe_prog :: u32
  pe_vers :: u32
  pe_port :: u16

definition pmap_register :: "u32 \<Rightarrow> u32 \<Rightarrow> u16 \<Rightarrow> pmap_entry list \<Rightarrow> pmap_entry list" where
  "pmap_register prog vers port es = es @ [\<lparr>pe_prog = prog, pe_vers = vers, pe_port = port\<rparr>]"

text \<open>The loops of GETPORT and CALLIT: the port of the last entry that fits, 0 for none.\<close>

definition pmap_getport :: "pmap_entry list \<Rightarrow> u32 \<Rightarrow> u32 \<Rightarrow> u32 \<Rightarrow> u16" where
  "pmap_getport es prog vers prot =
     fold (\<lambda>e port. if prot = 6 \<and> pe_prog e = prog \<and> pe_vers e = vers then pe_port e else port) es 0"

definition pmap_progport :: "pmap_entry list \<Rightarrow> u32 \<Rightarrow> u16" where
  "pmap_progport es prog = fold (\<lambda>e port. if pe_prog e = prog then pe_port e else port) es 0"

definition pmap_dump :: "pmap_entry list \<Rightarrow> bytes" where
  "pmap_dump es =
     wr_u32 0 (fold (\<lambda>e w. wr_u32 (ucast (pe_port e)) (wr_u32 6 (wr_u32 (pe_vers e)
                             (wr_u32 (pe_prog e) (wr_u32 1 w))))) es [])"

text \<open>\<open>Portmapper::call\<close>: GETPORT (3), DUMP (4), CALLIT (5); the rest, SET and UNSET too, is refused.\<close>

definition pmap_call :: "pmap_entry list \<Rightarrow> u32 \<Rightarrow> xdr_reader \<Rightarrow> rpc_status \<times> xdr_reader \<times> bytes" where
  "pmap_call es proc r =
     (if proc = 3 then
        let (prog, r) = rd_u32 r; (vers, r) = rd_u32 r; (prot, r) = rd_u32 r; (_, r) = rd_u32 r in
        if \<not> rd_ok r then (GarbageArgs, r, [])
        else (Success, r, wr_u32 (ucast (pmap_getport es prog vers prot)) [])
      else if proc = 4 then (Success, r, pmap_dump es)
      else if proc = 5 then
        let (prog, r) = rd_u32 r; (_, r) = rd_u32 r; (p, r) = rd_u32 r; (_, r) = rd_opaque r in
        if \<not> rd_ok r then (GarbageArgs, r, [])
        else let port = pmap_progport es prog in
          if p \<noteq> 0 \<or> port = 0 then (NoReply, r, [])
          else (Success, r, wr_opaque [] (wr_u32 (ucast port) []))
      else (ProcUnavail, r, []))"

definition pmap_service :: "(('s \<Rightarrow> pmap_entry list)) \<Rightarrow> 's rpc_service" where
  "pmap_service entries =
     \<lparr>svc_program = 100000, svc_version = 2,
      svc_call = (\<lambda>proc r conn s. case pmap_call (entries s) proc r of (st, r', res) \<Rightarrow> (st, r', res, s)),
      svc_closed = (\<lambda>_ s. s)\<rparr>"

subsection \<open>Record marking: the TCP connection\<close>

definition kMaxRecord :: nat where "kMaxRecord = 1024 * 1024"

text \<open>
  \<open>RpcConnection\<close>: the fragments of the message collected so far, whether the socket still stands, the
  replies written to it. The unread bytes are the buffer of the loop.
\<close>

record 's rpc_conn =
  rc_msg :: bytes
  rc_open :: bool
  rc_sent :: "bytes list"
  rc_state :: 's

text \<open>
  One turn of the loop in \<open>onReadyRead\<close>: the header, the size check (before the rest of the fragment is
  there: a fragment too big is refused on its header), the fragment.
\<close>

definition rpc_take :: "'s rpc_conn \<Rightarrow> bytes \<Rightarrow> (bool \<times> bytes, unit) piece" where
  "rpc_take c b =
     (if length b < 4 then More
      else let hdr = de32 (take 4 b); fin = (hdr AND 0x80000000 \<noteq> 0); len = unat (hdr AND 0x7FFFFFFF) in
        if length (rc_msg c) + len > kMaxRecord then Bad ()
        else if length b < 4 + len then More
        else Cut (fin, take len (drop 4 b)) (drop (4 + len) b))"

definition rpc_frame :: "bytes \<Rightarrow> bytes" where
  "rpc_frame reply = wr_raw reply (wr_u32 (0x80000000 OR of_nat (length reply)) [])"

definition rpc_act :: "'s rpc_service list \<Rightarrow> u64 \<Rightarrow> bool \<times> bytes \<Rightarrow> 's rpc_conn \<Rightarrow> 's rpc_conn" where
  "rpc_act ss conn m c =
     (case m of (fin, frag) \<Rightarrow>
        let msg = rc_msg c @ frag in
        if \<not> fin then c\<lparr>rc_msg := msg\<rparr>
        else case rpc_handle ss msg conn (rc_state c) of (reply, s') \<Rightarrow>
          c\<lparr>rc_msg := [], rc_state := s',
            rc_sent := (if reply = [] then rc_sent c else rc_sent c @ [rpc_frame reply])\<rparr>)"

text \<open>\<open>abort()\<close>: the socket is gone, and with it what belonged to the connection (\<open>gone\<close>).\<close>

definition rpc_abort :: "'s rpc_service list \<Rightarrow> u64 \<Rightarrow> 's rpc_conn \<Rightarrow> 's rpc_conn" where
  "rpc_abort ss conn c = c\<lparr>rc_open := False, rc_state := rpc_closed ss conn (rc_state c)\<rparr>"

definition rpc_ready_read :: "'s rpc_service list \<Rightarrow> u64 \<Rightarrow> 's rpc_conn \<times> bytes \<Rightarrow> bytes \<Rightarrow> 's rpc_conn \<times> bytes"
  where
  "rpc_ready_read ss conn cb x =
     (case cb of (c, b) \<Rightarrow> pump rc_open rpc_take (\<lambda>_. rpc_abort ss conn) (rpc_act ss conn) c (b @ x))"

definition rpc_connect :: "'s \<Rightarrow> 's rpc_conn \<times> bytes" where
  "rpc_connect s = (\<lparr>rc_msg = [], rc_open = True, rc_sent = [], rc_state = s\<rparr>, [])"

subsection \<open>The client\<close>

text \<open>\<open>RpcbindClient::callOn\<close>: the call message, its record, and the reply read back.\<close>

definition client_call :: "u32 \<Rightarrow> u32 \<Rightarrow> bytes \<Rightarrow> bytes" where
  "client_call xid proc args =
     wr_raw args (wr_u32 0 (wr_u32 0 (wr_u32 0 (wr_u32 0 (wr_u32 proc (wr_u32 2 (wr_u32 100000
       (wr_u32 2 (wr_u32 0 (wr_u32 xid []))))))))))"

definition client_frame :: "u32 \<Rightarrow> u32 \<Rightarrow> bytes \<Rightarrow> bytes" where
  "client_frame xid proc args =
     (let call = client_call xid proc args
      in wr_raw call (wr_u32 (0x80000000 OR of_nat (length call)) []))"

text \<open>Reading the fragments of the reply: \<open>None\<close> when the stream ends early or the reply is too long.\<close>

definition kMaxReply :: nat where "kMaxReply = 64 * 1024"

function client_reply :: "bytes \<Rightarrow> bytes \<Rightarrow> bytes option" where
  "client_reply reply b =
     (if length b < 4 then None
      else let h = de32 (take 4 b); len = unat (h AND 0x7FFFFFFF) in
        if len > kMaxReply \<or> length reply + len > kMaxReply then None
        else if length b < 4 + len then None
        else if h AND 0x80000000 \<noteq> 0 then Some (reply @ take len (drop 4 b))
        else client_reply (reply @ take len (drop 4 b)) (drop (4 + len) b))"
  by pat_completeness auto
termination
  by (relation "measure (\<lambda>(reply, b). length b)") auto

declare client_reply.simps [simp del]

definition client_parse :: "u32 \<Rightarrow> bytes \<Rightarrow> u32 option" where
  "client_parse xid reply =
     (let (x, r) = rd_u32 (xdr_reader_of reply) in if x \<noteq> xid then None else
      let (t, r) = rd_u32 r in if t \<noteq> 1 then None else
      let (a, r) = rd_u32 r in if a \<noteq> 0 then None else
      let (_, r) = rd_u32 r; (_, r) = rd_opaque r; (st, r) = rd_u32 r in if st \<noteq> 0 then None else
      let (v, r) = rd_u32 r in if rd_ok r then Some v else None)"

text \<open>\<open>RpcbindClient::getPort\<close> on the bytes a server sends back; 0 on any failure.\<close>

definition getport_args :: "u32 \<Rightarrow> u32 \<Rightarrow> bytes" where
  "getport_args prog vers = wr_u32 0 (wr_u32 6 (wr_u32 vers (wr_u32 prog [])))"

definition client_getport :: "u32 \<Rightarrow> bytes \<Rightarrow> u16" where
  "client_getport xid answer =
     (case client_reply [] answer of None \<Rightarrow> 0
      | Some reply \<Rightarrow> (case client_parse xid reply of None \<Rightarrow> 0 | Some v \<Rightarrow> ucast v))"


subsection \<open>The search over the services\<close>

definition offers :: "u32 \<Rightarrow> 's rpc_service list \<Rightarrow> 's rpc_service list" where
  "offers prog ss = filter (\<lambda>t. svc_program t = prog) ss"

lemma search_step_simps:
  "prog_known (search_step prog vers t a) \<longleftrightarrow> prog_known a \<or> svc_program t = prog"
  "lo (search_step prog vers t a) = (if svc_program t = prog then min (svc_version t) (lo a) else lo a)"
  "hi (search_step prog vers t a) = (if svc_program t = prog then max (svc_version t) (hi a) else hi a)"
  "found (search_step prog vers t a) =
     (if svc_program t = prog \<and> svc_version t = vers then Some t else found a)"
  by (simp_all add: search_step_def min.commute max.commute)

lemma search_fold:
  "prog_known (fold (search_step prog vers) ss a) \<longleftrightarrow> prog_known a \<or> offers prog ss \<noteq> []"
  "lo (fold (search_step prog vers) ss a) = fold min (map svc_version (offers prog ss)) (lo a)"
  "hi (fold (search_step prog vers) ss a) = fold max (map svc_version (offers prog ss)) (hi a)"
  "found (fold (search_step prog vers) ss a) =
     (case filter (\<lambda>t. svc_version t = vers) (offers prog ss) of [] \<Rightarrow> found a | ts \<Rightarrow> Some (last ts))"
  by (induction ss arbitrary: a) (auto simp: offers_def search_step_simps split: list.splits)

lemma svc_find_known: "prog_known (svc_find ss prog vers) \<longleftrightarrow> offers prog ss \<noteq> []"
  by (simp add: svc_find_def search_fold svc_search0_def)

lemma svc_find_range:
  assumes "offers prog ss \<noteq> []"
  shows "lo (svc_find ss prog vers) = Min (svc_version ` set (offers prog ss))"
    and "hi (svc_find ss prog vers) = Max (svc_version ` set (offers prog ss))"
proof -
  let ?V = "svc_version ` set (offers prog ss)"
  have fin: "finite ?V" "?V \<noteq> {}" using assms by auto
  have "lo (svc_find ss prog vers) = Min (insert (- 1) ?V)"
    using Min.set_eq_fold[of "- 1" "map svc_version (offers prog ss)"]
    by (simp add: svc_find_def search_fold svc_search0_def)
  also have "\<dots> = Min ?V"
    using fin by (simp add: Min_insert min_absorb2 word_order.extremum)
  finally show "lo (svc_find ss prog vers) = Min ?V" .
  have "hi (svc_find ss prog vers) = Max (insert 0 ?V)"
    using Max.set_eq_fold[of 0 "map svc_version (offers prog ss)"]
    by (simp add: svc_find_def search_fold svc_search0_def)
  also have "\<dots> = Max ?V"
    using fin by (simp add: Max_insert max_absorb2 word_zero_le)
  finally show "hi (svc_find ss prog vers) = Max ?V" .
qed

lemma svc_find_found:
  "found (svc_find ss prog vers) =
     (case filter (\<lambda>t. svc_version t = vers) (offers prog ss) of [] \<Rightarrow> None | ts \<Rightarrow> Some (last ts))"
  by (simp add: svc_find_def search_fold svc_search0_def split: list.splits)

lemma svc_find_mem: "found (svc_find ss prog vers) = Some t \<Longrightarrow> t \<in> set ss"
proof -
  assume "found (svc_find ss prog vers) = Some t"
  then have "t = last (filter (\<lambda>t. svc_version t = vers) (offers prog ss))"
    and "filter (\<lambda>t. svc_version t = vers) (offers prog ss) \<noteq> []"
    by (auto simp: svc_find_found split: list.splits)
  then have "t \<in> set (filter (\<lambda>t. svc_version t = vers) (offers prog ss))"
    by (metis last_in_set)
  then show ?thesis by (simp add: offers_def)
qed

subsection \<open>What a call message is answered\<close>

text \<open>
  The call message as RFC 5531 lays it out, the possible answers and their encoding: the abstract view that
  \<open>rpc_handle\<close> implements.
\<close>

definition rpc_call_msg ::
    "u32 \<Rightarrow> u32 \<Rightarrow> u32 \<Rightarrow> u32 \<Rightarrow> u32 \<Rightarrow> u32 \<times> bytes \<Rightarrow> u32 \<times> bytes \<Rightarrow> bytes \<Rightarrow> bytes" where
  "rpc_call_msg xid rpcVers prog vers proc cred verf args =
     be32 xid @ be32 0 @ be32 rpcVers @ be32 prog @ be32 vers @ be32 proc @
     be32 (fst cred) @ wr_opaque (snd cred) [] @ be32 (fst verf) @ wr_opaque (snd verf) [] @ args"

datatype rpc_answer =
  Silent | Denied | Prog_Unavail | Prog_Mismatch u32 u32 | Proc_Unavail | Garbage | Result bytes

fun enc_answer :: "u32 \<Rightarrow> rpc_answer \<Rightarrow> bytes" where
  "enc_answer xid Silent = []"
| "enc_answer xid Denied = be32 xid @ be32 1 @ be32 1 @ be32 0 @ be32 2 @ be32 2"
| "enc_answer xid Prog_Unavail = be32 xid @ be32 1 @ be32 0 @ be32 0 @ be32 0 @ be32 1"
| "enc_answer xid (Prog_Mismatch l h) =
     be32 xid @ be32 1 @ be32 0 @ be32 0 @ be32 0 @ be32 2 @ be32 l @ be32 h"
| "enc_answer xid Proc_Unavail = be32 xid @ be32 1 @ be32 0 @ be32 0 @ be32 0 @ be32 3"
| "enc_answer xid Garbage = be32 xid @ be32 1 @ be32 0 @ be32 0 @ be32 0 @ be32 4"
| "enc_answer xid (Result bs) = be32 xid @ be32 1 @ be32 0 @ be32 0 @ be32 0 @ be32 0 @ bs"

definition rpc_spec ::
    "'s rpc_service list \<Rightarrow> u32 \<Rightarrow> u32 \<Rightarrow> u32 \<Rightarrow> u32 \<Rightarrow> xdr_reader \<Rightarrow> u64 \<Rightarrow> 's \<Rightarrow> rpc_answer \<times> 's" where
  "rpc_spec ss rpcVers prog vers proc r conn s =
     (let versions = svc_version ` set (offers prog ss);
          serving = filter (\<lambda>t. svc_version t = vers) (offers prog ss)
      in if rpcVers \<noteq> 2 then (Denied, s)
         else if versions = {} then (Prog_Unavail, s)
         else if vers \<notin> versions then (Prog_Mismatch (Min versions) (Max versions), s)
         else if proc = 0 then (Result [], s)
         else case svc_call (last serving) proc r conn s of (st, r', res, s') \<Rightarrow>
           ((case st of NoReply \<Rightarrow> Silent | ProcUnavail \<Rightarrow> Proc_Unavail | GarbageArgs \<Rightarrow> Garbage
             | Success \<Rightarrow> if rd_ok r' then Result res else Garbage), s'))"

lemma svc_find_spec:
  "found (svc_find ss prog vers) =
     (if vers \<in> svc_version ` set (offers prog ss)
      then Some (last (filter (\<lambda>t. svc_version t = vers) (offers prog ss))) else None)"
proof -
  have "filter (\<lambda>t. svc_version t = vers) (offers prog ss) = [] \<longleftrightarrow>
        vers \<notin> svc_version ` set (offers prog ss)"
    by (auto simp: filter_empty_conv)
  then show ?thesis
    unfolding svc_find_found by (auto split: list.splits)
qed

lemma rpc_handle_refines:
  assumes "length (snd cred) < 2 ^ 32" and "length (snd verf) < 2 ^ 32"
  obtains r where "rd_at r args" and
    "rpc_handle ss (rpc_call_msg xid rpcVers prog vers proc cred verf args) conn s =
       (case rpc_spec ss rpcVers prog vers proc r conn s of (a, s') \<Rightarrow> (enc_answer xid a, s'))"
proof -
  define m where "m = rpc_call_msg xid rpcVers prog vers proc cred verf args"
  let ?r0 = "xdr_reader_of m"
  have at0: "rd_at ?r0 (be32 xid @ be32 0 @ be32 rpcVers @ be32 prog @ be32 vers @ be32 proc @
     be32 (fst cred) @ wr_opaque (snd cred) [] @ be32 (fst verf) @ wr_opaque (snd verf) [] @ args)"
    using rd_at_start[of m] by (simp add: m_def rpc_call_msg_def)
  obtain r1 where 1: "rd_u32 ?r0 = (xid, r1)" and at1: "rd_at r1 (be32 0 @ be32 rpcVers @ be32 prog @
     be32 vers @ be32 proc @ be32 (fst cred) @ wr_opaque (snd cred) [] @ be32 (fst verf) @
     wr_opaque (snd verf) [] @ args)" using at0 by (rule rd_u32_at)
  obtain r2 where 2: "rd_u32 r1 = (0, r2)" and at2: "rd_at r2 (be32 rpcVers @ be32 prog @
     be32 vers @ be32 proc @ be32 (fst cred) @ wr_opaque (snd cred) [] @ be32 (fst verf) @
     wr_opaque (snd verf) [] @ args)" using at1 by (rule rd_u32_at)
  obtain r3 where 3: "rd_u32 r2 = (rpcVers, r3)" and at3: "rd_at r3 (be32 prog @
     be32 vers @ be32 proc @ be32 (fst cred) @ wr_opaque (snd cred) [] @ be32 (fst verf) @
     wr_opaque (snd verf) [] @ args)" using at2 by (rule rd_u32_at)
  obtain r4 where 4: "rd_u32 r3 = (prog, r4)" and at4: "rd_at r4 (be32 vers @ be32 proc @
     be32 (fst cred) @ wr_opaque (snd cred) [] @ be32 (fst verf) @ wr_opaque (snd verf) [] @ args)"
    using at3 by (rule rd_u32_at)
  obtain r5 where 5: "rd_u32 r4 = (vers, r5)" and at5: "rd_at r5 (be32 proc @
     be32 (fst cred) @ wr_opaque (snd cred) [] @ be32 (fst verf) @ wr_opaque (snd verf) [] @ args)"
    using at4 by (rule rd_u32_at)
  obtain r6 where 6: "rd_u32 r5 = (proc, r6)" and at6: "rd_at r6 (be32 (fst cred) @
     wr_opaque (snd cred) [] @ be32 (fst verf) @ wr_opaque (snd verf) [] @ args)"
    using at5 by (rule rd_u32_at)
  obtain r7 where 7: "rd_u32 r6 = (fst cred, r7)" and at7: "rd_at r7 (wr_opaque (snd cred) [] @
     be32 (fst verf) @ wr_opaque (snd verf) [] @ args)" using at6 by (rule rd_u32_at)
  obtain r8 where 8: "rd_opaque r7 = (snd cred, r8)" and at8: "rd_at r8 (be32 (fst verf) @
     wr_opaque (snd verf) [] @ args)" using at7 assms(1) by (rule rd_opaque_at)
  obtain r9 where 9: "rd_u32 r8 = (fst verf, r9)" and at9: "rd_at r9 (wr_opaque (snd verf) [] @ args)"
    using at8 by (rule rd_u32_at)
  obtain r where 10: "rd_opaque r9 = (snd verf, r)" and at: "rd_at r args"
    using at9 assms(2) by (rule rd_opaque_at)
  have ok: "rd_ok r2" "rd_ok r" using at2 at by auto
  note reads = 1 2 3 4 5 6 7 8 9 10 ok
  have off: "offers prog ss = [] \<longleftrightarrow> svc_version ` set (offers prog ss) = {}" by simp
  have "rpc_handle ss m conn s =
    (case rpc_spec ss rpcVers prog vers proc r conn s of (a, s') \<Rightarrow> (enc_answer xid a, s'))"
  proof -
    consider "rpcVers \<noteq> 2" | "rpcVers = 2" "offers prog ss = []" | "rpcVers = 2" "offers prog ss \<noteq> []"
      by blast
    then show ?thesis
    proof cases
      case 1
      then show ?thesis by (simp add: rpc_handle_def reads rpc_spec_def wr_u32_def)
    next
      case 2
      then show ?thesis by (simp add: rpc_handle_def reads rpc_spec_def wr_u32_def svc_find_known)
    next
      case 3
      then show ?thesis
        by (simp add: rpc_handle_def reads rpc_spec_def wr_u32_def wr_raw_def svc_find_known
            svc_find_range svc_find_spec split: prod.splits rpc_status.splits)
    qed
  qed
  with at that show thesis unfolding m_def by blast
qed


subsection \<open>The connection does not depend on how the stream was cut\<close>

interpretation rpcf: framer rc_open rpc_take "\<lambda>_. rpc_abort ss conn" "rpc_act ss conn" for ss conn
proof
  fix s :: "'a rpc_conn" and b m r x
  assume c: "rpc_take s b = Cut m r"
  then show "length r < length b"
    by (auto simp: rpc_take_def Let_def split: if_splits)
  from c show "rpc_take s (b @ x) = Cut m (r @ x)"
    by (auto simp: rpc_take_def Let_def split: if_splits)
next
  fix s :: "'a rpc_conn" and b e x
  assume "rpc_take s b = Bad e"
  then show "rpc_take s (b @ x) = Bad e"
    by (auto simp: rpc_take_def Let_def split: if_splits)
next
  fix s :: "'a rpc_conn"
  show "\<not> rc_open (rpc_abort ss conn s)"
    by (simp add: rpc_abort_def)
qed

lemma rpc_ready_read_stream: "rpc_ready_read ss conn = (\<lambda>(c, b) x.
    pump rc_open rpc_take (\<lambda>_. rpc_abort ss conn) (rpc_act ss conn) c (b @ x))"
  by (auto simp: rpc_ready_read_def fun_eq_iff)

text \<open>
  The TCP connection of the RPC server gives the same replies, the same service state and the same
  leftover bytes however the byte stream of the client is cut into pieces.
\<close>

theorem rpc_segmentation_irrelevant:
  assumes "concat cs = concat ds" and "cs \<noteq> []" and "ds \<noteq> []"
  shows "foldl (rpc_ready_read ss conn) cb cs = foldl (rpc_ready_read ss conn) cb ds"
  unfolding rpc_ready_read_stream using assms by (rule rpcf.stream.segmentation_irrelevant)

theorem rpc_segmentation_irrelevant_witness:
  "foldl (rpc_ready_read [pmap_service (\<lambda>es. es)] 1) (rpc_connect []) [[128, 0, 0], [1, 5]] =
   foldl (rpc_ready_read [pmap_service (\<lambda>es. es)] 1) (rpc_connect []) [[128], [0, 0, 1, 5]]"
  by (rule rpc_segmentation_irrelevant) simp_all

subsection \<open>What the services keep, the server keeps\<close>

locale rpc_programs =
  fixes ss :: "'s rpc_service list" and inv :: "'s \<Rightarrow> bool"
  assumes call_inv:
      "svc \<in> set ss \<Longrightarrow> inv s \<Longrightarrow> svc_call svc proc r conn s = (st, r', res, s') \<Longrightarrow> inv s'"
    and closed_inv: "svc \<in> set ss \<Longrightarrow> inv s \<Longrightarrow> inv (svc_closed svc conn s)"
begin

lemma handle_inv:
  assumes "inv s"
  shows "inv (snd (rpc_handle ss msg conn s))"
proof -
  have "inv s'" if "found (svc_find ss prog vers) = Some svc" "svc_call svc proc r conn s = (st, r', res, s')"
    for prog vers svc proc r st r' res s'
    using that assms call_inv svc_find_mem by blast
  then show ?thesis
    using assms by (auto simp: rpc_handle_def Let_def split: prod.splits option.splits rpc_status.splits)
qed

lemma closed_all_inv: "inv s \<Longrightarrow> inv (rpc_closed ss conn s)"
proof -
  have "inv (fold (\<lambda>svc. svc_closed svc conn) xs s)" if "set xs \<subseteq> set ss" "inv s" for xs
    using that by (induction xs arbitrary: s) (auto intro: closed_inv)
  then show "inv s \<Longrightarrow> inv (rpc_closed ss conn s)"
    by (simp add: rpc_closed_def)
qed

lemma ready_read_inv:
  assumes "inv (rc_state c)"
  shows "inv (rc_state (fst (rpc_ready_read ss conn (c, b) x)))"
  unfolding rpc_ready_read_def prod.case
proof (rule rpcf.pump_induct[where P = "\<lambda>c. inv (rc_state c)"])
  show "inv (rc_state c)" by fact
next
  fix c :: "'s rpc_conn" and b m r
  assume "inv (rc_state c)"
  then show "inv (rc_state (rpc_act ss conn m c))"
    using handle_inv[of "rc_state c"] by (auto simp: rpc_act_def Let_def split: prod.splits)
       (metis snd_conv)+
next
  fix c :: "'s rpc_conn" and b :: bytes
  assume "inv (rc_state c)"
  then show "inv (rc_state (rpc_abort ss conn c))"
    by (simp add: rpc_abort_def closed_all_inv)
qed

end


subsection \<open>Records\<close>

lemma record_header:
  assumes "n < 2 ^ 31"
  shows "unat ((0x80000000 OR of_nat n :: u32) AND 0x7FFFFFFF) = n"
    and "(0x80000000 OR of_nat n :: u32) AND 0x80000000 \<noteq> 0"
proof -
  have m: "(0x7FFFFFFF :: u32) = mask 31" by (simp add: mask_eq_exp_minus_1)
  have "(0x80000000 OR of_nat n :: u32) AND 0x7FFFFFFF = of_nat n AND 0x7FFFFFFF"
    by (simp add: bit.conj_disj_distrib2)
  also have "\<dots> = take_bit 31 (of_nat n)"
    by (simp only: m take_bit_eq_mask)
  also have "unat \<dots> = n"
    using assms by (simp add: unsigned_take_bit_eq unat_of_nat take_bit_nat_eq_self)
  finally show "unat ((0x80000000 OR of_nat n :: u32) AND 0x7FFFFFFF) = n" .
  have "(0x80000000 OR of_nat n :: u32) AND 0x80000000 = 0x80000000"
    by (simp add: bit.conj_disj_distrib2)
  then show "(0x80000000 OR of_nat n :: u32) AND 0x80000000 \<noteq> 0" by simp
qed

lemma rpc_take_record:
  assumes "length msg + length (rc_msg c) \<le> kMaxRecord"
  shows "rpc_take c (rpc_frame msg) = Cut (True, msg) []"
proof -
  have n: "length msg < 2 ^ 31" using assms by (simp add: kMaxRecord_def)
  show ?thesis
    using assms record_header[OF n] by (simp add: rpc_take_def rpc_frame_def wr_u32_def wr_raw_def Let_def)
qed

lemma ready_read_record:
  assumes "length msg + length (rc_msg c) \<le> kMaxRecord" and "rc_open c"
  shows "rpc_ready_read ss conn (c, []) (rpc_frame msg) =
    (rpc_act ss conn (True, msg) c, [])"
proof -
  have "rc_open (rpc_act ss conn (True, msg) c)"
    using assms(2) by (auto simp: rpc_act_def Let_def split: prod.splits)
  then show ?thesis
    using assms rpc_take_record[OF assms(1)]
    by (simp add: rpc_ready_read_def pump.simps[of _ _ _ _ c] pump.simps[of _ _ _ _ _ "[]"] rpc_take_def[of _ "[]"]
        rpc_frame_def wr_raw_def wr_u32_def)
qed

subsection \<open>The portmapper and its client\<close>

lemma pmap_getport_last:
  "pmap_getport es prog vers prot =
     (case filter (\<lambda>e. prot = 6 \<and> pe_prog e = prog \<and> pe_vers e = vers) es of
        [] \<Rightarrow> 0 | ms \<Rightarrow> pe_port (last ms))"
proof -
  have "fold (\<lambda>e port. if prot = 6 \<and> pe_prog e = prog \<and> pe_vers e = vers then pe_port e else port) es a =
     (case filter (\<lambda>e. prot = 6 \<and> pe_prog e = prog \<and> pe_vers e = vers) es of
        [] \<Rightarrow> a | ms \<Rightarrow> pe_port (last ms))" for a
    by (induction es arbitrary: a) (auto split: list.splits)
  then show ?thesis by (simp add: pmap_getport_def)
qed

text \<open>
  Registering a program with the portmapper makes GETPORT over TCP answer its port and leaves every
  other program and version as it was.
\<close>

theorem pmap_register_getport:
  "pmap_getport (pmap_register prog vers port es) p v 6 =
     (if p = prog \<and> v = vers then port else pmap_getport es p v 6)"
  by (simp add: pmap_getport_def pmap_register_def)

lemma client_call_msg:
  "client_call xid proc args = rpc_call_msg xid 2 100000 2 proc (0, []) (0, []) args"
  by (simp add: client_call_def rpc_call_msg_def wr_u32_def wr_raw_def wr_opaque_def)

lemma handle_getport:
  "rpc_handle [pmap_service (\<lambda>es. es)] (client_call xid 3 (getport_args prog vers)) conn es =
     (enc_answer xid (Result (be32 (ucast (pmap_getport es prog vers 6)))), es)"
proof -
  let ?ss = "[pmap_service (\<lambda>es. es)] :: pmap_entry list rpc_service list"
  obtain r where at: "rd_at r (getport_args prog vers)"
    and eq: "rpc_handle ?ss (client_call xid 3 (getport_args prog vers)) conn es =
       (case rpc_spec ?ss 2 100000 2 3 r conn es of (a, s') \<Rightarrow> (enc_answer xid a, s'))"
    unfolding client_call_msg by (rule rpc_handle_refines[of "(0, [])" "(0, [])"]) simp_all
  have at0: "rd_at r (be32 prog @ be32 vers @ be32 6 @ be32 0 @ [])"
    using at by (simp add: getport_args_def wr_u32_def)
  obtain r1 where 1: "rd_u32 r = (prog, r1)" and at1: "rd_at r1 (be32 vers @ be32 6 @ be32 0 @ [])"
    using at0 by (rule rd_u32_at)
  obtain r2 where 2: "rd_u32 r1 = (vers, r2)" and at2: "rd_at r2 (be32 6 @ be32 0 @ [])"
    using at1 by (rule rd_u32_at)
  obtain r3 where 3: "rd_u32 r2 = (6, r3)" and at3: "rd_at r3 (be32 0 @ [])"
    using at2 by (rule rd_u32_at)
  obtain r4 where 4: "rd_u32 r3 = (0, r4)" and at4: "rd_at r4 []"
    using at3 by (rule rd_u32_at)
  have "rd_ok r4" using at4 by auto
  then show ?thesis
    unfolding eq by (simp add: rpc_spec_def offers_def pmap_service_def pmap_call_def 1 2 3 4 wr_u32_def)
qed

lemma client_reads_result:
  "client_parse xid (enc_answer xid (Result (be32 v))) = Some v"
proof -
  let ?m = "be32 xid @ be32 1 @ be32 0 @ be32 0 @ wr_opaque [] [] @ be32 0 @ be32 v @ []"
  have op: "wr_opaque [] [] = be32 0" by (simp add: wr_opaque_def wr_u32_def)
  have m: "enc_answer xid (Result (be32 v)) = ?m" by (simp add: op)
  obtain r1 where 1: "rd_u32 (xdr_reader_of ?m) = (xid, r1)"
    and at1: "rd_at r1 (be32 1 @ be32 0 @ be32 0 @ wr_opaque [] [] @ be32 0 @ be32 v @ [])"
    by (rule rd_u32_at[OF rd_at_start])
  obtain r2 where 2: "rd_u32 r1 = (1, r2)"
    and at2: "rd_at r2 (be32 0 @ be32 0 @ wr_opaque [] [] @ be32 0 @ be32 v @ [])"
    using at1 by (rule rd_u32_at)
  obtain r3 where 3: "rd_u32 r2 = (0, r3)" and at3: "rd_at r3 (be32 0 @ wr_opaque [] [] @ be32 0 @ be32 v @ [])"
    using at2 by (rule rd_u32_at)
  obtain r4 where 4: "rd_u32 r3 = (0, r4)" and at4: "rd_at r4 (wr_opaque [] [] @ be32 0 @ be32 v @ [])"
    using at3 by (rule rd_u32_at)
  obtain r5 where 5: "rd_opaque r4 = ([], r5)" and at5: "rd_at r5 (be32 0 @ be32 v @ [])"
    by (rule rd_opaque_at[OF at4]) simp_all
  obtain r6 where 6: "rd_u32 r5 = (0, r6)" and at6: "rd_at r6 (be32 v @ [])"
    using at5 by (rule rd_u32_at)
  obtain r7 where 7: "rd_u32 r6 = (v, r7)" and at7: "rd_at r7 []"
    using at6 by (rule rd_u32_at)
  have "rd_ok r7" using at7 by auto
  then show ?thesis
    unfolding m client_parse_def by (simp only: 1 2 3 4 5 6 7 Let_def prod.case) simp
qed

lemma client_reply_record:
  assumes "length m \<le> kMaxReply"
  shows "client_reply [] (rpc_frame m) = Some m"
proof -
  have "length m < 2 ^ 31" using assms by (simp add: kMaxReply_def)
  then show ?thesis
    using assms record_header[of "length m"]
    by (subst client_reply.simps) (simp add: rpc_frame_def wr_u32_def wr_raw_def Let_def)
qed

lemma length_client_call: "length (client_call xid proc args) = 40 + length args"
  by (simp add: client_call_def wr_u32_def wr_raw_def)

text \<open>
  C15: End to end: whatever pieces the request of \<open>RpcbindClient::getPort\<close> arrives in, the TCP server with
  the portmapper sends back one record from which the client reads the port the portmapper's table has for
  that program and version (0 when it has none).
\<close>

theorem getport_end_to_end:
  assumes "concat cs = client_frame xid 3 (getport_args prog vers)" and "cs \<noteq> []"
  shows "client_getport xid
      (concat (rc_sent (fst (foldl (rpc_ready_read [pmap_service (\<lambda>es. es)] conn) (rpc_connect es) cs)))) =
    pmap_getport es prog vers 6"
proof -
  let ?ss = "[pmap_service (\<lambda>es. es)] :: pmap_entry list rpc_service list"
  let ?call = "client_call xid 3 (getport_args prog vers)"
  let ?ans = "enc_answer xid (Result (be32 (ucast (pmap_getport es prog vers 6))))"
  let ?c0 = "\<lparr>rc_msg = [], rc_open = True, rc_sent = [], rc_state = es\<rparr> :: pmap_entry list rpc_conn"
  have len: "length ?call = 56"
    by (simp add: length_client_call getport_args_def wr_u32_def)
  have frame: "client_frame xid 3 (getport_args prog vers) = rpc_frame ?call"
    by (simp add: client_frame_def rpc_frame_def Let_def)
  have "foldl (rpc_ready_read ?ss conn) (rpc_connect es) cs =
        foldl (rpc_ready_read ?ss conn) (rpc_connect es) [rpc_frame ?call]"
    unfolding rpc_ready_read_stream
    by (rule rpcf.stream.segmentation_irrelevant) (use assms frame in simp_all)
  also have "\<dots> = (rpc_act ?ss conn (True, ?call) ?c0, [])"
    by (simp add: rpc_connect_def ready_read_record len kMaxRecord_def)
  finally have "rc_sent (fst (foldl (rpc_ready_read ?ss conn) (rpc_connect es) cs)) = [rpc_frame ?ans]"
    by (simp add: rpc_act_def handle_getport) (simp flip: length_0_conv)
  note sent = this
  have "client_reply [] (rpc_frame ?ans) = Some ?ans"
    by (rule client_reply_record) (simp add: kMaxReply_def)
  then have "client_getport xid (concat [rpc_frame ?ans]) = ucast (ucast (pmap_getport es prog vers 6) :: u32)"
    by (simp only: client_getport_def concat.simps append_Nil2 option.case client_reads_result)
  then show ?thesis
    by (simp only: sent) (simp add: unsigned_ucast_eq take_bit_word_eq_self)
qed


theorem getport_end_to_end_witness:
  "client_getport 9 (concat (rc_sent (fst (foldl
      (rpc_ready_read [pmap_service (\<lambda>es. es)] 1)
      (rpc_connect (pmap_register 395183 1 40123 []))
      [take 7 (client_frame 9 3 (getport_args 395183 1)), drop 7 (client_frame 9 3 (getport_args 395183 1))]))))
   = 40123"
proof -
  have "concat [take 7 (client_frame 9 3 (getport_args 395183 1)), drop 7 (client_frame 9 3 (getport_args 395183 1))]
      = client_frame 9 3 (getport_args 395183 1)" by simp
  from getport_end_to_end[OF this, of 1 "pmap_register 395183 1 40123 []"]
  show ?thesis by (simp add: pmap_getport_def pmap_register_def)
qed

end
