(* ===== verification/Scpi_Endpoint.thy ===== *)
theory Scpi_Endpoint
  imports Prelude
begin

text \<open>
  \<open>src/src/service/scpiendpoint.h\<close>: what the network transports (VXI-11, HiSLIP) need of an SCPI
  interpreter. The transports move bytes and call these functions; the interpreter's own state is \<open>'e\<close>.
  The function objects that may be unset are options.
\<close>

record 'e scpi_endpoint =
  ep_process :: "(bytes \<Rightarrow> 'e \<Rightarrow> bytes \<times> 'e) option"
  ep_status_byte :: "('e \<Rightarrow> byte) option"
  ep_device_clear :: "('e \<Rightarrow> 'e) option"

definition byte_space :: "byte \<Rightarrow> bool" where
  "byte_space b \<longleftrightarrow> (9 \<le> b \<and> b \<le> 13) \<or> b = 32"

text \<open>\<open>while (line.endsWith('\r')) line.chop(1)\<close>\<close>

definition chop_cr :: "bytes \<Rightarrow> bytes" where
  "chop_cr line = rev (dropWhile (\<lambda>b. b = 13) (rev line))"

fun run_lines :: "(bytes \<Rightarrow> 'e \<Rightarrow> bytes \<times> 'e) \<Rightarrow> bytes list \<Rightarrow> 'e \<Rightarrow> bytes list \<times> 'e" where
  "run_lines process [] e = ([], e)"
| "run_lines process (raw # raws) e =
     (let line = chop_cr raw
      in if list_all byte_space line then run_lines process raws e
         else case process line e of (response, e') \<Rightarrow>
           (case run_lines process raws e' of (responses, e'') \<Rightarrow>
              (if response = [] then responses else response # responses, e'')))"

text \<open>\<open>ScpiEndpoint::run\<close> and \<open>stb\<close>\<close>

definition ep_run :: "'e scpi_endpoint \<Rightarrow> bytes \<Rightarrow> 'e \<Rightarrow> bytes list \<times> 'e" where
  "ep_run ep message e =
     (case ep_process ep of None \<Rightarrow> ([], e) | Some process \<Rightarrow> run_lines process (split_bytes 10 message) e)"

definition ep_stb :: "'e scpi_endpoint \<Rightarrow> 'e \<Rightarrow> byte" where
  "ep_stb ep e = (case ep_status_byte ep of None \<Rightarrow> 0 | Some f \<Rightarrow> f e)"

definition ep_clear :: "'e scpi_endpoint \<Rightarrow> 'e \<Rightarrow> 'e" where
  "ep_clear ep e = (case ep_device_clear ep of None \<Rightarrow> e | Some f \<Rightarrow> f e)"

subsection \<open>Facts\<close>

lemma run_lines_append:
  "run_lines process (xs @ ys) e =
     (case run_lines process xs e of (rs, e') \<Rightarrow>
        case run_lines process ys e' of (rs', e'') \<Rightarrow> (rs @ rs', e''))"
  by (induction xs arbitrary: e) (auto simp: Let_def split: prod.splits)

text \<open>What the transports rely on: no response they pass on is empty.\<close>

locale scpi_runner =
  fixes run :: "bytes \<Rightarrow> 'e \<Rightarrow> bytes list \<times> 'e"
  assumes run_nonempty: "run msg e = (rs, e') \<Longrightarrow> r \<in> set rs \<Longrightarrow> r \<noteq> []"
    and run_seq: "run (a @ 10 # b) e =
      (case run a e of (rs, e') \<Rightarrow> case run b e' of (rs', e'') \<Rightarrow> (rs @ rs', e''))"
begin

lemma run_all_nonempty: "[] \<notin> set (fst (run msg e))"
  using run_nonempty[of msg e "fst (run msg e)" "snd (run msg e)"] by auto

end

lemma run_lines_nonempty:
  "run_lines process ls e = (rs, e') \<Longrightarrow> r \<in> set rs \<Longrightarrow> r \<noteq> []"
  by (induction ls arbitrary: e rs e')
     (auto simp: Let_def split: prod.splits if_splits)

interpretation epr: scpi_runner "ep_run ep" for ep
proof
  fix msg e rs e' r
  assume "ep_run ep msg e = (rs, e')" and "r \<in> set rs"
  then show "r \<noteq> []"
    by (auto simp: ep_run_def split: option.splits dest: run_lines_nonempty)
next
  fix a b e
  show "ep_run ep (a @ 10 # b) e =
    (case ep_run ep a e of (rs, e') \<Rightarrow> case ep_run ep b e' of (rs', e'') \<Rightarrow> (rs @ rs', e''))"
    by (auto simp: ep_run_def split_bytes_append run_lines_append split: option.splits prod.splits)
qed

end
