(* ===== verification/Vxi11.thy ===== *)
theory Vxi11
  imports Onc_Rpc Scpi_Endpoint
begin

text \<open>
  \<open>src/src/service/vxi11core.h\<close> and \<open>vxi11core.cpp\<close>: the VXI-11 core and abort channels as RPC services.

  \<open>vxi\<close> is the state of \<open>Vxi11Core\<close>; the callback of \<open>setLinksChanged\<close>, which the server answers by
  emitting the number of links, is the log \<open>reported\<close> of the numbers emitted. Running a command may re-enter
  the core (\<open>run()\<close> may spin an event loop): \<open>during\<close> is what happens to core and interpreter meanwhile.
\<close>

subsection \<open>State\<close>

definition kErrNone :: int where "kErrNone = 0"
definition kErrInvalidLink :: int where "kErrInvalidLink = 4"
definition kErrNotSupported :: int where "kErrNotSupported = 8"
definition kErrOutOfResources :: int where "kErrOutOfResources = 9"
definition kErrLocked :: int where "kErrLocked = 11"
definition kErrNoLock :: int where "kErrNoLock = 12"
definition kErrTimeout :: int where "kErrTimeout = 15"
definition kErrIo :: int where "kErrIo = 17"

lemmas kErr_defs = kErrNone_def kErrInvalidLink_def kErrNotSupported_def kErrOutOfResources_def
  kErrLocked_def kErrNoLock_def kErrTimeout_def kErrIo_def

definition kFlagEnd :: u32 where "kFlagEnd = 8"
definition kReasonReqCnt :: u32 where "kReasonReqCnt = 1"
definition kReasonEnd :: u32 where "kReasonEnd = 4"
definition kMaxRecvSize :: u32 where "kMaxRecvSize = 65536"
definition kMaxLinks :: nat where "kMaxLinks = 16"
definition kMaxMessage :: nat where "kMaxMessage = 1024 * 1024"

record link =
  lk_conn :: u64
  lk_in :: bytes
  lk_discard :: bool
  lk_out :: "bytes list"

definition link0 :: link where
  "link0 = \<lparr>lk_conn = 0, lk_in = [], lk_discard = False, lk_out = []\<rparr>"

record vxi =
  links :: "(int \<times> link) list"
  nextLid :: int
  lockOwner :: int
  abortPort :: u16
  reported :: "nat list"

definition vxi0 :: "u16 \<Rightarrow> vxi" where
  "vxi0 port = \<lparr>links = [], nextLid = 1, lockOwner = - 1, abortPort = port, reported = []\<rparr>"

text \<open>\<open>m_nextLid++\<close> on a \<open>qint32\<close>; past the largest value the usual two's complement wrap is written out.\<close>

definition i32_inc :: "int \<Rightarrow> int" where
  "i32_inc n = (if n = 2 ^ 31 - 1 then - (2 ^ 31) else n + 1)"

definition link_at :: "vxi \<Rightarrow> int \<Rightarrow> link" where
  "link_at v lid = (case map_of (links v) lid of None \<Rightarrow> link0 | Some l \<Rightarrow> l)"

definition set_link :: "int \<Rightarrow> link \<Rightarrow> vxi \<Rightarrow> vxi" where
  "set_link lid l v = v\<lparr>links := al_insert lid l (links v)\<rparr>"

definition report :: "vxi \<Rightarrow> vxi" where
  "report v = v\<lparr>reported := reported v @ [length (links v)]\<rparr>"

subsection \<open>Links and access\<close>

definition owns :: "vxi \<Rightarrow> int \<Rightarrow> u64 \<Rightarrow> bool" where
  "owns v lid conn = (case map_of (links v) lid of None \<Rightarrow> False | Some l \<Rightarrow> lk_conn l = conn)"

definition checkAccess :: "vxi \<Rightarrow> int \<Rightarrow> u64 \<Rightarrow> int" where
  "checkAccess v lid conn =
     (if \<not> owns v lid conn then kErrInvalidLink
      else if lockOwner v \<noteq> - 1 \<and> lockOwner v \<noteq> lid then kErrLocked
      else kErrNone)"

definition cleared :: "link \<Rightarrow> link" where
  "cleared l = l\<lparr>lk_in := [], lk_out := [], lk_discard := False\<rparr>"

definition abortLink :: "int \<Rightarrow> vxi \<Rightarrow> int \<times> vxi" where
  "abortLink lid v =
     (case map_of (links v) lid of
        None \<Rightarrow> (kErrInvalidLink, v)
      | Some l \<Rightarrow> (kErrNone, set_link lid (cleared l) v))"

definition vxi_reset :: "vxi \<Rightarrow> vxi" where
  "vxi_reset v =
     (let had = links v \<noteq> []; v = v\<lparr>links := [], lockOwner := - 1\<rparr>
      in if had then report v else v)"

text \<open>\<open>connectionClosed\<close>: the loop erases the links of the connection, and the lock with its link.\<close>

definition drop_conn :: "u64 \<Rightarrow> (int \<times> link) list \<Rightarrow> (int \<times> link) list" where
  "drop_conn conn ls = filter (\<lambda>(lid, l). lk_conn l \<noteq> conn) ls"

definition connectionClosed :: "u64 \<Rightarrow> vxi \<Rightarrow> vxi" where
  "connectionClosed conn v =
     (let gone = filter (\<lambda>(lid, l). lk_conn l = conn) (links v);
          v' = v\<lparr>links := drop_conn conn (links v),
                 lockOwner := (if lockOwner v \<in> fst ` set gone then - 1 else lockOwner v)\<rparr>
      in if gone \<noteq> [] then report v' else v')"

subsection \<open>The procedures, on decoded arguments\<close>

definition createLink :: "vxi \<Rightarrow> bool \<Rightarrow> u64 \<Rightarrow> (int \<times> int \<times> u32 \<times> u32) \<times> vxi" where
  "createLink v lock conn =
     (let err = (if lock \<and> lockOwner v \<noteq> - 1 then kErrLocked
                 else if length (links v) \<ge> kMaxLinks then kErrOutOfResources else kErrNone)
      in if err \<noteq> 0 then ((err, 0, 0, 0), v)
         else let lid = nextLid v;
                  v = v\<lparr>nextLid := i32_inc (nextLid v)\<rparr>;
                  v = set_link lid (link0\<lparr>lk_conn := conn\<rparr>) v;
                  v = (if lock then v\<lparr>lockOwner := lid\<rparr> else v);
                  v = report v
              in ((kErrNone, lid, ucast (abortPort v), kMaxRecvSize), v))"

definition deviceWrite ::
    "'e scpi_endpoint \<Rightarrow> (vxi \<times> 'e \<Rightarrow> vxi \<times> 'e) \<Rightarrow> vxi \<times> 'e \<Rightarrow> int \<Rightarrow> u32 \<Rightarrow> bytes \<Rightarrow> u64
      \<Rightarrow> (int \<times> u32) \<times> (vxi \<times> 'e)" where
  "deviceWrite ep during ve lid flags data conn =
     (case ve of (v, e) \<Rightarrow>
        let err = checkAccess v lid conn in
        if err \<noteq> 0 then ((err, 0), ve)
        else let l = link_at v lid in
          if lk_discard l \<or> length (lk_in l) + length data > kMaxMessage
          then ((kErrIo, 0), (set_link lid (l\<lparr>lk_in := [], lk_discard := (flags AND kFlagEnd = 0)\<rparr>) v, e))
          else if flags AND kFlagEnd = 0
          then ((kErrNone, of_nat (length data)), (set_link lid (l\<lparr>lk_in := lk_in l @ data\<rparr>) v, e))
          else let message = lk_in l @ data;
                   v1 = set_link lid (l\<lparr>lk_in := []\<rparr>) v;
                   (responses, e1) = ep_run ep message e;
                   (v2, e2) = during (v1, e1)
               in (case map_of (links v2) lid of
                     None \<Rightarrow> ((kErrNone, of_nat (length data)), (v2, e2))
                   | Some l2 \<Rightarrow> ((kErrNone, of_nat (length data)),
                       (set_link lid (l2\<lparr>lk_out := lk_out l2 @ responses\<rparr>) v2, e2))))"

definition deviceRead :: "vxi \<Rightarrow> int \<Rightarrow> u32 \<Rightarrow> u64 \<Rightarrow> (int \<times> u32 \<times> bytes) \<times> vxi" where
  "deviceRead v lid requestSize conn =
     (let err = checkAccess v lid conn;
          err = (if err = 0 \<and> lk_out (link_at v lid) = [] then kErrTimeout else err)
      in if err \<noteq> 0 then ((err, 0, []), v)
         else let l = link_at v lid; msg = hd (lk_out l);
                  n = (if requestSize > 0 then min (unat requestSize) (length msg) else length msg);
                  chunk = take n msg; rest = drop n msg; finished = (rest = [])
              in ((kErrNone, if finished then kReasonEnd else kReasonReqCnt, chunk),
                  set_link lid (l\<lparr>lk_out := (if finished then tl (lk_out l) else rest # tl (lk_out l))\<rparr>) v))"

definition deviceReadstb :: "'e scpi_endpoint \<Rightarrow> vxi \<times> 'e \<Rightarrow> int \<Rightarrow> u64 \<Rightarrow> int \<times> u32" where
  "deviceReadstb ep ve lid conn =
     (case ve of (v, e) \<Rightarrow>
        let err = checkAccess v lid conn in
        if err \<noteq> 0 then (err, 0)
        else (err, if lk_out (link_at v lid) = [] then ucast (ep_stb ep e) else ucast (ep_stb ep e) OR 0x10))"

definition deviceClear :: "'e scpi_endpoint \<Rightarrow> vxi \<times> 'e \<Rightarrow> int \<Rightarrow> u64 \<Rightarrow> int \<times> (vxi \<times> 'e)" where
  "deviceClear ep ve lid conn =
     (case ve of (v, e) \<Rightarrow>
        let err = checkAccess v lid conn in
        if err \<noteq> 0 then (err, ve)
        else (err, (set_link lid (cleared (link_at v lid)) v, ep_clear ep e)))"

definition deviceLock :: "vxi \<Rightarrow> int \<Rightarrow> u64 \<Rightarrow> int \<times> vxi" where
  "deviceLock v lid conn =
     (if \<not> owns v lid conn then (kErrInvalidLink, v)
      else if lockOwner v = - 1 then (kErrNone, v\<lparr>lockOwner := lid\<rparr>)
      else if lockOwner v \<noteq> lid then (kErrLocked, v)
      else (kErrNone, v))"

definition deviceUnlock :: "vxi \<Rightarrow> int \<Rightarrow> u64 \<Rightarrow> int \<times> vxi" where
  "deviceUnlock v lid conn =
     (if \<not> owns v lid conn then (kErrInvalidLink, v)
      else if lockOwner v \<noteq> lid then (kErrNoLock, v)
      else (kErrNone, v\<lparr>lockOwner := - 1\<rparr>))"

definition destroyLink :: "vxi \<Rightarrow> int \<Rightarrow> u64 \<Rightarrow> int \<times> vxi" where
  "destroyLink v lid conn =
     (if \<not> owns v lid conn then (kErrInvalidLink, v)
      else let v = v\<lparr>links := al_remove lid (links v)\<rparr>;
               v = (if lockOwner v = lid then v\<lparr>lockOwner := - 1\<rparr> else v)
           in (kErrNone, report v))"


subsection \<open>The services\<close>

text \<open>\<open>Device_GenericParms\<close>: lid, flags, lock_timeout, io_timeout.\<close>

definition rd_generic :: "xdr_reader \<Rightarrow> int \<times> xdr_reader" where
  "rd_generic r =
     (let (lid, r) = rd_i32 r; (_, r) = rd_u32 r; (_, r) = rd_u32 r; (_, r) = rd_u32 r in (lid, r))"

definition call_createLink :: "xdr_reader \<Rightarrow> u64 \<Rightarrow> vxi \<Rightarrow> rpc_status \<times> xdr_reader \<times> bytes \<times> vxi" where
  "call_createLink r conn v =
     (let (_, r) = rd_u32 r; (lk, r) = rd_u32 r; (_, r) = rd_u32 r; (dev, r) = rd_opaque r in
      if \<not> rd_ok r then (GarbageArgs, r, [], v)
      else case createLink v (lk \<noteq> 0) conn of ((err, lid, port, maxRecv), v') \<Rightarrow>
        (Success, r, wr_u32 maxRecv (wr_u32 port (wr_i32 lid (wr_i32 err []))), v'))"

definition call_deviceWrite ::
    "'e scpi_endpoint \<Rightarrow> (vxi \<times> 'e \<Rightarrow> vxi \<times> 'e) \<Rightarrow> xdr_reader \<Rightarrow> u64 \<Rightarrow> vxi \<times> 'e
      \<Rightarrow> rpc_status \<times> xdr_reader \<times> bytes \<times> (vxi \<times> 'e)" where
  "call_deviceWrite ep during r conn ve =
     (let (lid, r) = rd_i32 r; (_, r) = rd_u32 r; (_, r) = rd_u32 r; (flags, r) = rd_u32 r;
          (data, r) = rd_opaque r in
      if \<not> rd_ok r then (GarbageArgs, r, [], ve)
      else case deviceWrite ep during ve lid flags data conn of ((err, n), ve') \<Rightarrow>
        (Success, r, wr_u32 n (wr_i32 err []), ve'))"

definition call_deviceRead :: "xdr_reader \<Rightarrow> u64 \<Rightarrow> vxi \<Rightarrow> rpc_status \<times> xdr_reader \<times> bytes \<times> vxi" where
  "call_deviceRead r conn v =
     (let (lid, r) = rd_i32 r; (requestSize, r) = rd_u32 r; (_, r) = rd_u32 r; (_, r) = rd_u32 r;
          (_, r) = rd_u32 r; (_, r) = rd_u32 r in
      if \<not> rd_ok r then (GarbageArgs, r, [], v)
      else case deviceRead v lid requestSize conn of ((err, reason, chunk), v') \<Rightarrow>
        (Success, r, wr_opaque chunk (wr_u32 reason (wr_i32 err [])), v'))"

definition call_lock :: "xdr_reader \<Rightarrow> u64 \<Rightarrow> vxi \<Rightarrow> rpc_status \<times> xdr_reader \<times> bytes \<times> vxi" where
  "call_lock r conn v =
     (let (lid, r) = rd_i32 r; (_, r) = rd_u32 r; (_, r) = rd_u32 r in
      if \<not> rd_ok r then (GarbageArgs, r, [], v)
      else case deviceLock v lid conn of (err, v') \<Rightarrow> (Success, r, wr_i32 err [], v'))"

text \<open>device_unlock and destroy_link take the lid alone.\<close>

definition call_lid :: "(vxi \<Rightarrow> int \<Rightarrow> u64 \<Rightarrow> int \<times> vxi) \<Rightarrow> xdr_reader \<Rightarrow> u64 \<Rightarrow> vxi
    \<Rightarrow> rpc_status \<times> xdr_reader \<times> bytes \<times> vxi" where
  "call_lid f r conn v =
     (let (lid, r) = rd_i32 r in
      if \<not> rd_ok r then (GarbageArgs, r, [], v)
      else case f v lid conn of (err, v') \<Rightarrow> (Success, r, wr_i32 err [], v'))"

text \<open>\<open>Vxi11Core::call\<close>\<close>

definition vxi_call ::
    "'e scpi_endpoint \<Rightarrow> (vxi \<times> 'e \<Rightarrow> vxi \<times> 'e) \<Rightarrow> u32 \<Rightarrow> xdr_reader \<Rightarrow> u64 \<Rightarrow> vxi \<times> 'e
      \<Rightarrow> rpc_status \<times> xdr_reader \<times> bytes \<times> (vxi \<times> 'e)" where
  "vxi_call ep during proc r conn ve =
     (let v = fst ve; e = snd ve;
          core = (\<lambda>(st, r, res, v'). (st, r, res, (v', e))) in
      if proc = 10 then core (call_createLink r conn v)
      else if proc = 11 then call_deviceWrite ep during r conn ve
      else if proc = 12 then core (call_deviceRead r conn v)
      else if proc = 13 then
        (case rd_generic r of (lid, r) \<Rightarrow>
           if \<not> rd_ok r then (GarbageArgs, r, [], ve)
           else case deviceReadstb ep ve lid conn of (err, stb) \<Rightarrow> (Success, r, wr_u32 stb (wr_i32 err []), ve))
      else if proc \<in> {14, 16, 17} then
        (case rd_generic r of (lid, r) \<Rightarrow>
           if \<not> rd_ok r then (GarbageArgs, r, [], ve)
           else (Success, r, wr_i32 (checkAccess v lid conn) [], ve))
      else if proc = 15 then
        (case rd_generic r of (lid, r) \<Rightarrow>
           if \<not> rd_ok r then (GarbageArgs, r, [], ve)
           else case deviceClear ep ve lid conn of (err, ve') \<Rightarrow> (Success, r, wr_i32 err [], ve'))
      else if proc = 18 then core (call_lock r conn v)
      else if proc = 19 then core (call_lid deviceUnlock r conn v)
      else if proc \<in> {20, 25, 26} then (Success, r, wr_i32 kErrNotSupported [], ve)
      else if proc = 22 then (Success, r, wr_opaque [] (wr_i32 kErrNotSupported []), ve)
      else if proc = 23 then core (call_lid destroyLink r conn v)
      else (ProcUnavail, r, [], ve))"

text \<open>\<open>Vxi11Abort::call\<close>: the abort channel needs no ownership.\<close>

definition abort_call :: "u32 \<Rightarrow> xdr_reader \<Rightarrow> u64 \<Rightarrow> vxi \<times> 'e \<Rightarrow> rpc_status \<times> xdr_reader \<times> bytes \<times> (vxi \<times> 'e)" where
  "abort_call proc r conn ve =
     (if proc \<noteq> 1 then (ProcUnavail, r, [], ve)
      else let (lid, r) = rd_i32 r in
        if \<not> rd_ok r then (GarbageArgs, r, [], ve)
        else case abortLink lid (fst ve) of (err, v') \<Rightarrow> (Success, r, wr_i32 err [], (v', snd ve)))"

definition core_service :: "'e scpi_endpoint \<Rightarrow> (vxi \<times> 'e \<Rightarrow> vxi \<times> 'e) \<Rightarrow> (vxi \<times> 'e) rpc_service" where
  "core_service ep during =
     \<lparr>svc_program = 0x0607AF, svc_version = 1, svc_call = vxi_call ep during,
      svc_closed = (\<lambda>conn ve. (connectionClosed conn (fst ve), snd ve))\<rparr>"

definition abort_service :: "(vxi \<times> 'e) rpc_service" where
  "abort_service =
     \<lparr>svc_program = 0x0607B0, svc_version = 1, svc_call = abort_call, svc_closed = (\<lambda>_ ve. ve)\<rparr>"

subsection \<open>The invariant\<close>

text \<open>
  One entry per lid, at most \<open>kMaxLinks\<close> of them; the lock is free or held by a link that exists; no
  message being collected is larger than \<open>kMaxMessage\<close>, and one that is being discarded holds nothing; no
  response waiting is empty; the number of links last reported is the number there is.
\<close>

definition link_inv :: "link \<Rightarrow> bool" where
  "link_inv l \<longleftrightarrow> length (lk_in l) \<le> kMaxMessage \<and> (lk_discard l \<longrightarrow> lk_in l = []) \<and> [] \<notin> set (lk_out l)"

definition vxi_inv :: "vxi \<Rightarrow> bool" where
  "vxi_inv v \<longleftrightarrow>
     distinct (map fst (links v)) \<and> length (links v) \<le> kMaxLinks \<and>
     (lockOwner v = - 1 \<or> lockOwner v \<in> al_keys (links v)) \<and>
     (\<forall>p \<in> set (links v). link_inv (snd p)) \<and>
     last (0 # reported v) = length (links v)"

lemma vxi_inv_init: "vxi_inv (vxi0 port)"
  by (simp add: vxi_inv_def vxi0_def)

lemma link_inv_simps [simp]:
  "link_inv link0" "link_inv (link0\<lparr>lk_conn := c\<rparr>)" "link_inv (cleared l)"
  by (simp_all add: link_inv_def link0_def cleared_def)

lemma owns_key: "owns v lid conn \<Longrightarrow> lid \<in> al_keys (links v)"
  by (auto simp: owns_def split: option.splits dest: map_of_SomeD intro!: rev_image_eqI)

lemma owns_mem: "owns v lid conn \<Longrightarrow> (lid, link_at v lid) \<in> set (links v)"
  by (auto simp: owns_def link_at_def split: option.splits dest: map_of_SomeD)

lemma access_owns: "checkAccess v lid conn = 0 \<Longrightarrow> owns v lid conn"
  by (auto simp: checkAccess_def kErr_defs split: if_splits)

lemma set_link_inv [inv_intros]:
  assumes "vxi_inv v" and "lid \<in> al_keys (links v)" and "link_inv l"
  shows "vxi_inv (set_link lid l v)"
  using assms
  by (auto simp: vxi_inv_def set_link_def length_al_insert dest!: al_insert_mem)

lemma link_at_inv: "vxi_inv v \<Longrightarrow> owns v lid conn \<Longrightarrow> link_inv (link_at v lid)"
  by (metis owns_mem vxi_inv_def snd_conv)

lemma abortLink_inv [inv_intros]: "vxi_inv v \<Longrightarrow> vxi_inv (snd (abortLink lid v))"
  by (auto simp: abortLink_def intro!: set_link_inv split: option.splits
      dest!: map_of_SomeD intro: rev_image_eqI)

lemma reset_inv: "vxi_inv v \<Longrightarrow> vxi_inv (vxi_reset v)"
  by (auto simp: vxi_inv_def vxi_reset_def report_def Let_def)

lemma drop_conn_keys: "lid \<in> al_keys (drop_conn conn ls) \<longleftrightarrow>
    (\<exists>l. (lid, l) \<in> set ls \<and> lk_conn l \<noteq> conn)"
  by (force simp: drop_conn_def)

lemma connectionClosed_inv [inv_intros]:
  assumes inv: "vxi_inv v"
  shows "vxi_inv (connectionClosed conn v)"
proof -
  let ?gone = "filter (\<lambda>(lid, l). lk_conn l = conn) (links v)"
  let ?ls = "drop_conn conn (links v)"
  have d: "distinct (map fst ?ls)" "length ?ls \<le> kMaxLinks" "\<forall>p \<in> set ?ls. link_inv (snd p)"
    using inv by (auto simp: vxi_inv_def drop_conn_def distinct_map_filter intro: order.trans[OF length_filter_le])
  have lock: "lockOwner v \<in> al_keys ?ls" if "lockOwner v \<noteq> - 1" "lockOwner v \<notin> fst ` set ?gone"
    using inv that by (force simp: vxi_inv_def drop_conn_keys)
  have same: "?ls = links v" if "?gone = []"
    using that by (auto simp: drop_conn_def filter_empty_conv filter_id_conv)
  show ?thesis
  proof (cases "?gone = []")
    case True
    then show ?thesis
      using inv same by (simp add: connectionClosed_def Let_def vxi_inv_def)
  next
    case False
    then show ?thesis
      using d lock by (auto simp: connectionClosed_def Let_def vxi_inv_def report_def)
  qed
qed

lemma createLink_inv [inv_intros]:
  assumes "vxi_inv v"
  shows "vxi_inv (snd (createLink v lock conn))"
  using assms
  by (auto simp: createLink_def Let_def vxi_inv_def set_link_def report_def length_al_insert kErr_defs
      split: if_splits dest!: al_insert_mem)


lemma deviceRead_inv [inv_intros]:
  assumes "vxi_inv v"
  shows "vxi_inv (snd (deviceRead v lid n conn))"
proof (cases "checkAccess v lid conn = 0 \<and> lk_out (link_at v lid) \<noteq> []")
  case False
  then show ?thesis using assms by (auto simp: deviceRead_def Let_def kErr_defs)
next
  case True
  let ?l = "link_at v lid"
  have own: "owns v lid conn" using True by (simp add: access_owns)
  have l: "link_inv ?l" using assms own by (rule link_at_inv)
  have tl: "[] \<notin> set (tl (lk_out ?l))"
    using l True by (metis link_inv_def list.set_sel(2))
  have "link_inv (?l\<lparr>lk_out := tl (lk_out ?l)\<rparr>)"
    using l tl by (simp add: link_inv_def)
  moreover have "link_inv (?l\<lparr>lk_out := rest # tl (lk_out ?l)\<rparr>)" if "rest \<noteq> []" for rest
    using l tl that by (auto simp: link_inv_def)
  ultimately show ?thesis
    using True assms own
    by (auto simp: deviceRead_def Let_def intro!: set_link_inv owns_key)
qed

lemma deviceLock_inv [inv_intros]: "vxi_inv v \<Longrightarrow> vxi_inv (snd (deviceLock v lid conn))"
  by (auto simp: deviceLock_def vxi_inv_def dest: owns_key)

lemma deviceUnlock_inv [inv_intros]: "vxi_inv v \<Longrightarrow> vxi_inv (snd (deviceUnlock v lid conn))"
  by (auto simp: deviceUnlock_def vxi_inv_def)

lemma destroyLink_inv [inv_intros]: "vxi_inv v \<Longrightarrow> vxi_inv (snd (destroyLink v lid conn))"
  using length_al_remove_le[of lid "links v"]
  by (auto simp: destroyLink_def vxi_inv_def Let_def report_def al_remove_mem)

lemma deviceClear_inv [inv_intros]:
  "vxi_inv (fst ve) \<Longrightarrow> vxi_inv (fst (snd (deviceClear ep ve lid conn)))"
  by (cases ve) (auto simp: deviceClear_def Let_def intro!: set_link_inv owns_key access_owns)

lemma map_of_link_inv: "vxi_inv v \<Longrightarrow> map_of (links v) lid = Some l \<Longrightarrow> link_inv l \<and> lid \<in> al_keys (links v)"
  by (auto simp: vxi_inv_def dest!: map_of_SomeD intro: rev_image_eqI)

lemma deviceWrite_inv:
  assumes inv: "vxi_inv (fst ve)"
    and during: "\<And>ve. vxi_inv (fst ve) \<Longrightarrow> vxi_inv (fst (during ve))"
  shows "vxi_inv (fst (snd (deviceWrite ep during ve lid flags data conn)))"
proof (cases "checkAccess (fst ve) lid conn = 0")
  case False
  then show ?thesis using inv by (cases ve) (simp add: deviceWrite_def)
next
  case True
  obtain v e where ve: "ve = (v, e)" by (cases ve)
  let ?l = "link_at v lid"
  have own: "owns v lid conn" using True ve by (simp add: access_owns)
  have l: "link_inv ?l" using inv own ve link_at_inv by simp
  have set: "vxi_inv (set_link lid l' v)" if "link_inv l'" for l'
    using inv own that ve by (auto intro!: set_link_inv owns_key)
  have l': "link_inv (?l\<lparr>lk_in := []\<rparr>)" "link_inv (?l\<lparr>lk_in := [], lk_discard := d\<rparr>)" for d
    using l by (simp_all add: link_inv_def)
  obtain rs e1 where run: "ep_run ep (lk_in ?l @ data) e = (rs, e1)"
    by (cases "ep_run ep (lk_in ?l @ data) e")
  have rs: "[] \<notin> set rs"
    using epr.run_all_nonempty[of ep "lk_in ?l @ data" e] run by simp
  obtain v2 e2 where d: "during (set_link lid (?l\<lparr>lk_in := []\<rparr>) v, e1) = (v2, e2)"
    by (cases "during (set_link lid (?l\<lparr>lk_in := []\<rparr>) v, e1)")
  have v2: "vxi_inv v2"
    using during[of "(set_link lid (?l\<lparr>lk_in := []\<rparr>) v, e1)"] set[OF l'(1)] d by simp
  have out: "vxi_inv (set_link lid (l2\<lparr>lk_out := lk_out l2 @ rs\<rparr>) v2)"
    if "map_of (links v2) lid = Some l2" for l2
    using map_of_link_inv[OF v2 that] rs v2 by (auto simp: link_inv_def intro!: set_link_inv)
  have grow: "link_inv (?l\<lparr>lk_in := lk_in ?l @ data\<rparr>)"
    if "\<not> lk_discard ?l" "length (lk_in ?l) + length data \<le> kMaxMessage"
    using l that by (simp add: link_inv_def)
  show ?thesis
    using True set[OF l'(2)] set[OF grow] v2 out
    by (simp add: ve deviceWrite_def Let_def run d split: option.splits)
qed

text \<open>The same for the procedures with their arguments and results encoded.\<close>

lemma call_createLink_inv:
  "call_createLink r conn v = (st, r', res, v') \<Longrightarrow> vxi_inv v \<Longrightarrow> vxi_inv v'"
  using createLink_inv[of v _ conn]
  by (auto simp: call_createLink_def Let_def split: prod.splits if_splits) (metis snd_conv)

lemma call_deviceRead_inv:
  "call_deviceRead r conn v = (st, r', res, v') \<Longrightarrow> vxi_inv v \<Longrightarrow> vxi_inv v'"
  using deviceRead_inv[of v _ _ conn]
  by (auto simp: call_deviceRead_def Let_def split: prod.splits if_splits) (metis snd_conv)

lemma call_lock_inv:
  "call_lock r conn v = (st, r', res, v') \<Longrightarrow> vxi_inv v \<Longrightarrow> vxi_inv v'"
  using deviceLock_inv[of v _ conn]
  by (auto simp: call_lock_def Let_def split: prod.splits if_splits) (metis snd_conv)

lemma call_lid_unlock_inv:
  "call_lid deviceUnlock r conn v = (st, r', res, v') \<Longrightarrow> vxi_inv v \<Longrightarrow> vxi_inv v'"
  using deviceUnlock_inv[of v _ conn]
  by (auto simp: call_lid_def Let_def split: prod.splits if_splits) (metis snd_conv)

lemma call_lid_destroy_inv:
  "call_lid destroyLink r conn v = (st, r', res, v') \<Longrightarrow> vxi_inv v \<Longrightarrow> vxi_inv v'"
  using destroyLink_inv[of v _ conn]
  by (auto simp: call_lid_def Let_def split: prod.splits if_splits) (metis snd_conv)

lemma call_clear_inv:
  "deviceClear ep ve lid conn = (err, ve') \<Longrightarrow> vxi_inv (fst ve) \<Longrightarrow> vxi_inv (fst ve')"
  using deviceClear_inv[of ve ep lid conn] by simp

text \<open>
  Re-entrancy: whatever the nested event loop does to the core is a sequence of the core's own operations,
  so it keeps the invariant. Under that one law every procedure does.
\<close>

locale reentrant =
  fixes during :: "vxi \<times> 'e \<Rightarrow> vxi \<times> 'e"
  assumes during_inv: "vxi_inv (fst ve) \<Longrightarrow> vxi_inv (fst (during ve))"
begin

lemma call_deviceWrite_inv:
  assumes "call_deviceWrite ep during r conn ve = (st, r', res, ve')" and "vxi_inv (fst ve)"
  shows "vxi_inv (fst ve')"
  using assms deviceWrite_inv[OF assms(2), where during = during] during_inv
  by (auto simp: call_deviceWrite_def Let_def split: prod.splits if_splits) (metis fst_conv snd_conv)+

lemma vxi_call_inv:
  assumes "vxi_inv (fst ve)" and "vxi_call ep during proc r conn ve = (st, r', res, ve')"
  shows "vxi_inv (fst ve')"
  using assms
  by (auto simp: vxi_call_def Let_def split: prod.splits if_splits
      dest: call_createLink_inv call_deviceWrite_inv call_deviceRead_inv call_lock_inv
        call_lid_unlock_inv call_lid_destroy_inv call_clear_inv)

sublocale programs: rpc_programs "[core_service ep during, abort_service]" "\<lambda>ve. vxi_inv (fst ve)" for ep
proof
  fix svc :: "(vxi \<times> 'e) rpc_service" and s s' :: "vxi \<times> 'e" and proc r conn st r' res
  assume mem: "svc \<in> set [core_service ep during, abort_service]" and inv: "vxi_inv (fst s)"
    and call: "svc_call svc proc r conn s = (st, r', res, s')"
  from mem consider "svc = core_service ep during" | "svc = abort_service" by auto
  then show "vxi_inv (fst s')"
  proof cases
    case 1
    then show ?thesis using vxi_call_inv[OF inv] call by (simp add: core_service_def)
  next
    case 2
    then show ?thesis
      using call inv abortLink_inv[OF inv]
      by (auto simp: abort_service_def abort_call_def Let_def split: prod.splits if_splits) (metis snd_conv)
  qed
next
  fix svc :: "(vxi \<times> 'e) rpc_service" and s :: "vxi \<times> 'e" and conn
  assume "svc \<in> set [core_service ep during, abort_service]" and "vxi_inv (fst s)"
  then show "vxi_inv (fst (svc_closed svc conn s))"
    by (auto simp: core_service_def abort_service_def intro: connectionClosed_inv)
qed

lemma message_keeps_inv:
  "vxi_inv (fst ve) \<Longrightarrow> vxi_inv (fst (snd (rpc_handle [core_service ep during, abort_service] msg conn ve)))"
  by (rule programs.handle_inv)

lemma stream_keeps_inv:
  "vxi_inv (fst (rc_state c)) \<Longrightarrow>
    vxi_inv (fst (rc_state (fst (rpc_ready_read [core_service ep during, abort_service] conn (c, b) x))))"
  by (rule programs.ready_read_inv)

end

text \<open>
  Nothing happens meanwhile; the client of connection \<open>c\<close> goes away meanwhile; link \<open>lid\<close> is aborted
  meanwhile.
\<close>

interpretation calm: reentrant "\<lambda>ve. ve"
  by unfold_locales

interpretation hangup: reentrant "\<lambda>(v, e). (connectionClosed c v, e)" for c
  by unfold_locales (auto intro: connectionClosed_inv)

interpretation aborted: reentrant "\<lambda>(v, e). (snd (abortLink lid v), e)" for lid
  by unfold_locales (auto intro: abortLink_inv)

text \<open>
  C2: Every RPC message on the core or the abort channel, well formed or not, keeps the invariant of the VXI-11
  core (at most 16 links, one per lid; the lock free or held by an existing link; no message collected beyond
  1 MiB; no empty response queued; the reported number of links correct), whatever operations that keep it
  run while a command executes.
\<close>

theorem vxi_messages_keep_inv:
  assumes "vxi_inv v" and "\<And>ve. vxi_inv (fst ve) \<Longrightarrow> vxi_inv (fst (during ve))"
  shows "vxi_inv (fst (snd (rpc_handle [core_service ep during, abort_service] msg conn (v, e))))"
proof -
  have "reentrant during" using assms(2) by unfold_locales
  then show ?thesis
    using reentrant.message_keeps_inv[of during "(v, e)" ep msg conn] assms(1) by simp
qed


theorem vxi_messages_keep_inv_witness:
  "vxi_inv (fst (snd (rpc_handle
     [core_service (\<lparr>ep_process = None, ep_status_byte = None, ep_device_clear = None\<rparr> :: unit scpi_endpoint)
        (\<lambda>(v, e). (connectionClosed 7 v, e)), abort_service] [0, 0] 7 (vxi0 1024, ()))))"
proof (rule vxi_messages_keep_inv)
  show "vxi_inv (vxi0 1024)" by (rule vxi_inv_init)
next
  fix ve :: "vxi \<times> unit"
  assume "vxi_inv (fst ve)"
  then show "vxi_inv (fst (case ve of (v, e) \<Rightarrow> (connectionClosed 7 v, e)))"
    by (rule hangup.during_inv)
qed

subsection \<open>Messages in blocks\<close>

lemma set_link_twice [simp]: "set_link lid l (set_link lid l' v) = set_link lid l v"
  by (simp add: set_link_def)

lemma link_at_set_link [simp]: "link_at (set_link lid l v) lid = l"
  by (simp add: link_at_def set_link_def)

lemma links_set_link [simp]: "map_of (links (set_link lid l v)) lid = Some l"
  by (simp add: set_link_def)

lemma set_link_same: "owns v lid conn \<Longrightarrow> set_link lid (link_at v lid) v = v"
  by (auto simp: set_link_def link_at_def owns_def al_insert_same split: option.splits)

lemma access_set_link [simp]:
  "lk_conn l = conn \<Longrightarrow> checkAccess (set_link lid l v) lid conn =
     (if lockOwner v \<noteq> - 1 \<and> lockOwner v \<noteq> lid then kErrLocked else kErrNone)"
  by (simp add: checkAccess_def owns_def set_link_def)

lemma access_ok: "checkAccess v lid conn = 0 \<longleftrightarrow> owns v lid conn \<and> (lockOwner v = - 1 \<or> lockOwner v = lid)"
  by (auto simp: checkAccess_def kErr_defs)

lemma owns_conn: "owns v lid conn \<Longrightarrow> lk_conn (link_at v lid) = conn"
  by (auto simp: owns_def link_at_def split: option.splits)

text \<open>
  A client sends a message as blocks, the last one with the END flag. \<open>write_message\<close> is its sequence of
  device_write calls on a core nothing else happens to.
\<close>

fun write_message :: "'e scpi_endpoint \<Rightarrow> vxi \<times> 'e \<Rightarrow> int \<Rightarrow> bytes list \<Rightarrow> bytes \<Rightarrow> u64 \<Rightarrow> vxi \<times> 'e" where
  "write_message ep ve lid [] final conn = snd (deviceWrite ep (\<lambda>x. x) ve lid kFlagEnd final conn)"
| "write_message ep ve lid (b # bs) final conn =
     write_message ep (snd (deviceWrite ep (\<lambda>x. x) ve lid 0 b conn)) lid bs final conn"

lemma deviceWrite_at:
  assumes "lk_conn l = conn" and "lockOwner v = - 1 \<or> lockOwner v = lid"
  shows "snd (deviceWrite ep (\<lambda>x. x) (set_link lid l v, e) lid 0 b conn) =
      (if lk_discard l \<or> length (lk_in l) + length b > kMaxMessage
       then (set_link lid (l\<lparr>lk_in := [], lk_discard := True\<rparr>) v, e)
       else (set_link lid (l\<lparr>lk_in := lk_in l @ b\<rparr>) v, e))"
    and "snd (deviceWrite ep (\<lambda>x. x) (set_link lid l v, e) lid kFlagEnd b conn) =
      (if lk_discard l \<or> length (lk_in l) + length b > kMaxMessage
       then (set_link lid (l\<lparr>lk_in := [], lk_discard := False\<rparr>) v, e)
       else case ep_run ep (lk_in l @ b) e of (rs, e') \<Rightarrow>
         (set_link lid (l\<lparr>lk_in := [], lk_out := lk_out l @ rs\<rparr>) v, e'))"
  using assms by (auto simp: deviceWrite_def Let_def kErr_defs kFlagEnd_def split: prod.splits)

lemma link_unchanged:
  "lk_in l = [] \<Longrightarrow> l\<lparr>lk_in := [], lk_discard := d\<rparr> = l\<lparr>lk_discard := d\<rparr>"
  "\<not> lk_discard l \<Longrightarrow> l\<lparr>lk_in := x, lk_discard := False\<rparr> = l\<lparr>lk_in := x\<rparr>"
  by (cases l, simp)+

lemma write_discarding:
  assumes "lk_conn l = conn" and "lockOwner v = - 1 \<or> lockOwner v = lid" and "lk_discard l" and "lk_in l = []"
  shows "write_message ep (set_link lid l v, e) lid bs final conn = (set_link lid (l\<lparr>lk_discard := False\<rparr>) v, e)"
  using assms
proof (induction bs arbitrary: l)
  case Nil
  then show ?case by (simp add: deviceWrite_at link_unchanged)
next
  case (Cons b bs)
  have "l\<lparr>lk_in := [], lk_discard := True\<rparr> = l"
    using Cons.prems(3,4) by (cases l) simp
  then show ?case
    using Cons by (simp add: deviceWrite_at link_unchanged)
qed

lemma write_collecting:
  assumes "lk_conn l = conn" and "lockOwner v = - 1 \<or> lockOwner v = lid" and "\<not> lk_discard l"
  shows "write_message ep (set_link lid l v, e) lid bs final conn =
    (if length (lk_in l) + length (concat bs @ final) \<le> kMaxMessage
     then case ep_run ep (lk_in l @ concat bs @ final) e of (rs, e') \<Rightarrow>
       (set_link lid (l\<lparr>lk_in := [], lk_out := lk_out l @ rs\<rparr>) v, e')
     else (set_link lid (l\<lparr>lk_in := []\<rparr>) v, e))"
  using assms
proof (induction bs arbitrary: l)
  case Nil
  then show ?case by (auto simp: deviceWrite_at link_unchanged)
next
  case (Cons b bs)
  show ?case
  proof (cases "length (lk_in l) + length b > kMaxMessage")
    case True
    show ?thesis
      using Cons.prems True write_discarding[of "l\<lparr>lk_in := [], lk_discard := True\<rparr>" conn v lid]
      by (simp add: deviceWrite_at link_unchanged)
  next
    case False
    then show ?thesis
      using Cons.prems Cons.IH[of "l\<lparr>lk_in := lk_in l @ b\<rparr>"]
      by (simp add: deviceWrite_at add.assoc)
  qed
qed

text \<open>
  C9: A message written in any blocks is one message: up to 1 MiB it is run once, whole, when the END block
  comes, and its responses are appended to those waiting; a larger one is dropped as a whole, no part of
  it is run, and the link is as it was before.
\<close>

theorem write_message_whole:
  assumes "checkAccess v lid conn = 0" and "lk_in (link_at v lid) = []" and "\<not> lk_discard (link_at v lid)"
  shows "write_message ep (v, e) lid bs final conn =
    (if length (concat bs @ final) \<le> kMaxMessage
     then case ep_run ep (concat bs @ final) e of (rs, e') \<Rightarrow>
       (set_link lid ((link_at v lid)\<lparr>lk_out := lk_out (link_at v lid) @ rs\<rparr>) v, e')
     else (v, e))"
proof -
  let ?l = "link_at v lid"
  have own: "owns v lid conn" and lock: "lockOwner v = - 1 \<or> lockOwner v = lid"
    using assms(1) by (auto simp: access_ok)
  have l: "?l\<lparr>lk_in := []\<rparr> = ?l" "?l\<lparr>lk_in := [], lk_out := x\<rparr> = ?l\<lparr>lk_out := x\<rparr>" for x
    using assms(2) by simp_all
  show ?thesis
    using write_collecting[OF owns_conn[OF own] lock assms(3), of ep e bs final] assms(2)
    by (simp add: set_link_same[OF own] l)
qed

theorem write_message_whole_witness:
  "write_message (\<lparr>ep_process = Some (\<lambda>line e. (line @ [10], e + 1)), ep_status_byte = None,
      ep_device_clear = None\<rparr> :: nat scpi_endpoint)
      (set_link 1 (link0\<lparr>lk_conn := 7\<rparr>) (vxi0 1024), 0) 1 [[42], [73]] [68, 63] 7 =
    (set_link 1 (link0\<lparr>lk_conn := 7, lk_out := [[42, 73, 68, 63, 10]]\<rparr>) (vxi0 1024), 1)"
proof -
  let ?ep = "\<lparr>ep_process = Some (\<lambda>line e. (line @ [10], e + 1)), ep_status_byte = None,
      ep_device_clear = None\<rparr> :: nat scpi_endpoint"
  let ?v = "set_link 1 (link0\<lparr>lk_conn := 7\<rparr>) (vxi0 1024)"
  have "checkAccess ?v 1 7 = 0" "lk_in (link_at ?v 1) = []" "\<not> lk_discard (link_at ?v 1)"
    by (simp_all add: link0_def vxi0_def kErr_defs)
  from write_message_whole[OF this, of ?ep 0 "[[42], [73]]" "[68, 63]"]
  show ?thesis
    by (simp add: kMaxMessage_def ep_run_def chop_cr_def byte_space_def link0_def)
qed

text \<open>Reading a response back, \<open>n\<close> bytes at a time, until the reason says END.\<close>

fun read_message :: "nat \<Rightarrow> vxi \<Rightarrow> int \<Rightarrow> u32 \<Rightarrow> u64 \<Rightarrow> (bytes \<times> vxi) option" where
  "read_message 0 v lid n conn = None"
| "read_message (Suc fuel) v lid n conn =
     (case deviceRead v lid n conn of ((err, reason, chunk), v') \<Rightarrow>
        if err \<noteq> 0 then None
        else if reason = kReasonEnd then Some (chunk, v')
        else map_option (\<lambda>(rest, v''). (chunk @ rest, v'')) (read_message fuel v' lid n conn))"

lemma read_message_at:
  assumes "lk_conn l = conn" and "lockOwner v = - 1 \<or> lockOwner v = lid"
    and "lk_out l = msg # rest" and "length msg < fuel" and "msg \<noteq> []" and "n > 0"
  shows "read_message fuel (set_link lid l v) lid n conn = Some (msg, set_link lid (l\<lparr>lk_out := rest\<rparr>) v)"
  using assms
proof (induction fuel arbitrary: l msg)
  case 0
  then show ?case by simp
next
  case (Suc fuel)
  let ?n = "min (unat n) (length msg)"
  have n: "unat n > 0" using Suc.prems(6) by (simp add: unat_gt_0)
  have acc: "checkAccess (set_link lid l v) lid conn = 0"
    using Suc.prems(1,2) by (auto simp: kErr_defs)
  have rd: "deviceRead (set_link lid l v) lid n conn =
     ((0, if drop ?n msg = [] then kReasonEnd else kReasonReqCnt, take ?n msg),
      set_link lid (l\<lparr>lk_out := (if drop ?n msg = [] then rest else drop ?n msg # rest)\<rparr>) v)"
    using Suc.prems acc by (auto simp: deviceRead_def Let_def kErr_defs)
  show ?case
  proof (cases "drop ?n msg = []")
    case True
    then show ?thesis by (simp add: rd)
  next
    case False
    have "length (drop ?n msg) < fuel"
      using n False Suc.prems(4) by auto
    then have "read_message fuel (set_link lid (l\<lparr>lk_out := drop ?n msg # rest\<rparr>) v) lid n conn =
        Some (drop ?n msg, set_link lid ((l\<lparr>lk_out := drop ?n msg # rest\<rparr>)\<lparr>lk_out := rest\<rparr>) v)"
      using Suc.prems False by (intro Suc.IH) auto
    then show ?thesis
      using False by (simp add: rd kReasonEnd_def kReasonReqCnt_def)
  qed
qed

text \<open>
  C13: Reading with any positive request size gives back the oldest waiting response exactly: the pieces up
  to the one with reason END concatenate to it, and the next read starts with the next response.
\<close>

theorem read_message_returns_response:
  assumes "vxi_inv v" and "checkAccess v lid conn = 0" and "lk_out (link_at v lid) = msg # rest" and "n > 0"
  shows "read_message (Suc (length msg)) v lid n conn =
    Some (msg, set_link lid ((link_at v lid)\<lparr>lk_out := rest\<rparr>) v)"
proof -
  have own: "owns v lid conn" and lock: "lockOwner v = - 1 \<or> lockOwner v = lid"
    using assms(2) by (auto simp: access_ok)
  have "msg \<noteq> []"
    using link_at_inv[OF assms(1) own] assms(3) by (auto simp: link_inv_def)
  then show ?thesis
    using read_message_at[OF owns_conn[OF own] lock assms(3), of "Suc (length msg)" n] assms(4)
    by (simp add: set_link_same[OF own])
qed

theorem read_message_returns_response_witness:
  "read_message 4 (set_link 1 (link0\<lparr>lk_conn := 7, lk_out := [[49, 50, 10], [51]]\<rparr>)
       ((vxi0 1024)\<lparr>reported := [1]\<rparr>)) 1 2 7 =
    Some ([49, 50, 10], set_link 1 (link0\<lparr>lk_conn := 7, lk_out := [[51]]\<rparr>) ((vxi0 1024)\<lparr>reported := [1]\<rparr>))"
proof -
  let ?v = "set_link 1 (link0\<lparr>lk_conn := 7, lk_out := [[49, 50, 10], [51]]\<rparr>) ((vxi0 1024)\<lparr>reported := [1]\<rparr>)"
  have "vxi_inv ?v"
    by (simp add: vxi_inv_def set_link_def vxi0_def link_inv_def link0_def kMaxLinks_def)
  moreover have "checkAccess ?v 1 7 = 0" by (simp add: vxi0_def link0_def kErr_defs)
  moreover have "lk_out (link_at ?v 1) = [49, 50, 10] # [[51]]" by simp
  moreover have "(2 :: u32) > 0" by simp
  ultimately have "read_message (Suc (length [49, 50, 10 :: byte])) ?v 1 2 7 =
      Some ([49, 50, 10], set_link 1 ((link_at ?v 1)\<lparr>lk_out := [[51]]\<rparr>) ?v)"
    by (rule read_message_returns_response)
  then show ?thesis by (simp add: numeral_eq_Suc)
qed


subsection \<open>Connections do not disturb each other\<close>

text \<open>
  Lids count up from 1; until the counter wraps (after \<open>2 ^ 31 - 1\<close> links) every lid in use is below it.
  \<open>undisturbed conn v v'\<close>: the links of all other connections are the same, and a lock one of them holds is
  still held by it.
\<close>

definition vxi_lids :: "vxi \<Rightarrow> bool" where
  "vxi_lids v \<longleftrightarrow> (\<forall>lid \<in> al_keys (links v). 1 \<le> lid \<and> lid < nextLid v)"

definition undisturbed :: "u64 \<Rightarrow> vxi \<Rightarrow> vxi \<Rightarrow> bool" where
  "undisturbed conn v v' \<longleftrightarrow>
     drop_conn conn (links v') = drop_conn conn (links v) \<and>
     (lockOwner v \<in> al_keys (drop_conn conn (links v)) \<longrightarrow> lockOwner v' = lockOwner v)"

lemma undisturbed_refl [simp]: "undisturbed conn v v"
  by (simp add: undisturbed_def)

lemma drop_conn_insert:
  assumes "map_of ls lid = Some l" and "lk_conn l = conn" and "lk_conn l' = conn"
  shows "drop_conn conn (al_insert lid l' ls) = drop_conn conn ls"
  using assms
  by (induction lid l' ls rule: al_insert.induct) (auto simp: drop_conn_def split: if_splits)

lemma drop_conn_fresh:
  assumes "lid \<notin> al_keys ls" and "lk_conn l = conn"
  shows "drop_conn conn (al_insert lid l ls) = drop_conn conn ls"
  using assms by (induction lid l ls rule: al_insert.induct) (auto simp: drop_conn_def)

lemma drop_conn_remove:
  assumes "map_of ls lid = Some l" and "lk_conn l = conn" and "distinct (map fst ls)"
  shows "drop_conn conn (al_remove lid ls) = drop_conn conn ls"
proof -
  have "lk_conn l' = conn" if "(lid, l') \<in> set ls" for l'
    using that assms by (simp add: map_of_eq_Some_iff)
  then show ?thesis
    by (auto simp: drop_conn_def al_remove_def intro!: filter_cong)
qed

lemma owns_Some: "owns v lid conn \<longleftrightarrow> (\<exists>l. map_of (links v) lid = Some l \<and> lk_conn l = conn)"
  by (auto simp: owns_def split: option.splits)

lemma owned_not_foreign:
  assumes "owns v lid conn" and "distinct (map fst (links v))"
  shows "lid \<notin> al_keys (drop_conn conn (links v))"
  using assms by (auto simp: owns_Some drop_conn_def dest!: map_of_SomeD dest: eq_key_imp_eq_value)

lemma undisturbed_set_link:
  assumes "owns v lid conn" and "lk_conn l = conn"
  shows "undisturbed conn v (set_link lid l v)"
  using assms by (auto simp: undisturbed_def set_link_def owns_Some drop_conn_insert)

lemma undisturbed_report: "undisturbed conn v v' \<Longrightarrow> undisturbed conn v (report v')"
  by (simp add: undisturbed_def report_def)

lemma undisturbed_createLink:
  assumes "vxi_lids v" and "createLink v lock conn = (x, v')"
  shows "undisturbed conn v v'"
proof -
  have "nextLid v \<notin> al_keys (links v)" using assms(1) by (force simp: vxi_lids_def)
  moreover have "- 1 \<notin> al_keys (drop_conn conn (links v))"
    using assms(1) by (force simp: vxi_lids_def drop_conn_def)
  ultimately show ?thesis
    using assms(2)
    by (auto simp: createLink_def Let_def undisturbed_def set_link_def report_def drop_conn_fresh
        kErr_defs split: if_splits)
qed

lemma undisturbed_deviceWrite:
  assumes "deviceWrite ep (\<lambda>x. x) (v, e) lid flags data conn = (x, (v', e'))"
  shows "undisturbed conn v v'"
proof (cases "checkAccess v lid conn = 0")
  case False
  then show ?thesis using assms by (simp add: deviceWrite_def)
next
  case True
  then have own: "owns v lid conn" by (rule access_owns)
  have set: "undisturbed conn v (set_link lid l v)" if "lk_conn l = conn" for l
    using own that by (rule undisturbed_set_link)
  show ?thesis
    using assms True set owns_conn[OF own]
    by (auto simp: deviceWrite_def Let_def split: if_splits prod.splits)
qed

lemma undisturbed_deviceRead:
  assumes "deviceRead v lid n conn = (x, v')"
  shows "undisturbed conn v v'"
  using assms owns_conn[OF access_owns]
  by (auto simp: deviceRead_def Let_def split: if_splits intro!: undisturbed_set_link access_owns)

lemma undisturbed_deviceClear:
  assumes "deviceClear ep (v, e) lid conn = (x, ve')"
  shows "undisturbed conn v (fst ve')"
  using assms owns_conn[OF access_owns]
  by (auto simp: deviceClear_def Let_def cleared_def split: if_splits intro!: undisturbed_set_link access_owns)

lemma undisturbed_lock:
  assumes "vxi_lids v" and "deviceLock v lid conn = (x, v')"
  shows "undisturbed conn v v'"
proof -
  have "- 1 \<notin> al_keys (drop_conn conn (links v))"
    using assms(1) by (force simp: vxi_lids_def drop_conn_def)
  then show ?thesis
    using assms(2) by (auto simp: deviceLock_def undisturbed_def split: if_splits)
qed

lemma undisturbed_unlock:
  assumes "vxi_inv v" and "deviceUnlock v lid conn = (x, v')"
  shows "undisturbed conn v v'"
  using assms owned_not_foreign[of v lid conn]
  by (auto simp: deviceUnlock_def undisturbed_def vxi_inv_def split: if_splits)

lemma undisturbed_destroy:
  assumes "vxi_inv v" and "destroyLink v lid conn = (x, v')"
  shows "undisturbed conn v v'"
proof (cases "owns v lid conn")
  case False
  then show ?thesis using assms(2) by (simp add: destroyLink_def)
next
  case True
  have d: "distinct (map fst (links v))" using assms(1) by (simp add: vxi_inv_def)
  obtain l where "map_of (links v) lid = Some l" "lk_conn l = conn"
    using True by (auto simp: owns_Some)
  then have "drop_conn conn (al_remove lid (links v)) = drop_conn conn (links v)"
    using d by (rule drop_conn_remove)
  then show ?thesis
    using True assms(2) owned_not_foreign[OF True d]
    by (auto simp: destroyLink_def Let_def undisturbed_def report_def split: if_splits)
qed

text \<open>The same with arguments and results encoded.\<close>

lemma undisturbed_calls:
  "vxi_lids v \<Longrightarrow> call_createLink r conn v = (st, r', res, v') \<Longrightarrow> undisturbed conn v v'"
  "call_deviceWrite ep (\<lambda>x. x) r conn (v, e) = (st, r', res, (v', e')) \<Longrightarrow> undisturbed conn v v'"
  "call_deviceRead r conn v = (st, r', res, v') \<Longrightarrow> undisturbed conn v v'"
  "vxi_lids v \<Longrightarrow> call_lock r conn v = (st, r', res, v') \<Longrightarrow> undisturbed conn v v'"
  "vxi_inv v \<Longrightarrow> call_lid deviceUnlock r conn v = (st, r', res, v') \<Longrightarrow> undisturbed conn v v'"
  "vxi_inv v \<Longrightarrow> call_lid destroyLink r conn v = (st, r', res, v') \<Longrightarrow> undisturbed conn v v'"
       apply (auto simp: call_createLink_def Let_def split: prod.splits if_splits dest: undisturbed_createLink)[1]
      apply (auto simp: call_deviceWrite_def Let_def split: prod.splits if_splits dest: undisturbed_deviceWrite)[1]
     apply (auto simp: call_deviceRead_def Let_def split: prod.splits if_splits dest: undisturbed_deviceRead)[1]
    apply (auto simp: call_lock_def Let_def split: prod.splits if_splits dest: undisturbed_lock)[1]
   apply (auto simp: call_lid_def Let_def split: prod.splits if_splits dest: undisturbed_unlock)[1]
  apply (auto simp: call_lid_def Let_def split: prod.splits if_splits dest: undisturbed_destroy)[1]
  done



end
