(* ===== verification/Hislip.thy ===== *)
theory Hislip
  imports Framing Scpi_Endpoint
begin

text \<open>
  \<open>src/src/service/hislipserver.h\<close> and \<open>hislipserver.cpp\<close>: the HiSLIP server (IVI-6.1).

  Sockets are numbers. \<open>hislip\<close> is the state of \<open>HislipServer\<close> with the interpreter behind its endpoint;
  what the server does to a socket, and the signal \<open>sessionsChanged\<close>, are appended to the log \<open>hs_log\<close>. The
  receive buffer of a connection (\<open>Conn::in\<close>) is the second half of the pair the reader of that connection
  works on. A command may spin an event loop (\<open>m_running\<close>): \<open>during\<close> is what happens to the server
  meanwhile.
\<close>

subsection \<open>Constants\<close>

definition kHeaderSize :: nat where "kHeaderSize = 16"
definition hsMaxMessage :: nat where "hsMaxMessage = 2 ^ 20"
definition hsMaxSessions :: nat where "hsMaxSessions = 16"
definition kMaxPendingConnections :: nat where "kMaxPendingConnections = 4"
definition kServerVersion :: u16 where "kServerVersion = 0x0100"

definition kInitialize :: byte where "kInitialize = 0"
definition kInitializeResponse :: byte where "kInitializeResponse = 1"
definition kFatalError :: byte where "kFatalError = 2"
definition kError :: byte where "kError = 3"
definition kAsyncLock :: byte where "kAsyncLock = 4"
definition kAsyncLockResponse :: byte where "kAsyncLockResponse = 5"
definition kData :: byte where "kData = 6"
definition kDataEnd :: byte where "kDataEnd = 7"
definition kDeviceClearComplete :: byte where "kDeviceClearComplete = 8"
definition kDeviceClearAcknowledge :: byte where "kDeviceClearAcknowledge = 9"
definition kAsyncRemoteLocalControl :: byte where "kAsyncRemoteLocalControl = 10"
definition kAsyncRemoteLocalResponse :: byte where "kAsyncRemoteLocalResponse = 11"
definition kTrigger :: byte where "kTrigger = 12"
definition kAsyncMaximumMessageSize :: byte where "kAsyncMaximumMessageSize = 15"
definition kAsyncMaximumMessageSizeResponse :: byte where "kAsyncMaximumMessageSizeResponse = 16"
definition kAsyncInitialize :: byte where "kAsyncInitialize = 17"
definition kAsyncInitializeResponse :: byte where "kAsyncInitializeResponse = 18"
definition kAsyncDeviceClear :: byte where "kAsyncDeviceClear = 19"
definition kAsyncStatusQuery :: byte where "kAsyncStatusQuery = 21"
definition kAsyncStatusResponse :: byte where "kAsyncStatusResponse = 22"
definition kAsyncDeviceClearAcknowledge :: byte where "kAsyncDeviceClearAcknowledge = 23"
definition kAsyncLockInfo :: byte where "kAsyncLockInfo = 24"
definition kAsyncLockInfoResponse :: byte where "kAsyncLockInfoResponse = 25"

lemmas hs_types = kInitialize_def kInitializeResponse_def kFatalError_def kError_def kAsyncLock_def
  kAsyncLockResponse_def kData_def kDataEnd_def kDeviceClearComplete_def kDeviceClearAcknowledge_def
  kAsyncRemoteLocalControl_def kAsyncRemoteLocalResponse_def kTrigger_def kAsyncMaximumMessageSize_def
  kAsyncMaximumMessageSizeResponse_def kAsyncInitialize_def kAsyncInitializeResponse_def
  kAsyncDeviceClear_def kAsyncStatusQuery_def kAsyncStatusResponse_def
  kAsyncDeviceClearAcknowledge_def kAsyncLockInfo_def kAsyncLockInfoResponse_def

subsection \<open>State\<close>

type_synonym sock = nat

datatype kind = Unknown | Sync | Async

record conn =
  cn_kind :: kind
  cn_session :: u16
  cn_closing :: bool

definition conn0 :: conn where
  "conn0 = \<lparr>cn_kind = Unknown, cn_session = 0, cn_closing = False\<rparr>"

record session =
  se_sync :: sock
  se_async :: "sock option"
  se_buf :: bytes
  se_max :: u64

definition session0 :: "sock \<Rightarrow> session" where
  "session0 s = \<lparr>se_sync = s, se_async = None, se_buf = [], se_max = 272\<rparr>"

datatype hs_effect =
    Write sock bytes
  | Linger sock \<comment> \<open>\<open>disconnectFromHost\<close> after \<open>kFatalLingerMs\<close>\<close>
  | Hangup sock \<comment> \<open>\<open>disconnectFromHost\<close>\<close>
  | Abort sock
  | Delete sock \<comment> \<open>\<open>deleteLater\<close>\<close>
  | Sessions nat \<comment> \<open>\<open>sessionsChanged\<close>\<close>

record 'e hislip =
  hs_conns :: "(sock \<times> conn) list"
  hs_sessions :: "(u16 \<times> session) list"
  hs_next :: u16
  hs_running :: nat
  hs_released :: "sock list"
  hs_dev :: 'e
  hs_log :: "hs_effect list"

definition hislip0 :: "'e \<Rightarrow> 'e hislip" where
  "hislip0 e = \<lparr>hs_conns = [], hs_sessions = [], hs_next = 1, hs_running = 0, hs_released = [],
     hs_dev = e, hs_log = []\<rparr>"

definition hs_emit :: "hs_effect \<Rightarrow> 'e hislip \<Rightarrow> 'e hislip" where
  "hs_emit x h = h\<lparr>hs_log := hs_log h @ [x]\<rparr>"

definition set_conn :: "sock \<Rightarrow> conn \<Rightarrow> 'e hislip \<Rightarrow> 'e hislip" where
  "set_conn s c h = h\<lparr>hs_conns := al_insert s c (hs_conns h)\<rparr>"

definition set_session :: "u16 \<Rightarrow> session \<Rightarrow> 'e hislip \<Rightarrow> 'e hislip" where
  "set_session i x h = h\<lparr>hs_sessions := al_insert i x (hs_sessions h)\<rparr>"

lemma hislip0_sel [simp]:
  "hs_conns (hislip0 e) = []" "hs_sessions (hislip0 e) = []" "hs_log (hislip0 e) = []"
  "hs_dev (hislip0 e) = e" "hs_running (hislip0 e) = 0" "hs_released (hislip0 e) = []"
  by (simp_all add: hislip0_def)

subsection \<open>Sending\<close>

definition hs_frame :: "byte \<Rightarrow> byte \<Rightarrow> u32 \<Rightarrow> bytes \<Rightarrow> bytes" where
  "hs_frame type ctrl param payload =
     asc ''HS'' @ [type] @ [ctrl] @ be32 param @ be64 (of_nat (length payload)) @ payload"

definition hs_send :: "sock \<Rightarrow> byte \<Rightarrow> byte \<Rightarrow> u32 \<Rightarrow> bytes \<Rightarrow> 'e hislip \<Rightarrow> 'e hislip" where
  "hs_send s type ctrl param payload h = hs_emit (Write s (hs_frame type ctrl param payload)) h"

text \<open>The pieces \<open>sendData\<close> cuts a response into, as (type, payload).\<close>

function hs_pieces :: "nat \<Rightarrow> bytes \<Rightarrow> (byte \<times> bytes) list" where
  "hs_pieces chunk data =
     (if data = [] \<or> chunk = 0 then []
      else (if length data \<le> chunk then kDataEnd else kData, take chunk data)
        # hs_pieces chunk (drop chunk data))"
  by pat_completeness auto
termination
  by (relation "measure (\<lambda>(chunk, data). length data)") auto

declare hs_pieces.simps [simp del]

definition hs_chunk :: "u64 \<Rightarrow> nat" where
  "hs_chunk clientMaxMsg =
     (let maxMsg = min (unat clientMaxMsg) (2 ^ 30) in max 1 (maxMsg - kHeaderSize))"

definition hs_sendData :: "sock \<Rightarrow> session \<Rightarrow> bytes \<Rightarrow> u32 \<Rightarrow> 'e hislip \<Rightarrow> 'e hislip" where
  "hs_sendData s sess data msgId h =
     fold (\<lambda>(type, part). hs_send s type 0 msgId part) (hs_pieces (hs_chunk (se_max sess)) data) h"

definition hs_sendFatal :: "sock \<Rightarrow> byte \<Rightarrow> string \<Rightarrow> 'e hislip \<Rightarrow> 'e hislip" where
  "hs_sendFatal s code text h =
     (let h = hs_send s kFatalError code 0 (asc text) h in
      case map_of (hs_conns h) s of
        None \<Rightarrow> hs_emit (Hangup s) h
      | Some c \<Rightarrow> hs_emit (Linger s) (set_conn s (c\<lparr>cn_closing := True\<rparr>) h))"

definition hs_sendError :: "sock \<Rightarrow> byte \<Rightarrow> string \<Rightarrow> 'e hislip \<Rightarrow> 'e hislip" where
  "hs_sendError s code text h = hs_send s kError code 0 (asc text) h"

subsection \<open>Connections\<close>

definition hs_release :: "sock \<Rightarrow> 'e hislip \<Rightarrow> 'e hislip" where
  "hs_release s h =
     (if hs_running h > 0 then h\<lparr>hs_released := hs_released h @ [s]\<rparr> else hs_emit (Delete s) h)"

definition hs_newConnection :: "sock \<Rightarrow> 'e hislip \<Rightarrow> 'e hislip" where
  "hs_newConnection s h =
     (if length (hs_conns h) \<ge> 2 * hsMaxSessions + kMaxPendingConnections
      then hs_emit (Delete s) (hs_emit (Abort s) h)
      else set_conn s conn0 h)"

text \<open>The timer of a new connection, \<open>kSetupTimeoutMs\<close> later.\<close>

definition hs_setupTimeout :: "sock \<Rightarrow> 'e hislip \<Rightarrow> 'e hislip" where
  "hs_setupTimeout s h =
     (case map_of (hs_conns h) s of
        None \<Rightarrow> h
      | Some c \<Rightarrow>
          if cn_closing c then h
          else let complete =
                 (if cn_kind c = Sync
                  then (case map_of (hs_sessions h) (cn_session c) of
                          None \<Rightarrow> False | Some x \<Rightarrow> se_async x \<noteq> None)
                  else cn_kind c = Async)
               in if complete then h else hs_emit (Hangup s) h)"

definition hs_disconnected :: "sock \<Rightarrow> 'e hislip \<Rightarrow> 'e hislip" where
  "hs_disconnected s h =
     (let c = (case map_of (hs_conns h) s of None \<Rightarrow> conn0 | Some c \<Rightarrow> c);
          h = h\<lparr>hs_conns := al_remove s (hs_conns h)\<rparr>;
          h = (if cn_kind c \<noteq> Unknown
               then (case map_of (hs_sessions h) (cn_session c) of
                       None \<Rightarrow> h
                     | Some x \<Rightarrow>
                         let peer = (if cn_kind c = Sync then se_async x else Some (se_sync x));
                             h = h\<lparr>hs_sessions := al_remove (cn_session c) (hs_sessions h)\<rparr>;
                             h = (if peer \<noteq> None \<and> peer \<noteq> Some s then hs_emit (Hangup (the peer)) h else h)
                         in hs_emit (Sessions (length (hs_sessions h))) h)
               else h)
      in hs_release s h)"

definition hs_stop :: "'e hislip \<Rightarrow> 'e hislip" where
  "hs_stop h =
     (let sockets = map fst (hs_conns h);
          had = hs_sessions h \<noteq> [];
          h = h\<lparr>hs_conns := [], hs_sessions := []\<rparr>;
          h = fold (\<lambda>s h. hs_release s (hs_emit (Abort s) h)) sockets h
      in if had then hs_emit (Sessions 0) h else h)"

text \<open>
  \<open>newSessionId\<close>: the fuel is the number of sessions and two, one for each id that may be taken, one for 0
  and one that is then free (\<open>new_id_free\<close>).
\<close>

fun new_id :: "nat \<Rightarrow> (u16 \<times> session) list \<Rightarrow> u16 \<Rightarrow> u16 \<times> u16" where
  "new_id 0 sessions next = (next, next + 1)"
| "new_id (Suc n) sessions next =
     (if next = 0 \<or> al_has next sessions then new_id n sessions (next + 1) else (next, next + 1))"

definition newSessionId :: "'e hislip \<Rightarrow> u16 \<times> 'e hislip" where
  "newSessionId h =
     (case new_id (length (hs_sessions h) + 2) (hs_sessions h) (hs_next h) of
        (i, next) \<Rightarrow> (i, h\<lparr>hs_next := next\<rparr>))"

subsection \<open>Messages\<close>

text \<open>The responses of one message, when the client is still there after it ran.\<close>

definition hs_answer :: "sock \<Rightarrow> u32 \<Rightarrow> bytes list \<Rightarrow> 'e hislip \<Rightarrow> 'e hislip" where
  "hs_answer s param responses h =
     (case map_of (hs_conns h) s of
        None \<Rightarrow> h
      | Some c \<Rightarrow>
          if cn_closing c then h
          else (case map_of (hs_sessions h) (cn_session c) of
                  None \<Rightarrow> h
                | Some x \<Rightarrow> fold (\<lambda>response. hs_sendData s x response param) responses h))"

definition hs_run ::
    "'e scpi_endpoint \<Rightarrow> ('e hislip \<Rightarrow> 'e hislip) \<Rightarrow> bytes \<Rightarrow> 'e hislip \<Rightarrow> bytes list \<times> 'e hislip" where
  "hs_run ep during msg h =
     (let h = h\<lparr>hs_running := hs_running h + 1\<rparr>;
          (responses, e) = ep_run ep msg (hs_dev h);
          h = during (h\<lparr>hs_dev := e\<rparr>);
          h = h\<lparr>hs_running := hs_running h - 1\<rparr>;
          h = (if hs_running h = 0
               then (fold (\<lambda>gone. hs_emit (Delete gone)) (hs_released h) h)\<lparr>hs_released := []\<rparr> else h)
      in (responses, h))"

definition hs_handleSync ::
    "'e scpi_endpoint \<Rightarrow> ('e hislip \<Rightarrow> 'e hislip) \<Rightarrow> sock \<Rightarrow> u16 \<Rightarrow> session \<Rightarrow> byte \<Rightarrow> u32 \<Rightarrow> bytes
      \<Rightarrow> 'e hislip \<Rightarrow> 'e hislip" where
  "hs_handleSync ep during s sid sess type param payload h =
     (if se_async sess = None then hs_sendFatal s 2 ''Asynchronous channel not established'' h
      else if type = kData \<or> type = kDataEnd then
        (if length (se_buf sess) + length payload > hsMaxMessage
         then hs_sendFatal s 0 ''Message too large'' (set_session sid (sess\<lparr>se_buf := []\<rparr>) h)
         else if type = kData
         then set_session sid (sess\<lparr>se_buf := se_buf sess @ payload\<rparr>) h
         else case hs_run ep during (se_buf sess @ payload) (set_session sid (sess\<lparr>se_buf := []\<rparr>) h) of
                (responses, h) \<Rightarrow> hs_answer s param responses h)
      else if type = kTrigger then h
      else if type = kDeviceClearComplete
      then hs_send s kDeviceClearAcknowledge 0 0 [] (set_session sid (sess\<lparr>se_buf := []\<rparr>) h)
      else hs_sendError s 1 ''Unrecognized message type on synchronous channel'' h)"

definition hs_handleAsync ::
    "'e scpi_endpoint \<Rightarrow> sock \<Rightarrow> u16 \<Rightarrow> session \<Rightarrow> byte \<Rightarrow> byte \<Rightarrow> bytes \<Rightarrow> 'e hislip \<Rightarrow> 'e hislip" where
  "hs_handleAsync ep s sid sess type ctrl payload h =
     (if type = kAsyncStatusQuery then hs_send s kAsyncStatusResponse (ep_stb ep (hs_dev h)) 0 [] h
      else if type = kAsyncMaximumMessageSize then
        (if length payload \<noteq> 8 then hs_sendError s 0 ''Bad AsyncMaximumMessageSize payload'' h
         else hs_send s kAsyncMaximumMessageSizeResponse 0 0 (be64 (of_nat hsMaxMessage))
                (set_session sid (sess\<lparr>se_max := de64 payload\<rparr>) h))
      else if type = kAsyncDeviceClear then
        (let h = set_session sid (sess\<lparr>se_buf := []\<rparr>) h;
             h = h\<lparr>hs_dev := ep_clear ep (hs_dev h)\<rparr>
         in hs_send s kAsyncDeviceClearAcknowledge 0 0 [] h)
      else if type = kAsyncLock then hs_send s kAsyncLockResponse (if ctrl = 1 then 0 else 3) 0 [] h
      else if type = kAsyncLockInfo then hs_send s kAsyncLockInfoResponse 0 0 [] h
      else if type = kAsyncRemoteLocalControl then hs_send s kAsyncRemoteLocalResponse 0 0 [] h
      else hs_sendError s 1 ''Unrecognized message type on asynchronous channel'' h)"

definition hs_initialize :: "sock \<Rightarrow> conn \<Rightarrow> 'e hislip \<Rightarrow> 'e hislip" where
  "hs_initialize s c h =
     (if cn_kind c \<noteq> Unknown then hs_sendFatal s 3 ''Invalid initialization sequence'' h
      else if length (hs_sessions h) \<ge> hsMaxSessions
      then hs_sendFatal s 4 ''Maximum number of clients exceeded'' h
      else case newSessionId h of (i, h) \<Rightarrow>
        (let h = set_session i (session0 s) h;
             h = set_conn s (c\<lparr>cn_kind := Sync, cn_session := i\<rparr>) h
         in hs_send s kInitializeResponse 0 (push_bit 16 (ucast kServerVersion) OR ucast i) [] h))"

definition hs_asyncInitialize :: "sock \<Rightarrow> conn \<Rightarrow> u32 \<Rightarrow> 'e hislip \<Rightarrow> 'e hislip" where
  "hs_asyncInitialize s c param h =
     (let i = ucast (param AND 0xFFFF) in
      case map_of (hs_sessions h) i of
        None \<Rightarrow> hs_sendFatal s 3 ''Invalid initialization sequence'' h
      | Some x \<Rightarrow>
          if cn_kind c \<noteq> Unknown \<or> se_async x \<noteq> None
          then hs_sendFatal s 3 ''Invalid initialization sequence'' h
          else let h = set_session i (x\<lparr>se_async := Some s\<rparr>) h;
                   h = set_conn s (c\<lparr>cn_kind := Async, cn_session := i\<rparr>) h;
                   h = hs_send s kAsyncInitializeResponse 0 (push_bit 24 0x51 OR push_bit 16 0x44) [] h
               in hs_emit (Sessions (length (hs_sessions h))) h)"

definition hs_dispatch ::
    "'e scpi_endpoint \<Rightarrow> ('e hislip \<Rightarrow> 'e hislip) \<Rightarrow> sock \<Rightarrow> byte \<times> byte \<times> u32 \<times> bytes
      \<Rightarrow> 'e hislip \<Rightarrow> 'e hislip" where
  "hs_dispatch ep during s m h =
     (case m of (type, ctrl, param, payload) \<Rightarrow>
      case map_of (hs_conns h) s of
        None \<Rightarrow> h
      | Some c \<Rightarrow>
          if type = kInitialize then hs_initialize s c h
          else if type = kAsyncInitialize then hs_asyncInitialize s c param h
          else if cn_kind c = Unknown then hs_sendFatal s 2 ''Channel not initialized'' h
          else case map_of (hs_sessions h) (cn_session c) of
                 None \<Rightarrow> hs_sendFatal s 0 ''Unknown session'' h
               | Some x \<Rightarrow>
                   if cn_kind c = Sync
                   then hs_handleSync ep during s (cn_session c) x type param payload h
                   else hs_handleAsync ep s (cn_session c) x type ctrl payload h)"

subsection \<open>Framing\<close>

definition hs_alive :: "sock \<Rightarrow> 'e hislip \<Rightarrow> bool" where
  "hs_alive s h = (case map_of (hs_conns h) s of None \<Rightarrow> False | Some c \<Rightarrow> \<not> cn_closing c)"

text \<open>
  One turn of the loop of \<open>onReadyRead\<close>. A malformed header, and a message too large as soon as its header is
  there, end the connection with the FatalError given.
\<close>

definition hs_take :: "bytes \<Rightarrow> (byte \<times> byte \<times> u32 \<times> bytes, byte \<times> string) piece" where
  "hs_take b =
     (if length b < kHeaderSize then More
      else if b ! 0 \<noteq> of_char CHR ''H'' \<or> b ! 1 \<noteq> of_char CHR ''S''
      then Bad (1, ''Poorly formed message header'')
      else let len = unat (de64 (take 8 (drop 8 b))) in
        if len > hsMaxMessage then Bad (0, ''Message too large'')
        else if length b < kHeaderSize + len then More
        else Cut (b ! 2, b ! 3, de32 (take 4 (drop 4 b)), take len (drop kHeaderSize b))
               (drop (kHeaderSize + len) b))"

definition hs_bad :: "sock \<Rightarrow> byte \<times> string \<Rightarrow> 'e hislip \<Rightarrow> 'e hislip" where
  "hs_bad s e h = hs_sendFatal s (fst e) (snd e) h"

definition hs_ready_read ::
    "'e scpi_endpoint \<Rightarrow> ('e hislip \<Rightarrow> 'e hislip) \<Rightarrow> sock \<Rightarrow> 'e hislip \<times> bytes \<Rightarrow> bytes \<Rightarrow> 'e hislip \<times> bytes"
  where
  "hs_ready_read ep during s hb x =
     (case hb of (h, b) \<Rightarrow> pump (hs_alive s) (\<lambda>_. hs_take) (hs_bad s) (hs_dispatch ep during s) h (b @ x))"

subsection \<open>The events\<close>

text \<open>
  The server with the receive buffer of every connection. \<open>hs_step\<close> is one turn of the event loop: a socket
  accepted (a new one, so none the server knows), bytes arrived, a socket closed, a setup timer run out, the
  server stopped.
\<close>

type_synonym 'e hs_world = "'e hislip \<times> (sock \<Rightarrow> bytes)"

inductive hs_step :: "'e scpi_endpoint \<Rightarrow> ('e hislip \<Rightarrow> 'e hislip) \<Rightarrow> 'e hs_world \<Rightarrow> 'e hs_world \<Rightarrow> bool"
  for ep during where
  accepted: "s \<notin> al_keys (hs_conns h) \<Longrightarrow>
    hs_step ep during (h, bufs) (hs_newConnection s h, bufs(s := []))"
| arrived: "hs_ready_read ep during s (h, bufs s) x = (h', b) \<Longrightarrow>
    hs_step ep during (h, bufs) (h', bufs(s := b))"
| closed: "hs_step ep during (h, bufs) (hs_disconnected s h, bufs(s := []))"
| timeout: "hs_step ep during (h, bufs) (hs_setupTimeout s h, bufs)"
| stopped: "hs_step ep during (h, bufs) (hs_stop h, (\<lambda>_. []))"

inductive hs_reach :: "'e scpi_endpoint \<Rightarrow> ('e hislip \<Rightarrow> 'e hislip) \<Rightarrow> 'e \<Rightarrow> 'e hs_world \<Rightarrow> bool"
  for ep during e where
  init: "hs_reach ep during e (hislip0 e, (\<lambda>_. []))"
| step: "hs_reach ep during e w \<Longrightarrow> hs_step ep during w w' \<Longrightarrow> hs_reach ep during e w'"

inductive_cases hs_stepE: "hs_step ep during (h, bufs) w'"

subsection \<open>The reader does not depend on how the stream was cut\<close>

lemma alive_conns: "hs_conns h = hs_conns h' \<Longrightarrow> hs_alive s h = hs_alive s h'"
  by (simp add: hs_alive_def)

lemma fatal_dead [simp]: "\<not> hs_alive s (hs_sendFatal s code text h)"
  by (auto simp: hs_alive_def hs_sendFatal_def hs_send_def hs_emit_def set_conn_def Let_def
      split: option.splits)

text \<open>Once the header is there, it is read off the first 16 bytes alone.\<close>

lemma hs_take_header:
  assumes "16 \<le> length b"
  shows "(b @ x) ! 0 = b ! 0" "(b @ x) ! 1 = b ! 1" "(b @ x) ! 2 = b ! 2" "(b @ x) ! 3 = b ! 3"
    and "take 8 (drop 8 (b @ x)) = take 8 (drop 8 b)" and "take 4 (drop 4 (b @ x)) = take 4 (drop 4 b)"
  using assms by (auto simp: nth_append)

lemma hs_take_Cut:
  "hs_take b = Cut m r \<longleftrightarrow>
     (let len = unat (de64 (take 8 (drop 8 b))) in
      b ! 0 = 72 \<and> b ! 1 = 83 \<and> len \<le> hsMaxMessage \<and> 16 + len \<le> length b \<and>
      m = (b ! 2, b ! 3, de32 (take 4 (drop 4 b)), take len (drop 16 b)) \<and> r = drop (16 + len) b)"
  by (auto simp: hs_take_def kHeaderSize_def Let_def)

lemma hs_take_stable:
  assumes "hs_take b = Cut m r"
  shows "length r < length b \<and> hs_take (b @ x) = Cut m (r @ x)"
proof -
  define len where "len = unat (de64 (take 8 (drop 8 b)))"
  have b: "b ! 0 = 72" "b ! 1 = 83" "len \<le> hsMaxMessage" "16 + len \<le> length b"
    "m = (b ! 2, b ! 3, de32 (take 4 (drop 4 b)), take len (drop 16 b))" "r = drop (16 + len) b"
    using assms by (simp_all add: hs_take_Cut Let_def len_def)
  have l: "16 \<le> length b" using b(4) by simp
  note hd = hs_take_header[OF l, of x, folded len_def]
  have "hs_take (b @ x) = Cut m (r @ x)"
    unfolding hs_take_Cut Let_def hd len_def[symmetric] using b l by simp
  then show ?thesis using b by simp
qed

lemma hs_take_bad_stable:
  assumes "hs_take b = Bad e"
  shows "hs_take (b @ x) = Bad e"
proof -
  have l: "16 \<le> length b" using assms by (auto simp: hs_take_def kHeaderSize_def split: if_splits)
  show ?thesis
    using assms l unfolding hs_take_def hs_take_header[OF l] kHeaderSize_def
    by (auto simp: Let_def split: if_splits)
qed

interpretation hsf: framer "hs_alive s" "\<lambda>_. hs_take" "hs_bad s" "hs_dispatch ep during s" for s ep during
  by unfold_locales (use hs_take_stable hs_take_bad_stable in \<open>auto simp: hs_bad_def\<close>)

text \<open>An interpreter that logs and echoes, for the witnesses.\<close>

definition hs_echo :: "bytes list scpi_endpoint" where
  "hs_echo = \<lparr>ep_process = Some (\<lambda>b e. (b, e @ [b])), ep_status_byte = None, ep_device_clear = None\<rparr>"

lemma hs_ready_read_stream: "hs_ready_read ep during s =
    (\<lambda>(h, b) x. pump (hs_alive s) (\<lambda>_. hs_take) (hs_bad s) (hs_dispatch ep during s) h (b @ x))"
  by (auto simp: hs_ready_read_def fun_eq_iff)

text \<open>
  What the HiSLIP server does with the bytes of a connection (messages run, answers and errors sent,
  sessions opened, bytes left over) is the same however the stream is cut into pieces.
\<close>

theorem hs_segmentation_irrelevant:
  assumes "concat cs = concat ds" and "cs \<noteq> []" and "ds \<noteq> []"
  shows "foldl (hs_ready_read ep during s) hb cs = foldl (hs_ready_read ep during s) hb ds"
  unfolding hs_ready_read_stream using assms by (rule hsf.stream.segmentation_irrelevant)

theorem hs_segmentation_irrelevant_witness:
  "foldl (hs_ready_read hs_echo (\<lambda>h. h) 1) (hs_newConnection 1 (hislip0 []), []) [[72, 83], [0, 0], [0]] =
   foldl (hs_ready_read hs_echo (\<lambda>h. h) 1) (hs_newConnection 1 (hislip0 []), []) [[72], [83, 0, 0, 0]]"
  by (rule hs_segmentation_irrelevant) simp_all

subsection \<open>A fresh session id is always found\<close>

lemma new_id_taken:
  "fst (new_id n ss next) \<in> insert 0 (al_keys ss) \<Longrightarrow> k < n \<Longrightarrow> next + of_nat k \<in> insert 0 (al_keys ss)"
proof (induction n ss "next" arbitrary: k rule: new_id.induct)
  case (1 sessions "next")
  then show ?case by simp
next
  case (2 n sessions "next")
  show ?case
  proof (cases "next = 0 \<or> al_has next sessions")
    case False
    then show ?thesis using "2.prems" by (simp add: al_has_iff)
  next
    case True
    show ?thesis
    proof (cases k)
      case 0
      then show ?thesis using True by (simp add: al_has_iff)
    next
      case (Suc j)
      have "next + 1 + of_nat j \<in> insert 0 (al_keys sessions)"
        using "2.IH"[OF True, of j] "2.prems" True Suc by simp
      then show ?thesis using Suc by (simp add: add.assoc)
    qed
  qed
qed

lemma new_id_free:
  assumes "length ss + 2 \<le> 2 ^ 16"
  shows "fst (new_id (length ss + 2) ss next) \<noteq> 0 \<and> fst (new_id (length ss + 2) ss next) \<notin> al_keys ss"
proof (rule ccontr)
  let ?n = "length ss + 2"
  assume "\<not> ?thesis"
  then have "(\<lambda>k. next + of_nat k) ` {..<?n} \<subseteq> insert 0 (al_keys ss)"
    using new_id_taken[of ?n ss "next"] by blast
  then have "card ((\<lambda>k. next + of_nat k) ` {..<?n}) \<le> card (insert 0 (al_keys ss))"
    by (intro card_mono) auto
  moreover have "inj_on (\<lambda>k. next + of_nat k :: u16) {..<?n}"
  proof (rule inj_onI)
    fix j k
    assume jk: "j \<in> {..<?n}" "k \<in> {..<?n}" and eq: "next + of_nat j = next + (of_nat k :: u16)"
    have "unat (of_nat j :: u16) = j" "unat (of_nat k :: u16) = k"
      using assms jk by (simp_all add: unat_of_nat)
    then show "j = k" using eq by (metis add_left_cancel)
  qed
  then have "card ((\<lambda>k. next + of_nat k) ` {..<?n}) = ?n"
    by (simp add: card_image)
  moreover have "card (insert 0 (al_keys ss)) \<le> Suc (length ss)"
    using card_image_le[of "set ss" fst] card_length[of ss] by (simp add: card_insert_if)
  ultimately show False by simp
qed

subsection \<open>The invariant\<close>

text \<open>
  At most 36 connections and 16 sessions, one entry per socket and per id, no session with id 0; a session's
  sockets are connections the server has, of the right kind and of that session; no message being collected
  is larger than the largest message.
\<close>

definition has_conn :: "'e hislip \<Rightarrow> sock \<Rightarrow> kind \<Rightarrow> u16 \<Rightarrow> bool" where
  "has_conn h s k i =
     (case map_of (hs_conns h) s of None \<Rightarrow> False | Some c \<Rightarrow> cn_kind c = k \<and> cn_session c = i)"

definition session_ok :: "'e hislip \<Rightarrow> u16 \<Rightarrow> session \<Rightarrow> bool" where
  "session_ok h i x \<longleftrightarrow>
     i \<noteq> 0 \<and> length (se_buf x) \<le> hsMaxMessage \<and> has_conn h (se_sync x) Sync i \<and>
     (case se_async x of None \<Rightarrow> True | Some a \<Rightarrow> has_conn h a Async i)"

definition hs_inv :: "'e hislip \<Rightarrow> bool" where
  "hs_inv h \<longleftrightarrow>
     distinct (map fst (hs_conns h)) \<and> length (hs_conns h) \<le> 2 * hsMaxSessions + kMaxPendingConnections \<and>
     distinct (map fst (hs_sessions h)) \<and> length (hs_sessions h) \<le> hsMaxSessions \<and>
     (\<forall>i x. map_of (hs_sessions h) i = Some x \<longrightarrow> session_ok h i x)"

lemma hs_inv_init [simp]: "hs_inv (hislip0 e)"
  by (simp add: hs_inv_def hislip0_def)

text \<open>The invariant looks at the connections and the sessions only.\<close>

lemma has_conn_cong: "hs_conns h = hs_conns h' \<Longrightarrow> has_conn h = has_conn h'"
  by (simp add: has_conn_def fun_eq_iff)

lemma session_ok_cong: "hs_conns h = hs_conns h' \<Longrightarrow> session_ok h = session_ok h'"
proof -
  assume "hs_conns h = hs_conns h'"
  then have "has_conn h = has_conn h'" by (rule has_conn_cong)
  then show ?thesis by (simp only: session_ok_def fun_eq_iff simp_thms)
qed

lemma hs_inv_cong:
  "hs_conns h = hs_conns h' \<Longrightarrow> hs_sessions h = hs_sessions h' \<Longrightarrow> hs_inv h = hs_inv h'"
  by (simp add: hs_inv_def session_ok_cong[of h h'])

lemma hs_emit_sel [simp]:
  "hs_conns (hs_emit x h) = hs_conns h" "hs_sessions (hs_emit x h) = hs_sessions h"
  "hs_dev (hs_emit x h) = hs_dev h" "hs_running (hs_emit x h) = hs_running h"
  "hs_released (hs_emit x h) = hs_released h" "hs_next (hs_emit x h) = hs_next h"
  "hs_log (hs_emit x h) = hs_log h @ [x]"
  by (simp_all add: hs_emit_def)

lemma hs_send_sel [simp]:
  "hs_conns (hs_send s t c p b h) = hs_conns h" "hs_sessions (hs_send s t c p b h) = hs_sessions h"
  "hs_dev (hs_send s t c p b h) = hs_dev h" "hs_running (hs_send s t c p b h) = hs_running h"
  "hs_released (hs_send s t c p b h) = hs_released h" "hs_next (hs_send s t c p b h) = hs_next h"
  "hs_log (hs_send s t c p b h) = hs_log h @ [Write s (hs_frame t c p b)]"
  by (simp_all add: hs_send_def)

lemma hs_sendError_sel [simp]:
  "hs_conns (hs_sendError s c t h) = hs_conns h" "hs_sessions (hs_sendError s c t h) = hs_sessions h"
  "hs_dev (hs_sendError s c t h) = hs_dev h"
  by (simp_all add: hs_sendError_def)

lemma set_session_sel [simp]:
  "hs_conns (set_session i x h) = hs_conns h" "hs_dev (set_session i x h) = hs_dev h"
  "hs_sessions (set_session i x h) = al_insert i x (hs_sessions h)" "hs_log (set_session i x h) = hs_log h"
  by (simp_all add: set_session_def)

lemma set_conn_sel [simp]:
  "hs_sessions (set_conn s c h) = hs_sessions h" "hs_dev (set_conn s c h) = hs_dev h"
  "hs_conns (set_conn s c h) = al_insert s c (hs_conns h)" "hs_log (set_conn s c h) = hs_log h"
  by (simp_all add: set_conn_def)

lemma sendData_sel [simp]:
  "hs_conns (hs_sendData s x d p h) = hs_conns h" "hs_sessions (hs_sendData s x d p h) = hs_sessions h"
  "hs_dev (hs_sendData s x d p h) = hs_dev h"
proof -
  have "hs_conns (fold (\<lambda>(type, part). hs_send s type 0 p part) ps h) = hs_conns h \<and>
      hs_sessions (fold (\<lambda>(type, part). hs_send s type 0 p part) ps h) = hs_sessions h \<and>
      hs_dev (fold (\<lambda>(type, part). hs_send s type 0 p part) ps h) = hs_dev h" for ps
    by (induction ps arbitrary: h) auto
  then show "hs_conns (hs_sendData s x d p h) = hs_conns h"
    "hs_sessions (hs_sendData s x d p h) = hs_sessions h" "hs_dev (hs_sendData s x d p h) = hs_dev h"
    by (simp_all add: hs_sendData_def)
qed

lemma hs_answer_sel [simp]:
  "hs_conns (hs_answer s p rs h) = hs_conns h" "hs_sessions (hs_answer s p rs h) = hs_sessions h"
  "hs_dev (hs_answer s p rs h) = hs_dev h"
proof -
  have "hs_conns (fold (\<lambda>r. hs_sendData s x r p) rs h) = hs_conns h \<and>
      hs_sessions (fold (\<lambda>r. hs_sendData s x r p) rs h) = hs_sessions h \<and>
      hs_dev (fold (\<lambda>r. hs_sendData s x r p) rs h) = hs_dev h" for x
    by (induction rs arbitrary: h) auto
  then show "hs_conns (hs_answer s p rs h) = hs_conns h" "hs_sessions (hs_answer s p rs h) = hs_sessions h"
    "hs_dev (hs_answer s p rs h) = hs_dev h"
    by (simp_all add: hs_answer_def split: option.splits)
qed

lemma key_of_Some: "map_of xs k = Some v \<Longrightarrow> k \<in> al_keys xs"
  by (auto dest!: map_of_SomeD intro: rev_image_eqI)

text \<open>Changing a connection without its kind and session, and a session without its sockets.\<close>

lemma set_conn_inv [inv_intros]:
  assumes "hs_inv h" and "map_of (hs_conns h) s = Some c" and "cn_kind c' = cn_kind c" and "cn_session c' = cn_session c"
  shows "hs_inv (set_conn s c' h)"
proof -
  have "has_conn (set_conn s c' h) = has_conn h"
    using assms by (auto simp: has_conn_def fun_eq_iff split: option.splits)
  then have "session_ok (set_conn s c' h) = session_ok h"
    by (simp only: session_ok_def fun_eq_iff simp_thms)
  then show ?thesis
    using assms key_of_Some[OF assms(2)] by (simp add: hs_inv_def length_al_insert)
qed

lemma set_session_inv [inv_intros]:
  assumes "hs_inv h" and "map_of (hs_sessions h) i = Some x"
    and "se_sync x' = se_sync x" and "se_async x' = se_async x" and "length (se_buf x') \<le> hsMaxMessage"
  shows "hs_inv (set_session i x' h)"
proof -
  have same: "session_ok (set_session i x' h) = session_ok h" by (rule session_ok_cong) simp
  have "session_ok h i x" using assms by (simp add: hs_inv_def)
  then have "session_ok h i x'" using assms by (simp add: session_ok_def)
  then show ?thesis
    using assms key_of_Some[OF assms(2)] by (simp add: hs_inv_def same length_al_insert)
qed

lemma inv_only_conns_sessions [simp]:
  "hs_inv (hs_emit x h) = hs_inv h" "hs_inv (hs_send s t c p b h) = hs_inv h"
  "hs_inv (hs_sendError s code text h) = hs_inv h" "hs_inv (hs_answer s q rs h) = hs_inv h"
  "hs_inv (h\<lparr>hs_dev := e\<rparr>) = hs_inv h" "hs_inv (h\<lparr>hs_running := n\<rparr>) = hs_inv h"
  "hs_inv (h\<lparr>hs_released := gs\<rparr>) = hs_inv h" "hs_inv (h\<lparr>hs_next := i\<rparr>) = hs_inv h"
  by (rule hs_inv_cong; simp)+

lemma sendFatal_inv [inv_intros]: "hs_inv h \<Longrightarrow> hs_inv (hs_sendFatal s code text h)"
  by (auto simp: hs_sendFatal_def Let_def split: option.splits intro: set_conn_inv)

lemma release_sel [simp]:
  "hs_conns (hs_release s h) = hs_conns h" "hs_sessions (hs_release s h) = hs_sessions h"
  by (simp_all add: hs_release_def)

lemma release_inv [simp]: "hs_inv (hs_release s h) = hs_inv h"
  by (rule hs_inv_cong) simp_all

text \<open>The operations.\<close>

lemma has_conn_new: "map_of (hs_conns h) s = None \<Longrightarrow> has_conn h s' k i \<Longrightarrow> has_conn (set_conn s c h) s' k i"
  by (auto simp: has_conn_def split: option.splits)

lemma session_ok_new:
  "map_of (hs_conns h) s = None \<Longrightarrow> session_ok h i x \<Longrightarrow> session_ok (set_conn s c h) i x"
  by (auto simp: session_ok_def has_conn_new split: option.splits)

lemma newConnection_inv [inv_intros]:
  assumes "hs_inv h" and "s \<notin> al_keys (hs_conns h)"
  shows "hs_inv (hs_newConnection s h)"
proof -
  have "map_of (hs_conns h) s = None" using assms(2) by (simp add: map_of_eq_None_iff)
  then show ?thesis
    using assms session_ok_new[of h s]
    by (auto simp: hs_newConnection_def hs_inv_def[of "set_conn s conn0 h"] hs_inv_def[of h] length_al_insert)
qed

lemma setupTimeout_inv [inv_intros]: "hs_inv h \<Longrightarrow> hs_inv (hs_setupTimeout s h)"
  by (auto simp: hs_setupTimeout_def Let_def split: option.splits)

lemma stop_inv [inv_intros]: "hs_inv h \<Longrightarrow> hs_inv (hs_stop h)"
proof -
  have "hs_conns (fold (\<lambda>s h. hs_release s (hs_emit (Abort s) h)) ss h) = hs_conns h \<and>
        hs_sessions (fold (\<lambda>s h. hs_release s (hs_emit (Abort s) h)) ss h) = hs_sessions h"
    for ss and h :: "'a hislip"
    by (induction ss arbitrary: h) auto
  then have "hs_inv (fold (\<lambda>s h. hs_release s (hs_emit (Abort s) h)) ss (h\<lparr>hs_conns := [], hs_sessions := []\<rparr>))"
    for ss and h :: "'a hislip"
    by (simp add: hs_inv_def)
  then show "hs_inv (hs_stop h)" by (simp add: hs_stop_def Let_def)
qed

text \<open>A socket that closes takes its session with it, so no session is left with a socket that is gone.\<close>

lemma has_conn_remove:
  "has_conn h s' k i \<Longrightarrow> \<not> has_conn h s k i \<Longrightarrow>
   has_conn (h\<lparr>hs_conns := al_remove s (hs_conns h)\<rparr>) s' k i"
  by (auto simp: has_conn_def split: option.splits)

lemma disconnected_view:
  "hs_conns (hs_disconnected s h) = al_remove s (hs_conns h)"
  "hs_sessions (hs_disconnected s h) =
     (case map_of (hs_conns h) s of None \<Rightarrow> hs_sessions h
      | Some c \<Rightarrow> if cn_kind c = Unknown then hs_sessions h else al_remove (cn_session c) (hs_sessions h))"
proof -
  have "al_remove k xs = xs" if "map_of xs k = None" for k and xs :: "(u16 \<times> session) list"
    using that by (auto simp: al_remove_def map_of_eq_None_iff filter_id_conv)
  then show "hs_conns (hs_disconnected s h) = al_remove s (hs_conns h)"
    "hs_sessions (hs_disconnected s h) =
     (case map_of (hs_conns h) s of None \<Rightarrow> hs_sessions h
      | Some c \<Rightarrow> if cn_kind c = Unknown then hs_sessions h else al_remove (cn_session c) (hs_sessions h))"
    by (auto simp: hs_disconnected_def Let_def conn0_def split: option.splits)
qed

lemma disconnected_inv [inv_intros]:
  assumes inv: "hs_inv h"
  shows "hs_inv (hs_disconnected s h)"
proof -
  let ?h = "hs_disconnected s h"
  have ok: "session_ok ?h i x" if x: "map_of (hs_sessions ?h) i = Some x" for i x
  proof -
    have x0: "map_of (hs_sessions h) i = Some x"
      and gone: "\<And>c. map_of (hs_conns h) s = Some c \<Longrightarrow> cn_kind c \<noteq> Unknown \<Longrightarrow> cn_session c \<noteq> i"
      using x by (auto simp: disconnected_view split: option.splits if_splits)
    have "session_ok h i x" using inv x0 by (auto simp: hs_inv_def)
    moreover have no: "\<not> has_conn h s k i" if "k \<noteq> Unknown" for k
      using gone that by (auto simp: has_conn_def split: option.splits)
    moreover have "has_conn ?h = has_conn (h\<lparr>hs_conns := al_remove s (hs_conns h)\<rparr>)"
      by (rule has_conn_cong) (simp add: disconnected_view)
    ultimately show ?thesis
      by (auto simp: session_ok_def intro!: has_conn_remove split: option.splits)
  qed
  have "length (al_remove s (hs_conns h)) \<le> 2 * hsMaxSessions + kMaxPendingConnections"
    "length (al_remove i (hs_sessions h)) \<le> hsMaxSessions" for i
    using inv length_al_remove_le[of s "hs_conns h"] length_al_remove_le[of i "hs_sessions h"]
    by (simp_all add: hs_inv_def)
  then show ?thesis
    using inv ok by (auto simp: hs_inv_def[of ?h] hs_inv_def[of h] disconnected_view split: option.splits)
qed

lemma newSessionId_free:
  assumes "hs_inv h" and "newSessionId h = (i, h')"
  shows "i \<noteq> 0" and "map_of (hs_sessions h) i = None" and "hs_conns h' = hs_conns h"
    and "hs_sessions h' = hs_sessions h" and "hs_dev h' = hs_dev h"
  using assms new_id_free[of "hs_sessions h" "hs_next h"]
  by (auto simp: newSessionId_def hs_inv_def hsMaxSessions_def map_of_eq_None_iff split: prod.splits)

lemma has_conn_upgrade:
  assumes "map_of (hs_conns h) s = Some c" and "cn_kind c = Unknown" and "has_conn h s' k i" and "k \<noteq> Unknown"
  shows "has_conn (set_conn s c' h) s' k i"
  using assms by (auto simp: has_conn_def split: option.splits)

lemma session_ok_upgrade:
  assumes "map_of (hs_conns h) s = Some c" and "cn_kind c = Unknown" and "session_ok h i x"
  shows "session_ok (set_conn s c' h) i x"
  using assms has_conn_upgrade[OF assms(1,2)] by (auto simp: session_ok_def split: option.splits)

lemma session_ok_sessions [simp]: "session_ok (set_session j y h) i x = session_ok h i x"
  using session_ok_cong[of "set_session j y h" h] by simp

lemma open_session_inv:
  assumes "hs_inv h" and "map_of (hs_conns h) s = Some c" and "cn_kind c = Unknown"
    and "session_ok (set_conn s c' h) i x" and "i \<in> al_keys (hs_sessions h) \<or> length (hs_sessions h) < hsMaxSessions"
  shows "hs_inv (set_conn s c' (set_session i x h))"
proof -
  have same: "session_ok (set_conn s c' (set_session i x h)) = session_ok (set_conn s c' h)"
    by (rule session_ok_cong) simp
  show ?thesis
    using assms session_ok_upgrade[OF assms(2,3)] key_of_Some[OF assms(2)]
    by (auto simp: hs_inv_def same length_al_insert)
qed

lemma initialize_inv [inv_intros]:
  assumes inv: "hs_inv h" and c: "map_of (hs_conns h) s = Some c"
  shows "hs_inv (hs_initialize s c h)"
proof (cases "cn_kind c = Unknown \<and> length (hs_sessions h) < hsMaxSessions")
  case False
  then show ?thesis using inv by (auto simp: hs_initialize_def intro: sendFatal_inv)
next
  case True
  obtain i h' where new: "newSessionId h = (i, h')" by (cases "newSessionId h")
  note f = newSessionId_free[OF inv new]
  have inv': "hs_inv h'" using inv hs_inv_cong[of h h'] f by simp
  have "session_ok (set_conn s (c\<lparr>cn_kind := Sync, cn_session := i\<rparr>) h') i (session0 s)"
    using f by (simp add: session_ok_def session0_def has_conn_def)
  then have "hs_inv (set_conn s (c\<lparr>cn_kind := Sync, cn_session := i\<rparr>) (set_session i (session0 s) h'))"
    using True c f by (intro open_session_inv[OF inv', where c = c]) simp_all
  then show ?thesis using True new by (simp add: hs_initialize_def Let_def)
qed

lemma asyncInitialize_inv [inv_intros]:
  assumes inv: "hs_inv h" and c: "map_of (hs_conns h) s = Some c"
  shows "hs_inv (hs_asyncInitialize s c param h)"
proof -
  define i :: u16 where "i = ucast (param AND 0xFFFF)"
  show ?thesis
  proof (cases "map_of (hs_sessions h) i")
    case None
    then show ?thesis using inv by (simp add: hs_asyncInitialize_def i_def[symmetric] sendFatal_inv)
  next
    case (Some x)
    show ?thesis
    proof (cases "cn_kind c = Unknown \<and> se_async x = None")
      case False
      then show ?thesis using inv Some by (auto simp: hs_asyncInitialize_def i_def[symmetric] sendFatal_inv)
    next
      case True
      have "session_ok h i x" using inv Some by (simp add: hs_inv_def)
      from session_ok_upgrade[OF c _ this]
      have "session_ok (set_conn s (c\<lparr>cn_kind := Async, cn_session := i\<rparr>) h) i (x\<lparr>se_async := Some s\<rparr>)"
        using True by (auto simp: session_ok_def) (simp add: has_conn_def)
      then have "hs_inv (set_conn s (c\<lparr>cn_kind := Async, cn_session := i\<rparr>) (set_session i (x\<lparr>se_async := Some s\<rparr>) h))"
        using True c key_of_Some[OF Some] by (intro open_session_inv[OF inv, where c = c]) simp_all
      then show ?thesis using True Some by (simp add: hs_asyncInitialize_def i_def[symmetric] Let_def)
    qed
  qed
qed

lemma handleAsync_inv [inv_intros]:
  assumes "hs_inv h" and "map_of (hs_sessions h) i = Some x"
  shows "hs_inv (hs_handleAsync ep s i x type ctrl payload h)"
proof -
  have "session_ok h i x" using assms by (simp add: hs_inv_def)
  then show ?thesis
    using assms set_session_inv[OF assms]
    by (auto simp: hs_handleAsync_def Let_def session_ok_def)
qed

text \<open>
  Re-entrancy: what the event loop of a running command does to the server is a sequence of the server's own
  operations, so it keeps the invariant. Under that law every event does.
\<close>

locale hs_reentrant =
  fixes during :: "'e hislip \<Rightarrow> 'e hislip"
  assumes during_inv: "hs_inv h \<Longrightarrow> hs_inv (during h)"
begin

lemma run_inv: "hs_inv h \<Longrightarrow> hs_inv (snd (hs_run ep during msg h))"
proof -
  have "hs_inv (fold (\<lambda>gone. hs_emit (Delete gone)) gs h) = hs_inv h" for gs and h :: "'e hislip"
    by (induction gs arbitrary: h) simp_all
  then show "hs_inv h \<Longrightarrow> hs_inv (snd (hs_run ep during msg h))"
    using during_inv by (auto simp: hs_run_def Let_def split: prod.splits)
qed

lemma handleSync_inv:
  assumes "hs_inv h" and "map_of (hs_sessions h) i = Some x"
  shows "hs_inv (hs_handleSync ep during s i x type param payload h)"
proof -
  note set = set_session_inv[OF assms]
  have "hs_inv (set_session i (x\<lparr>se_buf := []\<rparr>) h)" by (rule set) simp_all
  moreover have "hs_inv (set_session i (x\<lparr>se_buf := se_buf x @ payload\<rparr>) h)"
    if "length (se_buf x) + length payload \<le> hsMaxMessage"
    using that by (intro set) simp_all
  ultimately show ?thesis
    using assms run_inv[of "set_session i (x\<lparr>se_buf := []\<rparr>) h" ep "se_buf x @ payload"]
    by (auto simp: hs_handleSync_def sendFatal_inv split: prod.splits)
qed

lemma dispatch_inv:
  assumes "hs_inv h"
  shows "hs_inv (hs_dispatch ep during s m h)"
  using assms
  by (auto simp: hs_dispatch_def initialize_inv asyncInitialize_inv sendFatal_inv handleSync_inv
      handleAsync_inv split: prod.splits option.splits)

lemma ready_read_inv:
  assumes "hs_inv h" and "hs_ready_read ep during s (h, b) x = (h', b')"
  shows "hs_inv h'"
proof -
  have "hs_inv (fst (pump (hs_alive s) (\<lambda>_. hs_take) (hs_bad s) (hs_dispatch ep during s) h (b @ x)))"
    by (rule hsf.pump_induct[where P = hs_inv])
      (use assms(1) dispatch_inv in \<open>simp_all add: hs_bad_def sendFatal_inv\<close>)
  then show ?thesis using assms(2) by (simp add: hs_ready_read_def)
qed

lemma step_inv:
  assumes "hs_step ep during w w'" and "hs_inv (fst w)"
  shows "hs_inv (fst w')"
  using assms
  by (induction rule: hs_step.induct)
    (auto simp: newConnection_inv disconnected_inv setupTimeout_inv stop_inv dest: ready_read_inv)

lemma reach_inv: "hs_reach ep during e w \<Longrightarrow> hs_inv (fst w)"
  by (induction rule: hs_reach.induct) (auto dest: step_inv)

end

interpretation hs_calm: hs_reentrant "\<lambda>h. h"
  by unfold_locales

interpretation hs_hangup: hs_reentrant "hs_disconnected s" for s
  by unfold_locales (rule disconnected_inv)

interpretation hs_stopped: hs_reentrant hs_stop
  by unfold_locales (rule stop_inv)

text \<open>
  C3: In every state the HiSLIP server can reach, also when commands let clients come and go or stop the
  server while they run, it has at most 16 sessions on at most 36 connections, no two with one id and none
  with id 0; both channels of a session are connections of that session, and no message being collected is
  larger than 1 MiB.
\<close>

theorem hs_reachable_inv:
  assumes "\<And>h. hs_inv h \<Longrightarrow> hs_inv (during h)" and "hs_reach ep during e (h, bufs)"
  shows "length (hs_sessions h) \<le> 16 \<and> length (hs_conns h) \<le> 36 \<and> distinct (map fst (hs_sessions h)) \<and>
    (\<forall>i x. map_of (hs_sessions h) i = Some x \<longrightarrow>
       i \<noteq> 0 \<and> length (se_buf x) \<le> 2 ^ 20 \<and> has_conn h (se_sync x) Sync i \<and>
       (\<forall>a. se_async x = Some a \<longrightarrow> has_conn h a Async i))"
proof -
  have "hs_inv h"
    using hs_reentrant.reach_inv[of during ep e "(h, bufs)"] assms by (simp add: hs_reentrant_def)
  then show ?thesis
    by (auto simp: hs_inv_def session_ok_def hsMaxSessions_def kMaxPendingConnections_def hsMaxMessage_def
        split: option.splits)
qed

theorem hs_reachable_inv_witness:
  "length (hs_sessions (fst (hs_ready_read hs_echo (hs_disconnected 7) 2 (hs_newConnection 2 (hislip0 []), [])
      (hs_frame kInitialize 0 0 [])))) \<le> 16"
proof -
  let ?d = "hs_disconnected 7 :: bytes list hislip \<Rightarrow> bytes list hislip"
  let ?h = "hs_newConnection 2 (hislip0 [])"
  have a: "hs_reach hs_echo ?d [] (?h, (\<lambda>_. [])(2 := []))"
    by (rule hs_reach.step[OF hs_reach.init accepted]) (simp add: hislip0_def)
  obtain h' b where r: "hs_ready_read hs_echo ?d 2 (?h, []) (hs_frame kInitialize 0 0 []) = (h', b)"
    by (cases "hs_ready_read hs_echo ?d 2 (?h, []) (hs_frame kInitialize 0 0 [])")
  have "hs_reach hs_echo ?d [] (h', ((\<lambda>_. [])(2 := []))(2 := b))"
    by (rule hs_reach.step[OF a arrived]) (use r in simp)
  from hs_reachable_inv[OF disconnected_inv this] show ?thesis by (simp add: r)
qed

subsection \<open>The handshake\<close>

lemma ucast_mask_16: "ucast (ucast (i :: u16) AND mask 16 :: u32) = i"
  by (rule bit_word_eqI) (auto simp: bit_simps)

text \<open>
  C17: A client that opens two connections, sends Initialize on one and AsyncInitialize with the session id
  from the answer on the other has a session of its own with these two channels, empty, with a message
  size of 272; every session there was stays as it is.
\<close>

theorem hs_handshake:
  assumes inv: "hs_inv h" and room: "length (hs_conns h) \<le> 34" "length (hs_sessions h) < 16"
    and fresh: "s \<notin> al_keys (hs_conns h)" "a \<notin> al_keys (hs_conns h)" "s \<noteq> a"
  shows "\<exists>i. i \<noteq> 0 \<and> map_of (hs_sessions h) i = None \<and>
    (let h1 = hs_dispatch ep during s (kInitialize, c1, p1, sub) (hs_newConnection a (hs_newConnection s h));
         h2 = hs_dispatch ep during a (kAsyncInitialize, c2, ucast i, []) h1
     in hs_log h1 = hs_log h @ [Write s (hs_frame kInitializeResponse 0 (0x01000000 OR ucast i) [])] \<and>
        map_of (hs_sessions h2) =
          (map_of (hs_sessions h))(i \<mapsto> \<lparr>se_sync = s, se_async = Some a, se_buf = [], se_max = 272\<rparr>) \<and>
        hs_log h2 = hs_log h1 @
          [Write a (hs_frame kAsyncInitializeResponse 0 0x51440000 []), Sessions (length (hs_sessions h) + 1)])"
proof -
  let ?h0 = "hs_newConnection a (hs_newConnection s h)"
  obtain i h' where new: "newSessionId ?h0 = (i, h')" by (cases "newSessionId ?h0")
  have conns: "hs_conns ?h0 = al_insert a conn0 (al_insert s conn0 (hs_conns h))"
    and same: "hs_sessions ?h0 = hs_sessions h" "hs_log ?h0 = hs_log h"
    using room fresh
    by (simp_all add: hs_newConnection_def hsMaxSessions_def kMaxPendingConnections_def length_al_insert)
  have "hs_inv ?h0" using inv fresh room
    by (intro newConnection_inv)
      (auto simp: hs_newConnection_def hsMaxSessions_def kMaxPendingConnections_def)
  note f = newSessionId_free[OF this new]
  have log: "hs_log h' = hs_log h" using new same by (auto simp: newSessionId_def split: prod.splits)
  have i: "ucast (ucast i AND 0xFFFF :: u32) = i"
    proof -
    have "(0xFFFF :: u32) = mask 16" by (simp add: mask_eq_exp_minus_1)
    then show ?thesis by (metis (no_types, opaque_lifting) ucast_mask_16)
  qed
  have key: "i \<notin> al_keys (hs_sessions h)" using f(2) same by (simp add: map_of_eq_None_iff)
  define H1 where "H1 = hs_send s kInitializeResponse 0 (push_bit 16 (ucast kServerVersion) OR ucast i) []
      (set_conn s (conn0\<lparr>cn_kind := Sync, cn_session := i\<rparr>) (set_session i (session0 s) h'))"
  have h1: "hs_dispatch ep during s (kInitialize, c1, p1, sub) ?h0 = H1"
    using new fresh room
    by (simp add: H1_def hs_dispatch_def conns hs_initialize_def same conn0_def hsMaxSessions_def Let_def)
  have c1: "hs_conns H1 = al_insert s (conn0\<lparr>cn_kind := Sync, cn_session := i\<rparr>) (hs_conns ?h0)"
    and s1: "hs_sessions H1 = al_insert i (session0 s) (hs_sessions h)"
    and l1: "hs_log H1 = hs_log h @ [Write s (hs_frame kInitializeResponse 0 (0x01000000 OR ucast i) [])]"
    using f same log by (simp_all add: H1_def kServerVersion_def)
  have "map_of (hs_conns H1) a = Some conn0" using fresh c1 conns by simp
  then have h2: "hs_dispatch ep during a (kAsyncInitialize, c2, ucast i, []) H1 =
     hs_emit (Sessions (length (hs_sessions h) + 1)) (hs_send a kAsyncInitializeResponse 0 0x51440000 []
       (set_conn a (conn0\<lparr>cn_kind := Async, cn_session := i\<rparr>)
         (set_session i ((session0 s)\<lparr>se_async := Some a\<rparr>) H1)))"
    using key
    by (simp add: hs_dispatch_def hs_asyncInitialize_def i s1 session0_def conn0_def
        kAsyncInitialize_def kInitialize_def Let_def length_al_insert)
  show ?thesis
    using f(1,2) same l1 s1
    by (intro exI[of _ i]) (simp add: Let_def h2 h1 session0_def)
qed

theorem hs_handshake_witness:
  "\<exists>i :: u16. i \<noteq> 0 \<and> hs_log (hs_dispatch hs_echo (\<lambda>h. h) 3 (kInitialize, 0, 0, [])
      (hs_newConnection 2 (hs_newConnection 3 (hislip0 [] :: bytes list hislip)))) =
    [Write 3 (hs_frame kInitializeResponse 0 (0x01000000 OR ucast i) [])]"
proof -
  have "hs_inv (hislip0 [] :: bytes list hislip)" "length (hs_conns (hislip0 [] :: bytes list hislip)) \<le> 34" "length (hs_sessions (hislip0 [] :: bytes list hislip)) < 16"
    "3 \<notin> al_keys (hs_conns (hislip0 [] :: bytes list hislip))" "2 \<notin> al_keys (hs_conns (hislip0 [] :: bytes list hislip))" "(3 :: nat) \<noteq> 2"
    by simp_all
  from hs_handshake[OF this, of hs_echo "\<lambda>h. h" 0 0 "[]" 0] show ?thesis
    unfolding Let_def hislip0_sel append_Nil by (elim exE conjE) (intro exI conjI)
qed

subsection \<open>Messages in pieces\<close>

lemma hs_take_frame:
  assumes "length p \<le> hsMaxMessage"
  shows "hs_take (hs_frame t c q p @ x) = Cut (t, c, q, p) x"
proof -
  have "unat (of_nat (length p) :: u64) = length p"
    using assms by (simp add: unat_of_nat hsMaxMessage_def)
  then show ?thesis
    using assms by (simp add: hs_take_Cut hs_frame_def Let_def numeral_eq_Suc)
qed

lemma pump_frame:
  assumes "hs_alive s h" and "length p \<le> hsMaxMessage"
  shows "pump (hs_alive s) (\<lambda>_. hs_take) (hs_bad s) (hs_dispatch ep during s) h (hs_frame t c q p @ x) =
    pump (hs_alive s) (\<lambda>_. hs_take) (hs_bad s) (hs_dispatch ep during s)
      (hs_dispatch ep during s (t, c, q, p) h) x"
proof -
  have "length x < length (hs_frame t c q p @ x)" by (simp add: hs_frame_def)
  then show ?thesis using assms by (simp add: pump.simps[of _ _ _ _ h] hs_take_frame)
qed

lemma pump_dead: "\<not> alive h \<Longrightarrow> pump alive tk bad act h x = (h, [])"
  by (simp add: pump.simps)

lemma pump_hs_Nil: "pump (hs_alive s) (\<lambda>_. hs_take) (hs_bad s) act h [] = (h, [])"
  by (simp add: pump.simps hs_take_def kHeaderSize_def)

text \<open>A message as a client sends it: every piece but the last as \<open>Data\<close>, the last as \<open>DataEnd\<close>.\<close>

fun hs_stream :: "u32 \<Rightarrow> bytes list \<Rightarrow> bytes" where
  "hs_stream q [] = []"
| "hs_stream q [p] = hs_frame kDataEnd 0 q p"
| "hs_stream q (p # p' # ps) = hs_frame kData 0 q p @ hs_stream q (p' # ps)"

text \<open>The synchronous channel \<open>s\<close> of a complete session \<open>x\<close>, under the id \<open>i\<close>.\<close>

definition hs_complete :: "'e hislip \<Rightarrow> sock \<Rightarrow> u16 \<Rightarrow> session \<Rightarrow> bool" where
  "hs_complete h s i x \<longleftrightarrow>
     map_of (hs_conns h) s = Some \<lparr>cn_kind = Sync, cn_session = i, cn_closing = False\<rparr> \<and>
     map_of (hs_sessions h) i = Some x \<and> se_async x \<noteq> None"

lemma complete_alive: "hs_complete h s i x \<Longrightarrow> hs_alive s h"
  by (simp add: hs_complete_def hs_alive_def)

lemma complete_dispatch:
  assumes "hs_complete h s i x" and "t \<noteq> kInitialize" and "t \<noteq> kAsyncInitialize"
  shows "hs_dispatch ep during s (t, c, q, p) h = hs_handleSync ep during s i x t q p h"
  using assms by (simp add: hs_dispatch_def hs_complete_def)

lemma complete_data:
  assumes "hs_complete h s i x" and "length (se_buf x) + length p \<le> hsMaxMessage"
  shows "hs_dispatch ep during s (kData, c, q, p) h = set_session i (x\<lparr>se_buf := se_buf x @ p\<rparr>) h"
    and "hs_dispatch ep during s (kDataEnd, c, q, p) h =
      (case hs_run ep during (se_buf x @ p) (set_session i (x\<lparr>se_buf := []\<rparr>) h) of
         (rs, h') \<Rightarrow> hs_answer s q rs h')"
proof -
  have "se_async x \<noteq> None" using assms(1) by (simp add: hs_complete_def)
  then show "hs_dispatch ep during s (kData, c, q, p) h = set_session i (x\<lparr>se_buf := se_buf x @ p\<rparr>) h"
    "hs_dispatch ep during s (kDataEnd, c, q, p) h =
      (case hs_run ep during (se_buf x @ p) (set_session i (x\<lparr>se_buf := []\<rparr>) h) of
         (rs, h') \<Rightarrow> hs_answer s q rs h')"
    using assms(2) by (auto simp: complete_dispatch[OF assms(1)] hs_types hs_handleSync_def)
qed

lemma complete_too_large:
  assumes "hs_complete h s i x" and "length (se_buf x) + length p > hsMaxMessage" and "t = kData \<or> t = kDataEnd"
  shows "hs_dispatch ep during s (t, c, q, p) h =
    hs_sendFatal s 0 ''Message too large'' (set_session i (x\<lparr>se_buf := []\<rparr>) h)"
proof -
  have "se_async x \<noteq> None" using assms(1) by (simp add: hs_complete_def)
  then show ?thesis
    using assms(2,3) by (auto simp: complete_dispatch[OF assms(1)] hs_types hs_handleSync_def)
qed

lemma complete_set_session:
  "hs_complete h s i x \<Longrightarrow> hs_complete (set_session i (x\<lparr>se_buf := b\<rparr>) h) s i (x\<lparr>se_buf := b\<rparr>)"
  by (simp add: hs_complete_def)

lemma set_session_twice [simp]: "set_session i x (set_session i y h) = set_session i x h"
  by (simp add: set_session_def)

lemma set_session_same: "map_of (hs_sessions h) i = Some x \<Longrightarrow> set_session i x h = h"
  by (simp add: set_session_def al_insert_same)

lemma stream_runs_whole:
  assumes "hs_complete h s i x" and "ps \<noteq> []"
    and "length (se_buf x) + length (concat ps) \<le> hsMaxMessage"
  shows "pump (hs_alive s) (\<lambda>_. hs_take) (hs_bad s) (hs_dispatch ep during s) h (hs_stream q ps) =
    (case hs_run ep during (se_buf x @ concat ps) (set_session i (x\<lparr>se_buf := []\<rparr>) h) of
       (rs, h') \<Rightarrow> (hs_answer s q rs h', []))"
  using assms
proof (induction q ps arbitrary: h x rule: hs_stream.induct)
  case (1 q)
  then show ?case by simp
next
  case (2 q p)
  then show ?case
    using pump_frame[OF complete_alive[OF "2.prems"(1)], of p ep during kDataEnd 0 q "[]"]
    by (simp add: complete_data pump_hs_Nil split: prod.splits)
next
  case (3 q p p' ps)
  let ?x = "x\<lparr>se_buf := se_buf x @ p\<rparr>"
  have "hs_complete (set_session i ?x h) s i ?x"
    using "3.prems"(1) by (rule complete_set_session)
  from "3.IH"[OF this] show ?case
    using "3.prems" pump_frame[OF complete_alive[OF "3.prems"(1)], of p ep during kData 0 q "hs_stream q (p' # ps)"]
    by (simp add: complete_data)
qed

lemma stream_too_large:
  assumes "hs_complete h s i x" and "\<forall>p \<in> set ps. length p \<le> hsMaxMessage" and "length (se_buf x) \<le> hsMaxMessage"
    and "length (se_buf x) + length (concat ps) > hsMaxMessage"
  shows "pump (hs_alive s) (\<lambda>_. hs_take) (hs_bad s) (hs_dispatch ep during s) h (hs_stream q ps) =
    (hs_sendFatal s 0 ''Message too large'' (set_session i (x\<lparr>se_buf := []\<rparr>) h), [])"
  using assms
proof (induction q ps arbitrary: h x rule: hs_stream.induct)
  case (1 q)
  then show ?case by simp
next
  case (2 q p)
  then show ?case
    using pump_frame[OF complete_alive[OF "2.prems"(1)], of p ep during kDataEnd 0 q "[]"]
    by (simp add: complete_too_large pump_dead)
next
  case (3 q p p' ps)
  let ?x = "x\<lparr>se_buf := se_buf x @ p\<rparr>"
  note step = pump_frame[OF complete_alive[OF "3.prems"(1)], of p ep during kData 0 q "hs_stream q (p' # ps)"]
  show ?case
  proof (cases "length (se_buf x) + length p > hsMaxMessage")
    case True
    then show ?thesis using "3.prems" step by (simp add: complete_too_large pump_dead)
  next
    case False
    have "hs_complete (set_session i ?x h) s i ?x"
      using "3.prems"(1) by (rule complete_set_session)
    from "3.IH"[OF this] show ?thesis
      using "3.prems" step False by (simp add: complete_data)
  qed
qed


text \<open>
  C16: A program message of more than 1 MiB is never run, in whatever pieces of at most 1 MiB it comes: the
  interpreter stays as it is and the connection takes nothing more.
\<close>

theorem hs_oversize_never_run:
  assumes "hs_complete h s i x" and "se_buf x = []" and "\<forall>p \<in> set ps. length p \<le> 2 ^ 20"
    and "length (concat ps) > 2 ^ 20"
  shows "hs_dev (fst (hs_ready_read ep during s (h, []) (hs_stream q ps))) = hs_dev h \<and>
    \<not> hs_alive s (fst (hs_ready_read ep during s (h, []) (hs_stream q ps)))"
proof -
  have "hs_dev (hs_sendFatal s c t h) = hs_dev h" for c t and h :: "'a hislip"
    by (simp add: hs_sendFatal_def Let_def split: option.splits)
  then show ?thesis
    using stream_too_large[OF assms(1), of ps ep during q] assms(2-4)
    by (simp add: hs_ready_read_def hsMaxMessage_def)
qed

text \<open>A complete session, for the witnesses: sockets 2 and 3, id 1.\<close>

definition hs_session1 :: session where
  "hs_session1 = (session0 2)\<lparr>se_async := Some 3\<rparr>"

definition hs_open :: "bytes list hislip" where
  "hs_open = (hislip0 [])\<lparr>
     hs_conns := [(2, \<lparr>cn_kind = Sync, cn_session = 1, cn_closing = False\<rparr>),
                  (3, \<lparr>cn_kind = Async, cn_session = 1, cn_closing = False\<rparr>)],
     hs_sessions := [(1, hs_session1)], hs_next := 2\<rparr>"

lemma hs_open_complete: "hs_complete hs_open 2 1 hs_session1"
  by (simp add: hs_complete_def hs_open_def hs_session1_def)


theorem hs_oversize_never_run_witness:
  "hs_dev (fst (hs_ready_read hs_echo (\<lambda>h. h) 2 (hs_open, [])
      (hs_stream 7 [replicate (2 ^ 20) 65, [66]]))) = []"
proof -
  have "hs_dev hs_open = []" by (simp add: hs_open_def)
  then show ?thesis
    using hs_oversize_never_run[OF hs_open_complete, of "[replicate (2 ^ 20) 65, [66]]" hs_echo "\<lambda>h. h" 7]
    by (simp add: hs_session1_def session0_def)
qed

subsection \<open>Responses in pieces\<close>

lemma hs_pieces_Nil [simp]: "hs_pieces chunk [] = []"
  by (simp add: hs_pieces.simps)

lemma hs_pieces_concat: "0 < chunk \<Longrightarrow> concat (map snd (hs_pieces chunk data)) = data"
proof (induction chunk data rule: hs_pieces.induct)
  case (1 chunk data)
  then show ?case by (cases "data = []") (simp_all add: hs_pieces.simps[of chunk data])
qed

lemma hs_pieces_size: "0 < chunk \<Longrightarrow> p \<in> set (hs_pieces chunk data) \<Longrightarrow> snd p \<noteq> [] \<and> length (snd p) \<le> chunk"
proof (induction chunk data rule: hs_pieces.induct)
  case (1 chunk data)
  then show ?case by (cases "data = []") (auto simp: hs_pieces.simps[of chunk data])
qed

lemma hs_pieces_types:
  "0 < chunk \<Longrightarrow> map fst (hs_pieces chunk data) =
     replicate (length (hs_pieces chunk data) - 1) kData @ (if data = [] then [] else [kDataEnd])"
proof (induction chunk data rule: hs_pieces.induct)
  case (1 chunk data)
  show ?case
  proof (cases "length data \<le> chunk")
    case True
    then show ?thesis using 1 by (simp add: hs_pieces.simps[of chunk data])
  next
    case False
    then have d: "data \<noteq> []" "drop chunk data \<noteq> []" by auto
    then obtain q qs where q: "hs_pieces chunk (drop chunk data) = q # qs"
      using 1 by (simp add: hs_pieces.simps[of chunk "drop chunk data"])
    have "map fst (hs_pieces chunk (drop chunk data)) = replicate (length qs) kData @ [kDataEnd]"
      using 1 d q by simp
    then show ?thesis
      using False d 1 by (simp add: hs_pieces.simps[of chunk data] q)
  qed
qed

lemma hs_chunk_pos [simp]: "0 < hs_chunk m"
  by (simp add: hs_chunk_def Let_def)

lemma hs_sendData_log:
  "hs_log (hs_sendData s x data q h) = hs_log h @
     map (\<lambda>(t, p). Write s (hs_frame t 0 q p)) (hs_pieces (hs_chunk (se_max x)) data)"
proof -
  have "hs_log (fold (\<lambda>(type, part). hs_send s type 0 q part) ps h) =
      hs_log h @ map (\<lambda>(t, p). Write s (hs_frame t 0 q p)) ps" for ps
    by (induction ps arbitrary: h) auto
  then show ?thesis by (simp add: hs_sendData_def)
qed

text \<open>
  A response is sent as messages whose payloads are the response when put together, all \<open>Data\<close> but the
  last, which is \<open>DataEnd\<close>, none empty and none, with its header, larger than the client's maximum message
  size (when that leaves room for the header and one byte).
\<close>

theorem hs_response_pieces:
  "\<exists>ps. hs_log (hs_sendData s x data q h) = hs_log h @ map (\<lambda>(t, p). Write s (hs_frame t 0 q p)) ps \<and>
     concat (map snd ps) = data \<and>
     map fst ps = replicate (length ps - 1) kData @ (if data = [] then [] else [kDataEnd]) \<and>
     list_all (\<lambda>(t, p). p \<noteq> [] \<and> length (hs_frame t 0 q p) \<le> max 17 (unat (se_max x))) ps"
proof (intro exI conjI)
  let ?ps = "hs_pieces (hs_chunk (se_max x)) data"
  show "hs_log (hs_sendData s x data q h) = hs_log h @ map (\<lambda>(t, p). Write s (hs_frame t 0 q p)) ?ps"
    by (rule hs_sendData_log)
  show "concat (map snd ?ps) = data" by (rule hs_pieces_concat) simp
  show "map fst ?ps = replicate (length ?ps - 1) kData @ (if data = [] then [] else [kDataEnd])"
    by (rule hs_pieces_types) simp
  have "length (hs_frame t 0 q p) \<le> max 17 (unat (se_max x))" if "length p \<le> hs_chunk (se_max x)" for t p
    using that by (auto simp: hs_frame_def hs_chunk_def kHeaderSize_def Let_def)
  then show "list_all (\<lambda>(t, p). p \<noteq> [] \<and> length (hs_frame t 0 q p) \<le> max 17 (unat (se_max x))) ?ps"
    by (auto simp: list_all_iff dest: hs_pieces_size[OF hs_chunk_pos])
qed

subsection \<open>Sessions do not disturb each other\<close>

text \<open>The session ids a connection may act on: its own, or one nobody has.\<close>

lemma sendFatal_sessions [simp]:
  "hs_sessions (hs_sendFatal s c t h) = hs_sessions h" "hs_dev (hs_sendFatal s c t h) = hs_dev h"
  by (simp_all add: hs_sendFatal_def Let_def split: option.splits)

lemma run_sessions [simp]:
  "hs_sessions (snd (hs_run ep (\<lambda>h. h) msg h)) = hs_sessions h"
proof -
  have "hs_sessions (fold (\<lambda>gone. hs_emit (Delete gone)) gs h) = hs_sessions h" for gs and h :: "'a hislip"
    by (induction gs arbitrary: h) simp_all
  then show ?thesis by (simp add: hs_run_def Let_def split: prod.splits)
qed

text \<open>
  C14: What a connection sends changes no session but its own: a session with another id, not waiting for its
  asynchronous channel, keeps its channels, the message it collects and its message size.
\<close>

theorem hs_isolation:
  assumes inv: "hs_inv h" and other: "map_of (hs_sessions h) j = Some y" "se_async y \<noteq> None"
    and c: "\<not> has_conn h s Sync j" "\<not> has_conn h s Async j"
  shows "map_of (hs_sessions (hs_dispatch ep (\<lambda>h. h) s m h)) j = Some y"
proof (cases "map_of (hs_conns h) s")
  case None
  then show ?thesis using other by (cases m) (simp add: hs_dispatch_def)
next
  case (Some c)
  have own: "cn_session c \<noteq> j" if "cn_kind c \<noteq> Unknown"
    using c Some that by (cases "cn_kind c") (auto simp: has_conn_def)
  have init: "map_of (hs_sessions (hs_initialize s c h)) j = Some y"
  proof -
    obtain i h' where new: "newSessionId h = (i, h')" by (cases "newSessionId h")
    note f = newSessionId_free[OF inv new]
    then have "i \<noteq> j" using other by auto
    then show ?thesis using other f(4) by (simp add: hs_initialize_def Let_def new)
  qed
  have ainit: "map_of (hs_sessions (hs_asyncInitialize s c q h)) j = Some y" for q
    using other by (auto simp: hs_asyncInitialize_def Let_def split: option.splits)
  have sync: "map_of (hs_sessions (hs_handleSync ep (\<lambda>h. h) s i x t q p h)) j = Some y" if "i \<noteq> j" for i x t q p
  proof -
    obtain rs h' where r: "hs_run ep (\<lambda>h. h) (se_buf x @ p) (set_session i (x\<lparr>se_buf := []\<rparr>) h) = (rs, h')"
      by (cases "hs_run ep (\<lambda>h. h) (se_buf x @ p) (set_session i (x\<lparr>se_buf := []\<rparr>) h)")
    have "hs_sessions h' = al_insert i (x\<lparr>se_buf := []\<rparr>) (hs_sessions h)"
      using run_sessions[of ep "se_buf x @ p" "set_session i (x\<lparr>se_buf := []\<rparr>) h"] r by simp
    then show ?thesis using other that by (auto simp: hs_handleSync_def r)
  qed
  have async: "map_of (hs_sessions (hs_handleAsync ep s i x t c' p h)) j = Some y" if "i \<noteq> j" for i x t c' p
    using other that by (auto simp: hs_handleAsync_def Let_def)
  obtain t ct q p where m: "m = (t, ct, q, p)" by (cases m)
  show ?thesis
    unfolding hs_dispatch_def m
    by (cases "cn_kind c"; cases "map_of (hs_sessions h) (cn_session c)")
      (simp_all add: Some own init ainit sync async other)
qed

theorem hs_isolation_witness:
  "map_of (hs_sessions (hs_dispatch hs_echo (\<lambda>h. h) 4 (kInitialize, 0, 0, []) (hs_newConnection 4 hs_open))) 1 =
     Some hs_session1"
proof -
  let ?h = "hs_newConnection 4 hs_open"
  have "hs_inv hs_open"
    by (auto simp: hs_inv_def hs_open_def session_ok_def has_conn_def hs_session1_def session0_def
        hsMaxSessions_def kMaxPendingConnections_def)
  then have "hs_inv ?h" by (rule newConnection_inv) (simp add: hs_open_def)
  moreover have "map_of (hs_sessions ?h) 1 = Some hs_session1" "\<not> has_conn ?h 4 Sync 1" "\<not> has_conn ?h 4 Async 1"
    by (simp_all add: hs_newConnection_def hs_open_def has_conn_def conn0_def hsMaxSessions_def kMaxPendingConnections_def)
  ultimately show ?thesis by (intro hs_isolation) (simp_all add: hs_session1_def)
qed

text \<open>
  When one channel of a complete session closes, the session is over: it is forgotten, the other channel
  is hung up and the number of sessions left is reported; no other session changes.
\<close>

theorem hs_channel_closes:
  assumes inv: "hs_inv h" and run: "hs_running h = 0" and x: "map_of (hs_sessions h) i = Some x" "se_async x = Some a"
    and s: "s = se_sync x \<or> s = a"
  shows "map_of (hs_sessions (hs_disconnected s h)) = (map_of (hs_sessions h))(i := None) \<and>
    hs_log (hs_disconnected s h) = hs_log h @
      [Hangup (if s = a then se_sync x else a), Sessions (length (hs_sessions (hs_disconnected s h))), Delete s]"
proof -
  have ok: "session_ok h i x" using inv x by (simp add: hs_inv_def)
  then have k: "has_conn h (se_sync x) Sync i" "has_conn h a Async i" using x by (simp_all add: session_ok_def)
  then have ne: "se_sync x \<noteq> a" by (auto simp: has_conn_def split: option.splits)
  obtain c where c: "map_of (hs_conns h) s = Some c" "cn_session c = i"
    "cn_kind c = (if s = a then Async else Sync)"
    using s k ne by (auto simp: has_conn_def split: option.splits)
  show ?thesis
    using c x s ne run by (auto simp: hs_disconnected_def Let_def hs_release_def)
qed

theorem hs_channel_closes_witness:
  "hs_log (hs_disconnected 3 hs_open) = [Hangup 2, Sessions 0, Delete 3]"
proof -
  have "hs_inv hs_open"
    by (auto simp: hs_inv_def hs_open_def session_ok_def has_conn_def hs_session1_def session0_def
        hsMaxSessions_def kMaxPendingConnections_def)
  moreover have "hs_running hs_open = 0" "map_of (hs_sessions hs_open) 1 = Some hs_session1"
    "se_async hs_session1 = Some 3" "3 = se_sync hs_session1 \<or> 3 = (3 :: nat)"
    by (simp_all add: hs_open_def hs_session1_def)
  ultimately show ?thesis
    using hs_channel_closes[of hs_open 1 hs_session1 3 3]
    by (simp add: disconnected_view) (simp add: hs_open_def hs_session1_def session0_def al_remove_def)
qed

end
