(* ===== verification/Qt_Text.thy ===== *)
theory Qt_Text
  imports Prelude
begin

text \<open>
  Text as the program handles it: a \<open>QString\<close> is a list of UTF-16 code units. The functions of the Qt library
  the code calls on it are defined here where their documentation says what they do for every text (trimming,
  splitting, numbers in decimal). What depends on the Unicode tables or on the formatting of doubles is a
  parameter of the definitions that call it (\<open>qt\<close> in Scpi_Device, \<open>calc_lib\<close> in Calc_Expr).
\<close>

subsection \<open>Characters and texts\<close>

type_synonym qstring = "u16 list"

abbreviation lit :: "string \<Rightarrow> qstring" where
  "lit s \<equiv> map of_char s"

text \<open>\<open>QChar::isSpace\<close>: the code units of the Unicode separators and the control characters that are blank.\<close>

definition q_space :: "u16 \<Rightarrow> bool" where
  "q_space c \<longleftrightarrow> (9 \<le> c \<and> c \<le> 13) \<or> c = 0x20 \<or> c = 0x85 \<or> c = 0xA0 \<or> c = 0x1680 \<or>
     (0x2000 \<le> c \<and> c \<le> 0x200A) \<or> c = 0x2028 \<or> c = 0x2029 \<or> c = 0x202F \<or> c = 0x205F \<or> c = 0x3000"

definition q_digit :: "u16 \<Rightarrow> bool" where
  "q_digit c \<longleftrightarrow> 48 \<le> c \<and> c \<le> 57"

definition q_upper_letter :: "u16 \<Rightarrow> bool" where
  "q_upper_letter c \<longleftrightarrow> 65 \<le> c \<and> c \<le> 90"

definition q_lower_letter :: "u16 \<Rightarrow> bool" where
  "q_lower_letter c \<longleftrightarrow> 97 \<le> c \<and> c \<le> 122"

definition q_letter :: "u16 \<Rightarrow> bool" where
  "q_letter c \<longleftrightarrow> q_upper_letter c \<or> q_lower_letter c"

lemmas q_class_defs = q_digit_def q_upper_letter_def q_lower_letter_def q_letter_def

definition up_char :: "u16 \<Rightarrow> u16" where
  "up_char c = (if q_lower_letter c then c - 32 else c)"

definition q_trim :: "qstring \<Rightarrow> qstring" where
  "q_trim s = rev (dropWhile q_space (rev (dropWhile q_space s)))"

abbreviation q_split :: "u16 \<Rightarrow> qstring \<Rightarrow> qstring list" where
  "q_split \<equiv> split_bytes"

fun q_join :: "u16 \<Rightarrow> qstring list \<Rightarrow> qstring" where
  "q_join sep [] = []"
| "q_join sep [p] = p"
| "q_join sep (p # p' # ps) = p @ sep # q_join sep (p' # ps)"

text \<open>\<open>QString::indexOf\<close> of one character, and of a two-character text.\<close>

fun q_index :: "u16 \<Rightarrow> qstring \<Rightarrow> nat option" where
  "q_index c [] = None"
| "q_index c (x # xs) = (if x = c then Some 0 else map_option Suc (q_index c xs))"

fun q_index2 :: "u16 \<Rightarrow> u16 \<Rightarrow> qstring \<Rightarrow> nat option" where
  "q_index2 a b (x # y # xs) = (if x = a \<and> y = b then Some 0 else map_option Suc (q_index2 a b (y # xs)))"
| "q_index2 a b xs = None"

text \<open>\<open>QString::lastIndexOf\<close> of one character.\<close>

definition q_last_index :: "u16 \<Rightarrow> qstring \<Rightarrow> nat option" where
  "q_last_index c s = map_option (\<lambda>i. length s - 1 - i) (q_index c (rev s))"

text \<open>\<open>QList::indexOf\<close>\<close>

fun index_of :: "'a \<Rightarrow> 'a list \<Rightarrow> int" where
  "index_of x [] = - 1"
| "index_of x (y # ys) = (if y = x then 0 else let i = index_of x ys in if i < 0 then - 1 else i + 1)"

subsection \<open>Numbers\<close>

fun dec_nat :: "nat \<Rightarrow> qstring" where
  "dec_nat n = (if n < 10 then [48 + of_nat n] else dec_nat (n div 10) @ [48 + of_nat (n mod 10)])"

declare dec_nat.simps [simp del]

definition dec_int :: "int \<Rightarrow> qstring" where
  "dec_int i = (if i < 0 then 45 # dec_nat (nat (- i)) else dec_nat (nat i))"

definition digits_val :: "qstring \<Rightarrow> nat" where
  "digits_val s = foldl (\<lambda>a c. a * 10 + unat (c - 48)) 0 s"

text \<open>\<open>QString::toInt\<close> in base 10: blanks around, a sign, digits; \<open>None\<close> when \<open>ok\<close> is false.\<close>

definition q_to_int :: "qstring \<Rightarrow> int option" where
  "q_to_int s =
     (let t = q_trim s;
          neg = (t \<noteq> [] \<and> hd t = 45);
          ds = (if t \<noteq> [] \<and> (hd t = 45 \<or> hd t = 43) then tl t else t);
          v = (if neg then - int (digits_val ds) else int (digits_val ds))
      in if ds \<noteq> [] \<and> list_all q_digit ds \<and> - (2 ^ 31) \<le> v \<and> v < 2 ^ 31 then Some v else None)"

definition q_to_int0 :: "qstring \<Rightarrow> int" where
  "q_to_int0 s = (case q_to_int s of None \<Rightarrow> 0 | Some v \<Rightarrow> v)"

subsection \<open>Quotes\<close>

text \<open>\<open>s.replace(QString(2, q), QString(q))\<close> and \<open>s.replace(q, QString(2, q))\<close>.\<close>

fun halve :: "u16 \<Rightarrow> qstring \<Rightarrow> qstring" where
  "halve q (x # y # xs) = (if x = q \<and> y = q then q # halve q xs else x # halve q (y # xs))"
| "halve q xs = xs"

definition twice :: "u16 \<Rightarrow> qstring \<Rightarrow> qstring" where
  "twice q s = concat (map (\<lambda>c. if c = q then [q, q] else [c]) s)"

subsection \<open>Facts\<close>

lemma twice_simps [simp]: "twice q [] = []" "twice q (c # s) = (if c = q then q # q # twice q s else c # twice q s)"
  by (simp_all add: twice_def)

lemma halve_twice: "halve q (twice q s) = s"
proof (induction s)
  case Nil
  then show ?case by simp
next
  case (Cons c s)
  have "halve q (c # t) = c # halve q t" if "c \<noteq> q" for t
    using that by (cases t) auto
  then show ?case using Cons by simp
qed

lemma q_trim_id: "s = [] \<or> (\<not> q_space (hd s) \<and> \<not> q_space (last s)) \<Longrightarrow> q_trim s = s"
proof -
  have self: "xs = [] \<or> \<not> q_space (hd xs) \<Longrightarrow> dropWhile q_space xs = xs" for xs
    by (cases xs) auto
  assume "s = [] \<or> (\<not> q_space (hd s) \<and> \<not> q_space (last s))"
  then have "dropWhile q_space s = s" "dropWhile q_space (rev s) = rev s"
    by (auto intro!: self simp: hd_rev)
  then show ?thesis by (simp add: q_trim_def)
qed

lemma q_trim_ends: "q_trim s = [] \<or> (\<not> q_space (hd (q_trim s)) \<and> \<not> q_space (last (q_trim s)))"
proof (cases "q_trim s = []")
  case False
  let ?t = "dropWhile q_space s"
  have r: "dropWhile q_space (rev ?t) \<noteq> []" using False by (simp add: q_trim_def)
  then have "\<not> q_space (last (q_trim s))"
    using hd_dropWhile[OF r] by (simp add: q_trim_def last_rev)
  moreover have t: "?t \<noteq> []"
  proof
    assume "?t = []"
    with r show False by (metis dropWhile.simps(1) rev.simps(1))
  qed
  moreover have "hd (q_trim s) = hd ?t"
  proof -
    obtain a where "rev ?t = a @ dropWhile q_space (rev ?t)" by (metis takeWhile_dropWhile_id)
    then have "?t = q_trim s @ rev a" by (metis q_trim_def rev_append rev_rev_ident)
    then show ?thesis using False by (metis hd_append2)
  qed
  ultimately show ?thesis using hd_dropWhile[OF t] by simp
qed simp

lemma q_trim_twice [simp]: "q_trim (q_trim s) = q_trim s"
  by (rule q_trim_id) (rule q_trim_ends)

lemma q_trim_nospace: "(\<And>c. c \<in> set s \<Longrightarrow> \<not> q_space c) \<Longrightarrow> q_trim s = s"
  by (rule q_trim_id) (metis list.set_sel(1) last_in_set)

lemma q_index_append: "c \<notin> set xs \<Longrightarrow> q_index c (xs @ c # ys) = Some (length xs)"
  by (induction xs) auto

lemma q_index_None: "c \<notin> set xs \<Longrightarrow> q_index c xs = None"
  by (induction xs) auto

lemma set_q_join: "c \<in> set (q_join sep ps) \<Longrightarrow> c = sep \<or> (\<exists>p \<in> set ps. c \<in> set p)"
  by (induction sep ps rule: q_join.induct) auto

lemma digits_val_snoc [simp]: "digits_val (s @ [c]) = digits_val s * 10 + unat (c - 48)"
  by (simp add: digits_val_def)

lemma dec_digit: "d < 10 \<Longrightarrow> q_digit (48 + of_nat d) \<and> unat ((48 + of_nat d :: u16) - 48) = d"
  by (auto simp: q_digit_def word_le_nat_alt unat_word_ariths unat_of_nat)

lemma dec_nat_val: "digits_val (dec_nat n) = n \<and> list_all q_digit (dec_nat n) \<and> dec_nat n \<noteq> []"
proof (induction n rule: dec_nat.induct)
  case (1 n)
  show ?case
  proof (cases "n < 10")
    case True
    then show ?thesis using dec_digit[of n]
      by (simp add: dec_nat.simps[of n] digits_val_def)
  next
    case False
    then show ?thesis using 1 dec_digit[of "n mod 10"]
      by (simp add: dec_nat.simps[of n] list_all_iff)
  qed
qed

lemma dec_nat_digits: "c \<in> set (dec_nat n) \<Longrightarrow> q_digit c"
  using dec_nat_val[of n] by (auto simp: list_all_iff)

lemma digit_not: "q_digit c \<Longrightarrow> \<not> q_space c \<and> c \<noteq> 45 \<and> c \<noteq> 43 \<and> c \<noteq> 58 \<and> c \<noteq> 46"
  by (auto simp: q_digit_def q_space_def word_le_nat_alt)

lemma q_to_int_dec_nat: "n < 2 ^ 31 \<Longrightarrow> q_to_int (dec_nat n) = Some (int n)"
proof -
  assume n: "n < 2 ^ 31"
  have ne: "dec_nat n \<noteq> []" using dec_nat_val by blast
  have d: "q_digit (hd (dec_nat n))" "q_digit (last (dec_nat n))"
    using dec_nat_digits ne by (metis list.set_sel(1), metis last_in_set)
  then have "q_trim (dec_nat n) = dec_nat n" by (intro q_trim_id) (auto dest: digit_not)
  then show ?thesis
    using n dec_nat_val[of n] ne digit_not[OF d(1)] by (simp add: q_to_int_def Let_def)
qed

lemma dec_nat_inj: "dec_nat m = dec_nat n \<longleftrightarrow> m = n"
  by (metis dec_nat_val)

lemma index_of_absent: "x \<notin> set xs \<Longrightarrow> index_of x xs = - 1"
  by (induction xs) (auto simp: Let_def)

lemma index_of_nth: "x \<in> set xs \<Longrightarrow> 0 \<le> index_of x xs \<and> index_of x xs < int (length xs) \<and> xs ! nat (index_of x xs) = x"
proof (induction xs)
  case (Cons y ys)
  then show ?case by (auto simp: Let_def nat_add_distrib)
qed simp

end
