(* ===== verification/Doubles.thy ===== *)
theory Doubles
  imports Complex_Main Prelude "HOL-Library.Log_Nat"
begin

text \<open>
  The \<open>double\<close> of the code: IEEE 754 binary64. A finite value is a sign and a magnitude that is a rational
  number; every operation computes exactly and rounds once, to the nearest representable value and to the
  even one in the middle, as the hardware does. All definitions compute. NaNs keep their sign, the only part
  of them the program looks at (\<open>std::signbit\<close> on an overload).
\<close>

subsection \<open>Rounding\<close>

definition pow2 :: "int \<Rightarrow> rat" where
  "pow2 k = (if k \<ge> 0 then 2 ^ nat k else 1 / 2 ^ nat (- k))"

text \<open>To the nearest integer, the even one in the middle.\<close>

definition rne :: "rat \<Rightarrow> int" where
  "rne x = (let f = \<lfloor>x\<rfloor>; r = x - of_int f in
     if r < 1 / 2 then f else if r > 1 / 2 then f + 1 else if even f then f else f + 1)"

text \<open>The exponent of a positive number: \<open>pow2 (ilog2 q) \<le> q < pow2 (ilog2 q + 1)\<close>.\<close>

definition ilog2 :: "rat \<Rightarrow> int" where
  "ilog2 q = (case quotient_of q of (n, d) \<Rightarrow>
     let e = bitlen n - bitlen d in if pow2 e \<le> q then e else e - 1)"

text \<open>The weight of the last bit of the significand, subnormal numbers included.\<close>

definition ulp_exp :: "rat \<Rightarrow> int" where
  "ulp_exp q = max (ilog2 q - 52) (- 1074)"

definition rnd :: "rat \<Rightarrow> rat" where
  "rnd q = (if q \<le> 0 then 0 else of_int (rne (q / pow2 (ulp_exp q))) * pow2 (ulp_exp q))"

subsection \<open>Values and operations\<close>

datatype dbl = DNan bool | DInf bool | DFin bool rat

definition dbl_mag :: "bool \<Rightarrow> rat \<Rightarrow> dbl" where
  "dbl_mag s q = (let m = rnd q in if m \<ge> pow2 1024 then DInf s else DFin s m)"

definition dbl_of :: "rat \<Rightarrow> dbl" where
  "dbl_of q = (if q < 0 then dbl_mag True (- q) else dbl_mag False q)"

fun d_isnan :: "dbl \<Rightarrow> bool" where
  "d_isnan (DNan s) = True" | "d_isnan (DInf s) = False" | "d_isnan (DFin s q) = False"

fun d_isfinite :: "dbl \<Rightarrow> bool" where
  "d_isfinite (DNan s) = False" | "d_isfinite (DInf s) = False" | "d_isfinite (DFin s q) = True"

fun d_signbit :: "dbl \<Rightarrow> bool" where
  "d_signbit (DNan s) = s" | "d_signbit (DInf s) = s" | "d_signbit (DFin s q) = s"

text \<open>The order of the values that are numbers, infinities included, as an integer and a rational.\<close>

fun d_val :: "dbl \<Rightarrow> rat" where
  "d_val (DNan s) = 0" | "d_val (DInf s) = 0" | "d_val (DFin s q) = (if s then - q else q)"

fun d_lt :: "dbl \<Rightarrow> dbl \<Rightarrow> bool" where
  "d_lt (DNan s) y = False"
| "d_lt x (DNan s) = False"
| "d_lt (DInf s) (DInf t) = (s \<and> \<not> t)"
| "d_lt (DInf s) (DFin t q) = s"
| "d_lt (DFin s q) (DInf t) = (\<not> t)"
| "d_lt (DFin s p) (DFin t q) = ((if s then - p else p) < (if t then - q else q))"

fun d_eq :: "dbl \<Rightarrow> dbl \<Rightarrow> bool" where
  "d_eq (DInf s) (DInf t) = (s = t)"
| "d_eq (DFin s p) (DFin t q) = ((if s then - p else p) = (if t then - q else q))"
| "d_eq x y = False"

definition d_le :: "dbl \<Rightarrow> dbl \<Rightarrow> bool" where
  "d_le x y = (d_lt x y \<or> d_eq x y)"

fun d_neg :: "dbl \<Rightarrow> dbl" where
  "d_neg (DNan s) = DNan (\<not> s)" | "d_neg (DInf s) = DInf (\<not> s)" | "d_neg (DFin s q) = DFin (\<not> s) q"

fun d_abs :: "dbl \<Rightarrow> dbl" where
  "d_abs (DNan s) = DNan False" | "d_abs (DInf s) = DInf False" | "d_abs (DFin s q) = DFin False q"

text \<open>The sign of an exact zero sum is plus, unless both are negative zeros.\<close>

fun d_add :: "dbl \<Rightarrow> dbl \<Rightarrow> dbl" where
  "d_add (DNan s) y = DNan s"
| "d_add x (DNan s) = DNan s"
| "d_add (DInf s) (DInf t) = (if s = t then DInf s else DNan True)"
| "d_add (DInf s) (DFin t q) = DInf s"
| "d_add (DFin s q) (DInf t) = DInf t"
| "d_add (DFin s p) (DFin t q) =
     (let z = (if s then - p else p) + (if t then - q else q) in
      if z = 0 then DFin (s \<and> t) 0 else dbl_of z)"

definition d_sub :: "dbl \<Rightarrow> dbl \<Rightarrow> dbl" where
  "d_sub x y = (if d_isnan y then d_add x y else d_add x (d_neg y))"

fun d_mul :: "dbl \<Rightarrow> dbl \<Rightarrow> dbl" where
  "d_mul (DNan s) y = DNan s"
| "d_mul x (DNan s) = DNan s"
| "d_mul (DInf s) (DInf t) = DInf (s \<noteq> t)"
| "d_mul (DInf s) (DFin t q) = (if q = 0 then DNan True else DInf (s \<noteq> t))"
| "d_mul (DFin s q) (DInf t) = (if q = 0 then DNan True else DInf (s \<noteq> t))"
| "d_mul (DFin s p) (DFin t q) = dbl_mag (s \<noteq> t) (p * q)"

fun d_div :: "dbl \<Rightarrow> dbl \<Rightarrow> dbl" where
  "d_div (DNan s) y = DNan s"
| "d_div x (DNan s) = DNan s"
| "d_div (DInf s) (DInf t) = DNan True"
| "d_div (DInf s) (DFin t q) = DInf (s \<noteq> t)"
| "d_div (DFin s q) (DInf t) = DFin (s \<noteq> t) 0"
| "d_div (DFin s p) (DFin t q) =
     (if q = 0 then (if p = 0 then DNan True else DInf (s \<noteq> t)) else dbl_mag (s \<noteq> t) (p / q))"

text \<open>\<open>std::floor\<close>\<close>

fun d_floor :: "dbl \<Rightarrow> dbl" where
  "d_floor (DNan s) = DNan s"
| "d_floor (DInf s) = DInf s"
| "d_floor (DFin s q) = (let f = \<lfloor>if s then - q else q\<rfloor> in DFin (f < 0) (of_int \<bar>f\<bar>))"

text \<open>\<open>qMin(a, b)\<close> is \<open>a < b ? a : b\<close>, \<open>qMax(a, b)\<close> is \<open>a < b ? b : a\<close>.\<close>

definition d_qmin :: "dbl \<Rightarrow> dbl \<Rightarrow> dbl" where "d_qmin a b = (if d_lt a b then a else b)"
definition d_qmax :: "dbl \<Rightarrow> dbl \<Rightarrow> dbl" where "d_qmax a b = (if d_lt a b then b else a)"

text \<open>
  Conversion to \<open>qint64\<close>: towards zero. Outside the range it is undefined in C++; the machines the program
  is built for give the smallest number, written out here.
\<close>

fun d_to_i64 :: "dbl \<Rightarrow> int" where
  "d_to_i64 (DNan s) = - (2 ^ 63)"
| "d_to_i64 (DInf s) = - (2 ^ 63)"
| "d_to_i64 (DFin s q) =
     (let n = (if s then - \<lfloor>q\<rfloor> else \<lfloor>q\<rfloor>) in if - (2 ^ 63) \<le> n \<and> n < 2 ^ 63 then n else - (2 ^ 63))"

text \<open>Literals of the source: the nearest double, not negative zero.\<close>

abbreviation dlit :: "rat \<Rightarrow> dbl" where "dlit q \<equiv> dbl_of q"

definition d_zero :: dbl where "d_zero = DFin False 0"

text \<open>A double the code can have: magnitudes are representable.\<close>

fun d_wf :: "dbl \<Rightarrow> bool" where
  "d_wf (DNan s) = True" | "d_wf (DInf s) = True"
| "d_wf (DFin s q) = (0 \<le> q \<and> rnd q = q \<and> q < pow2 1024)"

subsection \<open>Powers of two and exponents\<close>

lemma pow2_pos [simp]: "0 < pow2 k" "0 \<le> pow2 k" "pow2 k \<noteq> 0"
  by (simp_all add: pow2_def)

lemma pow2_powi: "pow2 k = 2 powi k"
  by (simp add: pow2_def power_int_def field_simps)

lemma pow2_add: "pow2 (j + k) = pow2 j * pow2 k"
  by (simp add: pow2_powi power_int_add)

lemma pow2_mono: "j \<le> k \<Longrightarrow> pow2 j \<le> pow2 k"
  by (simp add: pow2_powi power_int_increasing)

lemma pow2_diff: "pow2 (j - k) = pow2 j / pow2 k"
  by (simp add: pow2_powi power_int_diff)

lemma pow2_nonneg: "0 \<le> k \<Longrightarrow> pow2 k = of_int (2 ^ nat k)"
  by (simp add: pow2_def)

lemma pow2_of_int:
  assumes "0 \<le> k"
  shows "of_int n \<le> pow2 k \<longleftrightarrow> n \<le> 2 ^ nat k" "pow2 k \<le> of_int n \<longleftrightarrow> 2 ^ nat k \<le> n"
    "of_int n < pow2 k \<longleftrightarrow> n < 2 ^ nat k"
  unfolding pow2_nonneg[OF assms] by (simp_all only: of_int_le_iff of_int_less_iff)

lemma ilog2_bounds:
  assumes "0 < q"
  shows "pow2 (ilog2 q) \<le> q \<and> q < pow2 (ilog2 q + 1)"
proof -
  obtain n d where nd: "quotient_of q = (n, d)" by (cases "quotient_of q")
  have d: "0 < d" using quotient_of_denom_pos[OF nd] .
  have q: "q = of_int n / of_int d" using quotient_of_div[OF nd] .
  have n: "0 < n" using assms d unfolding q by (simp add: zero_less_divide_iff)
  let ?e = "bitlen n - bitlen d"
  have bn: "(2 ^ nat (bitlen n - 1) :: int) \<le> n" "n < 2 ^ nat (bitlen n)" using bitlen_bounds[OF n] by auto
  have bd: "(2 ^ nat (bitlen d - 1) :: int) \<le> d" "d < 2 ^ nat (bitlen d)" using bitlen_bounds[OF d] by auto
  have pos: "0 < bitlen n" "0 < bitlen d" using n d by (simp_all add: bitlen_eq_zero_iff bitlen_nonneg order_neq_le_trans)
  have rn: "pow2 (bitlen n - 1) \<le> of_int n" "of_int n < pow2 (bitlen n)"
    and rd: "pow2 (bitlen d - 1) \<le> of_int d" "of_int d < pow2 (bitlen d)"
    using bn bd pos by (simp_all add: pow2_of_int)
  have up: "q < pow2 (?e + 1)"
  proof -
    have "of_int n < pow2 (bitlen n)" by (rule rn)
    also have "\<dots> = pow2 (?e + 1) * pow2 (bitlen d - 1)" by (simp flip: pow2_add)
    also have "\<dots> \<le> pow2 (?e + 1) * of_int d" using rd(1) by (intro mult_left_mono) auto
    finally show ?thesis using d unfolding q by (simp add: divide_less_eq)
  qed
  have lo: "pow2 (?e - 1) \<le> q"
  proof -
    have "pow2 (?e - 1) * of_int d \<le> pow2 (?e - 1) * pow2 (bitlen d)" using rd(2) by (intro mult_left_mono) auto
    also have "\<dots> = pow2 (bitlen n - 1)" by (simp flip: pow2_add)
    also have "\<dots> \<le> of_int n" by (rule rn)
    finally show ?thesis using d unfolding q by (simp add: le_divide_eq)
  qed
  show ?thesis using up lo by (auto simp: ilog2_def nd Let_def)
qed

lemma ilog2_mono: "0 < p \<Longrightarrow> p \<le> q \<Longrightarrow> ilog2 p \<le> ilog2 q"
proof (rule ccontr)
  assume a: "0 < p" "p \<le> q" "\<not> ilog2 p \<le> ilog2 q"
  then have "pow2 (ilog2 q + 1) \<le> pow2 (ilog2 p)" by (intro pow2_mono) simp
  then show False using ilog2_bounds[of p] ilog2_bounds[of q] a by linarith
qed

subsection \<open>Rounding is monotone and keeps what is representable\<close>

lemma rne_bounds: "\<lfloor>x\<rfloor> \<le> rne x" "rne x \<le> \<lfloor>x\<rfloor> + 1"
  by (auto simp: rne_def Let_def)

lemma rne_of_int [simp]: "rne (of_int n) = n"
  by (simp add: rne_def)

lemma rne_mono: "x \<le> y \<Longrightarrow> rne x \<le> rne y"
proof (cases "\<lfloor>x\<rfloor> = \<lfloor>y\<rfloor>")
  case True
  assume "x \<le> y"
  then show ?thesis using True by (auto simp: rne_def Let_def)
next
  case False
  assume "x \<le> y"
  then have "\<lfloor>x\<rfloor> + 1 \<le> \<lfloor>y\<rfloor>" using False floor_mono[of x y] by linarith
  then show ?thesis using rne_bounds[of x] rne_bounds[of y] by linarith
qed

lemma rne_ge: "of_int n \<le> x \<Longrightarrow> n \<le> rne x"
  using rne_mono[of "of_int n" x] by simp

lemma rne_le: "x \<le> of_int n \<Longrightarrow> rne x \<le> n"
  using rne_mono[of x "of_int n"] by simp

lemma rnd_nonneg [simp]: "0 \<le> rnd q"
proof -
  have "0 \<le> rne (q / pow2 (ulp_exp q))" if "0 < q"
    using that by (intro rne_ge) simp
  then show ?thesis by (simp add: rnd_def)
qed

lemma rnd_0 [simp]: "rnd 0 = 0"
  by (simp add: rnd_def)

lemma rnd_ge_exp:
  assumes "0 < q" and "- 1022 \<le> ilog2 q"
  shows "pow2 (ilog2 q) \<le> rnd q"
proof -
  have u: "ulp_exp q = ilog2 q - 52" using assms(2) by (simp add: ulp_exp_def)
  have "pow2 52 \<le> q / pow2 (ulp_exp q)"
    using ilog2_bounds[OF assms(1)] unfolding u by (simp add: pow2_diff le_divide_eq)
  then have "2 ^ 52 \<le> rne (q / pow2 (ulp_exp q))"
    by (intro rne_ge) (simp add: pow2_def)
  then have "pow2 52 * pow2 (ulp_exp q) \<le> of_int (rne (q / pow2 (ulp_exp q))) * pow2 (ulp_exp q)"
    by (intro mult_right_mono) (simp_all add: pow2_def flip: of_int_le_iff)
  then show ?thesis using assms(1) by (simp add: rnd_def u flip: pow2_add)
qed

lemma rnd_le_exp:
  assumes "0 < q"
  shows "rnd q \<le> max (pow2 (ilog2 q + 1)) (pow2 (ulp_exp q))"
proof (cases "ulp_exp q \<le> ilog2 q + 1")
  case True
  let ?k = "ilog2 q + 1 - ulp_exp q"
  have "q / pow2 (ulp_exp q) \<le> of_int (2 ^ nat ?k)"
    using ilog2_bounds[OF assms] True
    by (subst pow2_nonneg[symmetric]) (simp_all add: pow2_diff divide_right_mono)
  then have "rne (q / pow2 (ulp_exp q)) \<le> 2 ^ nat ?k" by (rule rne_le)
  then have "of_int (rne (q / pow2 (ulp_exp q))) \<le> pow2 ?k"
    using True by (simp add: pow2_of_int)
  then have "rnd q \<le> pow2 ?k * pow2 (ulp_exp q)"
    using assms by (simp add: rnd_def mult_right_mono)
  then show ?thesis by (simp flip: pow2_add)
next
  case False
  then have "pow2 (ilog2 q + 1) \<le> pow2 (ulp_exp q)" by (intro pow2_mono) simp
  then have "q / pow2 (ulp_exp q) \<le> of_int 1"
    using ilog2_bounds[OF assms] by (simp add: divide_le_eq)
  then have "rne (q / pow2 (ulp_exp q)) \<le> 1" by (rule rne_le)
  then have "of_int (rne (q / pow2 (ulp_exp q))) * pow2 (ulp_exp q) \<le> 1 * pow2 (ulp_exp q)"
    by (intro mult_right_mono) simp_all
  then show ?thesis using assms by (simp add: rnd_def le_max_iff_disj)
qed

lemma rnd_mono: "p \<le> q \<Longrightarrow> rnd p \<le> rnd q"
proof -
  assume le: "p \<le> q"
  consider "p \<le> 0" | "0 < p" by linarith
  then show "rnd p \<le> rnd q"
  proof cases
    case 1
    then show ?thesis by (simp add: rnd_def[of p])
  next
    case 2
    then have q: "0 < q" using le by simp
    have e: "ilog2 p \<le> ilog2 q" using 2 le by (rule ilog2_mono)
    show ?thesis
    proof (cases "ulp_exp p = ulp_exp q")
      case True
      have "p / pow2 (ulp_exp q) \<le> q / pow2 (ulp_exp q)" using le by (simp add: divide_right_mono)
      from rne_mono[OF this] show ?thesis using 2 q True by (simp add: rnd_def mult_right_mono)
    next
      case False
      then have *: "ilog2 p < ilog2 q" "- 1074 < ilog2 q - 52" "ulp_exp p < ilog2 q"
        using e by (auto simp: ulp_exp_def max_def split: if_splits)
      have "rnd p \<le> max (pow2 (ilog2 p + 1)) (pow2 (ulp_exp p))" by (rule rnd_le_exp[OF 2])
      also have "\<dots> \<le> pow2 (ilog2 q)" using * by (simp add: pow2_mono)
      also have "\<dots> \<le> rnd q" using * by (intro rnd_ge_exp[OF q]) simp
      finally show ?thesis .
    qed
  qed
qed

lemma rnd_idem_grid:
  assumes "0 < q" and "q / pow2 (ulp_exp q) = of_int n"
  shows "rnd q = q"
  using assms by (simp add: rnd_def) (metis nonzero_divide_eq_eq pow2_pos(3))

text \<open>Every integer up to 53 bits is a double.\<close>

lemma rnd_int:
  assumes "0 \<le> n" and "n < 2 ^ 53"
  shows "rnd (of_int n) = of_int n"
proof (cases "n = 0")
  case True
  then show ?thesis by simp
next
  case False
  then have q: "0 < (of_int n :: rat)" using assms by simp
  have "\<not> 53 \<le> ilog2 (of_int n)"
  proof
    assume "53 \<le> ilog2 (of_int n)"
    then have "pow2 53 \<le> of_int n" using pow2_mono[of 53 "ilog2 (of_int n)"] ilog2_bounds[OF q] by linarith
    then show False using assms by (simp add: pow2_of_int)
  qed
  then have u: "ulp_exp (of_int n) \<le> 0" by (simp add: ulp_exp_def)
  have "of_int n / pow2 (ulp_exp (of_int n)) = of_int (n * 2 ^ nat (- ulp_exp (of_int n)))"
    using u by (auto simp: pow2_def split: if_splits)
  then show ?thesis by (rule rnd_idem_grid[OF q])
qed

subsection \<open>The order\<close>

lemma d_lt_irrefl [simp]: "\<not> d_lt x x"
  by (cases x) auto

lemma d_lt_trans: "d_lt x y \<Longrightarrow> d_lt y z \<Longrightarrow> d_lt x z"
  by (cases x; cases y; cases z) auto

lemma d_lt_asym: "d_lt x y \<Longrightarrow> \<not> d_lt y x"
  by (cases x; cases y) auto

lemma d_le_trans: "d_le x y \<Longrightarrow> d_le y z \<Longrightarrow> d_le x z"
  by (cases x; cases y; cases z) (auto simp: d_le_def)

lemma d_lt_le_trans: "d_lt x y \<Longrightarrow> d_le y z \<Longrightarrow> d_lt x z"
  by (cases x; cases y; cases z) (auto simp: d_le_def)

lemma d_le_lt_trans: "d_le x y \<Longrightarrow> d_lt y z \<Longrightarrow> d_lt x z"
  by (cases x; cases y; cases z) (auto simp: d_le_def)

lemma d_not_lt: "\<not> d_isnan x \<Longrightarrow> \<not> d_isnan y \<Longrightarrow> \<not> d_lt x y \<longleftrightarrow> d_le y x"
  by (cases x; cases y) (auto simp: d_le_def)

lemma d_lt_nan: "d_lt x y \<Longrightarrow> \<not> d_isnan x \<and> \<not> d_isnan y"
  by (cases x; cases y) auto

lemma d_le_nan: "d_le x y \<Longrightarrow> \<not> d_isnan x \<and> \<not> d_isnan y"
  by (cases x; cases y) (auto simp: d_le_def)

lemma d_le_refl: "\<not> d_isnan x \<Longrightarrow> d_le x x"
  by (cases x) (auto simp: d_le_def)

lemma d_qmin_le_qmax: "\<not> d_isnan a \<Longrightarrow> \<not> d_isnan b \<Longrightarrow> d_le (d_qmin a b) (d_qmax a b)"
  by (cases a; cases b) (auto simp: d_qmin_def d_qmax_def d_le_def)

text \<open>Rounding keeps the order of signed values.\<close>

lemma dbl_of_mono: "p \<le> q \<Longrightarrow> d_le (dbl_of p) (dbl_of q)"
proof -
  assume le: "p \<le> q"
  consider "q < 0" | "p < 0" "0 \<le> q" | "0 \<le> p" by linarith
  then show ?thesis
  proof cases
    case 1
    then show ?thesis using le rnd_mono[of "- q" "- p"]
      by (auto simp: dbl_of_def dbl_mag_def Let_def d_le_def)
  next
    case 2
    then show ?thesis using rnd_nonneg[of "- p"] rnd_nonneg[of q]
      by (auto simp: dbl_of_def dbl_mag_def Let_def d_le_def simp del: rnd_nonneg)
  next
    case 3
    then show ?thesis using le rnd_mono[of p q]
      by (auto simp: dbl_of_def dbl_mag_def Let_def d_le_def)
  qed
qed

lemma dbl_of_not_nan [simp]: "\<not> d_isnan (dbl_of q)"
  by (simp add: dbl_of_def dbl_mag_def Let_def)

lemma d_zero_val [simp]: "d_lt (DFin s 0) (DFin t 0) = False" "d_eq (DFin s 0) (DFin t 0)"
  by simp_all

text \<open>Subtracting a magnitude gives no more than adding it.\<close>

lemma dbl_of_0 [simp]: "dbl_of 0 = DFin False 0"
  by (simp add: dbl_of_def dbl_mag_def pow2_def Let_def)

lemma d_le_zero_sign:
  "d_le (DFin s 0) y = d_le (DFin False 0) y" "d_le y (DFin s 0) = d_le y (DFin False 0)"
  by (cases y; simp add: d_le_def)+

lemma d_add_finite:
  assumes "d_isfinite x" and "d_isfinite y"
  shows "\<exists>s. d_add x y = (if d_val x + d_val y = 0 then DFin s 0 else dbl_of (d_val x + d_val y))"
  using assms by (cases x; cases y) (auto simp: Let_def)

lemma d_add_le:
  assumes "d_isfinite x" "d_isfinite y" "d_isfinite x'" "d_isfinite y'"
    and "d_val x + d_val y \<le> d_val x' + d_val y'"
  shows "d_le (d_add x y) (d_add x' y')"
proof -
  have m: "d_le (dbl_of (d_val x + d_val y)) (dbl_of (d_val x' + d_val y'))"
    using assms(5) by (rule dbl_of_mono)
  obtain s t where "d_add x y = (if d_val x + d_val y = 0 then DFin s 0 else dbl_of (d_val x + d_val y))"
    "d_add x' y' = (if d_val x' + d_val y' = 0 then DFin t 0 else dbl_of (d_val x' + d_val y'))"
    using d_add_finite assms(1-4) by meson
  then show ?thesis
    using m d_le_zero_sign[where s = s] d_le_zero_sign[where s = t]
    by (cases "d_val x + d_val y = 0"; cases "d_val x' + d_val y' = 0") auto
qed

lemma d_neg_finite [simp]: "d_isfinite (d_neg x) = d_isfinite x" "d_isfinite (d_abs x) = d_isfinite x"
  by (cases x; simp)+

lemma d_neg_val [simp]: "d_val (d_neg x) = - d_val x"
  by (cases x) simp_all

lemma d_finite_not_nan: "d_isfinite x \<Longrightarrow> \<not> d_isnan x"
  by (cases x) simp_all

lemma d_abs_val: "d_wf x \<Longrightarrow> 0 \<le> d_val (d_abs x)"
  by (cases x) simp_all

lemma d_sub_le_add:
  assumes "d_isfinite x" and "d_isfinite t" and "d_wf t"
  shows "d_le (d_sub x (d_abs t)) (d_add x (d_abs t))"
  using assms d_abs_val[OF assms(3)] by (simp add: d_sub_def d_finite_not_nan d_add_le)

text \<open>A representable value lies where the rounded one does; adding a magnitude moves up, subtracting down.\<close>

lemma dbl_mag_wf: "d_wf (DFin s q) \<Longrightarrow> dbl_mag s q = DFin s q"
  unfolding dbl_mag_def Let_def by (metis d_wf.simps(3) linorder_not_le)

lemma dbl_of_wf:
  assumes "d_wf x" and "d_isfinite x"
  shows "d_le x (dbl_of (d_val x))" and "d_le (dbl_of (d_val x)) x"
proof -
  obtain s q where x: "x = DFin s q" using assms(2) by (cases x) auto
  have q: "0 \<le> q" using assms(1) x by simp
  have m: "dbl_mag t q = DFin t q" for t using assms(1) dbl_mag_wf[of t q] by (simp add: x)
  have z: "dbl_of (d_val x) = DFin (s \<and> q \<noteq> 0) q"
    using q m[of True] m[of False] by (cases s; cases "q = 0") (simp_all add: x dbl_of_def)
  show "d_le x (dbl_of (d_val x))" "d_le (dbl_of (d_val x)) x"
    unfolding z by (simp_all add: x d_le_def)
qed

lemma d_le_zero_iff: "d_le (DFin s 0) y = d_le (DFin t 0) y" "d_le y (DFin s 0) = d_le y (DFin t 0)"
  by (cases y; simp add: d_le_def)+

lemma d_le_add_abs:
  assumes x: "d_wf x" "d_isfinite x" and "d_wf h" "d_isfinite h"
  shows "d_le x (d_add x (d_abs h))" and "d_le (d_sub x (d_abs h)) x"
proof -
  have h1: "0 \<le> d_val (d_abs h)" by (rule d_abs_val[OF assms(3)])
  have h2: "d_isfinite (d_abs h)" using assms(4) by (simp only: d_neg_finite)
  have h3: "\<not> d_isnan (d_abs h)" by (rule d_finite_not_nan[OF h2])
  note h = h1 h2 h3
  let ?u = "d_val x + d_val (d_abs h)"
  let ?d = "d_val x + d_val (d_neg (d_abs h))"
  have val: "d_val x \<le> ?u" "?d \<le> d_val x" using h(1) d_neg_val[of "d_abs h"] by simp_all
  have u: "d_le x (dbl_of ?u)" by (rule d_le_trans[OF dbl_of_wf(1)[OF x] dbl_of_mono[OF val(1)]])
  have d: "d_le (dbl_of ?d) x" by (rule d_le_trans[OF dbl_of_mono[OF val(2)] dbl_of_wf(2)[OF x]])
  obtain s where s: "d_add x (d_abs h) = (if ?u = 0 then DFin s 0 else dbl_of ?u)"
    using d_add_finite[OF x(2) h(2)] by blast
  show "d_le x (d_add x (d_abs h))"
    using s u d_le_zero_iff(2)[of x s False] by (cases "?u = 0") simp_all
  have "d_isfinite (d_neg (d_abs h))" using h(2) by simp
  from d_add_finite[OF x(2) this] obtain r where
    r: "d_add x (d_neg (d_abs h)) = (if ?d = 0 then DFin r 0 else dbl_of ?d)" by blast
  have "d_sub x (d_abs h) = (if ?d = 0 then DFin r 0 else dbl_of ?d)"
    using h(3) r by (simp only: d_sub_def if_False)
  then show "d_le (d_sub x (d_abs h)) x"
    using d d_le_zero_iff(1)[of r x False] by (cases "?d = 0") simp_all
qed

end
