(* ===== verification/Sample_Types.thy ===== *)
theory Sample_Types
  imports Qt_Text Doubles
begin

text \<open>
  \<open>src/src/core/sampletypes.h\<close>: what a value measures, the flags that go with it, and the key of a meter's
  port with its text form.
\<close>

subsection \<open>Quantities\<close>

datatype quantity =
  Unknown | Voltage | Current | Resistance | Capacitance | Temperature
  | Frequency | DutyCycle | Continuity | PulseWidth | Conductance | Power
  | Gain | SoundPressureLevel | CarbonMonoxide | RelativeHumidity | Time | WindSpeed
  | Pressure | ParallelInductance | ParallelCapacitance | ParallelResistance | SeriesInductance | SeriesCapacitance
  | SeriesResistance | DissipationFactor | QualityFactor | PhaseAngle | Difference | Count
  | PowerFactor | ApparentPower | Mass | HarmonicRatio | Energy | ElectricCharge
  | StateOfCharge | TimeToGo | CarbonDioxide | Illuminance

fun quantity_code :: "quantity \<Rightarrow> nat" where
  "quantity_code Unknown = 0"
| "quantity_code Voltage = 10000"
| "quantity_code Current = 10001"
| "quantity_code Resistance = 10002"
| "quantity_code Capacitance = 10003"
| "quantity_code Temperature = 10004"
| "quantity_code Frequency = 10005"
| "quantity_code DutyCycle = 10006"
| "quantity_code Continuity = 10007"
| "quantity_code PulseWidth = 10008"
| "quantity_code Conductance = 10009"
| "quantity_code Power = 10010"
| "quantity_code Gain = 10011"
| "quantity_code SoundPressureLevel = 10012"
| "quantity_code CarbonMonoxide = 10013"
| "quantity_code RelativeHumidity = 10014"
| "quantity_code Time = 10015"
| "quantity_code WindSpeed = 10016"
| "quantity_code Pressure = 10017"
| "quantity_code ParallelInductance = 10018"
| "quantity_code ParallelCapacitance = 10019"
| "quantity_code ParallelResistance = 10020"
| "quantity_code SeriesInductance = 10021"
| "quantity_code SeriesCapacitance = 10022"
| "quantity_code SeriesResistance = 10023"
| "quantity_code DissipationFactor = 10024"
| "quantity_code QualityFactor = 10025"
| "quantity_code PhaseAngle = 10026"
| "quantity_code Difference = 10027"
| "quantity_code Count = 10028"
| "quantity_code PowerFactor = 10029"
| "quantity_code ApparentPower = 10030"
| "quantity_code Mass = 10031"
| "quantity_code HarmonicRatio = 10032"
| "quantity_code Energy = 1000"
| "quantity_code ElectricCharge = 1001"
| "quantity_code StateOfCharge = 1002"
| "quantity_code TimeToGo = 1003"
| "quantity_code CarbonDioxide = 1004"
| "quantity_code Illuminance = 1005"

text \<open>The table, in the source's order: quantity, id, name.\<close>

definition quantity_table :: "(quantity \<times> string \<times> string) list" where
  "quantity_table = [
    (Unknown, ''unknown'', ''Unknown''),
    (Voltage, ''voltage'', ''Voltage''),
    (Current, ''current'', ''Current''),
    (Resistance, ''resistance'', ''Resistance''),
    (Capacitance, ''capacitance'', ''Capacitance''),
    (Temperature, ''temperature'', ''Temperature''),
    (Frequency, ''frequency'', ''Frequency''),
    (DutyCycle, ''duty_cycle'', ''Duty cycle''),
    (Continuity, ''continuity'', ''Continuity''),
    (PulseWidth, ''pulse_width'', ''Pulse width''),
    (Conductance, ''conductance'', ''Conductance''),
    (Power, ''power'', ''Power''),
    (Gain, ''gain'', ''Gain''),
    (SoundPressureLevel, ''sound_pressure_level'', ''Sound pressure level''),
    (CarbonMonoxide, ''carbon_monoxide'', ''Carbon monoxide''),
    (RelativeHumidity, ''relative_humidity'', ''Relative humidity''),
    (Time, ''time'', ''Time''),
    (WindSpeed, ''wind_speed'', ''Wind speed''),
    (Pressure, ''pressure'', ''Pressure''),
    (ParallelInductance, ''parallel_inductance'', ''Parallel inductance''),
    (ParallelCapacitance, ''parallel_capacitance'', ''Parallel capacitance''),
    (ParallelResistance, ''parallel_resistance'', ''Parallel resistance''),
    (SeriesInductance, ''series_inductance'', ''Series inductance''),
    (SeriesCapacitance, ''series_capacitance'', ''Series capacitance''),
    (SeriesResistance, ''series_resistance'', ''Series resistance''),
    (DissipationFactor, ''dissipation_factor'', ''Dissipation factor''),
    (QualityFactor, ''quality_factor'', ''Quality factor''),
    (PhaseAngle, ''phase_angle'', ''Phase angle''),
    (Difference, ''difference'', ''Difference''),
    (Count, ''count'', ''Count''),
    (PowerFactor, ''power_factor'', ''Power factor''),
    (ApparentPower, ''apparent_power'', ''Apparent power''),
    (Mass, ''mass'', ''Mass''),
    (HarmonicRatio, ''harmonic_ratio'', ''Harmonic ratio''),
    (Energy, ''energy'', ''Energy''),
    (ElectricCharge, ''electric_charge'', ''Electric charge''),
    (StateOfCharge, ''state_of_charge'', ''State of charge''),
    (TimeToGo, ''time_to_go'', ''Time to go''),
    (CarbonDioxide, ''carbon_dioxide'', ''Carbon dioxide''),
    (Illuminance, ''illuminance'', ''Illuminance'')]"

text \<open>\<open>Quantities::find\<close>, \<open>id\<close>, \<open>fromId\<close> and \<open>name\<close> (untranslated).\<close>

definition quantity_find :: "quantity \<Rightarrow> quantity \<times> string \<times> string" where
  "quantity_find q = (case filter (\<lambda>e. fst e = q) quantity_table of [] \<Rightarrow> hd quantity_table | e # es \<Rightarrow> e)"

definition quantity_id :: "quantity \<Rightarrow> qstring" where
  "quantity_id q = lit (fst (snd (quantity_find q)))"

definition quantity_name :: "quantity \<Rightarrow> qstring" where
  "quantity_name q = lit (snd (snd (quantity_find q)))"

definition quantity_from_id :: "qstring \<Rightarrow> quantity" where
  "quantity_from_id i = (case filter (\<lambda>e. lit (fst (snd e)) = i) quantity_table of [] \<Rightarrow> Unknown | e # es \<Rightarrow> fst e)"

subsection \<open>Flags\<close>

definition AC :: u32 where "AC = push_bit 0 1"
definition DC :: u32 where "DC = push_bit 1 1"
definition RMS :: u32 where "RMS = push_bit 2 1"
definition Diode :: u32 where "Diode = push_bit 3 1"
definition HoldFlag :: u32 where "HoldFlag = push_bit 4 1"
definition MaxFlag :: u32 where "MaxFlag = push_bit 5 1"
definition MinFlag :: u32 where "MinFlag = push_bit 6 1"
definition Autorange :: u32 where "Autorange = push_bit 7 1"
definition Relative :: u32 where "Relative = push_bit 8 1"
definition Avg :: u32 where "Avg = push_bit 18 1"
definition FourWire :: u32 where "FourWire = push_bit 21 1"
definition LimitPass :: u32 where "LimitPass = push_bit 22 1"
definition LimitHigh :: u32 where "LimitHigh = push_bit 23 1"
definition LimitLow :: u32 where "LimitLow = push_bit 24 1"
definition LowBattery :: u32 where "LowBattery = push_bit 28 1"
definition Peak :: u32 where "Peak = push_bit 29 1"

definition Defining :: u32 where
  "Defining = AC OR DC OR RMS OR Diode OR FourWire"

definition has_flag :: "u32 \<Rightarrow> u32 \<Rightarrow> bool" where
  "has_flag flags f \<longleftrightarrow> flags AND f \<noteq> 0"

definition couplingText :: "u32 \<Rightarrow> qstring" where
  "couplingText flags =
     (let ac = has_flag flags AC; dc = has_flag flags DC in
      if ac \<and> dc then lit ''AC+DC'' else if ac then lit ''AC'' else if dc then lit ''DC'' else [])"

subsection \<open>Port keys\<close>

datatype slot = Main | Sub | Sub2 | Sub3

definition kMaxValues :: int where "kMaxValues = 4"

record port_key =
  pk_channel :: int
  pk_quantity :: quantity
  pk_defining :: u32
  pk_slot :: slot

definition port0 :: port_key where
  "port0 = \<lparr>pk_channel = 1, pk_quantity = Unknown, pk_defining = 0, pk_slot = Main\<rparr>"

definition port_valid :: "port_key \<Rightarrow> bool" where
  "port_valid k \<longleftrightarrow> pk_quantity k \<noteq> Unknown \<or> pk_defining k \<noteq> 0"

definition kFlagNames :: "(u32 \<times> string) list" where
  "kFlagNames = [(AC, ''ac''), (DC, ''dc''), (RMS, ''rms''), (Diode, ''diode''), (FourWire, ''4w'')]"

fun slot_text :: "slot \<Rightarrow> string" where
  "slot_text Main = []" | "slot_text Sub = ''sub''" | "slot_text Sub2 = ''sub2''" | "slot_text Sub3 = ''sub3''"

definition port_parts :: "port_key \<Rightarrow> qstring list" where
  "port_parts k = quantity_id (pk_quantity k) #
     map (\<lambda>f. lit (snd f)) (filter (\<lambda>f. has_flag (pk_defining k) (fst f)) kFlagNames) @
     (if pk_slot k \<noteq> Main then [lit (slot_text (pk_slot k))] else [])"

definition port_to_string :: "port_key \<Rightarrow> qstring" where
  "port_to_string k =
     (let text = q_join (of_char CHR ''.'') (port_parts k)
      in if pk_channel k = 1 then text else dec_int (pk_channel k) @ of_char CHR '':'' # text)"

text \<open>One part after the quantity: a flag or a slot; \<open>None\<close> for a part that is neither.\<close>

definition port_part :: "qstring \<Rightarrow> port_key \<Rightarrow> port_key option" where
  "port_part p k =
     (let fs = filter (\<lambda>f. p = lit (snd f)) kFlagNames;
          k1 = k\<lparr>pk_defining := fold (\<lambda>f d. d OR fst f) fs (pk_defining k)\<rparr>;
          k2 = (if p = lit ''sub'' then k1\<lparr>pk_slot := Sub\<rparr> else k1);
          k3 = (if p = lit ''sub2'' then k2\<lparr>pk_slot := Sub2\<rparr> else k2);
          k4 = (if p = lit ''sub3'' then k3\<lparr>pk_slot := Sub3\<rparr> else k3)
      in if fs \<noteq> [] \<or> p = lit ''sub'' \<or> p = lit ''sub2'' \<or> p = lit ''sub3'' then Some k4 else None)"

fun port_rest :: "qstring list \<Rightarrow> port_key \<Rightarrow> port_key" where
  "port_rest [] k = k"
| "port_rest (p # ps) k = (case port_part p k of None \<Rightarrow> port0 | Some k' \<Rightarrow> port_rest ps k')"

definition port_text :: "qstring \<Rightarrow> int \<Rightarrow> port_key" where
  "port_text rest channel =
     (let parts = q_split (of_char CHR ''.'') rest; q = quantity_from_id (hd parts) in
      if q = Unknown \<and> hd parts \<noteq> lit ''unknown'' then port0
      else port_rest (tl parts) (port0\<lparr>pk_channel := channel, pk_quantity := q\<rparr>))"

definition port_from_string :: "qstring \<Rightarrow> port_key" where
  "port_from_string text =
     (let rest = q_trim text in
      case q_index (of_char CHR '':'') rest of
        Some (Suc n) \<Rightarrow>
          (case q_to_int (take (Suc n) rest) of
             None \<Rightarrow> port0
           | Some c \<Rightarrow> if c < 1 then port0 else port_text (drop (Suc (Suc n)) rest) c)
      | _ \<Rightarrow> port_text rest 1)"

subsection \<open>Facts on texts\<close>

lemma unat_of_char: "unat (of_char c :: u16) = (of_char c :: nat)"
proof -
  have e: "(of_char c :: u16) = of_nat (of_char c)" by (simp only: of_nat_of_char)
  have "(of_char c :: nat) < 256" by (rule nat_of_char_less_256)
  then show ?thesis unfolding e unat_of_nat by (intro mod_less) (erule order.strict_trans, simp)
qed

lemma of_char_u16_inj [simp]: "(of_char c :: u16) = of_char d \<longleftrightarrow> c = d"
  by (metis unat_of_char of_char_eq_iff)

lemma lit_inj [simp]: "lit s = lit t \<longleftrightarrow> s = t"
  by (rule inj_map_eq_map) (simp add: inj_def)

lemma split_join:
  "ps \<noteq> [] \<Longrightarrow> list_all (\<lambda>p. sep \<notin> set p) ps \<Longrightarrow> split_bytes sep (q_join sep ps) = ps"
proof (induction sep ps rule: q_join.induct)
  case (2 sep p)
  then show ?case by (simp add: split_bytes_no_sep_id)
next
  case (3 sep p p' ps)
  then show ?case by (simp add: split_bytes_append split_bytes_no_sep_id)
qed simp

subsection \<open>Quantities have distinct ids\<close>

lemma quantity_table_ids: "distinct (map (\<lambda>e. fst (snd e)) quantity_table)"
  by (simp add: quantity_table_def)

lemma quantity_table_all: "q \<in> set (map fst quantity_table)"
  by (cases q) (simp_all add: quantity_table_def)

lemma quantity_table_fst: "distinct (map fst quantity_table)"
  by (simp add: quantity_table_def)

lemma filter_distinct_key:
  assumes "distinct (map f xs)" and "x \<in> set xs"
  shows "filter (\<lambda>e. f e = f x) xs = [x]"
  using assms by (induction xs) (auto simp: filter_empty_conv rev_image_eqI)

lemma quantity_find_mem: "quantity_find q \<in> set quantity_table \<and> fst (quantity_find q) = q"
proof -
  obtain e where e: "e \<in> set quantity_table" "q = fst e" using quantity_table_all[of q] by auto
  then show ?thesis
    using filter_distinct_key[OF quantity_table_fst e(1)] by (simp add: quantity_find_def)
qed

lemma quantity_from_id_id [simp]: "quantity_from_id (quantity_id q) = q"
  using quantity_find_mem[of q] filter_distinct_key[OF quantity_table_ids, of "quantity_find q"]
  by (simp add: quantity_from_id_def quantity_id_def)

definition id_chars :: string where
  "id_chars = ''abcdefghijklmnopqrstuvwxyz_''"

lemma id_chars_plain: "c \<in> set id_chars \<Longrightarrow> c \<noteq> CHR ''.'' \<and> c \<noteq> CHR '':'' \<and> \<not> q_space (of_char c)"
  by (auto simp: id_chars_def q_space_def)

lemma quantity_ids_chars: "list_all (\<lambda>e. list_all (\<lambda>c. c \<in> set id_chars) (fst (snd e))) quantity_table"
  by (simp add: quantity_table_def id_chars_def)

lemma quantity_id_plain:
  assumes "c \<in> set (quantity_id q)"
  shows "c \<noteq> of_char CHR ''.'' \<and> c \<noteq> of_char CHR '':'' \<and> \<not> q_space c"
proof -
  obtain d where d: "c = of_char d" "d \<in> set (fst (snd (quantity_find q)))"
    using assms by (auto simp: quantity_id_def)
  have "d \<in> set id_chars"
    using quantity_ids_chars quantity_find_mem[of q] d(2) unfolding list_all_iff by blast
  then show ?thesis using id_chars_plain[of d] d(1) of_char_u16_inj by metis
qed

lemma quantity_id_unknown: "quantity_id Unknown = lit ''unknown''"
  by (simp add: quantity_id_def quantity_find_def quantity_table_def)

subsection \<open>Port keys and their text\<close>

lemma has_flag_push_bit: "has_flag d (push_bit n 1) \<longleftrightarrow> bit d n" if "n < 32"
  using that by (simp add: has_flag_def push_bit_eq_mult and_exp_eq_0_iff_not_bit)

text \<open>A flag word with nothing but defining flags is the union of those it has.\<close>

lemma flag_simps:
  "has_flag d AC = bit d 0" "has_flag d DC = bit d 1" "has_flag d RMS = bit d 2"
  "has_flag d Diode = bit d 3" "has_flag d FourWire = bit d 21"
  unfolding AC_def DC_def RMS_def Diode_def FourWire_def by (rule has_flag_push_bit, simp)+

lemma bit_one_at: "k < 32 \<Longrightarrow> bit (push_bit k 1 :: u32) n \<longleftrightarrow> n = k"
  by (auto simp: bit_exp_iff)

lemma bit_flags:
  "bit AC n \<longleftrightarrow> n = 0" "bit DC n \<longleftrightarrow> n = 1" "bit RMS n \<longleftrightarrow> n = 2" "bit Diode n \<longleftrightarrow> n = 3"
  "bit FourWire n \<longleftrightarrow> n = 21"
  unfolding AC_def DC_def RMS_def Diode_def FourWire_def by (rule bit_one_at, simp)+

definition flag_union :: "u32 \<Rightarrow> u32" where
  "flag_union d = foldr (\<lambda>f acc. (if has_flag d (fst f) then fst f else 0) OR acc) kFlagNames 0"

lemma flag_union_id:
  assumes "d AND Defining = d"
  shows "flag_union d = d"
proof (rule bit_word_eqI)
  fix n
  have "bit d n \<longleftrightarrow> bit d n \<and> bit Defining n" using arg_cong[where f = "\<lambda>w. bit w n", OF assms] by (simp add: bit_and_iff)
  then have "bit d n \<Longrightarrow> n = 0 \<or> n = 1 \<or> n = 2 \<or> n = 3 \<or> n = 21"
    by (auto simp: Defining_def bit_or_iff bit_flags)
  then show "bit (flag_union d) n = bit d n"
    by (auto simp: flag_union_def kFlagNames_def flag_simps bit_or_iff bit_flags)
qed

lemma port_part_flags:
  "port_part (lit ''ac'') k = Some (k\<lparr>pk_defining := pk_defining k OR AC\<rparr>)"
  "port_part (lit ''dc'') k = Some (k\<lparr>pk_defining := pk_defining k OR DC\<rparr>)"
  "port_part (lit ''rms'') k = Some (k\<lparr>pk_defining := pk_defining k OR RMS\<rparr>)"
  "port_part (lit ''diode'') k = Some (k\<lparr>pk_defining := pk_defining k OR Diode\<rparr>)"
  "port_part (lit ''4w'') k = Some (k\<lparr>pk_defining := pk_defining k OR FourWire\<rparr>)"
  by (simp_all only: port_part_def kFlagNames_def Let_def lit_inj filter.simps snd_conv fst_conv) simp_all

lemma port_part_slots:
  "port_part (lit ''sub'') k = Some (k\<lparr>pk_slot := Sub\<rparr>)"
  "port_part (lit ''sub2'') k = Some (k\<lparr>pk_slot := Sub2\<rparr>)"
  "port_part (lit ''sub3'') k = Some (k\<lparr>pk_slot := Sub3\<rparr>)"
  by (simp_all only: port_part_def kFlagNames_def Let_def lit_inj filter.simps snd_conv fst_conv) simp_all

lemma port_rest_flags_of:
  "\<forall>f \<in> set fs. \<forall>k. port_part (lit (snd f)) k = Some (k\<lparr>pk_defining := pk_defining k OR fst f\<rparr>) \<Longrightarrow>
   port_rest (map (\<lambda>f. lit (snd f)) (filter (\<lambda>f. has_flag d (fst f)) fs) @ ps) k =
     port_rest ps (k\<lparr>pk_defining := pk_defining k OR
       foldr (\<lambda>f acc. (if has_flag d (fst f) then fst f else 0) OR acc) fs 0\<rparr>)"
  by (induction fs arbitrary: k) (simp_all add: or.assoc)

lemma port_rest_flags:
  "port_rest (map (\<lambda>f. lit (snd f)) (filter (\<lambda>f. has_flag d (fst f)) kFlagNames) @ ps) k =
     port_rest ps (k\<lparr>pk_defining := pk_defining k OR flag_union d\<rparr>)"
proof -
  have "\<forall>f \<in> set kFlagNames. \<forall>k. port_part (lit (snd f)) k = Some (k\<lparr>pk_defining := pk_defining k OR fst f\<rparr>)"
    by (simp only: kFlagNames_def list.set ball_simps fst_conv snd_conv port_part_flags simp_thms)
  then show ?thesis unfolding flag_union_def by (rule port_rest_flags_of)
qed

lemma port_rest_slot:
  "port_rest (if s \<noteq> Main then [lit (slot_text s)] else []) k =
     (if s \<noteq> Main then k\<lparr>pk_slot := s\<rparr> else k)"
  by (cases s) (simp_all only: slot_text.simps port_rest.simps port_part_slots option.case slot.simps simp_thms if_True if_False)

text \<open>Every character of the text but the colon after the channel is none a reader looks for.\<close>

definition part_chars :: string where
  "part_chars = ''acdefimorsbu234w''"

lemma part_chars_plain: "c \<in> set part_chars \<Longrightarrow> c \<noteq> CHR ''.'' \<and> c \<noteq> CHR '':'' \<and> \<not> q_space (of_char c)"
  by (auto simp: part_chars_def q_space_def)

lemma flag_slot_chars:
  "list_all (\<lambda>f. list_all (\<lambda>c. c \<in> set part_chars) (snd f)) kFlagNames"
  "list_all (\<lambda>c. c \<in> set part_chars) (slot_text s)"
  by (simp add: kFlagNames_def part_chars_def) (cases s; simp add: part_chars_def)

lemma port_parts_plain:
  assumes "p \<in> set (port_parts k)" and "c \<in> set p"
  shows "c \<noteq> of_char CHR ''.'' \<and> c \<noteq> of_char CHR '':'' \<and> \<not> q_space c"
proof (cases "p = quantity_id (pk_quantity k)")
  case True
  then show ?thesis using quantity_id_plain assms(2) by blast
next
  case False
  then have "\<exists>d \<in> set part_chars. c = of_char d"
    using assms flag_slot_chars(1) flag_slot_chars(2)[of "pk_slot k"]
    by (auto simp: port_parts_def list_all_iff split: if_splits)
  then show ?thesis using part_chars_plain of_char_u16_inj by metis
qed

lemma port_text_plain:
  assumes "c \<in> set (q_join (of_char CHR ''.'') (port_parts k))"
  shows "c \<noteq> of_char CHR '':'' \<and> \<not> q_space c"
proof -
  have "(of_char CHR ''.'' :: u16) \<noteq> of_char CHR '':'' \<and> \<not> q_space (of_char CHR ''.'')"
    by (simp add: q_space_def)
  then show ?thesis using set_q_join[OF assms] port_parts_plain by metis
qed

lemma port_text_parts:
  assumes "pk_defining k AND Defining = pk_defining k"
  shows "port_text (q_join (of_char CHR ''.'') (port_parts k)) c = k\<lparr>pk_channel := c\<rparr>"
proof -
  have e1: "split_bytes (of_char CHR ''.'') (q_join (of_char CHR ''.'') (port_parts k)) = port_parts k"
    by (rule split_join) (use port_parts_plain[of _ k] in \<open>auto simp: port_parts_def[of k] list_all_iff\<close>)
  have e2: "hd (port_parts k) = quantity_id (pk_quantity k)" by (simp add: port_parts_def)
  have e3: "tl (port_parts k) = map (\<lambda>f. lit (snd f)) (filter (\<lambda>f. has_flag (pk_defining k) (fst f)) kFlagNames) @
     (if pk_slot k \<noteq> Main then [lit (slot_text (pk_slot k))] else [])" by (simp add: port_parts_def)
  have e4: "(pk_quantity k = Unknown \<and> quantity_id (pk_quantity k) \<noteq> lit ''unknown'') = False"
    using quantity_id_unknown by metis
  show ?thesis
    by (simp only: port_text_def Let_def e1 e2 e3 e4 quantity_from_id_id if_False port_rest_flags port_rest_slot)
      (use flag_union_id[OF assms] in \<open>simp add: port0_def\<close>)
qed

lemma dec_nat_no_colon: "of_char CHR '':'' \<notin> set (dec_nat n)"
  using dec_nat_digits[of "of_char CHR '':''" n] by (auto simp: q_digit_def)

text \<open>
  A port key reads back as itself from its text, for every quantity, every set of defining flags, every
  slot and every channel from 1.
\<close>

theorem port_key_roundtrip:
  assumes "1 \<le> pk_channel k" and "pk_channel k < 2 ^ 31" and "pk_defining k AND Defining = pk_defining k"
  shows "port_from_string (port_to_string k) = k"
proof -
  let ?text = "q_join (of_char CHR ''.'') (port_parts k)"
  let ?ch = "dec_nat (nat (pk_channel k))"
  show ?thesis
  proof (cases "pk_channel k = 1")
    case True
    have "q_trim ?text = ?text" by (rule q_trim_nospace) (use port_text_plain in blast)
    moreover have "q_index (of_char CHR '':'') ?text = None"
      by (rule q_index_None) (use port_text_plain in blast)
    ultimately show ?thesis
      using True port_text_parts[OF assms(3), of 1] by (simp add: port_from_string_def port_to_string_def Let_def)
  next
    case False
    let ?s = "?ch @ of_char CHR '':'' # ?text"
    have s: "port_to_string k = ?s" using False assms(1) by (simp add: port_to_string_def Let_def dec_int_def)
    have "\<not> q_space c" if "c \<in> set ?s" for c
    proof -
      have "\<not> q_space (of_char CHR '':'')" by (simp add: q_space_def)
      then show ?thesis using that port_text_plain[of c k] dec_nat_digits[of c] digit_not[of c] by auto
    qed
    then have tr: "q_trim ?s = ?s" by (rule q_trim_nospace)
    obtain n where n: "length ?ch = Suc n" using dec_nat_val[of "nat (pk_channel k)"] by (cases ?ch) auto
    have ix: "q_index (of_char CHR '':'') ?s = Some (Suc n)"
      using q_index_append[OF dec_nat_no_colon] n by metis
    have "take (Suc n) ?s = ?ch" and "drop (Suc (Suc n)) ?s = ?text" using n by simp_all
    moreover have "q_to_int ?ch = Some (pk_channel k)"
      using q_to_int_dec_nat[of "nat (pk_channel k)"] assms(1,2) by simp
    ultimately show ?thesis
      using tr ix s assms port_text_parts[OF assms(3), of "pk_channel k"]
      by (simp only: port_from_string_def Let_def) simp
  qed
qed

definition port_example :: port_key where
  "port_example = \<lparr>pk_channel = 2, pk_quantity = Current, pk_defining = AC OR RMS, pk_slot = Sub\<rparr>"

theorem port_key_roundtrip_witness: "port_from_string (port_to_string port_example) = port_example"
proof -
  have "pk_defining port_example AND Defining = pk_defining port_example"
    by (rule bit_word_eqI) (auto simp: port_example_def Defining_def bit_simps bit_flags)
  then show ?thesis by (intro port_key_roundtrip) (simp_all add: port_example_def)
qed

end
