(* ===== verification/Value_Ref.thy ===== *)
theory Value_Ref
  imports Sample_Types
begin

text \<open>
  \<open>src/src/core/valueref.h\<close>, and the JSON objects the settings are kept in: which value of which meter a view,
  an alarm or the limit test follows.
\<close>

subsection \<open>JSON values\<close>

text \<open>
  \<open>QJsonValue\<close> and \<open>QJsonObject\<close>, as far as the settings use them. Looking up a missing key gives
  \<open>JUndefined\<close>; the \<open>to...\<close> functions return their default on a value of another type. Reading and writing
  the text of a document is the library's.
\<close>

datatype json = JUndefined | JBool bool | JNum dbl | JStr qstring

type_synonym jobj = "string \<Rightarrow> json"

definition jobj0 :: jobj where "jobj0 = (\<lambda>_. JUndefined)"

fun j_bool :: "bool \<Rightarrow> json \<Rightarrow> bool" where
  "j_bool d (JBool b) = b" | "j_bool d v = d"

fun j_num :: "dbl \<Rightarrow> json \<Rightarrow> dbl" where
  "j_num d (JNum x) = x" | "j_num d v = d"

fun j_str :: "qstring \<Rightarrow> json \<Rightarrow> qstring" where
  "j_str d (JStr s) = s" | "j_str d v = d"

definition j_of_int :: "int \<Rightarrow> json" where
  "j_of_int i = JNum (dbl_of (of_int i))"

fun j_int :: "int \<Rightarrow> json \<Rightarrow> int" where
  "j_int d (JNum (DFin s q)) =
     (let v = (if s then - q else q) in
      if v = of_int \<lfloor>v\<rfloor> \<and> - (2 ^ 31) \<le> \<lfloor>v\<rfloor> \<and> \<lfloor>v\<rfloor> < 2 ^ 31 then \<lfloor>v\<rfloor> else d)"
| "j_int d v = d"

subsection \<open>Value references\<close>

record value_ref =
  vr_source :: qstring
  vr_id :: int

definition vref0 :: value_ref where
  "vref0 = \<lparr>vr_source = [], vr_id = 0\<rparr>"

definition vref_matches :: "value_ref \<Rightarrow> int \<Rightarrow> qstring \<Rightarrow> bool" where
  "vref_matches r valueId from \<longleftrightarrow> valueId = vr_id r \<and> (vr_source r = [] \<or> from = vr_source r)"

definition vref_to_string :: "value_ref \<Rightarrow> qstring" where
  "vref_to_string r =
     (if vr_source r = [] then dec_int (vr_id r) else dec_int (vr_id r) @ of_char CHR ''@'' # vr_source r)"

definition vref_from_string :: "qstring \<Rightarrow> value_ref" where
  "vref_from_string text =
     (let ix = q_index (of_char CHR ''@'') text;
          head = (case ix of None \<Rightarrow> text | Some n \<Rightarrow> take n text)
      in case q_to_int (q_trim head) of
           None \<Rightarrow> vref0
         | Some i \<Rightarrow>
             \<lparr>vr_source = (case ix of None \<Rightarrow> [] | Some n \<Rightarrow> q_trim (drop (n + 1) text)),
              vr_id = max 0 (min i (kMaxValues - 1))\<rparr>)"

definition vref_to_json :: "value_ref \<Rightarrow> json" where
  "vref_to_json r = (if vr_source r = [] then j_of_int (vr_id r) else JStr (vref_to_string r))"

fun vref_from_json :: "json \<Rightarrow> value_ref" where
  "vref_from_json (JStr s) = vref_from_string s"
| "vref_from_json v = vref_from_string (dec_int (j_int 0 v))"

subsection \<open>Facts\<close>

text \<open>The references the program makes: an id of the four values, a source without blanks around it.\<close>

definition vref_ok :: "value_ref \<Rightarrow> bool" where
  "vref_ok r \<longleftrightarrow> 0 \<le> vr_id r \<and> vr_id r < kMaxValues \<and> q_trim (vr_source r) = vr_source r"

lemma dec_nat_no_at: "of_char CHR ''@'' \<notin> set (dec_nat n)"
  using dec_nat_digits[of "of_char CHR ''@''" n] by (auto simp: q_digit_def)

lemma dec_nat_trim [simp]: "q_trim (dec_nat n) = dec_nat n"
  by (rule q_trim_nospace) (auto dest!: dec_nat_digits digit_not)

lemma vref_string_roundtrip:
  assumes "vref_ok r"
  shows "vref_from_string (vref_to_string r) = r"
proof -
  let ?n = "dec_nat (nat (vr_id r))"
  have d: "dec_int (vr_id r) = ?n" using assms by (simp add: dec_int_def vref_ok_def)
  have "nat (vr_id r) < 2 ^ 31" using assms unfolding vref_ok_def kMaxValues_def by auto
  from q_to_int_dec_nat[OF this] have i: "q_to_int ?n = Some (vr_id r)" using assms
    by (simp add: vref_ok_def)
  have b: "max 0 (min (vr_id r) (kMaxValues - 1)) = vr_id r" using assms by (simp add: vref_ok_def)
  show ?thesis
  proof (cases "vr_source r = []")
    case True
    then show ?thesis
      using q_index_None[OF dec_nat_no_at] i b
      by (simp add: vref_to_string_def vref_from_string_def d del: of_char_of)
  next
    case False
    have "q_index (of_char CHR ''@'') (?n @ of_char CHR ''@'' # vr_source r) = Some (length ?n)"
      by (rule q_index_append[OF dec_nat_no_at])
    then show ?thesis
      using False i b assms by (simp add: vref_to_string_def vref_from_string_def d vref_ok_def)
  qed
qed

lemma j_int_of_int [simp]:
  assumes "0 \<le> i" and "i < 2 ^ 31"
  shows "j_int d (j_of_int i) = i"
proof -
  have "rnd (of_int i) = of_int i" using assms by (intro rnd_int) simp_all
  moreover have "of_int i < pow2 1024"
  proof -
    have "of_int i < pow2 31" using assms by (simp add: pow2_of_int)
    also have "\<dots> \<le> pow2 1024" by (rule pow2_mono) simp
    finally show ?thesis .
  qed
  ultimately show ?thesis
    using assms by (simp add: j_of_int_def dbl_of_def dbl_mag_def Let_def)
qed

lemma vref_json_roundtrip [simp]:
  assumes "vref_ok r"
  shows "vref_from_json (vref_to_json r) = r"
proof (cases "vr_source r = []")
  case False
  then show ?thesis using vref_string_roundtrip[OF assms] by (simp add: vref_to_json_def)
next
  case True
  have "j_int 0 (j_of_int (vr_id r)) = vr_id r"
    using assms by (intro j_int_of_int) (simp_all add: vref_ok_def kMaxValues_def)
  moreover have "vref_from_string (dec_int (vr_id r)) = r"
    using vref_string_roundtrip[OF assms] True by (simp add: vref_to_string_def)
  ultimately show ?thesis using True by (simp add: vref_to_json_def) (simp add: j_of_int_def)
qed

lemma vref_of_zero [simp]: "vref_from_string (dec_int 0) = vref0"
  using vref_string_roundtrip[of vref0]
  by (simp add: vref_ok_def vref0_def kMaxValues_def vref_to_string_def q_trim_def)

lemma vref_undefined [simp]: "vref_from_json JUndefined = vref0"
  by simp

end
