(* ===== verification/Limit_Test.thy ===== *)
theory Limit_Test
  imports Value_Ref
begin

text \<open>
  \<open>src/src/core/limittest.h\<close> and \<open>limittest.cpp\<close>: the PASS/FAIL limit test.
\<close>

subsection \<open>The test\<close>

datatype limit_form = Percent | Amount | Range
datatype verdict = NoVerdict | Pass | High | Low

record limit_count =
  lc_pass :: int
  lc_high :: int
  lc_low :: int

definition limit_count0 :: limit_count where
  "limit_count0 = \<lparr>lc_pass = 0, lc_high = 0, lc_low = 0\<rparr>"

definition lc_fail :: "limit_count \<Rightarrow> int" where "lc_fail c = lc_high c + lc_low c"
definition lc_total :: "limit_count \<Rightarrow> int" where "lc_total c = lc_pass c + lc_high c + lc_low c"

definition lc_add :: "verdict \<Rightarrow> limit_count \<Rightarrow> limit_count" where
  "lc_add v c =
     (if v = Pass then c\<lparr>lc_pass := lc_pass c + 1\<rparr>
      else if v = High then c\<lparr>lc_high := lc_high c + 1\<rparr>
      else if v = Low then c\<lparr>lc_low := lc_low c + 1\<rparr>
      else c)"

record limit_test =
  lt_enabled :: bool
  lt_value :: value_ref
  lt_form :: limit_form
  lt_nominal :: dbl
  lt_tolerance :: dbl
  lt_lower :: dbl
  lt_upper :: dbl
  lt_tint :: bool
  lt_highSound :: qstring
  lt_lowSound :: qstring
  lt_highRepeat :: bool
  lt_lowRepeat :: bool
  lt_passSound :: qstring
  lt_passRepeat :: bool

definition limit_test0 :: limit_test where
  "limit_test0 = \<lparr>lt_enabled = False, lt_value = vref0, lt_form = Percent, lt_nominal = d_zero,
     lt_tolerance = dlit 1, lt_lower = d_zero, lt_upper = d_zero, lt_tint = True, lt_highSound = [],
     lt_lowSound = [], lt_highRepeat = False, lt_lowRepeat = False, lt_passSound = [], lt_passRepeat = False\<rparr>"

subsection \<open>Limits and verdicts\<close>

definition percent_side :: "(dbl \<Rightarrow> dbl \<Rightarrow> dbl) \<Rightarrow> limit_test \<Rightarrow> dbl" where
  "percent_side f t = d_mul (lt_nominal t) (f (dlit 1) (d_div (lt_tolerance t) (dlit 100)))"

definition lt_low :: "limit_test \<Rightarrow> dbl" where
  "lt_low t = (case lt_form t of
     Percent \<Rightarrow> d_qmin (percent_side d_sub t) (percent_side d_add t)
   | Amount \<Rightarrow> d_sub (lt_nominal t) (d_abs (lt_tolerance t))
   | Range \<Rightarrow> d_qmin (lt_lower t) (lt_upper t))"

definition lt_high :: "limit_test \<Rightarrow> dbl" where
  "lt_high t = (case lt_form t of
     Percent \<Rightarrow> d_qmax (percent_side d_sub t) (percent_side d_add t)
   | Amount \<Rightarrow> d_add (lt_nominal t) (d_abs (lt_tolerance t))
   | Range \<Rightarrow> d_qmax (lt_lower t) (lt_upper t))"

definition lt_centre :: "limit_test \<Rightarrow> dbl" where
  "lt_centre t =
     (if lt_form t = Range then d_div (d_add (lt_lower t) (lt_upper t)) (dlit 2) else lt_nominal t)"

definition lt_judge :: "limit_test \<Rightarrow> dbl \<Rightarrow> bool \<Rightarrow> bool \<Rightarrow> verdict" where
  "lt_judge t value overload negative =
     (if overload then (if negative then Low else High)
      else if d_isnan value then NoVerdict
      else if d_lt (lt_high t) value then High
      else if d_lt value (lt_low t) then Low
      else Pass)"

definition lt_deviation :: "limit_test \<Rightarrow> dbl \<Rightarrow> dbl" where
  "lt_deviation t value =
     (let c = lt_centre t in
      if d_eq c d_zero then DNan False
      else d_mul (d_div (d_sub value c) (d_abs c)) (dlit 100))"

subsection \<open>Verdicts as text and as flags of a reading\<close>

fun verdictText :: "verdict \<Rightarrow> qstring" where
  "verdictText Pass = lit ''PASS''"
| "verdictText High = lit ''FAIL HI''"
| "verdictText Low = lit ''FAIL LO''"
| "verdictText NoVerdict = []"

fun verdict_flags :: "verdict \<Rightarrow> u32" where
  "verdict_flags Pass = LimitPass"
| "verdict_flags High = LimitHigh"
| "verdict_flags Low = LimitLow"
| "verdict_flags NoVerdict = 0"

definition verdict_from_flags :: "u32 \<Rightarrow> verdict" where
  "verdict_from_flags flags =
     (if has_flag flags LimitHigh then High
      else if has_flag flags LimitLow then Low
      else if has_flag flags LimitPass then Pass else NoVerdict)"

definition verdict_from_text :: "qstring \<Rightarrow> verdict" where
  "verdict_from_text text =
     (let t = q_trim text in
      if t = verdictText Pass then Pass else if t = verdictText High then High
      else if t = verdictText Low then Low else NoVerdict)"

subsection \<open>JSON\<close>

definition limit_to_json :: "limit_test \<Rightarrow> jobj" where
  "limit_to_json t =
     (let o1 = jobj0(''enabled'' := JBool (lt_enabled t));
          o2 = (if lt_value t \<noteq> vref0 then o1(''value'' := vref_to_json (lt_value t)) else o1)
      in o2(''form'' := JStr (lit (case lt_form t of Amount \<Rightarrow> ''amount'' | Range \<Rightarrow> ''range'' | Percent \<Rightarrow> ''percent'')),
            ''nominal'' := JNum (lt_nominal t), ''tolerance'' := JNum (lt_tolerance t),
            ''lower'' := JNum (lt_lower t), ''upper'' := JNum (lt_upper t), ''tint'' := JBool (lt_tint t),
            ''high-sound'' := JStr (lt_highSound t), ''low-sound'' := JStr (lt_lowSound t),
            ''high-repeat'' := JBool (lt_highRepeat t), ''low-repeat'' := JBool (lt_lowRepeat t),
            ''pass-sound'' := JStr (lt_passSound t), ''pass-repeat'' := JBool (lt_passRepeat t)))"

definition limit_from_json :: "jobj \<Rightarrow> limit_test" where
  "limit_from_json o' =
     (let form = j_str [] (o' ''form'')
      in \<lparr>lt_enabled = j_bool False (o' ''enabled''), lt_value = vref_from_json (o' ''value''),
          lt_form = (if form = lit ''amount'' then Amount else if form = lit ''range'' then Range else Percent),
          lt_nominal = j_num d_zero (o' ''nominal''), lt_tolerance = j_num (dlit 1) (o' ''tolerance''),
          lt_lower = j_num d_zero (o' ''lower''), lt_upper = j_num d_zero (o' ''upper''),
          lt_tint = j_bool True (o' ''tint''), lt_highSound = j_str [] (o' ''high-sound''),
          lt_lowSound = j_str [] (o' ''low-sound''), lt_highRepeat = j_bool False (o' ''high-repeat''),
          lt_lowRepeat = j_bool False (o' ''low-repeat''), lt_passSound = j_str [] (o' ''pass-sound''),
          lt_passRepeat = j_bool False (o' ''pass-repeat'')\<rparr>)"

subsection \<open>Properties\<close>

lemma amount_ordered:
  assumes "d_wf t" and "\<not> d_isnan (d_sub n (d_abs t))" and "\<not> d_isnan (d_add n (d_abs t))"
  shows "d_le (d_sub n (d_abs t)) (d_add n (d_abs t))"
proof (cases "d_isfinite n \<and> d_isfinite t")
  case True
  then show ?thesis using d_sub_le_add assms(1) by blast
next
  case False
  then show ?thesis using assms by (cases n; cases t) (auto simp: d_sub_def d_le_def split: if_splits)
qed

lemma qmin_qmax_ordered: "\<not> d_isnan (d_qmin a b) \<Longrightarrow> \<not> d_isnan (d_qmax a b) \<Longrightarrow> d_le (d_qmin a b) (d_qmax a b)"
  by (cases a; cases b) (auto simp: d_qmin_def d_qmax_def d_le_def split: if_splits)

text \<open>
  Whatever the form of the limit test and whatever the order its limits were entered in, the lower limit
  is not above the upper one, and a reading that is a number passes exactly when it lies between them,
  fails high exactly above and low exactly below: the verdicts exclude each other and leave no gap.
\<close>

theorem limit_verdicts:
  assumes "d_wf (lt_tolerance t)" and "\<not> d_isnan (lt_low t)" and "\<not> d_isnan (lt_high t)" and "\<not> d_isnan v"
  shows "d_le (lt_low t) (lt_high t) \<and>
    (lt_judge t v False neg = Pass \<longleftrightarrow> d_le (lt_low t) v \<and> d_le v (lt_high t)) \<and>
    (lt_judge t v False neg = High \<longleftrightarrow> d_lt (lt_high t) v) \<and>
    (lt_judge t v False neg = Low \<longleftrightarrow> d_lt v (lt_low t))"
proof -
  have o: "d_le (lt_low t) (lt_high t)"
    using assms amount_ordered qmin_qmax_ordered
    by (cases "lt_form t") (auto simp: lt_low_def lt_high_def)
  moreover have "\<not> (d_lt (lt_high t) v \<and> d_lt v (lt_low t))"
    using o d_le_lt_trans[of "lt_low t" "lt_high t" v] d_lt_asym by blast
  ultimately show ?thesis
    using assms(2-4) d_not_lt by (auto simp: lt_judge_def)
qed

definition limit_example :: limit_test where
  "limit_example = limit_test0\<lparr>lt_form := Range, lt_lower := DFin False 5, lt_upper := DFin False 4,
     lt_tolerance := d_zero\<rparr>"

theorem limit_verdicts_witness: "lt_judge limit_example (DFin False 6) False False = High"
proof -
  have l: "lt_low limit_example = DFin False 4" "lt_high limit_example = DFin False 5"
    by (simp_all add: limit_example_def lt_low_def lt_high_def d_qmin_def d_qmax_def)
  have w: "d_wf (lt_tolerance limit_example)" by (simp add: limit_example_def d_zero_def pow2_def)
  show ?thesis using limit_verdicts[OF w, of "DFin False 6" False] l by simp
qed

lemma has_flag_or: "has_flag (a OR b) f \<longleftrightarrow> has_flag a f \<or> has_flag b f"
  by (simp add: has_flag_def bit.conj_disj_distrib2 or_eq_0_iff)

definition LimitFlags :: u32 where
  "LimitFlags = LimitPass OR LimitHigh OR LimitLow"

text \<open>
  A verdict recorded with a reading, in its flags or as text, reads back as that verdict, whatever else the
  flags hold.
\<close>

theorem verdict_roundtrip:
  "verdict_from_flags ((flags AND NOT LimitFlags) OR verdict_flags v) = v \<and>
   verdict_from_text (verdictText v) = v"
proof
  have bits: "has_flag w LimitPass = bit w 22" "has_flag w LimitHigh = bit w 23" "has_flag w LimitLow = bit w 24" for w
    unfolding LimitPass_def LimitHigh_def LimitLow_def by (rule has_flag_push_bit, simp)+
  have bf: "bit LimitPass n = (n = 22)" "bit LimitHigh n = (n = 23)" "bit LimitLow n = (n = 24)" for n
    unfolding LimitPass_def LimitHigh_def LimitLow_def by (rule bit_one_at, simp)+
  show "verdict_from_flags ((flags AND NOT LimitFlags) OR verdict_flags v) = v"
    by (cases v) (simp_all add: verdict_from_flags_def bits LimitFlags_def bit_or_iff bit_and_iff bit_not_iff bf)
  show "verdict_from_text (verdictText v) = v"
    by (cases v) (simp_all add: verdict_from_text_def q_trim_def q_space_def)
qed

text \<open>
  A limit test read back from the JSON it is kept as is the test that was written, for every form and
  every value reference the program makes.
\<close>

theorem limit_json_roundtrip:
  assumes "vref_ok (lt_value t)"
  shows "limit_from_json (limit_to_json t) = t"
  using assms
  by (cases "lt_form t"; cases "lt_value t = vref0")
    (simp_all add: limit_from_json_def limit_to_json_def jobj0_def Let_def)

theorem limit_json_roundtrip_witness:
  "limit_from_json (limit_to_json (limit_test0\<lparr>lt_value := \<lparr>vr_source = lit ''device:ab'', vr_id = 3\<rparr>\<rparr>)) =
     limit_test0\<lparr>lt_value := \<lparr>vr_source = lit ''device:ab'', vr_id = 3\<rparr>\<rparr>"
  by (rule limit_json_roundtrip) (simp add: vref_ok_def kMaxValues_def q_trim_def q_space_def)

text \<open>
  The counter counts every reading judged once: pass, fail and total add up over any run of verdicts.
\<close>

theorem limit_count_total:
  "lc_total (fold lc_add vs limit_count0) = int (length (filter (\<lambda>v. v \<noteq> NoVerdict) vs)) \<and>
   lc_fail (fold lc_add vs limit_count0) = int (length (filter (\<lambda>v. v = High \<or> v = Low) vs))"
proof -
  have "lc_total (fold lc_add vs c) = lc_total c + int (length (filter (\<lambda>v. v \<noteq> NoVerdict) vs)) \<and>
    lc_fail (fold lc_add vs c) = lc_fail c + int (length (filter (\<lambda>v. v = High \<or> v = Low) vs))" for c
  proof (induction vs arbitrary: c)
    case (Cons v vs)
    then show ?case by (cases v) (simp_all add: lc_add_def lc_total_def lc_fail_def)
  qed simp
  from this[of limit_count0] show ?thesis by (simp add: limit_count0_def lc_total_def lc_fail_def)
qed

end
