(* ===== verification/Scpi_Device.thy ===== *)
theory Scpi_Device
  imports Limit_Test
begin

text \<open>
  \<open>src/src/service/scpidevice.h\<close>: one meter as the SCPI server shows it, and the parts of the Qt library the
  interpreter calls whose result depends on Unicode tables or on the formatting of doubles (\<open>qt\<close>, a parameter
  of every definition that uses one of them). What lies behind the sources of a device, the rest of the program,
  is the type variable \<open>'w\<close>; a source that changes it returns it changed. A source that is not set is \<open>None\<close>.
\<close>

subsection \<open>What the Qt library does with text and numbers\<close>

record qt =
  qt_upper :: "qstring \<Rightarrow> qstring"
  qt_lower :: "qstring \<Rightarrow> qstring"
  qt_ci_eq :: "qstring \<Rightarrow> qstring \<Rightarrow> bool"
  qt_from_utf8 :: "bytes \<Rightarrow> qstring"
  qt_to_utf8 :: "qstring \<Rightarrow> bytes"
  qt_to_double :: "qstring \<Rightarrow> dbl option"
  qt_sci6 :: "dbl \<Rightarrow> qstring"
  qt_fixed3 :: "dbl \<Rightarrow> qstring"

text \<open>What the documentation promises for ASCII.\<close>

definition ascii :: "u16 \<Rightarrow> bool" where
  "ascii c \<longleftrightarrow> c < 128"

definition qt_ascii_ok :: "qt \<Rightarrow> bool" where
  "qt_ascii_ok q \<longleftrightarrow>
     (\<forall>s. list_all ascii s \<longrightarrow> qt_upper q s = map up_char s \<and> qt_from_utf8 q (map ucast s) = s \<and>
        qt_to_utf8 q s = map ucast s)"

text \<open>A library that does this and reads no number.\<close>

definition qt_plain :: qt where
  "qt_plain = \<lparr>qt_upper = map up_char, qt_lower = (\<lambda>s. s), qt_ci_eq = (\<lambda>a b. map up_char a = map up_char b),
     qt_from_utf8 = map ucast, qt_to_utf8 = map ucast, qt_to_double = (\<lambda>s. None),
     qt_sci6 = (\<lambda>d. lit ''+1.500000E+00''), qt_fixed3 = (\<lambda>d. lit ''0.000'')\<rparr>"

lemma qt_plain_ascii: "qt_ascii_ok qt_plain"
proof -
  have "map ucast (map ucast s :: bytes) = s" if "list_all ascii s" for s :: qstring
    using that by (induction s) (auto simp: ascii_def word_unat_eq_iff unsigned_ucast_eq unsigned_take_bit_eq word_less_nat_alt take_bit_nat_eq_self_iff)
  then show ?thesis by (simp add: qt_ascii_ok_def qt_plain_def)
qed

subsection \<open>Readings, statistics, recordings and alarms\<close>

record reading =
  rd_value :: dbl
  rd_unit :: qstring
  rd_port :: port_key
  rd_range :: qstring
  rd_overload :: bool
  rd_hold :: bool
  rd_valid :: bool
  rd_msecs :: int

definition reading0 :: reading where
  "reading0 = \<lparr>rd_value = d_zero, rd_unit = [], rd_port = port0, rd_range = [], rd_overload = False,
     rd_hold = False, rd_valid = False, rd_msecs = 0\<rparr>"

record stats =
  st_count :: int
  st_min :: dbl
  st_max :: dbl
  st_mean :: dbl

definition stats0 :: stats where
  "stats0 = \<lparr>st_count = 0, st_min = d_zero, st_max = d_zero, st_mean = d_zero\<rparr>"

datatype recording_mode = Idle | Live | Record | View

record recording_state =
  rs_mode :: recording_mode
  rs_seconds :: dbl
  rs_count :: int
  rs_unit :: qstring

definition recording_state0 :: recording_state where
  "recording_state0 = \<lparr>rs_mode = Idle, rs_seconds = d_zero, rs_count = 0, rs_unit = []\<rparr>"

record point =
  pt_seconds :: dbl
  pt_value :: dbl
  pt_overload :: bool

datatype alarm_level = LevelOff | LevelPending | LevelRaised | LevelAcknowledged

record alarm_info =
  ai_name :: qstring
  ai_level :: alarm_level

definition is_raised :: "alarm_info \<Rightarrow> bool" where
  "is_raised a \<longleftrightarrow> ai_level a = LevelRaised \<or> ai_level a = LevelAcknowledged"

subsection \<open>The sources\<close>

record 'w sources =
  src_stats :: "('w \<Rightarrow> stats) option"
  src_channelStats :: "(int \<Rightarrow> 'w \<Rightarrow> stats) option"
  src_clearChannelStats :: "(int \<Rightarrow> 'w \<Rightarrow> 'w) option"
  src_recording :: "('w \<Rightarrow> recording_state) option"
  src_recordingData :: "(int \<Rightarrow> int \<Rightarrow> 'w \<Rightarrow> point list) option"
  src_saveRecording :: "(qstring \<Rightarrow> bool \<Rightarrow> 'w \<Rightarrow> qstring \<times> 'w) option"
  src_alarms :: "('w \<Rightarrow> alarm_info list) option"
  src_keys :: "('w \<Rightarrow> qstring list) option"
  src_pressKey :: "(qstring \<Rightarrow> 'w \<Rightarrow> bool \<times> 'w) option"
  src_limitTest :: "('w \<Rightarrow> limit_test) option"
  src_setLimitTest :: "(limit_test \<Rightarrow> 'w \<Rightarrow> 'w) option"
  src_verdict :: "('w \<Rightarrow> verdict) option"
  src_limitCount :: "('w \<Rightarrow> limit_count) option"
  src_clearLimitCount :: "('w \<Rightarrow> 'w) option"

definition sources0 :: "'w sources" where
  "sources0 = \<lparr>src_stats = None, src_channelStats = None, src_clearChannelStats = None, src_recording = None,
     src_recordingData = None, src_saveRecording = None, src_alarms = None, src_keys = None, src_pressKey = None,
     src_limitTest = None, src_setLimitTest = None, src_verdict = None, src_limitCount = None,
     src_clearLimitCount = None\<rparr>"

text \<open>A source that is not set answers as if there were nothing.\<close>

definition ask :: "('w \<Rightarrow> 'a) option \<Rightarrow> 'a \<Rightarrow> 'w \<Rightarrow> 'a" where
  "ask f d w = (case f of None \<Rightarrow> d | Some g \<Rightarrow> g w)"

subsection \<open>The device\<close>

record 'w scpi_device =
  sd_name :: qstring
  sd_scpiName :: qstring
  sd_scpiFrom :: qstring
  sd_model :: qstring
  sd_readings :: "(int \<times> reading) list"
  sd_channelCount :: int
  sd_connected :: bool
  sd_recording :: bool
  sd_sources :: "'w sources"

definition scpi_device0 :: "'w scpi_device" where
  "scpi_device0 = \<lparr>sd_name = [], sd_scpiName = [], sd_scpiFrom = [], sd_model = [], sd_readings = [],
     sd_channelCount = 2, sd_connected = False, sd_recording = False, sd_sources = sources0\<rparr>"

definition sd_setReading :: "int \<Rightarrow> reading \<Rightarrow> 'w scpi_device \<Rightarrow> 'w scpi_device" where
  "sd_setReading i r d = (if i \<ge> 0 then d\<lparr>sd_readings := al_insert i r (sd_readings d)\<rparr> else d)"

definition sd_clearReadings :: "'w scpi_device \<Rightarrow> 'w scpi_device" where
  "sd_clearReadings d = d\<lparr>sd_readings := []\<rparr>"

text \<open>\<open>QMap::lastKey\<close> and \<open>QMap::value\<close>\<close>

definition last_key :: "(int \<times> 'v) list \<Rightarrow> int" where
  "last_key xs = foldr max (map fst (tl xs)) (fst (hd xs))"

definition channelCount :: "'w scpi_device \<Rightarrow> int" where
  "channelCount d =
     (let seen = (if sd_readings d = [] then 0 else last_key (sd_readings d) + 1)
      in max (max 2 (sd_channelCount d)) seen)"

definition sd_value :: "int \<Rightarrow> 'w scpi_device \<Rightarrow> reading" where
  "sd_value i d = (case map_of (sd_readings d) i of None \<Rightarrow> reading0 | Some r \<Rightarrow> r)"

datatype scpi_signal =
  StartRecording | StopRecording | ConnectRequested bool | ResetMinMaxRequested
  | AcknowledgeAlarmsRequested | MarkRequested qstring

subsection \<open>Facts\<close>

lemma foldr_max: "foldr max xs (a :: int) \<ge> a \<and> (\<forall>x \<in> set xs. x \<le> foldr max xs a)"
  by (induction xs) auto

lemma channelCount_ge: "2 \<le> channelCount d"
  by (simp add: channelCount_def Let_def)

text \<open>Every reading that came is on a channel the device says it has.\<close>

lemma reading_has_channel:
  assumes "i \<in> al_keys (sd_readings d)"
  shows "i + 1 \<le> channelCount d"
proof -
  obtain x xs where c: "sd_readings d = x # xs" using assms by (cases "sd_readings d") auto
  have "i \<le> last_key (sd_readings d)"
    using assms foldr_max[of "fst x" "map fst xs"] by (auto simp: c last_key_def)
  then show ?thesis by (simp add: channelCount_def c Let_def)
qed

lemma sd_setReading_value: "i \<ge> 0 \<Longrightarrow> sd_value i (sd_setReading i r d) = r"
  by (simp add: sd_value_def sd_setReading_def)

lemma sd_setReading_other: "j \<noteq> i \<Longrightarrow> sd_value j (sd_setReading i r d) = sd_value j d"
  by (simp add: sd_value_def sd_setReading_def)

end
