(* ===== verification/Scpi_Server.thy ===== *)
theory Scpi_Server
  imports Scpi_Device
begin

text \<open>
  \<open>src/src/service/scpiserver.h\<close> and \<open>scpiserver.cpp\<close>: the SCPI interpreter and the clients of its TCP port.

  The devices are objects of their own (\<open>sc_store\<close>, by identity); the server has pointers to them that turn
  null when a device is destroyed, so a pointer is null when its identity is not in the store. A handler of the
  code returns a text and says through \<open>isQuery\<close> whether it is an answer; here it returns \<open>None\<close> for "nothing to
  answer". What the program does on a signal of a device, on \<open>QTDMM:DEVice:OPEN\<close> and the like is the
  environment \<open>scpi_env\<close>, which may change the whole state, the server's too.
\<close>

subsection \<open>State and environment\<close>

datatype scpi_out = Wrote nat bytes | DeletedLater nat | ClientsChanged nat

record 'w scpi =
  sc_devices :: "nat list"
  sc_store :: "(nat \<times> 'w scpi_device) list"
  sc_selected :: int
  sc_errors :: "(int \<times> qstring) list"
  sc_format :: bytes
  sc_clients :: "nat list"
  sc_running :: nat
  sc_released :: "nat list"
  sc_log :: "scpi_out list"
  sc_world :: 'w

definition scpi0 :: "'w \<Rightarrow> 'w scpi" where
  "scpi0 w = \<lparr>sc_devices = [], sc_store = [], sc_selected = 0, sc_errors = [], sc_format = asc ''PNG'',
     sc_clients = [], sc_running = 0, sc_released = [], sc_log = [], sc_world = w\<rparr>"

record device_entry =
  de_id :: qstring
  de_name :: qstring
  de_open :: bool

record 'w scpi_env =
  en_qt :: qt
  en_now :: "'w \<Rightarrow> int"
  en_version :: qstring
  en_signal :: "nat \<Rightarrow> scpi_signal \<Rightarrow> 'w scpi \<Rightarrow> 'w scpi"
  en_catalog :: "('w \<Rightarrow> device_entry list) option"
  en_open :: "(qstring \<Rightarrow> 'w scpi \<Rightarrow> qstring \<times> 'w scpi) option"
  en_close :: "(qstring \<Rightarrow> 'w scpi \<Rightarrow> qstring \<times> 'w scpi) option"
  en_screenshot :: "(bytes \<Rightarrow> 'w \<Rightarrow> bytes) option"

record command =
  cm_path :: "qstring list"
  cm_suffix :: "int list"
  cm_query :: bool
  cm_args :: qstring

type_synonym 'w answer = "qstring option \<times> 'w scpi"

definition kOverload :: qstring where "kOverload = lit ''9.9E+37''"
definition kNotANumber :: qstring where "kNotANumber = lit ''9.91E+37''"
definition kMaxErrors :: nat where "kMaxErrors = 20"
definition kMaxDataPoints :: int where "kMaxDataPoints = 10000"
definition kStaleMs :: int where "kStaleMs = 5000"

subsection \<open>Errors\<close>

definition pushError :: "int \<Rightarrow> qstring \<Rightarrow> 'w scpi \<Rightarrow> 'w scpi" where
  "pushError code text s =
     (if length (sc_errors s) \<ge> kMaxErrors
      then s\<lparr>sc_errors := butlast (sc_errors s) @ [(- 350, lit ''Queue overflow'')]\<rparr>
      else s\<lparr>sc_errors := sc_errors s @ [(code, text)]\<rparr>)"

definition refuse :: "int \<Rightarrow> qstring \<Rightarrow> 'w scpi \<Rightarrow> 'w answer" where
  "refuse code text s = (None, pushError code text s)"

text \<open>\<open>if (!queryOnly(cmd, isQuery)) return {};\<close> and what follows it.\<close>

definition queryOnly :: "command \<Rightarrow> 'w scpi \<Rightarrow> 'w answer \<Rightarrow> 'w answer" where
  "queryOnly cm s k = (if cm_query cm then k else refuse (- 100) (lit ''Command error'') s)"

definition commandOnly :: "command \<Rightarrow> 'w scpi \<Rightarrow> 'w answer \<Rightarrow> 'w answer" where
  "commandOnly cm s k = (if cm_query cm then refuse (- 100) (lit ''Command error'') s else k)"

definition undefined_header :: "'w scpi \<Rightarrow> 'w answer" where
  "undefined_header = refuse (- 113) (lit ''Undefined header'')"

definition missing :: "'w scpi \<Rightarrow> 'w answer" where
  "missing = refuse (- 109) (lit ''Missing parameter'')"

definition illegal :: "'w scpi \<Rightarrow> 'w answer" where
  "illegal = refuse (- 224) (lit ''Illegal parameter value'')"

definition statusByte :: "'w scpi \<Rightarrow> byte" where
  "statusByte s = (if sc_errors s = [] then 0 else 4)"

subsection \<open>The devices\<close>

definition addDevice :: "nat \<Rightarrow> 'w scpi \<Rightarrow> 'w scpi" where
  "addDevice i s =
     (if i \<in> set (sc_devices s) then s
      else let s' = s\<lparr>sc_devices := sc_devices s @ [i]\<rparr>
           in if length (sc_devices s') = 1 then s'\<lparr>sc_selected := 0\<rparr> else s')"

definition selectedDevice :: "'w scpi \<Rightarrow> nat option" where
  "selectedDevice s =
     (if sc_selected s \<ge> 0 \<and> sc_selected s < int (length (sc_devices s))
      then (let i = sc_devices s ! nat (sc_selected s) in if al_has i (sc_store s) then Some i else None)
      else None)"

definition dev_gone :: "nat option \<Rightarrow> 'w scpi \<Rightarrow> nat \<Rightarrow> bool" where
  "dev_gone device s i \<longleftrightarrow> \<not> al_has i (sc_store s) \<or> device = Some i"

definition removeDevice :: "nat option \<Rightarrow> 'w scpi \<Rightarrow> 'w scpi" where
  "removeDevice device s =
     (let chosenGone = sc_selected s < 0 \<or>
            (sc_selected s < int (length (sc_devices s)) \<and>
             dev_gone device s (sc_devices s ! nat (sc_selected s)));
          chosen = selectedDevice s;
          left = filter (\<lambda>i. \<not> dev_gone device s i) (sc_devices s)
      in s\<lparr>sc_devices := left,
           sc_selected := (if chosenGone then - 1
                           else max 0 (case chosen of None \<Rightarrow> - 1 | Some i \<Rightarrow> index_of i left))\<rparr>)"

text \<open>A device is destroyed: its pointers turn null, then \<open>destroyed\<close> runs \<open>removeDevice(nullptr)\<close>.\<close>

definition device_destroyed :: "nat \<Rightarrow> 'w scpi \<Rightarrow> 'w scpi" where
  "device_destroyed i s =
     (let s' = s\<lparr>sc_store := al_remove i (sc_store s)\<rparr>
      in if i \<in> set (sc_devices s) then removeDevice None s' else s')"

definition sc_dev :: "'w scpi \<Rightarrow> 'w scpi_device" where
  "sc_dev s =
     (case selectedDevice s of None \<Rightarrow> scpi_device0
      | Some i \<Rightarrow> (case map_of (sc_store s) i of None \<Rightarrow> scpi_device0 | Some d \<Rightarrow> d))"

text \<open>\<open>Q_EMIT dev().signal()\<close>: nobody listens to the stand-in.\<close>

definition sc_emit :: "'w scpi_env \<Rightarrow> scpi_signal \<Rightarrow> 'w scpi \<Rightarrow> 'w scpi" where
  "sc_emit en sg s = (case selectedDevice s of None \<Rightarrow> s | Some i \<Rightarrow> en_signal en i sg s)"

definition set_world :: "'w \<Rightarrow> 'w scpi \<Rightarrow> 'w scpi" where
  "set_world w s = s\<lparr>sc_world := w\<rparr>"

definition ask_dev :: "('w sources \<Rightarrow> ('w \<Rightarrow> 'a) option) \<Rightarrow> 'a \<Rightarrow> 'w scpi \<Rightarrow> 'a" where
  "ask_dev src d s = ask (src (sd_sources (sc_dev s))) d (sc_world s)"

subsection \<open>Instrument names\<close>

definition scpi_name_char :: "u16 \<Rightarrow> bool" where
  "scpi_name_char c \<longleftrightarrow> q_letter c \<or> q_digit c \<or> c = of_char CHR ''_''"

definition scpi_base_name :: "qt \<Rightarrow> qstring \<Rightarrow> qstring" where
  "scpi_base_name q name =
     (let n = map (\<lambda>c. if scpi_name_char c then c else of_char CHR ''_'') (qt_upper q name)
      in if n = [] \<or> \<not> q_letter (hd n) then lit ''METER_'' @ n else n)"

text \<open>\<open>for (int n = 2; taken.contains(name); ++n)\<close>: more tries than names taken are never needed.\<close>

fun fresh_name :: "nat \<Rightarrow> qstring \<Rightarrow> nat \<Rightarrow> qstring \<Rightarrow> qstring list \<Rightarrow> qstring" where
  "fresh_name 0 base n name taken = name"
| "fresh_name (Suc fuel) base n name taken =
     (if name \<in> set taken
      then fresh_name fuel base (Suc n) (base @ of_char CHR ''_'' # dec_nat n) taken else name)"

definition name_kept :: "'w scpi_device \<Rightarrow> bool" where
  "name_kept d \<longleftrightarrow> sd_scpiName d \<noteq> [] \<and> sd_scpiFrom d = sd_name d"

fun taken_names :: "(nat \<times> 'w scpi_device) list \<Rightarrow> nat list \<Rightarrow> qstring list" where
  "taken_names store [] = []"
| "taken_names store (i # is) =
     (case map_of store i of
        Some d \<Rightarrow> if name_kept d then sd_scpiName d # taken_names store is else taken_names store is
      | None \<Rightarrow> taken_names store is)"

fun name_devices :: "qt \<Rightarrow> nat list \<Rightarrow> qstring list \<Rightarrow> (nat \<times> 'w scpi_device) list \<Rightarrow>
    qstring list \<times> (nat \<times> 'w scpi_device) list" where
  "name_devices q [] taken store = ([], store)"
| "name_devices q (i # is) taken store =
     (case map_of store i of
        None \<Rightarrow> (case name_devices q is taken store of (names, st) \<Rightarrow> ([] # names, st))
      | Some d \<Rightarrow>
          if name_kept d
          then (case name_devices q is taken store of (names, st) \<Rightarrow> (sd_scpiName d # names, st))
          else let base = scpi_base_name q (sd_name d);
                   name = fresh_name (length taken + 1) base 2 base taken;
                   store' = al_insert i (d\<lparr>sd_scpiName := name, sd_scpiFrom := sd_name d\<rparr>) store
               in case name_devices q is (taken @ [name]) store' of (names, st) \<Rightarrow> (name # names, st))"

definition instrumentNames :: "qt \<Rightarrow> 'w scpi \<Rightarrow> qstring list \<times> 'w scpi" where
  "instrumentNames q s =
     (case name_devices q (sc_devices s) (taken_names (sc_store s) (sc_devices s)) (sc_store s) of
        (names, store) \<Rightarrow> (names, s\<lparr>sc_store := store\<rparr>))"

subsection \<open>Texts\<close>

text \<open>The long form, or the short form made of its capitals and digits.\<close>

definition scpi_matches :: "qt \<Rightarrow> qstring \<Rightarrow> string \<Rightarrow> bool" where
  "scpi_matches q mnemonic longForm =
     (let m = qt_upper q mnemonic
      in m = map up_char (lit longForm) \<or>
         m = filter (\<lambda>c. q_upper_letter c \<or> q_digit c) (lit longForm))"

definition scpi_number :: "qt \<Rightarrow> dbl \<Rightarrow> qstring" where
  "scpi_number q v =
     (case v of DNan s \<Rightarrow> kNotANumber
      | DInf neg \<Rightarrow> if neg then lit ''-9.9E+37'' else kOverload
      | DFin s m \<Rightarrow> qt_sci6 q v)"

definition scpi_unit :: "qstring \<Rightarrow> qstring" where
  "scpi_unit u =
     (if u = [0xB0, of_char CHR ''C''] then lit ''C''
      else if u = [0xB0, of_char CHR ''F''] \<or> u = lit ''dF'' then lit ''F''
      else if u = [0x3A9] then lit ''Ohm'' else u)"

definition scpi_function :: "qt \<Rightarrow> reading \<Rightarrow> qstring" where
  "scpi_function q r =
     (let ac = has_flag (pk_defining (rd_port r)) AC
      in case pk_quantity (rd_port r) of
           Voltage \<Rightarrow> if has_flag (pk_defining (rd_port r)) Diode then lit ''DIOD''
                      else if ac then lit ''VOLT:AC'' else lit ''VOLT:DC''
         | Current \<Rightarrow> if ac then lit ''CURR:AC'' else lit ''CURR:DC''
         | Resistance \<Rightarrow> lit ''RES''
         | Continuity \<Rightarrow> lit ''CONT''
         | Temperature \<Rightarrow> lit ''TEMP''
         | Capacitance \<Rightarrow> lit ''CAP''
         | Frequency \<Rightarrow> lit ''FREQ''
         | DutyCycle \<Rightarrow> lit ''PER''
         | Power \<Rightarrow> lit ''POW''
         | PulseWidth \<Rightarrow> lit ''PWID''
         | Time \<Rightarrow> lit ''PWID''
         | _ \<Rightarrow> if rd_unit r = [] then lit ''NONE'' else qt_upper q (scpi_unit (rd_unit r)))"

definition unquote :: "qstring \<Rightarrow> qstring" where
  "unquote arg =
     (let s = q_trim arg
      in if length s \<ge> 2 \<and> (hd s = of_char CHR 0x22 \<or> hd s = of_char CHR 0x27) \<and> last s = hd s
         then halve (hd s) (butlast (tl s)) else s)"

definition quoted :: "qstring \<Rightarrow> qstring" where
  "quoted s = of_char CHR 0x22 # twice (of_char CHR 0x22) s @ [of_char CHR 0x22]"

definition join_comma :: "qstring list \<Rightarrow> qstring" where
  "join_comma = q_join (of_char CHR '','')"

definition joined_or_empty :: "qstring list \<Rightarrow> qstring" where
  "joined_or_empty out = (if out = [] then lit [CHR 0x22, CHR 0x22] else join_comma out)"

text \<open>\<open>QByteArray::number\<close> of a size, and the definite-length block.\<close>

definition dec_bytes :: "nat \<Rightarrow> bytes" where
  "dec_bytes n = map ucast (dec_nat n)"

definition ieee_block :: "bytes \<Rightarrow> bytes" where
  "ieee_block bs = of_char CHR ''#'' # dec_bytes (length (dec_bytes (length bs))) @ dec_bytes (length bs) @ bs"

definition to_latin1 :: "qstring \<Rightarrow> bytes" where
  "to_latin1 s = map (\<lambda>c. if c < 256 then ucast c else of_char CHR ''?'') s"

subsection \<open>Channel lists\<close>

text \<open>\<open>\s\<close> of the regular expression: blanks of ASCII.\<close>

definition re_space :: "u16 \<Rightarrow> bool" where
  "re_space c \<longleftrightarrow> (9 \<le> c \<and> c \<le> 13) \<or> c = 32"

abbreviation skip_spaces :: "qstring \<Rightarrow> qstring" where
  "skip_spaces \<equiv> dropWhile re_space"

definition re_digits :: "qstring \<Rightarrow> qstring option" where
  "re_digits s = (if takeWhile q_digit s = [] then None else Some (dropWhile q_digit s))"

text \<open>\<open>\d+(?:\s*:\s*\d+)?\<close>: what is left after it.\<close>

definition re_item :: "qstring \<Rightarrow> qstring option" where
  "re_item s =
     (case re_digits s of None \<Rightarrow> None
      | Some r \<Rightarrow>
          (case skip_spaces r of
             [] \<Rightarrow> Some r
           | c # cs \<Rightarrow> if c = of_char CHR '':'' then re_digits (skip_spaces cs) else Some r))"

lemma re_digits_shorter: "re_digits s = Some r \<Longrightarrow> length r < length s"
  by (cases s) (auto simp: re_digits_def length_dropWhile_le less_Suc_eq_le split: if_splits)

lemma re_item_shorter: "re_item s = Some r \<Longrightarrow> length r < length s"
proof -
  assume a: "re_item s = Some r"
  then obtain r1 where r1: "re_digits s = Some r1" by (auto simp: re_item_def split: option.splits)
  show ?thesis
  proof (cases "skip_spaces r1")
    case Nil
    then show ?thesis using a r1 re_digits_shorter[OF r1] by (simp add: re_item_def del: dropWhile_eq_Nil_conv)
  next
    case (Cons c cs)
    have "length cs \<le> length r1" using length_dropWhile_le[of re_space r1] Cons by simp
    then show ?thesis
      using a r1 Cons re_digits_shorter[OF r1] re_digits_shorter[of "skip_spaces cs" r]
        length_dropWhile_le[of re_space cs]
      by (auto simp: re_item_def split: if_splits)
  qed
qed

text \<open>Items separated by commas, then blanks to the end.\<close>

function re_items :: "qstring \<Rightarrow> bool" where
  "re_items s =
     (case re_item s of None \<Rightarrow> False
      | Some r \<Rightarrow>
          (case skip_spaces r of [] \<Rightarrow> True
           | c # cs \<Rightarrow> c = of_char CHR '','' \<and> re_items (skip_spaces cs)))"
  by pat_completeness auto
termination
proof (relation "measure length")
  fix s r c cs
  assume "re_item s = Some r" and "skip_spaces r = c # cs"
  then have "length r < length s" "length (c # cs) \<le> length r"
    using re_item_shorter length_dropWhile_le[of re_space r] by auto
  then show "(skip_spaces cs, s) \<in> measure length"
    using length_dropWhile_le[of re_space cs] by simp
qed simp

declare re_items.simps [simp del]

text \<open>
  The list of \<open>cmd.args\<close> from \<open>(@\<close> at \<open>opening\<close> to the first \<open>)\<close> after it, as the expression captures it;
  \<open>None\<close> when it does not match.
\<close>

definition channel_list :: "qstring \<Rightarrow> nat \<Rightarrow> qstring option" where
  "channel_list args opening =
     (case q_index (of_char CHR '')'') (drop opening args) of
        None \<Rightarrow> None
      | Some close \<Rightarrow>
          (let body = skip_spaces (drop 2 (take close (drop opening args)))
           in if re_items body then Some (rev (skip_spaces (rev body))) else None))"

fun expand_items :: "int \<Rightarrow> qstring list \<Rightarrow> int list \<Rightarrow> (int \<times> qstring) + int list" where
  "expand_items count [] out = Inr out"
| "expand_items count (item # rest) out =
     (let ends = q_split (of_char CHR '':'') item
      in case (q_to_int (q_trim (hd ends)), q_to_int (q_trim (last ends))) of
           (Some lo, Some hi) \<Rightarrow>
             if lo > hi then Inl (- 104, lit ''Data type error; a channel range goes up (@1:3)'')
             else if lo < 1 \<or> hi > count
             then Inl (- 222, lit ''Data out of range; channel '' @ dec_int (if lo < 1 then lo else hi) @
                    lit '', the meter has '' @ dec_int count)
             else expand_items count rest (out @ [lo..hi])
         | _ \<Rightarrow> Inl (- 222, lit ''Data out of range; the meter has '' @ dec_int count @ lit '' channels''))"

definition channels :: "command \<Rightarrow> int \<Rightarrow> 'w scpi \<Rightarrow> int list \<times> 'w scpi" where
  "channels cm suffix s =
     (let count = channelCount (sc_dev s)
      in case q_index2 (of_char CHR ''('') (of_char CHR ''@'') (cm_args cm) of
           None \<Rightarrow>
             if suffix < 1 \<or> suffix > count then ([], pushError (- 114) (lit ''Header suffix out of range'') s)
             else ([suffix], s)
         | Some opening \<Rightarrow>
             (case channel_list (cm_args cm) opening of
                None \<Rightarrow>
                  ([], pushError (- 104) (lit ''Data type error; a channel list is (@1), (@1,3) or (@1:3)'') s)
              | Some body \<Rightarrow>
                  (case expand_items count (q_split (of_char CHR '','') body) [] of
                     Inl (code, text) \<Rightarrow> ([], pushError code text s)
                   | Inr out \<Rightarrow> (out, s))))"

subsection \<open>Mnemonics in ASCII\<close>

text \<open>For a mnemonic in ASCII \<open>scpi_matches\<close> is a test on characters, which computes.\<close>

definition ch_nat :: "char \<Rightarrow> nat" where "ch_nat = of_char"

definition ch_up :: "char \<Rightarrow> char" where
  "ch_up c = (if 97 \<le> ch_nat c \<and> ch_nat c \<le> 122 then char_of (ch_nat c - 32) else c)"

definition ch_short :: "char \<Rightarrow> bool" where
  "ch_short c \<longleftrightarrow> (65 \<le> ch_nat c \<and> ch_nat c \<le> 90) \<or> (48 \<le> ch_nat c \<and> ch_nat c \<le> 57)"

definition scpi_is :: "string \<Rightarrow> string \<Rightarrow> bool" where
  "scpi_is m lf = (map ch_up m = map ch_up lf \<or> map ch_up m = filter ch_short lf)"

lemma up_lit: "up_char (of_char c) = of_char (ch_up c)"
proof -
  have n: "unat (of_char c :: u16) = ch_nat c" by (simp add: ch_nat_def unat_of_char)
  have b: "ch_nat c < 256" by (simp add: ch_nat_def)
  show ?thesis
  proof (cases "97 \<le> ch_nat c \<and> ch_nat c \<le> 122")
    case True
    have "unat (of_char c - 32 :: u16) = ch_nat c - 32"
      using n True by (subst unat_sub) (simp_all add: word_le_nat_alt)
    moreover have "unat (of_char (char_of (ch_nat c - 32)) :: u16) = ch_nat c - 32"
      using b unat_of_char[of "char_of (ch_nat c - 32)"] by simp
    moreover have "q_lower_letter (of_char c)" using True n by (simp add: q_lower_letter_def word_le_nat_alt)
    ultimately show ?thesis using True by (simp add: up_char_def ch_up_def word_unat_eq_iff)
  next
    case False
    then have "\<not> q_lower_letter (of_char c)" using n by (simp add: q_lower_letter_def word_le_nat_alt)
    then show ?thesis using False by (auto simp: up_char_def ch_up_def)
  qed
qed

lemma short_lit: "q_upper_letter (of_char c) \<or> q_digit (of_char c) \<longleftrightarrow> ch_short c"
proof -
  have n: "unat (of_char c :: u16) = ch_nat c" by (simp add: ch_nat_def unat_of_char)
  show ?thesis by (simp add: q_upper_letter_def q_digit_def ch_short_def word_le_nat_alt n)
qed

lemma ascii_lit: "ascii (of_char c) \<longleftrightarrow> ch_nat c < 128"
proof -
  have n: "unat (of_char c :: u16) = ch_nat c" by (simp add: ch_nat_def unat_of_char)
  show ?thesis by (simp add: ascii_def word_less_nat_alt n)
qed

lemma scpi_matches_lit:
  assumes "qt_ascii_ok q" and "list_all (\<lambda>c. ch_nat c < 128) m"
  shows "scpi_matches q (lit m) lf \<longleftrightarrow> scpi_is m lf"
proof -
  have "list_all ascii (lit m)" using assms(2) by (simp add: list_all_iff ascii_lit)
  then have u: "qt_upper q (lit m) = lit (map ch_up m)" using assms(1) by (simp add: qt_ascii_ok_def up_lit)
  have s: "filter (\<lambda>c. q_upper_letter c \<or> q_digit c) (lit lf) = lit (filter ch_short lf)"
    by (simp add: filter_map o_def short_lit)
  have l: "map up_char (lit lf) = lit (map ch_up lf)" by (simp add: up_lit)
  show ?thesis unfolding scpi_matches_def Let_def u l s lit_inj scpi_is_def ..
qed

end
