(* ===== verification/Scpi_Commands.thy ===== *)
theory Scpi_Commands
  imports Scpi_Server Scpi_Endpoint
begin

text \<open>
  The command handlers of \<open>src/src/service/scpiserver.cpp\<close>, the parsing of a program message and the clients of
  the TCP port. A handler is given the command and the state and returns the answer, if any, and the state.
\<close>

definition node_at :: "command \<Rightarrow> nat \<Rightarrow> qstring" where
  "node_at cm i = (if i < length (cm_path cm) then cm_path cm ! i else [])"

abbreviation depth :: "command \<Rightarrow> nat" where
  "depth cm \<equiv> length (cm_path cm)"

abbreviation node_is :: "'w scpi_env \<Rightarrow> command \<Rightarrow> nat \<Rightarrow> string \<Rightarrow> bool" where
  "node_is en cm i lf \<equiv> scpi_matches (en_qt en) (node_at cm i) lf"

text \<open>\<open>error.section(',', 0, 0).toInt()\<close> and \<open>error.section(',', 1)\<close>\<close>

definition refuse_with :: "qstring \<Rightarrow> 'w scpi \<Rightarrow> 'w answer" where
  "refuse_with e = (let fields = q_split (of_char CHR '','') e
                    in refuse (q_to_int0 (hd fields)) (join_comma (tl fields)))"

subsection \<open>Common commands\<close>

definition handleCommon :: "'w scpi_env \<Rightarrow> command \<Rightarrow> 'w scpi \<Rightarrow> 'w answer" where
  "handleCommon en cm s =
     (let head = node_at cm 0 in
      if depth cm \<noteq> 1 then undefined_header s
      else if head = lit ''*IDN'' then
        queryOnly cm s
          (Some (lit ''QtDMM,'' @ (if sd_model (sc_dev s) = [] then lit ''no meter'' else sd_model (sc_dev s)) @
             lit '',0,'' @ en_version en), s)
      else if head = lit ''*RST'' \<or> head = lit ''*CLS'' then commandOnly cm s (None, s\<lparr>sc_errors := []\<rparr>)
      else if head = lit ''*OPC'' then (if cm_query cm then Some (lit ''1'') else None, s)
      else if head = lit ''*WAI'' then commandOnly cm s (None, s)
      else if head = lit ''*TST'' then queryOnly cm s (Some (lit ''0''), s)
      else if head = lit ''*STB'' then queryOnly cm s (Some (dec_nat (unat (statusByte s))), s)
      else if head = lit ''*ESR'' \<or> head = lit ''*ESE'' \<or> head = lit ''*SRE'' then
        (if \<not> cm_query cm \<and> (head = lit ''*ESE'' \<or> head = lit ''*SRE'') then (None, s)
         else queryOnly cm s (Some (lit ''0''), s))
      else undefined_header s)"

subsection \<open>Readings\<close>

text \<open>One channel of a query: the text, and whether the reading is stale.\<close>

definition reading_stale :: "int \<Rightarrow> bool \<Rightarrow> reading \<Rightarrow> bool" where
  "reading_stale now on r \<longleftrightarrow> \<not> rd_valid r \<or> \<not> on \<or> now - rd_msecs r > kStaleMs"

definition config_text :: "qt \<Rightarrow> reading \<Rightarrow> qstring" where
  "config_text q r =
     (let rng = (if qt_upper q (rd_range r) = lit ''AUTO'' then lit ''AUTO'' else rd_range r);
          rng' = (if rng = [] \<or> qt_upper q rng = lit ''MANU'' then lit ''MANUAL'' else rng)
      in lit [CHR 0x22] @ scpi_function q r @ lit '' '' @ rng' @ lit [CHR 0x22])"

definition reading_answer :: "'w scpi_env \<Rightarrow> command \<Rightarrow> int \<Rightarrow> 'w scpi_device \<Rightarrow> int \<Rightarrow> qstring \<times> bool" where
  "reading_answer en cm now d channel =
     (let r = sd_value (channel - 1) d in
      if node_is en cm 0 ''UNIT'' then (lit [CHR 0x22] @ scpi_unit (rd_unit r) @ lit [CHR 0x22], False)
      else if node_is en cm 0 ''CONFigure'' then (config_text (en_qt en) r, False)
      else if reading_stale now (sd_connected d) r then (kNotANumber, True)
      else if rd_overload r then (scpi_number (en_qt en) (DInf (d_signbit (rd_value r))), False)
      else (scpi_number (en_qt en) (rd_value r), False))"

definition reading_suffix :: "command \<Rightarrow> int" where
  "reading_suffix cm =
     (if depth cm \<le> 2 \<and> last (cm_suffix cm) \<noteq> 1 then last (cm_suffix cm) else hd (cm_suffix cm))"

definition handleReading :: "'w scpi_env \<Rightarrow> command \<Rightarrow> 'w scpi \<Rightarrow> 'w answer" where
  "handleReading en cm s =
     queryOnly cm s
       (case channels cm (reading_suffix cm) s of (list, s1) \<Rightarrow>
          if list = [] then (None, s1)
          else let now = en_now en (sc_world s1);
                   out = map (reading_answer en cm now (sc_dev s1)) list;
                   s2 = (if list_ex snd out then pushError (- 230) (lit ''Data corrupt or stale'') s1 else s1)
               in (Some (join_comma (map fst out)), s2))"

subsection \<open>The limit test\<close>

definition kLimitMax :: dbl where "kLimitMax = dlit 1000000000000000"

definition limit_special :: "qt \<Rightarrow> qstring \<Rightarrow> dbl option" where
  "limit_special q arg =
     (if scpi_matches q arg ''MINimum'' then Some (d_neg kLimitMax)
      else if scpi_matches q arg ''MAXimum'' then Some kLimitMax
      else if scpi_matches q arg ''DEFault'' then Some d_zero
      else None)"

text \<open>The value of \<open>:LOWer\<close> and \<open>:UPPer\<close>, or the error.\<close>

definition limit_value :: "qt \<Rightarrow> qstring \<Rightarrow> (int \<times> qstring) + dbl" where
  "limit_value q arg =
     (case limit_special q arg of
        Some v \<Rightarrow> Inr v
      | None \<Rightarrow>
          (case qt_to_double q arg of
             None \<Rightarrow> Inl (- 104, lit ''Data type error'')
           | Some v \<Rightarrow>
               if \<not> d_isfinite v then Inl (- 104, lit ''Data type error'')
               else if d_lt kLimitMax (d_abs v) then Inl (- 222, lit ''Data out of range'')
               else Inr v))"

definition as_range :: "limit_test \<Rightarrow> limit_test" where
  "as_range t = (if lt_form t \<noteq> Range then t\<lparr>lt_form := Range, lt_lower := lt_low t, lt_upper := lt_high t\<rparr> else t)"

definition limit_set :: "bool \<Rightarrow> dbl \<Rightarrow> limit_test \<Rightarrow> limit_test" where
  "limit_set lower v t = (if lower then (as_range t)\<lparr>lt_lower := v\<rparr> else (as_range t)\<lparr>lt_upper := v\<rparr>)"

definition handleLimitValue :: "'w scpi_env \<Rightarrow> command \<Rightarrow> bool \<Rightarrow> limit_test \<Rightarrow> (limit_test \<Rightarrow> 'w \<Rightarrow> 'w) \<Rightarrow>
    'w scpi \<Rightarrow> 'w answer" where
  "handleLimitValue en cm lower test put s =
     (let arg = q_trim (cm_args cm) in
      if cm_query cm then
        (if arg = [] then (Some (scpi_number (en_qt en) (if lower then lt_low test else lt_high test)), s)
         else case limit_special (en_qt en) arg of
                None \<Rightarrow> illegal s
              | Some v \<Rightarrow> (Some (scpi_number (en_qt en) v), s))
      else if arg = [] then missing s
      else case limit_value (en_qt en) arg of
             Inl (code, text) \<Rightarrow> refuse code text s
           | Inr v \<Rightarrow> (None, set_world (put (limit_set lower v test) (sc_world s)) s))"

definition handleLimitState :: "'w scpi_env \<Rightarrow> command \<Rightarrow> limit_test \<Rightarrow> (limit_test \<Rightarrow> 'w \<Rightarrow> 'w) \<Rightarrow>
    'w scpi \<Rightarrow> 'w answer" where
  "handleLimitState en cm test put s =
     (if cm_query cm then (Some (lit (if lt_enabled test then ''1'' else ''0'')), s)
      else let a = qt_upper (en_qt en) (q_trim (cm_args cm)) in
        if a = [] then missing s
        else if a \<noteq> lit ''ON'' \<and> a \<noteq> lit ''1'' \<and> a \<noteq> lit ''OFF'' \<and> a \<noteq> lit ''0'' then illegal s
        else (None, set_world (put (test\<lparr>lt_enabled := (a = lit ''ON'' \<or> a = lit ''1'')\<rparr>) (sc_world s)) s))"

definition handleLimit :: "'w scpi_env \<Rightarrow> command \<Rightarrow> 'w scpi \<Rightarrow> 'w answer" where
  "handleLimit en cm s =
     (case (src_limitTest (sd_sources (sc_dev s)), src_setLimitTest (sd_sources (sc_dev s))) of
        (Some get, Some put) \<Rightarrow>
          (let test = get (sc_world s); arg = q_trim (cm_args cm);
               lower = node_is en cm 2 ''LOWer''; upper = node_is en cm 2 ''UPPer'' in
           if node_is en cm 1 ''FUNCtion'' \<and> depth cm = 2 then
             (if cm_query cm then (Some (lit ''LIM''), s)
              else if arg = [] then missing s
              else if \<not> scpi_matches (en_qt en) (unquote arg) ''LIMit'' then illegal s
              else (None, s))
           else if (node_is en cm 1 ''STATe'' \<and> depth cm = 2) \<or>
                   (node_is en cm 1 ''LIMit'' \<and>
                    (depth cm = 2 \<or> (depth cm = 3 \<and> node_is en cm 2 ''STATe'')))
           then handleLimitState en cm test put s
           else if node_is en cm 1 ''LIMit'' \<and> depth cm = 3 \<and> node_is en cm 2 ''CLEar'' then
             commandOnly cm s
               (None, case src_clearLimitCount (sd_sources (sc_dev s)) of
                        None \<Rightarrow> s | Some f \<Rightarrow> set_world (f (sc_world s)) s)
           else if node_is en cm 1 ''LIMit'' \<and> (lower \<or> upper) \<and>
                   (depth cm = 3 \<or> (depth cm = 4 \<and> node_is en cm 3 ''DATA''))
           then handleLimitValue en cm lower test put s
           else undefined_header s)
      | _ \<Rightarrow> refuse (- 221) (lit ''Settings conflict; no limit test here'') s)"

subsection \<open>STATus and SYSTem\<close>

definition questionable_bits :: "int \<Rightarrow> verdict \<Rightarrow> 'w scpi_device \<Rightarrow> nat" where
  "questionable_bits now v d =
     (let r = sd_value 0 d;
          current = rd_valid r \<and> now - rd_msecs r \<le> kStaleMs
      in (if current \<and> rd_overload r then 1 else 0) + (if current \<and> rd_hold r then 2 else 0) +
         (if \<not> sd_connected d then 4 else 0) + (if \<not> current then 8 else 0) +
         (if v = Low then 2048 else 0) + (if v = High then 4096 else 0))"

definition handleStatus :: "'w scpi_env \<Rightarrow> command \<Rightarrow> 'w scpi \<Rightarrow> 'w answer" where
  "handleStatus en cm s =
     queryOnly cm s
       (if \<not> (depth cm = 2 \<or> (depth cm = 3 \<and> (node_is en cm 2 ''CONDition'' \<or> node_is en cm 2 ''EVENt'')))
        then undefined_header s
        else if node_is en cm 1 ''QUEStionable'' then
          (Some (dec_nat (questionable_bits (en_now en (sc_world s)) (ask_dev src_verdict NoVerdict s) (sc_dev s))), s)
        else if node_is en cm 1 ''OPERation'' then
          (Some (dec_nat ((if sd_recording (sc_dev s) then 16 else 0) +
             (if list_ex is_raised (ask_dev src_alarms [] s) then 512 else 0))), s)
        else undefined_header s)"

definition handleSystem :: "'w scpi_env \<Rightarrow> command \<Rightarrow> 'w scpi \<Rightarrow> 'w answer" where
  "handleSystem en cm s =
     (if node_is en cm 1 ''ERRor'' then
        queryOnly cm s
          (if depth cm = 3 \<and> node_is en cm 2 ''COUNt'' then (Some (dec_nat (length (sc_errors s))), s)
           else if depth cm = 3 \<and> \<not> node_is en cm 2 ''NEXT'' then undefined_header s
           else case sc_errors s of
                  [] \<Rightarrow> (Some (lit ''0,'' @ lit [CHR 0x22] @ lit ''No error'' @ lit [CHR 0x22]), s)
                | e # es \<Rightarrow>
                    (Some (dec_int (fst e) @ lit '','' @ lit [CHR 0x22] @ snd e @ lit [CHR 0x22]),
                     s\<lparr>sc_errors := es\<rparr>))
      else if node_is en cm 1 ''VERSion'' \<and> depth cm = 2 then queryOnly cm s (Some (lit ''1999.0''), s)
      else undefined_header s)"

subsection \<open>INSTrument\<close>

definition catalog_text :: "bool \<Rightarrow> qstring list \<Rightarrow> qstring" where
  "catalog_text full names =
     joined_or_empty (concat (map (\<lambda>(i, n). if full then [quoted n, dec_nat (i + 1)] else [quoted n])
       (zip [0..<length names] names)))"

definition instrument_index :: "'w scpi_env \<Rightarrow> bool \<Rightarrow> qstring \<Rightarrow> qstring list \<Rightarrow> int" where
  "instrument_index en numeric arg names =
     (if numeric then (case q_to_int arg of None \<Rightarrow> - 1 | Some n \<Rightarrow> n - 1)
      else index_of (qt_upper (en_qt en) arg) names)"

definition handleInstrument :: "'w scpi_env \<Rightarrow> command \<Rightarrow> 'w scpi \<Rightarrow> 'w answer" where
  "handleInstrument en cm s0 =
     (case instrumentNames (en_qt en) s0 of (names, s) \<Rightarrow>
        let numeric = (depth cm = 2 \<and> node_is en cm 1 ''NSELect'') in
        if depth cm \<ge> 2 \<and> node_is en cm 1 ''CATalog'' then
          (let full = (depth cm = 3 \<and> node_is en cm 2 ''FULL'') in
           if (depth cm = 3 \<and> \<not> full) \<or> depth cm > 3 then undefined_header s
           else queryOnly cm s (Some (catalog_text full names), s))
        else if depth cm > 2 \<or> (depth cm = 2 \<and> \<not> numeric \<and> \<not> node_is en cm 1 ''SELect'')
        then undefined_header s
        else if cm_query cm then
          (if sc_devices s = [] \<or> sc_selected s < 0
           then (Some (if numeric then lit ''0'' else lit [CHR 0x22, CHR 0x22]), s)
           else (Some (if numeric then dec_int (sc_selected s + 1)
                       else if sc_selected s < int (length names) then names ! nat (sc_selected s) else []), s))
        else let arg = unquote (q_trim (cm_args cm)); index = instrument_index en numeric arg names in
          if arg = [] then missing s
          else if index < 0 \<or> index \<ge> int (length names) then illegal s
          else (None, s\<lparr>sc_selected := index\<rparr>))"

subsection \<open>The recording as data\<close>

text \<open>How many readings are asked for: 100 without a number, \<open>MAX\<close>, or a whole number of at least one.\<close>

definition data_count :: "qt \<Rightarrow> qstring \<Rightarrow> (int \<times> qstring) + int" where
  "data_count q arg =
     (if scpi_matches q arg ''MAXimum'' then Inr kMaxDataPoints
      else if arg = [] then Inr 100
      else case qt_to_double q arg of
             None \<Rightarrow> Inl (- 104, lit ''Data type error'')
           | Some n \<Rightarrow>
               if d_lt n (dlit 1) \<or> \<not> d_eq n (d_floor n) then Inl (- 222, lit ''Data out of range'')
               else Inr (d_to_i64 (if d_lt (dlit 10000) n then dlit 10000 else n)))"

definition data_arg :: "qstring \<Rightarrow> qstring" where
  "data_arg args =
     (let a = (case q_index2 (of_char CHR ''('') (of_char CHR ''@'') args of
                 None \<Rightarrow> args | Some opening \<Rightarrow> q_trim (take opening args));
          a' = (if a \<noteq> [] \<and> last a = of_char CHR '','' then butlast a else a)
      in q_trim a')"

definition data_line :: "qt \<Rightarrow> bool \<Rightarrow> int \<Rightarrow> point \<Rightarrow> qstring" where
  "data_line q several channel p =
     (if several then dec_int channel @ lit '','' else []) @ qt_fixed3 q (pt_seconds p) @ lit '','' @
     (if pt_overload p then kOverload
      else if d_isnan (pt_value p) then lit ''nan'' else scpi_number q (pt_value p)) @ [10]"

definition recording_csv :: "qt \<Rightarrow> int list \<Rightarrow> int \<Rightarrow> 'w scpi \<Rightarrow> bytes" where
  "recording_csv q list count s =
     (let several = length list > 1 in
      to_latin1 ((if several then lit ''channel,seconds,value'' else lit ''seconds,value'') @ [10] @
        (case src_recordingData (sd_sources (sc_dev s)) of
           None \<Rightarrow> []
         | Some f \<Rightarrow>
             concat (map (\<lambda>c. concat (map (data_line q several c) (f count c (sc_world s)))) list))))"

definition recordingData :: "'w scpi_env \<Rightarrow> command \<Rightarrow> 'w scpi \<Rightarrow> bytes option \<times> 'w scpi" where
  "recordingData en cm s =
     (if \<not> cm_query cm then (None, pushError (- 100) (lit ''Command error'') s)
      else case channels cm 1 s of (list, s1) \<Rightarrow>
        if list = [] then (None, s1)
        else case data_count (en_qt en) (data_arg (cm_args cm)) of
               Inl (code, text) \<Rightarrow> (None, pushError code text s1)
             | Inr count \<Rightarrow> (Some (ieee_block (recording_csv (en_qt en) list count s1)), s1))"

subsection \<open>QTDMM\<close>

fun mode_text :: "recording_mode \<Rightarrow> string" where
  "mode_text Idle = ''IDLE''" | "mode_text Live = ''LIVE''" | "mode_text Record = ''REC''" | "mode_text View = ''VIEW''"

fun level_text :: "alarm_level \<Rightarrow> string" where
  "level_text LevelOff = ''OFF''" | "level_text LevelPending = ''PEND''" | "level_text LevelRaised = ''RAIS''"
| "level_text LevelAcknowledged = ''ACKN''"

fun verdict_word :: "verdict \<Rightarrow> string" where
  "verdict_word NoVerdict = ''NONE''" | "verdict_word Pass = ''PASS''" | "verdict_word High = ''HI''" | "verdict_word Low = ''LO''"

definition qtdmmRecord :: "'w scpi_env \<Rightarrow> command \<Rightarrow> 'w scpi \<Rightarrow> 'w answer" where
  "qtdmmRecord en cm s =
     queryOnly cm s
       (let r = ask_dev src_recording recording_state0 s in
        (Some (lit (mode_text (rs_mode r)) @ lit '','' @ qt_fixed3 (en_qt en) (rs_seconds r) @ lit '','' @
           dec_int (rs_count r) @ lit '','' @ quoted (scpi_unit (rs_unit r))), s))"

text \<open>\<open>"<file>"[,RAW]\<close>, or without quotes: the name and what follows it.\<close>

definition save_args :: "qstring \<Rightarrow> qstring \<times> qstring" where
  "save_args args =
     (let e = (if args \<noteq> [] \<and> hd args = of_char CHR 0x22
               then (case q_last_index (of_char CHR 0x22) args of None \<Rightarrow> - 1 | Some i \<Rightarrow> int i)
               else (case q_last_index (of_char CHR '','') args of None \<Rightarrow> - 2 | Some i \<Rightarrow> int i - 1))
      in if e \<ge> 0
         then (q_trim (unquote (take (nat (e + 1)) args)), filter (\<lambda>c. c \<noteq> 32) (drop (nat (e + 1)) args))
         else (unquote args, []))"

definition qtdmmSave :: "'w scpi_env \<Rightarrow> command \<Rightarrow> 'w scpi \<Rightarrow> 'w answer" where
  "qtdmmSave en cm s =
     commandOnly cm s
       (case save_args (q_trim (cm_args cm)) of (name, rest) \<Rightarrow>
          let raw = qt_ci_eq (en_qt en) rest (lit '',RAW'') in
          if name = [] then missing s
          else if rest \<noteq> [] \<and> \<not> raw then illegal s
          else case src_saveRecording (sd_sources (sc_dev s)) of
                 None \<Rightarrow> refuse (- 221) (lit ''Settings conflict; no recording here'') s
               | Some f \<Rightarrow>
                   (case f name raw (sc_world s) of (e, w) \<Rightarrow>
                      if e \<noteq> [] then refuse_with e (set_world w s) else (None, set_world w s)))"

definition qtdmmAlarm :: "'w scpi_env \<Rightarrow> command \<Rightarrow> 'w scpi \<Rightarrow> 'w answer" where
  "qtdmmAlarm en cm s =
     (let alarms = ask_dev src_alarms [] s in
      if depth cm = 2 then queryOnly cm s (Some (dec_nat (length (filter is_raised alarms))), s)
      else if node_is en cm 2 ''LIST'' then
        queryOnly cm s
          (Some (joined_or_empty (concat (map (\<lambda>a. [quoted (ai_name a), lit (level_text (ai_level a))]) alarms))), s)
      else if node_is en cm 2 ''ACKnowledge'' then
        commandOnly cm s (None, sc_emit en AcknowledgeAlarmsRequested s)
      else undefined_header s)"

definition qtdmmLimit :: "'w scpi_env \<Rightarrow> command \<Rightarrow> 'w scpi \<Rightarrow> 'w answer" where
  "qtdmmLimit en cm s =
     queryOnly cm s
       (if node_is en cm 2 ''VERDict'' then (Some (lit (verdict_word (ask_dev src_verdict NoVerdict s))), s)
        else if node_is en cm 2 ''COUNt'' then
          (let c = ask_dev src_limitCount limit_count0 s
           in (Some (dec_int (lc_pass c) @ lit '','' @ dec_int (lc_high c) @ lit '','' @ dec_int (lc_low c)), s))
        else undefined_header s)"

definition qtdmmMark :: "'w scpi_env \<Rightarrow> command \<Rightarrow> 'w scpi \<Rightarrow> 'w answer" where
  "qtdmmMark en cm s =
     commandOnly cm s
       (let text = unquote (cm_args cm)
        in (None, sc_emit en (MarkRequested (if text = [] then lit ''SCPI'' else text)) s))"

definition qtdmmKey :: "'w scpi_env \<Rightarrow> command \<Rightarrow> 'w scpi \<Rightarrow> 'w answer" where
  "qtdmmKey en cm s =
     (let keys = ask_dev src_keys [] s in
      if depth cm = 3 then
        (if \<not> node_is en cm 2 ''CATalog'' then undefined_header s
         else queryOnly cm s (Some (joined_or_empty (map (\<lambda>k. quoted (qt_upper (en_qt en) k)) keys)), s))
      else commandOnly cm s
        (let key = qt_lower (en_qt en) (unquote (cm_args cm)) in
         if key = [] then missing s
         else if keys = [] then refuse (- 241) (lit ''Hardware missing; the meter has no keys QtDMM can press'') s
         else if key \<notin> set keys then illegal s
         else case src_pressKey (sd_sources (sc_dev s)) of
                None \<Rightarrow> refuse (- 240) (lit ''Hardware error; the key was not sent'') s
              | Some f \<Rightarrow>
                  (case f key (sc_world s) of (ok, w) \<Rightarrow>
                     if ok then (None, set_world w s)
                     else refuse (- 240) (lit ''Hardware error; the key was not sent'') (set_world w s))))"

definition channel_entry :: "'w scpi_device \<Rightarrow> int \<Rightarrow> qstring list" where
  "channel_entry d c =
     (let r = sd_value (c - 1) d
      in [dec_int c, quoted (if rd_valid r then port_to_string (rd_port r) else []), quoted (scpi_unit (rd_unit r))])"

definition qtdmmChannel :: "'w scpi_env \<Rightarrow> command \<Rightarrow> 'w scpi \<Rightarrow> 'w answer" where
  "qtdmmChannel en cm s =
     (if \<not> node_is en cm 2 ''CATalog'' then undefined_header s
      else queryOnly cm s
        (Some (join_comma (concat (map (channel_entry (sc_dev s)) [1..channelCount (sc_dev s)]))), s))"

definition qtdmmDevice :: "'w scpi_env \<Rightarrow> command \<Rightarrow> 'w scpi \<Rightarrow> 'w answer" where
  "qtdmmDevice en cm s =
     (if node_is en cm 2 ''CATalog'' then
        queryOnly cm s
          (Some (joined_or_empty (concat (map (\<lambda>e. [quoted (de_id e), quoted (de_name e),
              lit (if de_open e then ''1'' else ''0'')]) (ask (en_catalog en) [] (sc_world s))))), s)
      else let opening = node_is en cm 2 ''OPEN'' in
        if \<not> opening \<and> \<not> node_is en cm 2 ''CLOSe'' then undefined_header s
        else commandOnly cm s
          (let i = unquote (cm_args cm) in
           if i = [] then missing s
           else case (if opening then en_open en else en_close en) of
                  None \<Rightarrow> refuse (- 221) (lit ''Settings conflict; no devices to open in this program'') s
                | Some run \<Rightarrow>
                    (case run i s of (e, s1) \<Rightarrow> if e \<noteq> [] then refuse_with e s1 else (None, s1))))"

definition handleQtdmm :: "'w scpi_env \<Rightarrow> command \<Rightarrow> 'w scpi \<Rightarrow> 'w answer" where
  "handleQtdmm en cm s =
     (if node_is en cm 1 ''RECord'' \<and> depth cm = 2 then qtdmmRecord en cm s
      else if node_is en cm 1 ''RECord'' \<and> depth cm = 3 \<and> node_is en cm 2 ''SAVE'' then qtdmmSave en cm s
      else if node_is en cm 1 ''ALARm'' \<and> depth cm \<le> 3 then qtdmmAlarm en cm s
      else if node_is en cm 1 ''LIMit'' \<and> depth cm = 3 then qtdmmLimit en cm s
      else if node_is en cm 1 ''MARK'' \<and> depth cm = 2 then qtdmmMark en cm s
      else if node_is en cm 1 ''KEY'' \<and> depth cm \<le> 3 then qtdmmKey en cm s
      else if node_is en cm 1 ''CHANnel'' \<and> depth cm = 3 then qtdmmChannel en cm s
      else if node_is en cm 1 ''DEVice'' \<and> depth cm = 3 then qtdmmDevice en cm s
      else undefined_header s)"

subsection \<open>The min/max memory\<close>

definition stats_answer :: "'w scpi_env \<Rightarrow> command \<Rightarrow> stats \<Rightarrow> qstring" where
  "stats_answer en cm st =
     (if node_is en cm 2 ''COUNt'' then dec_int (st_count st)
      else if st_count st = 0 then kNotANumber
      else scpi_number (en_qt en)
        (if node_is en cm 2 ''MINimum'' then st_min st
         else if node_is en cm 2 ''MAXimum'' then st_max st else st_mean st))"

text \<open>\<open>CALCulate:AVERage:...\<close>; \<open>list\<close> holds the channels, when channels are named.\<close>

definition average_answer :: "'w scpi_env \<Rightarrow> command \<Rightarrow> int list option \<Rightarrow> 'w scpi \<Rightarrow> 'w answer" where
  "average_answer en cm list s =
     (if node_is en cm 2 ''CLEar'' then
        commandOnly cm s
          (case list of
             None \<Rightarrow> (None, sc_emit en ResetMinMaxRequested s)
           | Some cs \<Rightarrow>
               (case src_clearChannelStats (sd_sources (sc_dev s)) of
                  None \<Rightarrow> (None, s)
                | Some f \<Rightarrow> (None, set_world (fold f cs (sc_world s)) s)))
      else if \<not> node_is en cm 2 ''MINimum'' \<and> \<not> node_is en cm 2 ''MAXimum'' \<and>
              \<not> node_is en cm 2 ''AVERage'' \<and> \<not> node_is en cm 2 ''COUNt''
      then undefined_header s
      else queryOnly cm s
        (case list of
           None \<Rightarrow> (Some (stats_answer en cm (ask_dev src_stats stats0 s)), s)
         | Some cs \<Rightarrow>
             (Some (join_comma (map (\<lambda>c. stats_answer en cm
                (case src_channelStats (sd_sources (sc_dev s)) of None \<Rightarrow> stats0 | Some f \<Rightarrow> f c (sc_world s))) cs)), s)))"

definition handleAverage :: "'w scpi_env \<Rightarrow> command \<Rightarrow> 'w scpi \<Rightarrow> 'w answer" where
  "handleAverage en cm s =
     (if q_index2 (of_char CHR ''('') (of_char CHR ''@'') (cm_args cm) \<noteq> None \<or> hd (cm_suffix cm) \<noteq> 1
      then (case channels cm (hd (cm_suffix cm)) s of (list, s1) \<Rightarrow>
              if list = [] then (None, s1) else average_answer en cm (Some list) s1)
      else average_answer en cm None s)"

subsection \<open>Dispatch\<close>

definition handleInput :: "'w scpi_env \<Rightarrow> command \<Rightarrow> 'w scpi \<Rightarrow> 'w answer" where
  "handleInput en cm s =
     (if cm_query cm then (Some (lit (if sd_connected (sc_dev s) then ''1'' else ''0'')), s)
      else let a = qt_upper (en_qt en) (cm_args cm) in
        if a = lit ''ON'' \<or> a = lit ''1'' then (None, sc_emit en (ConnectRequested True) s)
        else if a = lit ''OFF'' \<or> a = lit ''0'' then (None, sc_emit en (ConnectRequested False) s)
        else if a = [] then missing s else illegal s)"

definition is_read :: "'w scpi_env \<Rightarrow> command \<Rightarrow> bool" where
  "is_read en cm \<longleftrightarrow>
     node_is en cm 0 ''READ'' \<or> node_is en cm 0 ''FETCh'' \<or> node_is en cm 0 ''MEASure'' \<or>
     node_is en cm 0 ''VALue'' \<or> node_is en cm 0 ''DATA'' \<or>
     (node_is en cm 0 ''SENSe'' \<and> depth cm = 2 \<and> node_is en cm 1 ''DATA'')"

text \<open>What is answered also while the instrument chosen is closed.\<close>

definition is_aside :: "'w scpi_env \<Rightarrow> command \<Rightarrow> bool" where
  "is_aside en cm \<longleftrightarrow>
     node_is en cm 0 ''INSTrument'' \<or> node_is en cm 0 ''SYSTem'' \<or> node_is en cm 0 ''STATus'' \<or>
     (node_is en cm 0 ''QTDMM'' \<and> depth cm \<ge> 2 \<and> node_is en cm 1 ''DEVice'')"

definition is_common :: "command \<Rightarrow> bool" where
  "is_common cm \<longleftrightarrow> node_at cm 0 \<noteq> [] \<and> hd (node_at cm 0) = of_char CHR ''*''"

definition handleText :: "'w scpi_env \<Rightarrow> command \<Rightarrow> 'w scpi \<Rightarrow> 'w answer" where
  "handleText en cm s =
     (if is_common cm then handleCommon en cm s
      else if sc_selected s < 0 \<and> \<not> cm_query cm \<and> \<not> is_aside en cm
      then refuse (- 241) (lit ''Hardware missing; instrument closed'') s
      else if is_read en cm \<or> ((node_is en cm 0 ''UNIT'' \<or> node_is en cm 0 ''CONFigure'') \<and> depth cm = 1) then
        (if is_read en cm \<and> depth cm > 2 \<and> \<not> node_is en cm 0 ''MEASure'' then undefined_header s
         else handleReading en cm s)
      else if node_is en cm 0 ''INITiate'' \<and> depth cm \<le> 2 then
        commandOnly cm s (None, sc_emit en StartRecording s)
      else if node_is en cm 0 ''ABORt'' \<and> depth cm = 1 then
        commandOnly cm s (None, sc_emit en StopRecording s)
      else if node_is en cm 0 ''INPut'' \<and> (depth cm = 1 \<or> (depth cm = 2 \<and> node_is en cm 1 ''STATe'')) then
        handleInput en cm s
      else if node_is en cm 0 ''CALCulate'' \<and> depth cm \<ge> 2 \<and>
              (node_is en cm 1 ''LIMit'' \<or> node_is en cm 1 ''FUNCtion'' \<or> node_is en cm 1 ''STATe'') then
        handleLimit en cm s
      else if node_is en cm 0 ''CALCulate'' \<and> depth cm = 3 \<and> node_is en cm 1 ''AVERage'' then
        handleAverage en cm s
      else if node_is en cm 0 ''QTDMM'' then handleQtdmm en cm s
      else if node_is en cm 0 ''STATus'' \<and> depth cm \<ge> 2 then handleStatus en cm s
      else if node_is en cm 0 ''SYSTem'' \<and> depth cm \<ge> 2 then handleSystem en cm s
      else if node_is en cm 0 ''INSTrument'' then handleInstrument en cm s
      else undefined_header s)"

text \<open>The screen dump.\<close>

definition handleDump :: "'w scpi_env \<Rightarrow> command \<Rightarrow> 'w scpi \<Rightarrow> bytes option \<times> 'w scpi" where
  "handleDump en cm s =
     (if \<not> cm_query cm then (None, pushError (- 100) (lit ''Command error'') s)
      else let image = (case en_screenshot en of None \<Rightarrow> [] | Some f \<Rightarrow> f (sc_format s) (sc_world s)) in
        if image = [] then (None, pushError (- 240) (lit ''Hardware error; no screen to dump'') s)
        else (Some (ieee_block image), s))"

definition handleDumpFormat :: "'w scpi_env \<Rightarrow> command \<Rightarrow> 'w scpi \<Rightarrow> bytes option \<times> 'w scpi" where
  "handleDumpFormat en cm s =
     (if cm_query cm then (Some (sc_format s), s)
      else let f = to_latin1 (qt_upper (en_qt en) (q_trim (cm_args cm))) in
        if f = asc ''PNG'' \<or> f = asc ''BMP'' \<or> f = asc ''JPG'' \<or> f = asc ''JPEG''
        then (None, s\<lparr>sc_format := (if f = asc ''JPEG'' then asc ''JPG'' else f)\<rparr>)
        else if f = [] then (None, pushError (- 109) (lit ''Missing parameter'') s)
        else (None, pushError (- 224) (lit ''Illegal parameter value'') s))"

definition scpi_handle :: "'w scpi_env \<Rightarrow> command \<Rightarrow> 'w scpi \<Rightarrow> bytes option \<times> 'w scpi" where
  "scpi_handle en cm s =
     (let hcopy = node_is en cm 0 ''HCOPy'' \<and> depth cm \<ge> 3 \<and> node_is en cm 1 ''SDUMp'' \<and> node_is en cm 2 ''DATA'';
          dispData = node_is en cm 0 ''DISPlay'' \<and> depth cm = 2 \<and> node_is en cm 1 ''DATA''
      in if (hcopy \<and> depth cm = 3) \<or> dispData then handleDump en cm s
         else if hcopy \<and> depth cm = 4 \<and> node_is en cm 3 ''FORMat'' then handleDumpFormat en cm s
         else if node_is en cm 0 ''QTDMM'' \<and> depth cm = 3 \<and> node_is en cm 1 ''RECord'' \<and> node_is en cm 2 ''DATA''
         then recordingData en cm s
         else case handleText en cm s of (a, s1) \<Rightarrow> (map_option (qt_to_utf8 (en_qt en)) a, s1))"

subsection \<open>Program messages\<close>

text \<open>
  The units between semicolons outside of quotes; \<open>quote\<close> is the quote that opened a string, 0 outside,
  and \<open>cur\<close> the unit read so far.
\<close>

fun split_units :: "u16 \<Rightarrow> qstring \<Rightarrow> qstring \<Rightarrow> qstring list" where
  "split_units quote cur [] = [cur]"
| "split_units quote cur (c # cs) =
     (let quote' = (if quote = 0 \<and> (c = of_char CHR 0x22 \<or> c = of_char CHR 0x27) then c
                    else if c = quote then 0 else quote)
      in if c = of_char CHR '';'' \<and> quote' = 0 then cur # split_units quote' [] cs
         else split_units quote' (cur @ [c]) cs)"

definition mnemonic_char :: "u16 \<Rightarrow> bool" where
  "mnemonic_char c \<longleftrightarrow> q_letter c \<or> c = of_char CHR ''*'' \<or> c = of_char CHR ''_''"

text \<open>\<open>^([A-Za-z*_]+)(\d*)$\<close>: the two groups. The dollar also matches before a last line break.\<close>

definition mnemonic_match :: "qstring \<Rightarrow> (qstring \<times> qstring) option" where
  "mnemonic_match part =
     (let a = takeWhile mnemonic_char part; r = dropWhile mnemonic_char part;
          d = takeWhile q_digit r; z = dropWhile q_digit r
      in if a \<noteq> [] \<and> (z = [] \<or> z = [10]) then Some (a, d) else None)"

fun parse_parts :: "qstring list \<Rightarrow> qstring list \<Rightarrow> int list \<Rightarrow> (qstring list \<times> int list) option" where
  "parse_parts [] path suffix = Some (path, suffix)"
| "parse_parts (part # parts) path suffix =
     (case mnemonic_match part of
        None \<Rightarrow> None
      | Some (name, digits) \<Rightarrow>
          parse_parts parts (path @ [map up_char name]) (suffix @ [if digits = [] then 1 else q_to_int0 digits]))"

definition starts_with :: "char \<Rightarrow> qstring \<Rightarrow> bool" where
  "starts_with c s \<longleftrightarrow> s \<noteq> [] \<and> hd s = of_char c"

text \<open>One unit, trimmed and not empty, after the mnemonics \<open>prefix\<close> of the one before.\<close>

definition parse_unit :: "qstring list \<Rightarrow> qstring \<Rightarrow> command option" where
  "parse_unit pre unit =
     (let (header, args) = (case q_index 32 unit of None \<Rightarrow> (unit, [])
                            | Some i \<Rightarrow> (take i unit, q_trim (drop (i + 1) unit)));
          query = (header \<noteq> [] \<and> last header = of_char CHR ''?'');
          h1 = (if query then butlast header else header);
          absolute = starts_with CHR '':'' h1 \<or> starts_with CHR ''*'' h1;
          h2 = (if starts_with CHR '':'' h1 then tl h1 else h1);
          path0 = (if absolute then [] else pre)
      in case parse_parts (q_split (of_char CHR '':'') h2) path0 [] of
           None \<Rightarrow> None
         | Some (path, suffix) \<Rightarrow>
             if path = [] then None
             else Some \<lparr>cm_path = path, cm_suffix = replicate (length path - length suffix) 1 @ suffix,
                    cm_query = query, cm_args = args\<rparr>)"

definition next_prefix :: "qstring list \<Rightarrow> command \<Rightarrow> qstring list" where
  "next_prefix pre cm = (if starts_with CHR ''*'' (hd (cm_path cm)) then pre else butlast (cm_path cm))"

fun run_units :: "'w scpi_env \<Rightarrow> qstring list \<Rightarrow> qstring list \<Rightarrow> bytes list \<Rightarrow> 'w scpi \<Rightarrow> bytes list \<times> 'w scpi" where
  "run_units en [] pre answers s = (answers, s)"
| "run_units en (raw # units) pre answers s =
     (let unit = q_trim raw in
      if unit = [] then run_units en units pre answers s
      else case parse_unit pre unit of
             None \<Rightarrow> run_units en units pre answers (pushError (- 100) (lit ''Command error'') s)
           | Some cm \<Rightarrow>
               (case scpi_handle en cm s of (a, s1) \<Rightarrow>
                  run_units en units (next_prefix pre cm)
                    (case a of None \<Rightarrow> answers | Some x \<Rightarrow> answers @ [x]) s1))"

definition join_answers :: "bytes list \<Rightarrow> bytes" where
  "join_answers answers =
     foldl (\<lambda>out a. out @ (if out = [] then [] else asc '';'') @ a) [] answers @ [10]"

definition scpi_process :: "'w scpi_env \<Rightarrow> bytes \<Rightarrow> 'w scpi \<Rightarrow> bytes \<times> 'w scpi" where
  "scpi_process en message s =
     (let text = q_trim (qt_from_utf8 (en_qt en) message) in
      if text = [] then ([], s)
      else case run_units en (split_units 0 [] text) [] [] s of
             (answers, s1) \<Rightarrow> (if answers = [] then [] else join_answers answers, s1))"

text \<open>\<open>ScpiServer::endpoint\<close>: the interpreter for the network transports.\<close>

definition scpi_ep :: "'w scpi_env \<Rightarrow> 'w scpi scpi_endpoint" where
  "scpi_ep en = \<lparr>ep_process = Some (scpi_process en), ep_status_byte = Some statusByte, ep_device_clear = None\<rparr>"

subsection \<open>The clients of the TCP port\<close>

definition sc_out :: "scpi_out \<Rightarrow> 'w scpi \<Rightarrow> 'w scpi" where
  "sc_out e s = s\<lparr>sc_log := sc_log s @ [e]\<rparr>"

definition sc_newConnection :: "nat \<Rightarrow> 'w scpi \<Rightarrow> 'w scpi" where
  "sc_newConnection sock s =
     (let s1 = s\<lparr>sc_clients := sc_clients s @ [sock]\<rparr>
      in sc_out (ClientsChanged (length (sc_clients s1))) s1)"

definition sc_release :: "nat \<Rightarrow> 'w scpi \<Rightarrow> 'w scpi" where
  "sc_release sock s =
     (if sc_running s > 0 then s\<lparr>sc_released := sc_released s @ [sock]\<rparr> else sc_out (DeletedLater sock) s)"

definition sc_disconnected :: "nat \<Rightarrow> 'w scpi \<Rightarrow> 'w scpi" where
  "sc_disconnected sock s =
     (let s1 = sc_release sock (s\<lparr>sc_clients := removeAll sock (sc_clients s)\<rparr>)
      in sc_out (ClientsChanged (length (sc_clients s1))) s1)"

definition sc_stop :: "'w scpi \<Rightarrow> 'w scpi" where
  "sc_stop s =
     (let s1 = (fold sc_release (sc_clients s) s)\<lparr>sc_clients := []\<rparr>
      in if sc_clients s \<noteq> [] then sc_out (ClientsChanged 0) s1 else s1)"

text \<open>One line: the line breaks at its end go, the command runs, then the sockets that went meanwhile.\<close>

definition chop_eol :: "bytes \<Rightarrow> bytes" where
  "chop_eol line = rev (dropWhile (\<lambda>b. b = 10 \<or> b = 13) (rev line))"

definition sc_line :: "'w scpi_env \<Rightarrow> bytes \<Rightarrow> 'w scpi \<Rightarrow> bytes \<times> 'w scpi" where
  "sc_line en line s =
     (case scpi_process en (chop_eol line) (s\<lparr>sc_running := sc_running s + 1\<rparr>) of
        (response, s1) \<Rightarrow>
          (let s2 = s1\<lparr>sc_running := sc_running s1 - 1\<rparr>
           in (response,
               if sc_running s2 = 0
               then (fold (\<lambda>g. sc_out (DeletedLater g)) (sc_released s2) s2)\<lparr>sc_released := []\<rparr> else s2)))"

text \<open>The bytes a socket holds; \<open>canReadLine\<close> is whether there is a line break among them.\<close>

function sc_lines :: "'w scpi_env \<Rightarrow> nat \<Rightarrow> bytes \<Rightarrow> 'w scpi \<Rightarrow> bytes \<times> 'w scpi" where
  "sc_lines en sock b s =
     (if 10 \<notin> set b then (b, s)
      else let line = takeWhile (\<lambda>x. x \<noteq> 10) b @ [10]; rest = drop (length line) b in
        case sc_line en line s of (response, s1) \<Rightarrow>
          if sock \<notin> set (sc_clients s1) then (rest, s1)
          else sc_lines en sock rest (if response \<noteq> [] then sc_out (Wrote sock response) s1 else s1))"
  by pat_completeness auto
termination
  by (relation "measure (\<lambda>(en, sock, b, s). length b)") (auto intro!: diff_less length_pos_if_in_set)

declare sc_lines.simps [simp del]

definition sc_readyRead :: "'w scpi_env \<Rightarrow> nat \<Rightarrow> bytes \<Rightarrow> 'w scpi \<Rightarrow> bytes \<times> 'w scpi" where
  "sc_readyRead en sock b s =
     (if length b > 65536 \<and> 10 \<notin> set b then ([], pushError (- 363) (lit ''Input buffer overrun'') s)
      else sc_lines en sock b s)"

end
