(* ===== verification/Scpi_Facts.thy ===== *)
theory Scpi_Facts
  imports Scpi_Commands
begin

text \<open>
  The SCPI server's properties: what every command keeps of the state, whatever the program does on its signals,
  the meter chosen and the ones that go, the channels, the names, texts in quotes and the sockets.
\<close>

subsection \<open>What commands keep\<close>

text \<open>
  The interface between the interpreter and an invariant of its state: the elementary changes a command makes.
  \<open>env_keeps\<close> is what the rest of the program has to keep when a command calls it.
\<close>

definition env_keeps :: "('w scpi \<Rightarrow> bool) \<Rightarrow> 'w scpi_env \<Rightarrow> bool" where
  "env_keeps good en \<longleftrightarrow>
     (\<forall>i sg s. good s \<longrightarrow> good (en_signal en i sg s)) \<and>
     (\<forall>f x s. en_open en = Some f \<longrightarrow> good s \<longrightarrow> good (snd (f x s))) \<and>
     (\<forall>f x s. en_close en = Some f \<longrightarrow> good s \<longrightarrow> good (snd (f x s)))"

definition dump_formats :: "bytes set" where
  "dump_formats = {asc ''PNG'', asc ''BMP'', asc ''JPG''}"

lemma name_devices_keys:
  "name_devices q is taken store = (names, st) \<Longrightarrow> al_keys st = al_keys store \<and> length names = length is"
proof (induction "is" arbitrary: taken store names st)
  case Nil
  then show ?case by simp
next
  case (Cons i "is")
  show ?case
  proof (cases "map_of store i")
    case None
    then show ?thesis using Cons by (auto split: prod.splits)
  next
    case (Some d)
    then have "i \<in> al_keys store" by (metis domI dom_map_of_conv_image_fst)
    then show ?thesis using Cons Some by (auto simp: Let_def split: prod.splits if_splits)
  qed
qed

locale scpi_invariant =
  fixes good :: "'w scpi \<Rightarrow> bool"
  assumes inv_push: "good s \<Longrightarrow> good (pushError c t s)"
    and inv_errors: "good s \<Longrightarrow> good (s\<lparr>sc_errors := drop n (sc_errors s)\<rparr>)"
    and inv_world: "good s \<Longrightarrow> good (set_world w s)"
    and inv_store: "good s \<Longrightarrow> al_keys st = al_keys (sc_store s) \<Longrightarrow> good (s\<lparr>sc_store := st\<rparr>)"
    and inv_select: "good s \<Longrightarrow> 0 \<le> i \<Longrightarrow> i < int (length (sc_devices s)) \<Longrightarrow> good (s\<lparr>sc_selected := i\<rparr>)"
    and inv_format: "good s \<Longrightarrow> f \<in> dump_formats \<Longrightarrow> good (s\<lparr>sc_format := f\<rparr>)"
begin

lemma refuse_inv: "good s \<Longrightarrow> good (snd (refuse c t s))"
  by (simp add: refuse_def inv_push)

lemma refusals_inv:
  "good s \<Longrightarrow> good (snd (undefined_header s))" "good s \<Longrightarrow> good (snd (missing s))" "good s \<Longrightarrow> good (snd (illegal s))"
  "good s \<Longrightarrow> good (snd (refuse_with e s))"
  by (simp_all add: undefined_header_def missing_def illegal_def refuse_with_def refuse_inv Let_def)

lemma only_inv:
  "good s \<Longrightarrow> good (snd k) \<Longrightarrow> good (snd (queryOnly cm s k))"
  "good s \<Longrightarrow> good (snd k) \<Longrightarrow> good (snd (commandOnly cm s k))"
  by (simp_all add: queryOnly_def commandOnly_def refuse_inv)

lemma errors_inv:
  "good s \<Longrightarrow> good (s\<lparr>sc_errors := []\<rparr>)"
  "good s \<Longrightarrow> sc_errors s = e # es \<Longrightarrow> good (s\<lparr>sc_errors := es\<rparr>)"
  using inv_errors[of s "length (sc_errors s)"] inv_errors[of s 1] by simp_all

lemma channels_inv: "good s \<Longrightarrow> good (snd (channels cm n s))"
  by (auto simp: channels_def Let_def inv_push split: option.splits sum.splits prod.splits)

lemma emit_inv: "env_keeps good en \<Longrightarrow> good s \<Longrightarrow> good (sc_emit en sg s)"
  by (auto simp: sc_emit_def env_keeps_def split: option.splits)

lemmas keeps = inv_push inv_world refuse_inv refusals_inv only_inv errors_inv channels_inv emit_inv

lemma splits_inv:
  "good s \<Longrightarrow> good (snd (a, s))"
  "good (snd x) \<Longrightarrow> good (snd y) \<Longrightarrow> good (snd (if b then x else y))"
  "good (snd x) \<Longrightarrow> (\<And>y. m = Some y \<Longrightarrow> good (snd (f y))) \<Longrightarrow> good (snd (case m of None \<Rightarrow> x | Some y \<Rightarrow> f y))"
  "(\<And>y. good (snd (g y))) \<Longrightarrow> (\<And>z. good (snd (h z))) \<Longrightarrow> good (snd (case k of Inl y \<Rightarrow> g y | Inr z \<Rightarrow> h z))"
  "(\<And>y z. good (snd (p y z))) \<Longrightarrow> good (snd (case q of (y, z) \<Rightarrow> p y z))"
  by (auto split: option.splits sum.splits prod.splits)

lemma common_inv: "good s \<Longrightarrow> good (snd (handleCommon en cm s))"
  unfolding handleCommon_def Let_def by (intro splits_inv keeps) simp_all

lemma reading_inv: "good s \<Longrightarrow> good (snd (handleReading en cm s))"
proof -
  assume a: "good s"
  obtain l s1 where c: "channels cm (reading_suffix cm) s = (l, s1)" by fastforce
  have "good s1" using channels_inv[OF a, of cm "reading_suffix cm"] by (simp add: c)
  then show ?thesis using a by (auto simp: handleReading_def c Let_def intro!: keeps)
qed

lemma limit_inv: "good s \<Longrightarrow> good (snd (handleLimit en cm s))"
proof -
  assume a: "good s"
  have v: "good (snd (handleLimitValue en cm lower test put s))" for lower test put
    unfolding handleLimitValue_def Let_def by (intro splits_inv keeps a)
  have st: "good (snd (handleLimitState en cm test put s))" for test put
    unfolding handleLimitState_def Let_def by (intro splits_inv keeps a)
  have cl: "good (snd (commandOnly cm s (None, case m of None \<Rightarrow> s | Some f \<Rightarrow> set_world (f (sc_world s)) s)))" for m
    using a by (cases m) (auto intro!: keeps)
  show ?thesis
    unfolding handleLimit_def Let_def prod.case by (intro splits_inv v st cl keeps a)
qed

lemma status_inv: "good s \<Longrightarrow> good (snd (handleStatus en cm s))"
  unfolding handleStatus_def by (intro splits_inv keeps)

lemma system_inv: "good s \<Longrightarrow> good (snd (handleSystem en cm s))"
  by (auto simp: handleSystem_def intro!: keeps split: list.splits)

lemma names_inv:
  assumes "good s" and "instrumentNames q s = (names, s')"
  shows "good s'" and "length names = length (sc_devices s')" and "sc_devices s' = sc_devices s"
  using assms inv_store[OF assms(1)]
  by (auto simp: instrumentNames_def dest: name_devices_keys split: prod.splits)

lemma instrument_inv: "good s \<Longrightarrow> good (snd (handleInstrument en cm s))"
proof -
  assume "good s"
  moreover obtain names s' where n: "instrumentNames (en_qt en) s = (names, s')" by fastforce
  ultimately have g: "good s'" and l: "length names = length (sc_devices s')" using names_inv by metis+
  have sel: "good (snd (if i < 0 \<or> i \<ge> int (length names) then illegal s' else (None, s'\<lparr>sc_selected := i\<rparr>)))" for i
    using g l by (auto intro!: keeps inv_select)
  show ?thesis
    unfolding handleInstrument_def n prod.case Let_def by (intro splits_inv sel keeps g)
qed

lemma save_inv: "good s \<Longrightarrow> good (snd (qtdmmSave en cm s))"
  unfolding qtdmmSave_def Let_def by (intro splits_inv keeps)

lemma key_inv: "good s \<Longrightarrow> good (snd (qtdmmKey en cm s))"
  unfolding qtdmmKey_def Let_def by (intro splits_inv keeps)

lemma device_inv: "env_keeps good en \<Longrightarrow> good s \<Longrightarrow> good (snd (qtdmmDevice en cm s))"
proof -
  assume e: "env_keeps good en" and g: "good s"
  have run: "good (snd (case f i s of (t, s1) \<Rightarrow> if t \<noteq> [] then refuse_with t s1 else (None, s1)))"
    if "(if op then en_open en else en_close en) = Some f" for f i op
  proof -
    have "good (snd (f i s))" using e g that by (auto simp: env_keeps_def split: if_splits)
    then show ?thesis by (auto intro!: keeps split: prod.splits)
  qed
  show ?thesis unfolding qtdmmDevice_def Let_def by (intro splits_inv(1-3) keeps run g) simp_all
qed

lemma qtdmm_inv: "env_keeps good en \<Longrightarrow> good s \<Longrightarrow> good (snd (handleQtdmm en cm s))"
proof -
  assume e: "env_keeps good en" and g: "good s"
  have "good (snd (qtdmmRecord en cm s))" "good (snd (qtdmmAlarm en cm s))" "good (snd (qtdmmLimit en cm s))"
    "good (snd (qtdmmMark en cm s))" "good (snd (qtdmmChannel en cm s))"
    unfolding qtdmmRecord_def qtdmmAlarm_def qtdmmLimit_def qtdmmMark_def qtdmmChannel_def Let_def
    by (intro splits_inv keeps e g)+
  then show ?thesis
    unfolding handleQtdmm_def by (intro splits_inv keeps save_inv[OF g] key_inv[OF g] device_inv[OF e g] g)
qed

lemma average_inv: "env_keeps good en \<Longrightarrow> good s \<Longrightarrow> good (snd (handleAverage en cm s))"
proof -
  assume e: "env_keeps good en" and g: "good s"
  have a: "good (snd (average_answer en cm l s'))" if "good s'" for l s'
    unfolding average_answer_def by (intro splits_inv keeps e that)
  show ?thesis
    using channels_inv[OF g, of cm "hd (cm_suffix cm)"]
    by (auto simp: handleAverage_def intro!: a g split: prod.splits)
qed

lemma text_inv: "env_keeps good en \<Longrightarrow> good s \<Longrightarrow> good (snd (handleText en cm s))"
proof -
  assume e: "env_keeps good en" and g: "good s"
  have i: "good (snd (handleInput en cm s))"
    unfolding handleInput_def Let_def by (intro splits_inv keeps e g)
  show ?thesis
    unfolding handleText_def
    by (intro splits_inv(1,2) keeps i common_inv reading_inv limit_inv status_inv system_inv instrument_inv
        average_inv qtdmm_inv e g)
qed

lemma handle_inv: "env_keeps good en \<Longrightarrow> good s \<Longrightarrow> good (snd (scpi_handle en cm s))"
proof -
  assume e: "env_keeps good en" and g: "good s"
  have d: "good (snd (handleDump en cm s))" "good (snd (handleDumpFormat en cm s))"
    using g inv_format[OF g] by (auto simp: handleDump_def handleDumpFormat_def dump_formats_def Let_def intro!: keeps)
  have r: "good (snd (recordingData en cm s))"
    using channels_inv[OF g, of cm 1]
    by (auto simp: recordingData_def intro!: keeps g split: prod.splits sum.splits)
  have t: "good (snd (case handleText en cm s of (a, s1) \<Rightarrow> (f a, s1)))" for f :: "qstring option \<Rightarrow> bytes option"
    using text_inv[OF e g, of cm] by (auto split: prod.splits)
  show ?thesis unfolding scpi_handle_def Let_def by (intro splits_inv(1,2) d r t)
qed

lemma units_inv: "env_keeps good en \<Longrightarrow> good s \<Longrightarrow> good (snd (run_units en units pre answers s))"
proof (induction en units pre answers s rule: run_units.induct)
  case (1 en pre answers s)
  then show ?case by simp
next
  case (2 en raw units pre answers s)
  show ?case
  proof (cases "q_trim raw = []")
    case True
    then show ?thesis using 2 by simp
  next
    case False
    show ?thesis
    proof (cases "parse_unit pre (q_trim raw)")
      case None
      then show ?thesis using 2 False by (simp add: inv_push)
    next
      case (Some cm)
      obtain a s1 where h: "scpi_handle en cm s = (a, s1)" by fastforce
      have "good s1" using handle_inv[OF 2(4,5), of cm] by (simp add: h)
      then show ?thesis using 2 False Some h by simp
    qed
  qed
qed

lemma process_inv: "env_keeps good en \<Longrightarrow> good s \<Longrightarrow> good (snd (scpi_process en m s))"
  using units_inv[of en s] by (auto simp: scpi_process_def Let_def split: prod.splits) (metis snd_conv)

end

subsection \<open>The invariant of the server\<close>

text \<open>
  At most 20 errors are kept, no meter is listed twice, the number of the chosen one is one of the list, or -1
  when it went, or 0 while there is none, and a screen dump has one of the three formats.
\<close>

definition scpi_sane :: "'w scpi \<Rightarrow> bool" where
  "scpi_sane s \<longleftrightarrow>
     length (sc_errors s) \<le> kMaxErrors \<and> distinct (sc_devices s) \<and>
     (sc_selected s = - 1 \<or> (0 \<le> sc_selected s \<and> sc_selected s < int (length (sc_devices s))) \<or>
      (sc_devices s = [] \<and> sc_selected s = 0)) \<and>
     sc_format s \<in> dump_formats"

lemma push_length: "length (sc_errors s) \<le> kMaxErrors \<Longrightarrow> length (sc_errors (pushError c t s)) \<le> kMaxErrors"
  by (auto simp: pushError_def kMaxErrors_def)

lemma push_simps [simp]:
  "sc_devices (pushError c t s) = sc_devices s" "sc_store (pushError c t s) = sc_store s"
  "sc_selected (pushError c t s) = sc_selected s" "sc_format (pushError c t s) = sc_format s"
  "sc_world (pushError c t s) = sc_world s" "sc_running (pushError c t s) = sc_running s"
  "sc_log (pushError c t s) = sc_log s" "sc_clients (pushError c t s) = sc_clients s"
  "sc_released (pushError c t s) = sc_released s"
  by (simp_all add: pushError_def)

interpretation sane: scpi_invariant scpi_sane
  by unfold_locales (auto simp: scpi_sane_def push_length set_world_def)

lemma add_sane: "scpi_sane s \<Longrightarrow> scpi_sane (addDevice i s)"
  by (auto simp: scpi_sane_def addDevice_def Let_def)

lemma remove_sane: "scpi_sane s \<Longrightarrow> scpi_sane (removeDevice d s)"
proof -
  assume a: "scpi_sane s"
  let ?left = "filter (\<lambda>i. \<not> dev_gone d s i) (sc_devices s)"
  consider "sc_selected s = - 1" | "0 \<le> sc_selected s" "sc_selected s < int (length (sc_devices s))"
    | "sc_devices s = []" "sc_selected s = 0"
    using a by (auto simp: scpi_sane_def)
  then show ?thesis
  proof cases
    case 2
    let ?i = "sc_devices s ! nat (sc_selected s)"
    have m: "?i \<in> set (sc_devices s)" using 2 by (intro nth_mem) linarith
    show ?thesis
    proof (cases "dev_gone d s ?i")
      case True
      then show ?thesis using a 2 by (simp add: removeDevice_def scpi_sane_def Let_def)
    next
      case False
      then have "selectedDevice s = Some ?i" using 2 by (simp add: selectedDevice_def dev_gone_def Let_def)
      moreover have "?i \<in> set ?left" using m False by simp
      ultimately show ?thesis
        using a 2 False index_of_nth[of ?i ?left] by (simp add: removeDevice_def scpi_sane_def Let_def)
    qed
  qed (use a in \<open>auto simp: removeDevice_def scpi_sane_def Let_def selectedDevice_def\<close>)
qed

text \<open>The states the server gets into: messages of clients, meters that come, change and go, other errors.\<close>

inductive scpi_reach :: "'w scpi_env \<Rightarrow> 'w \<Rightarrow> 'w scpi \<Rightarrow> bool" for en w0 where
  start: "scpi_reach en w0 (scpi0 w0)"
| message: "scpi_reach en w0 s \<Longrightarrow> scpi_reach en w0 (snd (scpi_process en m s))"
| comes: "scpi_reach en w0 s \<Longrightarrow> scpi_reach en w0 (addDevice i (s\<lparr>sc_store := al_insert i d (sc_store s)\<rparr>))"
| changes: "scpi_reach en w0 s \<Longrightarrow> i \<in> al_keys (sc_store s) \<Longrightarrow>
    scpi_reach en w0 (s\<lparr>sc_store := al_insert i d (sc_store s)\<rparr>)"
| goes: "scpi_reach en w0 s \<Longrightarrow> scpi_reach en w0 (removeDevice (Some i) s)"
| destroyed: "scpi_reach en w0 s \<Longrightarrow> scpi_reach en w0 (device_destroyed i s)"
| refused: "scpi_reach en w0 s \<Longrightarrow> scpi_reach en w0 (pushError c t s)"
| program: "scpi_reach en w0 s \<Longrightarrow> scpi_reach en w0 (set_world w s)"

lemma sane_store: "scpi_sane (s\<lparr>sc_store := st\<rparr>) = scpi_sane s"
  by (simp add: scpi_sane_def)

lemma reach_sane: "scpi_reach en w0 s \<Longrightarrow> env_keeps scpi_sane en \<Longrightarrow> scpi_sane s"
proof (induction rule: scpi_reach.induct)
  case start
  then show ?case by (simp add: scpi_sane_def scpi0_def kMaxErrors_def dump_formats_def)
next
  case (destroyed s i)
  then have "scpi_sane s" by simp
  then show ?case by (simp add: device_destroyed_def sane_store remove_sane Let_def)
qed (simp_all add: sane.process_inv add_sane remove_sane sane_store sane.inv_push sane.inv_world)

text \<open>
  C11: Whatever messages clients send and meters come and go, the error queue holds at most 20 errors, no meter is
  listed twice, and the meter chosen is one of the list, none after it went, or the first one to come.
\<close>

theorem scpi_reachable_sane:
  assumes "scpi_reach en w0 s" and "env_keeps scpi_sane en"
  shows "length (sc_errors s) \<le> 20 \<and> distinct (sc_devices s) \<and>
    (sc_selected s = - 1 \<or> (0 \<le> sc_selected s \<and> sc_selected s < int (length (sc_devices s))) \<or>
     (sc_devices s = [] \<and> sc_selected s = 0)) \<and>
    sc_format s \<in> {asc ''PNG'', asc ''BMP'', asc ''JPG''}"
  using reach_sane[OF assms] by (simp add: scpi_sane_def kMaxErrors_def dump_formats_def)

text \<open>A program without receivers, and what the library does for ASCII, for the witnesses.\<close>

definition env_plain :: "scpi_signal list scpi_env" where
  "env_plain = \<lparr>en_qt = qt_plain, en_now = (\<lambda>w. 1000), en_version = lit ''2'',
     en_signal = (\<lambda>i sg s. s\<lparr>sc_world := sc_world s @ [sg]\<rparr>), en_catalog = None, en_open = None, en_close = None,
     en_screenshot = None\<rparr>"

lemma env_plain_keeps: "env_keeps scpi_sane env_plain"
  by (simp add: env_keeps_def env_plain_def scpi_sane_def)

theorem scpi_reachable_sane_witness:
  "length (sc_errors (removeDevice (Some 7) (snd (scpi_process env_plain (asc ''FOO;BAR'')
      (addDevice 7 ((scpi0 [])\<lparr>sc_store := [(7, scpi_device0)]\<rparr>)))))) \<le> 20"
proof -
  have "scpi_reach env_plain [] (addDevice 7 ((scpi0 [])\<lparr>sc_store := al_insert 7 scpi_device0 (sc_store (scpi0 []))\<rparr>))"
    by (rule scpi_reach.comes[OF scpi_reach.start])
  then have "scpi_reach env_plain [] (addDevice 7 ((scpi0 [])\<lparr>sc_store := [(7, scpi_device0)]\<rparr>))"
    by (simp add: scpi0_def)
  from scpi_reachable_sane[OF scpi_reach.goes[OF scpi_reach.message[OF this]] env_plain_keeps]
  show ?thesis by blast
qed

subsection \<open>Sockets that go while a command runs\<close>

definition deleted :: "scpi_out list \<Rightarrow> nat list" where
  "deleted l = concat (map (\<lambda>e. case e of DeletedLater n \<Rightarrow> [n] | _ \<Rightarrow> []) l)"

lemma deleted_simps [simp]:
  "deleted [] = []" "deleted (a @ b) = deleted a @ deleted b" "deleted [DeletedLater n] = [n]"
  "deleted [ClientsChanged k] = []" "deleted [Wrote k r] = []"
  by (simp_all add: deleted_def)

definition held :: "nat \<Rightarrow> nat list \<Rightarrow> 'w scpi \<Rightarrow> bool" where
  "held n gone s \<longleftrightarrow> sc_running s = n \<and> n > 0 \<and> deleted (sc_log s) = gone"

interpretation hld: scpi_invariant "held n gone" for n gone
  by unfold_locales (auto simp: held_def set_world_def)

lemma disconnect_held: "held n gone s \<Longrightarrow> held n gone (sc_disconnected sock s)"
  by (simp add: held_def sc_disconnected_def sc_release_def sc_out_def Let_def)

lemma fold_deleted:
  "sc_log (fold (\<lambda>g. sc_out (DeletedLater g)) gs s) = sc_log s @ map DeletedLater gs \<and>
   sc_running (fold (\<lambda>g. sc_out (DeletedLater g)) gs s) = sc_running s"
  by (induction gs arbitrary: s) (auto simp: sc_out_def)

lemma deleted_map [simp]: "deleted (map DeletedLater gs) = gs"
  by (induction gs) (simp_all add: deleted_def)


text \<open>The dialog that INITiate opens lets client 5 go.\<close>

definition env_leaving :: "unit scpi_env" where
  "env_leaving = \<lparr>en_qt = qt_plain, en_now = (\<lambda>w. 0), en_version = [],
     en_signal = (\<lambda>i sg s. sc_disconnected 5 s), en_catalog = None, en_open = None, en_close = None,
     en_screenshot = None\<rparr>"


subsection \<open>Reading a command\<close>

text \<open>The mnemonics of a command are known: what they match is a test on characters.\<close>

lemma matches_at:
  assumes "qt_ascii_ok (en_qt en)" and "node_at cm i = lit m" and "list_all (\<lambda>c. ch_nat c < 128) m"
  shows "scpi_matches (en_qt en) (node_at cm i) lf \<longleftrightarrow> scpi_is m lf"
  unfolding assms(2) by (rule scpi_matches_lit[OF assms(1,3)])

subsection \<open>A meter that was chosen and closed\<close>

text \<open>No answer, and nothing but the error queue touched: no meter, no list and nothing of the program.\<close>

definition only_errors :: "'w scpi \<Rightarrow> 'a option \<times> 'w scpi \<Rightarrow> bool" where
  "only_errors s r \<longleftrightarrow> fst r = None \<and> (\<exists>e. snd r = s\<lparr>sc_errors := e\<rparr>)"

lemma only_errors_push: "only_errors s (None, pushError c t s)"
  by (auto simp: only_errors_def pushError_def)

lemma only_errors_intros:
  "only_errors s (None, s\<lparr>sc_errors := e\<rparr>)" "only_errors s (None, s)"
  "only_errors s (refuse c t s)" "only_errors s (undefined_header s)"
  "only_errors s x \<Longrightarrow> only_errors s y \<Longrightarrow> only_errors s (if b then x else y)"
proof -
  show "only_errors s (None, s)" by (auto simp: only_errors_def intro!: exI[of _ "sc_errors s"])
qed (auto simp: only_errors_def refuse_def undefined_header_def pushError_def)

lemma closed_text:
  assumes "sc_selected s = - 1" and "\<not> cm_query cm" and "\<not> is_aside en cm"
  shows "only_errors s (handleText en cm s)"
proof (cases "is_common cm")
  case True
  have "only_errors s (handleCommon en cm s)"
    unfolding handleCommon_def Let_def queryOnly_def commandOnly_def
    using assms(2) by (simp only: if_False if_True simp_thms) (intro only_errors_intros)
  then show ?thesis using True by (simp add: handleText_def)
next
  case False
  then show ?thesis using assms by (simp add: handleText_def only_errors_intros)
qed


definition init_command :: command where
  "init_command = \<lparr>cm_path = [lit ''INIT''], cm_suffix = [1], cm_query = False, cm_args = []\<rparr>"

definition two_meters :: "scpi_signal list scpi" where
  "two_meters = addDevice 8 (addDevice 7 ((scpi0 [])\<lparr>sc_store := [(7, scpi_device0), (8, scpi_device0)]\<rparr>))"


subsection \<open>Channels\<close>

lemma expand_items_bounds:
  "expand_items count items out = Inr cs \<Longrightarrow> list_all (\<lambda>c. 1 \<le> c \<and> c \<le> count) out \<Longrightarrow>
     list_all (\<lambda>c. 1 \<le> c \<and> c \<le> count) cs \<and> (items \<noteq> [] \<or> out \<noteq> [] \<longrightarrow> cs \<noteq> [])"
proof (induction count items out arbitrary: cs rule: expand_items.induct)
  case (1 count out)
  then show ?case by simp
next
  case (2 count item rest out)
  let ?ends = "q_split (of_char CHR '':'') item"
  obtain lo hi where lo: "q_to_int (q_trim (hd ?ends)) = Some lo" and hi: "q_to_int (q_trim (last ?ends)) = Some hi"
    using "2.prems"(1) by (auto simp: Let_def split: option.splits)
  have b: "\<not> lo > hi" "\<not> (lo < 1 \<or> hi > count)"
    using "2.prems"(1) lo hi by (auto simp: Let_def split: if_splits)
  then have r: "expand_items count rest (out @ [lo..hi]) = Inr cs"
    using "2.prems"(1) lo hi by (simp add: Let_def)
  have "list_all (\<lambda>c. 1 \<le> c \<and> c \<le> count) (out @ [lo..hi])"
    using "2.prems"(2) b by (auto simp: list_all_iff)
  moreover have "out @ [lo..hi] \<noteq> []" using b(1) by simp
  ultimately show ?case using "2.IH"[OF refl _ lo hi b r] by simp
qed

text \<open>
  C20: Whatever channel list or suffix a client sends, the channels of a query are channels the meter has; none
  come exactly when one error was queued, and nothing else changes.
\<close>

theorem scpi_channels_bounds:
  "list_all (\<lambda>c. 1 \<le> c \<and> c \<le> channelCount (sc_dev s)) (fst (channels cm n s)) \<and>
   (if fst (channels cm n s) = [] then \<exists>c t. snd (channels cm n s) = pushError c t s else snd (channels cm n s) = s)"
proof (cases "q_index2 (of_char CHR ''('') (of_char CHR ''@'') (cm_args cm)")
  case None
  then show ?thesis by (auto simp: channels_def Let_def)
next
  case (Some k)
  let ?e = "\<lambda>body. expand_items (channelCount (sc_dev s)) (q_split (of_char CHR '','') body) []"
  show ?thesis
  proof (cases "channel_list (cm_args cm) k")
    case None
    then show ?thesis using Some by (auto simp: channels_def Let_def)
  next
    case body: (Some body)
    show ?thesis
    proof (cases "?e body")
      case (Inl p)
      then show ?thesis using Some body by (cases p) (auto simp: channels_def Let_def)
    next
      case (Inr cs)
      then have "list_all (\<lambda>c. 1 \<le> c \<and> c \<le> channelCount (sc_dev s)) cs \<and> cs \<noteq> []"
        using expand_items_bounds[OF Inr] by simp
      then show ?thesis using Some body Inr by (simp add: channels_def Let_def)
    qed
  qed
qed

subsection \<open>READ?\<close>

lemma process_one:
  assumes t: "q_trim (qt_from_utf8 (en_qt en) m) = t" "t \<noteq> []" "q_trim t = t" "split_units 0 [] t = [t]"
    and p: "parse_unit [] t = Some cm" and h: "scpi_handle en cm s = (a, s1)"
  shows "scpi_process en m s = (case a of None \<Rightarrow> [] | Some x \<Rightarrow> x @ [10], s1)"
  by (simp add: scpi_process_def t p h join_answers_def Let_def split: option.splits)

definition read_command :: command where
  "read_command = \<lparr>cm_path = [lit ''READ''], cm_suffix = [1], cm_query = True, cm_args = []\<rparr>"

lemma read_parsed:
  "parse_unit [] (lit ''READ?'') = Some read_command" "split_units 0 [] (lit ''READ?'') = [lit ''READ?'']"
  "q_trim (lit ''READ?'') = lit ''READ?''" "lit ''READ?'' \<noteq> []" "map ucast (lit ''READ?'') = asc ''READ?''"
  by code_simp+

lemma read_is: "scpi_is ''READ'' ''READ''"
  "\<not> scpi_is ''READ'' ''HCOPy''" "\<not> scpi_is ''READ'' ''DISPlay''" "\<not> scpi_is ''READ'' ''QTDMM''"
  "\<not> scpi_is ''READ'' ''UNIT''" "\<not> scpi_is ''READ'' ''CONFigure''"
  by code_simp+

lemma read_handle:
  assumes q: "qt_ascii_ok (en_qt en)" and i: "selectedDevice s = Some i"
  shows "scpi_handle en read_command s =
    (let r = reading_answer en read_command (en_now en (sc_world s)) (sc_dev s) 1
     in (Some (qt_to_utf8 (en_qt en) (fst r)),
         if snd r then pushError (- 230) (lit ''Data corrupt or stale'') s else s))"
proof -
  have n: "node_at read_command 0 = lit ''READ''" "depth read_command = 1" "cm_query read_command"
    "cm_args read_command = []" "reading_suffix read_command = 1"
    by (simp_all add: read_command_def node_at_def reading_suffix_def)
  have m: "node_is en read_command 0 lf \<longleftrightarrow> scpi_is ''READ'' lf" for lf
    by (rule matches_at[OF q n(1)]) (simp add: ch_nat_def)
  have c: "\<not> is_common read_command" unfolding is_common_def n(1) by code_simp
  have r: "is_read en read_command" unfolding is_read_def m using read_is by simp
  have l: "channels read_command 1 s = ([1], s)"
    using channelCount_ge[of "sc_dev s"] by (simp add: channels_def n Let_def)
  have sel: "\<not> sc_selected s < 0" using i by (auto simp: selectedDevice_def split: if_splits)
  have "handleText en read_command s = handleReading en read_command s"
    unfolding handleText_def m n(2) using c r sel by simp
  also have "\<dots> = (let r = reading_answer en read_command (en_now en (sc_world s)) (sc_dev s) 1
     in (Some (fst r), if snd r then pushError (- 230) (lit ''Data corrupt or stale'') s else s))"
    unfolding handleReading_def queryOnly_def n(5) l using n(3)
    by (simp add: join_comma_def Let_def)
  finally show ?thesis
    unfolding scpi_handle_def m n(2) using read_is by (simp add: Let_def)
qed

lemma read_answer:
  assumes q: "qt_ascii_ok (en_qt en)" and i: "selectedDevice s = Some i" "map_of (sc_store s) i = Some d"
    and r: "map_of (sd_readings d) 0 = Some r"
  shows "scpi_process en (asc ''READ?'') s =
    (if rd_valid r \<and> sd_connected d \<and> en_now en (sc_world s) - rd_msecs r \<le> 5000
     then (qt_to_utf8 (en_qt en)
             (scpi_number (en_qt en) (if rd_overload r then DInf (d_signbit (rd_value r)) else rd_value r)) @ [10], s)
     else (asc ''9.91E+37'' @ [10], pushError (- 230) (lit ''Data corrupt or stale'') s))"
proof -
  have n: "node_at read_command 0 = lit ''READ''" by (simp add: read_command_def node_at_def)
  have m: "node_is en read_command 0 lf \<longleftrightarrow> scpi_is ''READ'' lf" for lf
    by (rule matches_at[OF q n]) (simp add: ch_nat_def)
  have d: "sc_dev s = d" "sd_value (1 - 1) d = r" using i r by (simp_all add: sc_dev_def sd_value_def)
  have a: "list_all ascii (lit ''READ?'')" "list_all ascii kNotANumber" "map ucast kNotANumber = asc ''9.91E+37''"
    by code_simp+
  have u: "qt_from_utf8 (en_qt en) (asc ''READ?'') = lit ''READ?''" "qt_to_utf8 (en_qt en) kNotANumber = asc ''9.91E+37''"
    using q a read_parsed(5) unfolding qt_ascii_ok_def by metis+
  have t: "q_trim (qt_from_utf8 (en_qt en) (asc ''READ?'')) = lit ''READ?''" unfolding u by (rule read_parsed)
  show ?thesis
    unfolding process_one[OF t read_parsed(4,3,2,1) prod.collapse[symmetric]] read_handle[OF q i(1)]
      reading_answer_def m d Let_def reading_stale_def kStaleMs_def
    using read_is by (simp add: u(2))
qed

text \<open>
  C8: READ? on a meter answers its main reading: the number, the overload value with the sign of the overload, or
  not-a-number with error -230 when the meter is not connected or the reading is missing or older than 5 seconds.
\<close>

theorem scpi_read:
  assumes q: "qt_ascii_ok (en_qt en)" and i: "selectedDevice s = Some i" "map_of (sc_store s) i = Some d"
    and r: "map_of (sd_readings d) 0 = Some r"
  shows "scpi_process en (asc ''READ?'') s =
    (if rd_valid r \<and> sd_connected d \<and> en_now en (sc_world s) - rd_msecs r \<le> 5000
     then (qt_to_utf8 (en_qt en)
             (scpi_number (en_qt en) (if rd_overload r then DInf (d_signbit (rd_value r)) else rd_value r)) @ [10], s)
     else (asc ''9.91E+37'' @ [10], pushError (- 230) (lit ''Data corrupt or stale'') s))"
  by (rule read_answer[OF assms])

definition bench_reading :: reading where
  "bench_reading = reading0\<lparr>rd_value := DFin False (3 / 2), rd_valid := True, rd_msecs := 900\<rparr>"

definition bench_meter :: "scpi_signal list scpi_device" where
  "bench_meter = scpi_device0\<lparr>sd_connected := True, sd_readings := [(0, bench_reading)]\<rparr>"

definition bench :: "scpi_signal list scpi" where
  "bench = addDevice 7 ((scpi0 [])\<lparr>sc_store := [(7, bench_meter)]\<rparr>)"

lemma bench_facts:
  "selectedDevice bench = Some 7" "map_of (sc_store bench) 7 = Some bench_meter" "sc_world bench = []"
  "map_of (sd_readings bench_meter) 0 = Some bench_reading" "qt_ascii_ok (en_qt env_plain)"
  by (simp_all add: bench_def bench_meter_def addDevice_def scpi0_def selectedDevice_def al_has_def Let_def
      env_plain_def qt_plain_ascii)

theorem scpi_read_witness:
  "scpi_process env_plain (asc ''READ?'') bench = (asc ''+1.500000E+00'' @ [10], bench)"
proof -
  have "qt_to_utf8 (en_qt env_plain) (scpi_number (en_qt env_plain) (rd_value bench_reading)) = asc ''+1.500000E+00''"
    unfolding env_plain_def qt_plain_def bench_reading_def by (simp add: scpi_number_def)
  then show ?thesis
    unfolding scpi_read[OF bench_facts(5,1,2,4)]
    by (simp add: bench_meter_def bench_reading_def env_plain_def reading0_def scpi_device0_def)
qed

subsection \<open>Texts in quotes\<close>

lemma unquote_quoted [simp]: "unquote (quoted s) = s"
proof -
  have "q_trim (quoted s) = quoted s" by (rule q_trim_id) (simp add: quoted_def q_space_def)
  then show ?thesis by (simp add: unquote_def quoted_def Let_def halve_twice)
qed

lemma split_plain:
  "list_all (\<lambda>c. c \<noteq> 34 \<and> c \<noteq> 39 \<and> c \<noteq> 59) h \<Longrightarrow> split_units 0 cur (h @ t) = split_units 0 (cur @ h) t"
  by (induction h arbitrary: cur) (auto simp: Let_def)

lemma split_quoted: "split_units 34 cur (twice 34 s @ 34 # t) = split_units 0 (cur @ twice 34 s @ [34]) t"
  by (induction s arbitrary: cur) (auto simp: Let_def)

definition mark_header :: qstring where "mark_header = lit ''QTDMM:MARK ''"

definition mark_command :: "qstring \<Rightarrow> command" where
  "mark_command text = \<lparr>cm_path = [lit ''QTDMM'', lit ''MARK''], cm_suffix = [1, 1], cm_query = False,
     cm_args = quoted text\<rparr>"

lemma mark_parsed:
  "split_units 0 [] (mark_header @ quoted text) = [mark_header @ quoted text]"
  "q_trim (mark_header @ quoted text) = mark_header @ quoted text"
  "parse_unit [] (mark_header @ quoted text) = Some (mark_command text)"
proof -
  have "list_all (\<lambda>c. c \<noteq> 34 \<and> c \<noteq> 39 \<and> c \<noteq> 59) mark_header" unfolding mark_header_def by code_simp
  then have "split_units 0 [] (mark_header @ quoted text) = split_units 0 mark_header (quoted text)"
    by (simp add: split_plain)
  also have "\<dots> = [mark_header @ quoted text]"
    using split_quoted[of "mark_header @ [34]" "text" "[]"] by (simp add: quoted_def)
  finally show "split_units 0 [] (mark_header @ quoted text) = [mark_header @ quoted text]" .
  show "q_trim (mark_header @ quoted text) = mark_header @ quoted text"
    by (rule q_trim_id) (simp add: quoted_def q_space_def mark_header_def)
  have i: "q_index 32 (mark_header @ quoted text) = Some 10"
    using q_index_append[of 32 "lit ''QTDMM:MARK''" "quoted text"] by (simp add: mark_header_def)
  have h: "take 10 (mark_header @ quoted text) = lit ''QTDMM:MARK''"
    "drop (10 + 1) (mark_header @ quoted text) = quoted text"
    by (simp_all add: mark_header_def)
  have q: "q_trim (quoted text) = quoted text" by (rule q_trim_id) (simp add: quoted_def q_space_def)
  have p: "parse_parts (q_split (of_char CHR '':'') (lit ''QTDMM:MARK'')) [] [] =
      Some ([lit ''QTDMM'', lit ''MARK''], [1, 1])"
    "\<not> starts_with CHR '':'' (lit ''QTDMM:MARK'')" "\<not> starts_with CHR ''*'' (lit ''QTDMM:MARK'')"
    "last (lit ''QTDMM:MARK'') \<noteq> of_char CHR ''?''" "lit ''QTDMM:MARK'' \<noteq> []"
    by code_simp+
  show "parse_unit [] (mark_header @ quoted text) = Some (mark_command text)"
    unfolding parse_unit_def i option.case h q Let_def prod.case
    using p by (simp only: if_False simp_thms option.case prod.case mark_command_def) simp
qed

lemma qtdmm_is: "scpi_is ''QTDMM'' ''QTDMM''"
  "\<not> scpi_is ''QTDMM'' ''HCOPy''" "\<not> scpi_is ''QTDMM'' ''DISPlay''" "\<not> scpi_is ''QTDMM'' ''READ''"
  "\<not> scpi_is ''QTDMM'' ''FETCh''" "\<not> scpi_is ''QTDMM'' ''MEASure''" "\<not> scpi_is ''QTDMM'' ''VALue''"
  "\<not> scpi_is ''QTDMM'' ''DATA''" "\<not> scpi_is ''QTDMM'' ''SENSe''" "\<not> scpi_is ''QTDMM'' ''INITiate''"
  "\<not> scpi_is ''QTDMM'' ''ABORt''" "\<not> scpi_is ''QTDMM'' ''INPut''" "\<not> scpi_is ''QTDMM'' ''CALCulate''"
  "\<not> scpi_is ''QTDMM'' ''UNIT''" "\<not> scpi_is ''QTDMM'' ''CONFigure''"
  by code_simp+

lemma mark_is: "scpi_is ''MARK'' ''MARK''"
  "\<not> scpi_is ''MARK'' ''RECord''" "\<not> scpi_is ''MARK'' ''ALARm''" "\<not> scpi_is ''MARK'' ''LIMit''"
  "\<not> scpi_is ''MARK'' ''DATA''" "\<not> scpi_is ''MARK'' ''SDUMp''"
  by code_simp+

lemma mark_handle:
  assumes q: "qt_ascii_ok (en_qt en)" and i: "selectedDevice s = Some i" and t: "body \<noteq> []"
  shows "scpi_handle en (mark_command body) s = (None, en_signal en i (MarkRequested body) s)"
proof -
  let ?cm = "mark_command body"
  have n: "node_at ?cm 0 = lit ''QTDMM''" "node_at ?cm 1 = lit ''MARK''" "depth ?cm = 2" "\<not> cm_query ?cm"
    "cm_args ?cm = quoted body"
    by (simp_all add: mark_command_def node_at_def)
  have m: "node_is en ?cm 0 lf \<longleftrightarrow> scpi_is ''QTDMM'' lf" "node_is en ?cm 1 lf \<longleftrightarrow> scpi_is ''MARK'' lf" for lf
    by (rule matches_at[OF q n(1)], simp add: ch_nat_def) (rule matches_at[OF q n(2)], simp add: ch_nat_def)
  have c: "\<not> is_common ?cm" unfolding is_common_def n(1) by code_simp
  have r: "\<not> is_read en ?cm" unfolding is_read_def m using qtdmm_is by simp
  have sel: "\<not> sc_selected s < 0" using i by (auto simp: selectedDevice_def split: if_splits)
  have "handleText en ?cm s = handleQtdmm en ?cm s"
    unfolding handleText_def m n(3) using c r sel qtdmm_is by simp
  also have "\<dots> = qtdmmMark en ?cm s"
    unfolding handleQtdmm_def m n(3) using mark_is by simp
  also have "\<dots> = (None, en_signal en i (MarkRequested body) s)"
    by (simp add: qtdmmMark_def commandOnly_def n(4,5) sc_emit_def i t)
  finally show ?thesis
    unfolding scpi_handle_def m n(3) using qtdmm_is by (simp add: Let_def)
qed

text \<open>
  C6: The text of a mark sent in quotes arrives exactly as it is, with semicolons, quotes of both kinds, blanks
  and any other character in it, and is neither cut into further commands nor answered.
\<close>

theorem scpi_mark_verbatim:
  assumes "qt_ascii_ok (en_qt en)" and "selectedDevice s = Some i" and "body \<noteq> []"
    and "qt_from_utf8 (en_qt en) message = lit ''QTDMM:MARK '' @ quoted body"
  shows "scpi_process en message s = ([], en_signal en i (MarkRequested body) s)"
proof -
  have t: "q_trim (qt_from_utf8 (en_qt en) message) = mark_header @ quoted body"
    unfolding assms(4) using mark_parsed(2) by (simp add: mark_header_def)
  have ne: "mark_header @ quoted body \<noteq> []" by (simp add: quoted_def)
  from process_one[OF t ne mark_parsed(2,1,3) mark_handle[OF assms(1,2,3)]] show ?thesis by simp
qed

theorem scpi_mark_verbatim_witness:
  "sc_world (snd (scpi_process env_plain (asc ''QTDMM:MARK '' @ map ucast (quoted (lit ''a;b'' @ [34, 99]))) bench)) =
     [MarkRequested (lit ''a;b'' @ [34, 99])]"
proof -
  have u: "qt_from_utf8 (en_qt env_plain) (asc ''QTDMM:MARK '' @ map ucast (quoted (lit ''a;b'' @ [34, 99]))) =
      lit ''QTDMM:MARK '' @ quoted (lit ''a;b'' @ [34, 99])"
    unfolding env_plain_def qt_plain_def scpi_env.simps qt.simps by code_simp
  have "lit ''a;b'' @ [34, 99] \<noteq> []" by simp
  from scpi_mark_verbatim[OF bench_facts(5,1) this u] have
    "sc_world (snd (scpi_process env_plain (asc ''QTDMM:MARK '' @ map ucast (quoted (lit ''a;b'' @ [34, 99]))) bench)) =
       sc_world (en_signal env_plain 7 (MarkRequested (lit ''a;b'' @ [34, 99])) bench)"
    by (simp only: snd_conv)
  also have "\<dots> = [MarkRequested (lit ''a;b'' @ [34, 99])]"
    unfolding env_plain_def scpi_env.simps by (simp add: bench_facts)
  finally show ?thesis .
qed

subsection \<open>Instrument names\<close>

lemma fresh_name_tries:
  "fresh_name fuel base n name taken \<in> set taken \<Longrightarrow>
     set (name # map (\<lambda>k. base @ of_char CHR ''_'' # dec_nat k) [n..<n + fuel]) \<subseteq> set taken"
proof (induction fuel arbitrary: n name)
  case 0
  then show ?case by simp
next
  case (Suc fuel)
  have m: "name \<in> set taken" using Suc.prems by (auto split: if_splits)
  then have "fresh_name fuel base (Suc n) (base @ of_char CHR ''_'' # dec_nat n) taken \<in> set taken"
    using Suc.prems by simp
  from Suc.IH[OF this] have
    "set ((base @ of_char CHR ''_'' # dec_nat n) # map (\<lambda>k. base @ of_char CHR ''_'' # dec_nat k) [Suc n..<Suc n + fuel]) \<subseteq> set taken" .
  moreover have "[n..<n + Suc fuel] = n # [Suc n..<Suc n + fuel]" by (simp add: upt_conv_Cons del: upt_Suc)
  ultimately show ?case using m by (simp only: list.map set_simps insert_subset)
qed

lemma fresh_name_fresh: "fresh_name (length taken + 1) base n base taken \<notin> set taken"
proof
  let ?c = "base # map (\<lambda>k. base @ of_char CHR ''_'' # dec_nat k) [n..<n + (length taken + 1)]"
  assume "fresh_name (length taken + 1) base n base taken \<in> set taken"
  then have s: "set ?c \<subseteq> set taken" by (rule fresh_name_tries)
  have "distinct ?c" by (auto simp: distinct_map inj_on_def dec_nat_inj)
  then have "length ?c = card (set ?c)" by (rule distinct_card[symmetric])
  also have "\<dots> \<le> length taken" using card_mono[OF finite_set s] card_length[of taken] by linarith
  finally show False by simp
qed

lemma fresh_name_nonempty: "name \<noteq> [] \<Longrightarrow> fresh_name fuel base n name taken \<noteq> []"
  by (induction fuel arbitrary: n name) auto

lemma base_name_nonempty: "scpi_base_name q name \<noteq> []"
  by (simp add: scpi_base_name_def Let_def)

lemma taken_names_other:
  "i \<notin> set is \<Longrightarrow> taken_names (al_insert i d st) is = taken_names st is"
  by (induction "is") (auto split: option.splits)

lemma name_devices_names:
  assumes "name_devices q is taken st = (names, st')" and "distinct is" and "set is \<subseteq> al_keys st"
    and "distinct (taken_names st is)" and "set (taken_names st is) \<subseteq> set taken"
  shows "distinct names \<and> set names \<inter> set taken \<subseteq> set (taken_names st is) \<and> taken_names st' is = names \<and>
    [] \<notin> set names \<and> (\<forall>j. j \<notin> set is \<longrightarrow> map_of st' j = map_of st j)"
  using assms
proof (induction "is" arbitrary: taken st names st')
  case Nil
  then show ?case by simp
next
  case (Cons i "is")
  obtain d where d: "map_of st i = Some d" using Cons.prems(3) by (auto simp: map_of_eq_None_iff dest: weak_map_of_SomeI)
  have i: "i \<notin> set is" using Cons.prems(2) by simp
  show ?case
  proof (cases "name_kept d")
    case True
    obtain ns where n: "name_devices q is taken st = (ns, st')" and names: "names = sd_scpiName d # ns"
      using Cons.prems(1) d True by (auto split: prod.splits)
    have p: "distinct (taken_names st is)" "set (taken_names st is) \<subseteq> set taken" "sd_scpiName d \<in> set taken"
      "sd_scpiName d \<notin> set (taken_names st is)" "sd_scpiName d \<noteq> []"
      using Cons.prems(4,5) d True by (simp_all add: name_kept_def)
    from Cons.IH[OF n _ _ p(1,2)] Cons.prems(2,3) have
      "distinct ns" "set ns \<inter> set taken \<subseteq> set (taken_names st is)" "taken_names st' is = ns" "[] \<notin> set ns"
      "\<forall>j. j \<notin> set is \<longrightarrow> map_of st' j = map_of st j" by auto
    then show ?thesis using names p d True i by auto
  next
    case False
    define nm where "nm = fresh_name (length taken + 1) (scpi_base_name q (sd_name d)) 2 (scpi_base_name q (sd_name d)) taken"
    define d' where "d' = d\<lparr>sd_scpiName := nm, sd_scpiFrom := sd_name d\<rparr>"
    have f: "nm \<notin> set taken" "nm \<noteq> []"
      unfolding nm_def by (rule fresh_name_fresh, rule fresh_name_nonempty[OF base_name_nonempty])
    obtain ns where n: "name_devices q is (taken @ [nm]) (al_insert i d' st) = (ns, st')" and names: "names = nm # ns"
      using Cons.prems(1) d False by (auto simp: Let_def nm_def d'_def split: prod.splits)
    have t: "taken_names (al_insert i d' st) is = taken_names st is" by (rule taken_names_other[OF i])
    have p: "distinct (taken_names st is)" "set (taken_names st is) \<subseteq> set taken"
      using Cons.prems(4,5) d False by simp_all
    have "distinct ns \<and> set ns \<inter> set (taken @ [nm]) \<subseteq> set (taken_names st is) \<and> taken_names st' is = ns \<and>
        [] \<notin> set ns \<and> (\<forall>j. j \<notin> set is \<longrightarrow> map_of st' j = map_of (al_insert i d' st) j)"
    proof -
      have "distinct is" "set is \<subseteq> al_keys (al_insert i d' st)" "set (taken_names st is) \<subseteq> set (taken @ [nm])"
        using Cons.prems(2,3) p by auto
      from Cons.IH[OF n this(1,2)] this(3) p(1) show ?thesis unfolding t by blast
    qed
    moreover from this have "map_of st' i = Some d'" using i by simp
    moreover have "name_kept d'" "sd_scpiName d' = nm" using f by (simp_all add: d'_def name_kept_def)
    ultimately show ?thesis using names f p d False by auto
  qed
qed

lemma taken_names_length: "length (taken_names st is) \<le> length is"
  by (induction "is") (auto split: option.splits)

lemma name_devices_kept:
  assumes "length (taken_names st is) = length is"
  shows "name_devices q is taken st = (taken_names st is, st)"
  using assms
proof (induction "is" arbitrary: taken)
  case (Cons i "is")
  have "length (taken_names st is) \<le> length is" by (rule taken_names_length)
  then show ?case using Cons by (auto split: option.splits if_splits)
qed simp

lemma taken_names_filter:
  assumes "length (taken_names st is) = length is"
  shows "taken_names st (filter P is) = map snd (filter (\<lambda>(i, n). P i) (zip is (taken_names st is)))"
  using assms
proof (induction "is")
  case (Cons i "is")
  have "length (taken_names st is) \<le> length is" by (rule taken_names_length)
  then show ?case using Cons by (auto split: option.splits if_splits)
qed simp

lemma taken_names_filter_length:
  assumes "length (taken_names st is) = length is"
  shows "length (taken_names st (filter P is)) = length (filter P is)"
  using assms
proof (induction "is")
  case (Cons i "is")
  have "length (taken_names st is) \<le> length is" by (rule taken_names_length)
  then show ?case using Cons by (auto split: option.splits if_splits)
qed simp

text \<open>
  The SCPI names of the meters are distinct and not empty, however the meters are called; asking again gives
  the same ones, and closing a meter renames no other.
\<close>

theorem scpi_names_stable:
  assumes n: "instrumentNames q s = (names, s')" and d: "distinct (sc_devices s)"
    and k: "set (sc_devices s) \<subseteq> al_keys (sc_store s)" and t: "distinct (taken_names (sc_store s) (sc_devices s))"
  shows "distinct names \<and> [] \<notin> set names \<and> length names = length (sc_devices s) \<and>
    instrumentNames q s' = (names, s') \<and>
    fst (instrumentNames q (removeDevice (Some j) s')) =
      map snd (filter (\<lambda>(i, n). i \<noteq> j) (zip (sc_devices s) names))"
proof -
  obtain st where nd: "name_devices q (sc_devices s) (taken_names (sc_store s) (sc_devices s)) (sc_store s) = (names, st)"
    and s': "s' = s\<lparr>sc_store := st\<rparr>"
    using n by (auto simp: instrumentNames_def split: prod.splits)
  from name_devices_names[OF nd d k t] have
    a: "distinct names" "taken_names st (sc_devices s) = names" "[] \<notin> set names" by simp_all
  from name_devices_keys[OF nd] have l: "al_keys st = al_keys (sc_store s)" "length names = length (sc_devices s)" by simp_all
  have full: "length (taken_names st (sc_devices s)) = length (sc_devices s)" using a l by simp
  let ?left = "filter (\<lambda>i. i \<noteq> j) (sc_devices s)"
  have r: "sc_devices (removeDevice (Some j) s') = ?left" "sc_store (removeDevice (Some j) s') = st"
    using k l(1) by (auto simp: removeDevice_def s' dev_gone_def al_has_iff Let_def intro!: filter_cong)
  have tl: "taken_names st ?left = map snd (filter (\<lambda>(i, n). i \<noteq> j) (zip (sc_devices s) names))"
    using taken_names_filter[OF full, of "\<lambda>i. i \<noteq> j"] a(2) by simp
  have "length (taken_names st ?left) = length ?left"
    by (rule taken_names_filter_length[OF full])
  then have "fst (instrumentNames q (removeDevice (Some j) s')) = taken_names st ?left"
    by (simp add: instrumentNames_def r name_devices_kept)
  then show ?thesis
    using a l full by (simp add: tl instrumentNames_def s' name_devices_kept)
qed

theorem scpi_names_stable_witness:
  "let names = fst (instrumentNames qt_plain (two_meters\<lparr>sc_selected := 1\<rparr>)) in distinct names \<and> length names = 2"
proof -
  obtain names s' where n: "instrumentNames qt_plain (two_meters\<lparr>sc_selected := 1\<rparr>) = (names, s')" by fastforce
  have s: "sc_store two_meters = [(7, scpi_device0), (8, scpi_device0)]" "sc_devices two_meters = [7, 8]"
    by (simp_all add: two_meters_def addDevice_def scpi0_def Let_def)
  have "\<not> name_kept (scpi_device0 :: scpi_signal list scpi_device)" by (simp add: name_kept_def scpi_device0_def)
  then have "distinct (taken_names (sc_store (two_meters\<lparr>sc_selected := 1\<rparr>)) (sc_devices (two_meters\<lparr>sc_selected := 1\<rparr>)))"
    by (simp add: s)
  from scpi_names_stable[OF n _ _ this] show ?thesis by (simp add: s n)
qed

end
