(* ===== verification/Si_Prefix.thy ===== *)
theory Si_Prefix
  imports Qt_Text Doubles
begin

text \<open>
  \<open>src/src/core/siprefix.h\<close> and \<open>siprefix.cpp\<close>: the table of SI prefixes, units taken apart, values scaled, and
  a meter's reading without its leading zeros.
\<close>

definition micro :: qstring where "micro = [0xB5]"

definition si_table :: "(qstring \<times> dbl) list" where
  "si_table =
     [(lit ''T'', dlit (10 ^ 12)), (lit ''G'', dlit (10 ^ 9)), (lit ''M'', dlit (10 ^ 6)), (lit ''k'', dlit (10 ^ 3)),
      ([], dlit 1), (lit ''m'', dlit (1 / 10 ^ 3)), (micro, dlit (1 / 10 ^ 6)), (lit ''n'', dlit (1 / 10 ^ 9)),
      (lit ''p'', dlit (1 / 10 ^ 12))]"

definition si_isPrefix :: "qstring \<Rightarrow> bool" where
  "si_isPrefix s \<longleftrightarrow> s = lit ''u'' \<or> list_ex (\<lambda>e. fst e \<noteq> [] \<and> s = fst e) si_table"

definition si_factor :: "qstring \<Rightarrow> dbl" where
  "si_factor prefix =
     (let p = (if prefix = lit ''u'' then micro else prefix)
      in case find (\<lambda>e. p = fst e) si_table of None \<Rightarrow> dlit 1 | Some e \<Rightarrow> snd e)"

definition wholeUnits :: "qstring list" where
  "wholeUnits = map lit [''ppm'', ''fc'', ''min'', ''mol'', ''dB'', ''dBm'', ''dBV'', ''cosphi'', ''hFE'', ''HFE'',
     ''m/s'', ''%RH'', ''dBA'', ''dBC'']"

definition si_split :: "qstring \<Rightarrow> qstring \<times> qstring" where
  "si_split unit =
     (if unit \<in> set wholeUnits then ([], unit)
      else if length unit > 1 \<and> si_isPrefix (take 1 unit) then (take 1 unit, drop 1 unit)
      else ([], unit))"

text \<open>The value and the prefix; the entry without prefix is the fifth of the table.\<close>

definition si_scale :: "dbl \<Rightarrow> dbl \<times> qstring" where
  "si_scale v =
     (let m = d_abs v;
          e = (if d_lt (dlit 0) m
               then (case find (\<lambda>e. d_le (snd e) m) si_table of None \<Rightarrow> si_table ! 4 | Some e \<Rightarrow> e)
               else si_table ! 4)
      in (d_div v (snd e), fst e))"

definition takesPrefix :: "qstring \<Rightarrow> bool" where
  "takesPrefix baseUnit \<longleftrightarrow>
     baseUnit \<noteq> [] \<and> hd baseUnit \<noteq> 0xB0 \<and> baseUnit \<noteq> lit ''%'' \<and> baseUnit \<noteq> lit ''C'' \<and> baseUnit \<noteq> lit ''dF'' \<and>
     baseUnit \<notin> set wholeUnits"

definition si_scale_unit :: "dbl \<Rightarrow> qstring \<Rightarrow> dbl \<times> qstring" where
  "si_scale_unit v baseUnit = (if takesPrefix baseUnit then si_scale v else (v, []))"

text \<open>
  \<open>^([-+]?)0+(?=\d)\<close> replaced by the sign: the zeros go, but one of them stays when no digit follows them.
\<close>

definition strip_zeros :: "qstring \<Rightarrow> qstring" where
  "strip_zeros s =
     (let zs = takeWhile (\<lambda>c. c = 48) s; r = dropWhile (\<lambda>c. c = 48) s
      in if r \<noteq> [] \<and> q_digit (hd r) then r else if zs \<noteq> [] then 48 # r else r)"

definition withoutLeadingZeros :: "qstring \<Rightarrow> qstring" where
  "withoutLeadingZeros text =
     (let t = filter (\<lambda>c. c \<noteq> 32) (q_trim text)
      in if t \<noteq> [] \<and> (hd t = 43 \<or> hd t = 45) then hd t # strip_zeros (tl t) else strip_zeros t)"

definition displayText :: "qstring \<Rightarrow> qstring" where
  "displayText unit =
     (let (prefix, base) = si_split unit
      in if base = lit ''Ohm'' then prefix @ [0x3A9]
         else if base = lit ''dF'' then 0xB0 # lit ''F''
         else if base = lit ''C'' then 0xB0 # lit ''C''
         else if base = lit ''cosphi'' then lit ''cos'' @ [0x3C6]
         else prefix @ base)"

subsection \<open>Facts\<close>

lemma si_split_whole: "fst (si_split unit) @ snd (si_split unit) = unit"
  by (simp add: si_split_def append_take_drop_id del: take_Suc drop_Suc)

lemma si_split_prefix: "fst (si_split unit) = [] \<or> si_isPrefix (fst (si_split unit))"
  by (simp add: si_split_def)

text \<open>The value of the text does not change: the zeros taken away were leading ones.\<close>

lemma strip_zeros_val: "list_all q_digit s \<Longrightarrow> digits_val (strip_zeros s) = digits_val s"
proof -
  have z: "digits_val (zs @ r) = digits_val r" if "list_all (\<lambda>c. c = 48) zs" for zs r
    using that by (induction zs) (simp_all add: digits_val_def)
  let ?zs = "takeWhile (\<lambda>c. c = 48) s" and ?r = "dropWhile (\<lambda>c. c = 48) s"
  have s: "digits_val s = digits_val ?r"
    using z[of ?zs ?r] set_takeWhileD[of _ "\<lambda>c. c = 48" s] by (auto simp: list_all_iff)
  moreover have "digits_val (48 # ?r) = digits_val ?r" using z[of "[48]" ?r] by simp
  ultimately show ?thesis by (simp add: strip_zeros_def Let_def)
qed

end
