(* ===== verification/Calc_Expr.thy ===== *)
theory Calc_Expr
  imports Si_Prefix
begin

text \<open>
  \<open>src/src/core/calcexpr.h\<close> and \<open>calcexpr.cpp\<close>: the parser and the evaluator of calculated values.

  The parser object is passed along as \<open>parser\<close>: the position, the nodes and variables of the expression built so
  far, and the first error. Qt's character classes and number reading and the C library's functions are fields of
  \<open>calc_lib\<close>. Error messages are values of \<open>calc_error\<close>, without their translation. The recursion of \<open>unary\<close> is
  on the levels of nesting left of \<open>kMaxDepth\<close>; the loops of \<open>expr\<close> and \<open>term\<close> get the length of the text as
  fuel, which \<open>binop_loop_fuel\<close> shows to be enough.
\<close>

subsection \<open>Expressions\<close>

datatype calc_op =
  ONum | OVar | ONeg | OAdd | OSub | OMul | ODiv | OPow | OSqrt | OAbs | OLog10 | OSin | OCos | OExp | OFloor
  | OMin | OMax | ORand

record calc_node =
  nd_op :: calc_op
  nd_value :: dbl
  nd_name :: int
  nd_a :: int
  nd_b :: int

record calc_expr =
  ce_nodes :: "calc_node list"
  ce_vars :: "qstring list"
  ce_text :: qstring
  ce_root :: int

record calc_lib =
  cl_letter :: "u16 \<Rightarrow> bool"
  cl_digit :: "u16 \<Rightarrow> bool"
  cl_alnum :: "u16 \<Rightarrow> bool"
  cl_to_double :: "qstring \<Rightarrow> dbl option"
  cl_pi :: dbl
  cl_pow :: "dbl \<Rightarrow> dbl \<Rightarrow> dbl"
  cl_sqrt :: "dbl \<Rightarrow> dbl"
  cl_log10 :: "dbl \<Rightarrow> dbl"
  cl_sin :: "dbl \<Rightarrow> dbl"
  cl_cos :: "dbl \<Rightarrow> dbl"
  cl_exp :: "dbl \<Rightarrow> dbl"

datatype calc_error =
  EmptyExpression | TooDeep | UnexpectedEnd | Unexpected u16 | MissingParen | BadNumber qstring
  | UnknownPrefix qstring | UnknownFunction qstring | NoArguments qstring | TwoArguments qstring

record parser =
  ps_pos :: nat
  ps_nodes :: "calc_node list"
  ps_vars :: "qstring list"
  ps_err :: "(calc_error \<times> nat) option"

definition kMaxDepth :: nat where "kMaxDepth = 200"

definition parser0 :: parser where
  "parser0 = \<lparr>ps_pos = 0, ps_nodes = [], ps_vars = [], ps_err = None\<rparr>"

subsection \<open>Steps of the parser\<close>

abbreviation failed :: "parser \<Rightarrow> bool" where
  "failed st \<equiv> ps_err st \<noteq> None"

definition pfail :: "calc_error \<Rightarrow> nat \<Rightarrow> parser \<Rightarrow> int \<times> parser" where
  "pfail e p st = (- 1, if failed st then st else st\<lparr>ps_err := Some (e, p)\<rparr>)"

definition skipSpace :: "qstring \<Rightarrow> parser \<Rightarrow> parser" where
  "skipSpace s st = st\<lparr>ps_pos := ps_pos st + length (takeWhile q_space (drop (ps_pos st) s))\<rparr>"

definition peek :: "qstring \<Rightarrow> u16 \<Rightarrow> parser \<Rightarrow> bool \<times> parser" where
  "peek s c st = (let st1 = skipSpace s st in (ps_pos st1 < length s \<and> s ! ps_pos st1 = c, st1))"

definition accept :: "qstring \<Rightarrow> u16 \<Rightarrow> parser \<Rightarrow> bool \<times> parser" where
  "accept s c st =
     (case peek s c st of (ok, st1) \<Rightarrow> if ok then (True, st1\<lparr>ps_pos := ps_pos st1 + 1\<rparr>) else (False, st1))"

definition add_node :: "calc_op \<Rightarrow> dbl \<Rightarrow> int \<Rightarrow> int \<Rightarrow> int \<Rightarrow> parser \<Rightarrow> int \<times> parser" where
  "add_node op v name a b st =
     (int (length (ps_nodes st)),
      st\<lparr>ps_nodes := ps_nodes st @ [\<lparr>nd_op = op, nd_value = v, nd_name = name, nd_a = a, nd_b = b\<rparr>]\<rparr>)"

abbreviation add_op :: "calc_op \<Rightarrow> int \<Rightarrow> int \<Rightarrow> parser \<Rightarrow> int \<times> parser" where
  "add_op op a b \<equiv> add_node op d_zero (- 1) a b"

definition isNameStart :: "calc_lib \<Rightarrow> u16 \<Rightarrow> bool" where
  "isNameStart L c \<longleftrightarrow> cl_letter L c \<or> c = of_char CHR ''_''"

definition isNameChar :: "calc_lib \<Rightarrow> u16 \<Rightarrow> bool" where
  "isNameChar L c \<longleftrightarrow> cl_alnum L c \<or> c = of_char CHR ''_''"

type_synonym operand = "parser \<Rightarrow> int \<times> parser"

text \<open>
  \<open>int left = ...; while (!failed()) if (accept(c1)) ... else if (accept(c2)) ... else break;\<close>
\<close>

fun binop_loop :: "qstring \<Rightarrow> operand \<Rightarrow> u16 \<times> calc_op \<Rightarrow> u16 \<times> calc_op \<Rightarrow> nat \<Rightarrow> int \<Rightarrow> operand" where
  "binop_loop s sub o1 o2 0 left st = (left, st)"
| "binop_loop s sub o1 o2 (Suc n) left st =
     (if failed st then (left, st)
      else case accept s (fst o1) st of
        (True, st1) \<Rightarrow>
          (case sub st1 of (r, st2) \<Rightarrow>
             case add_op (snd o1) left r st2 of (i, st3) \<Rightarrow> binop_loop s sub o1 o2 n i st3)
      | (False, st1) \<Rightarrow>
          (case accept s (fst o2) st1 of
             (True, st2) \<Rightarrow>
               (case sub st2 of (r, st3) \<Rightarrow>
                  case add_op (snd o2) left r st3 of (i, st4) \<Rightarrow> binop_loop s sub o1 o2 n i st4)
           | (False, st2) \<Rightarrow> (left, st2)))"

definition binop :: "qstring \<Rightarrow> operand \<Rightarrow> u16 \<times> calc_op \<Rightarrow> u16 \<times> calc_op \<Rightarrow> operand" where
  "binop s sub o1 o2 st = (case sub st of (left, st1) \<Rightarrow> binop_loop s sub o1 o2 (Suc (length s)) left st1)"

definition parse_term :: "qstring \<Rightarrow> operand \<Rightarrow> operand" where
  "parse_term s un = binop s un (of_char CHR ''*'', OMul) (of_char CHR ''/'', ODiv)"

definition parse_expr :: "qstring \<Rightarrow> operand \<Rightarrow> operand" where
  "parse_expr s un = binop s (parse_term s un) (of_char CHR ''+'', OAdd) (of_char CHR ''-'', OSub)"

text \<open>Where the digits of a number end: digits and points, then an exponent when digits follow it.\<close>

definition exponent_end :: "calc_lib \<Rightarrow> qstring \<Rightarrow> nat \<Rightarrow> nat" where
  "exponent_end L s p =
     (if p < length s \<and> (s ! p = of_char CHR ''e'' \<or> s ! p = of_char CHR ''E'')
      then let q = p + 1;
               q' = (if q < length s \<and> (s ! q = of_char CHR ''+'' \<or> s ! q = of_char CHR ''-'') then q + 1 else q)
           in if q' < length s \<and> cl_digit L (s ! q')
              then q' + length (takeWhile (cl_digit L) (drop q' s)) else p
      else p)"

definition number_end :: "calc_lib \<Rightarrow> qstring \<Rightarrow> nat \<Rightarrow> nat" where
  "number_end L s start =
     exponent_end L s (start + length (takeWhile (\<lambda>c. cl_digit L c \<or> c = of_char CHR ''.'') (drop start s)))"

definition parse_number :: "calc_lib \<Rightarrow> qstring \<Rightarrow> operand" where
  "parse_number L s st =
     (let start = ps_pos st; p = number_end L s start; st1 = st\<lparr>ps_pos := p\<rparr>;
          digits = take (p - start) (drop start s)
      in case cl_to_double L digits of
           None \<Rightarrow> pfail (BadNumber digits) start st1
         | Some v \<Rightarrow>
             if p < length s \<and> isNameStart L (s ! p)
             then let suffix = [s ! p]; f = si_factor suffix in
               if d_eq f (dlit 1) \<and> suffix \<noteq> lit ''u'' then pfail (UnknownPrefix suffix) p st1
               else if p + 1 < length s \<and> isNameChar L (s ! (p + 1))
               then pfail (UnknownPrefix (take 2 (drop p s))) p st1
               else add_node ONum (d_mul v f) (- 1) (- 1) (- 1) (st1\<lparr>ps_pos := p + 1\<rparr>)
             else add_node ONum v (- 1) (- 1) (- 1) st1)"

definition calc_functions :: "(qstring \<times> calc_op \<times> nat) list" where
  "calc_functions =
     [(lit ''sqrt'', OSqrt, 1), (lit ''abs'', OAbs, 1), (lit ''log10'', OLog10, 1), (lit ''sin'', OSin, 1),
      (lit ''cos'', OCos, 1), (lit ''exp'', OExp, 1), (lit ''floor'', OFloor, 1), (lit ''min'', OMin, 2),
      (lit ''max'', OMax, 2), (lit ''rand'', ORand, 0)]"

definition calc_function :: "qstring \<Rightarrow> (calc_op \<times> nat) option" where
  "calc_function name = map_of calc_functions name"

definition parse_variable :: "calc_lib \<Rightarrow> qstring \<Rightarrow> operand" where
  "parse_variable L name st =
     (if name = lit ''pi'' then add_node ONum (cl_pi L) (- 1) (- 1) (- 1) st
      else let i = index_of name (ps_vars st) in
        if i < 0 then add_node OVar d_zero (int (length (ps_vars st))) (- 1) (- 1) (st\<lparr>ps_vars := ps_vars st @ [name]\<rparr>)
        else add_node OVar d_zero i (- 1) (- 1) st)"

definition parse_arguments :: "qstring \<Rightarrow> operand \<Rightarrow> qstring \<Rightarrow> calc_op \<Rightarrow> nat \<Rightarrow> operand" where
  "parse_arguments s ex name op arity st =
     (if arity = 0 then
        (case accept s (of_char CHR '')'') st of
           (True, st1) \<Rightarrow> add_op op (- 1) (- 1) st1
         | (False, st1) \<Rightarrow> pfail (NoArguments name) (ps_pos st1) st1)
      else case ex st of (a, st1) \<Rightarrow>
        (case (if \<not> failed st1 \<and> arity = 2
               then (case accept s (of_char CHR '','') st1 of
                       (True, st2) \<Rightarrow> (case ex st2 of (b, st3) \<Rightarrow> (True, b, st3))
                     | (False, st2) \<Rightarrow> (False, pfail (TwoArguments name) (ps_pos st2) st2))
               else (True, - 1, st1)) of
           (False, r) \<Rightarrow> r
         | (True, b, st3) \<Rightarrow>
             if failed st3 then add_op op a b st3
             else (case accept s (of_char CHR '')'') st3 of
                     (True, st4) \<Rightarrow> add_op op a b st4
                   | (False, st4) \<Rightarrow> pfail MissingParen (ps_pos st4) st4)))"

definition parse_name :: "calc_lib \<Rightarrow> qstring \<Rightarrow> operand \<Rightarrow> operand" where
  "parse_name L s ex st =
     (let start = ps_pos st; name = takeWhile (isNameChar L) (drop start s)
      in case accept s (of_char CHR ''('') (st\<lparr>ps_pos := start + length name\<rparr>) of
           (False, st1) \<Rightarrow> parse_variable L name st1
         | (True, st1) \<Rightarrow>
             (case calc_function name of
                None \<Rightarrow> pfail (UnknownFunction name) start st1
              | Some (op, arity) \<Rightarrow> parse_arguments s ex name op arity st1))"

definition parse_atom :: "calc_lib \<Rightarrow> qstring \<Rightarrow> operand \<Rightarrow> operand" where
  "parse_atom L s un st0 =
     (let st = skipSpace s st0; p = ps_pos st in
      if p \<ge> length s then pfail UnexpectedEnd p st
      else if s ! p = of_char CHR ''('' then
        (case parse_expr s un (st\<lparr>ps_pos := p + 1\<rparr>) of (inner, st1) \<Rightarrow>
           if failed st1 then (inner, st1)
           else (case accept s (of_char CHR '')'') st1 of
                   (True, st2) \<Rightarrow> (inner, st2)
                 | (False, st2) \<Rightarrow> pfail MissingParen (ps_pos st2) st2))
      else if cl_digit L (s ! p) \<or> s ! p = of_char CHR ''.'' then parse_number L s st
      else if isNameStart L (s ! p) then parse_name L s (parse_expr s un) st
      else pfail (Unexpected (s ! p)) p st)"

definition parse_power :: "calc_lib \<Rightarrow> qstring \<Rightarrow> operand \<Rightarrow> operand" where
  "parse_power L s un st =
     (case parse_atom L s un st of (base, st1) \<Rightarrow>
        if failed st1 then (base, st1)
        else (case accept s (of_char CHR ''^'') st1 of
                (True, st2) \<Rightarrow> (case un st2 of (r, st3) \<Rightarrow> add_op OPow base r st3)
              | (False, st2) \<Rightarrow> (base, st2)))"

text \<open>\<open>unary\<close> with so many levels of nesting left.\<close>

primrec parse_unary :: "calc_lib \<Rightarrow> qstring \<Rightarrow> nat \<Rightarrow> operand" where
  "parse_unary L s 0 st = pfail TooDeep (ps_pos st) st"
| "parse_unary L s (Suc d) st =
     (case accept s (of_char CHR ''-'') st of
        (True, st1) \<Rightarrow> (case parse_unary L s d st1 of (a, st2) \<Rightarrow> add_op ONeg a (- 1) st2)
      | (False, st1) \<Rightarrow> (case accept s (of_char CHR ''+'') st1 of (_, st2) \<Rightarrow> parse_power L s (parse_unary L s d) st2))"

definition calc_parse :: "calc_lib \<Rightarrow> qstring \<Rightarrow> (calc_error \<times> nat) + calc_expr" where
  "calc_parse L src =
     (let s = q_trim src in
      if s = [] then Inl (EmptyExpression, 0)
      else case parse_expr s (parse_unary L s kMaxDepth) parser0 of (i, st0) \<Rightarrow>
        (let st = skipSpace s st0 in
         case ps_err st of
           Some e \<Rightarrow> Inl e
         | None \<Rightarrow>
             if ps_pos st < length s then Inl (Unexpected (s ! ps_pos st), ps_pos st)
             else Inr \<lparr>ce_nodes = ps_nodes st, ce_vars = ps_vars st, ce_text = s, ce_root = i\<rparr>))"

subsection \<open>Evaluation\<close>

definition unary_ops :: "calc_op list" where
  "unary_ops = [ONeg, OSqrt, OAbs, OLog10, OSin, OCos, OExp, OFloor]"

definition op1 :: "calc_lib \<Rightarrow> calc_op \<Rightarrow> dbl \<Rightarrow> dbl" where
  "op1 L op x =
     (case op of ONeg \<Rightarrow> d_neg x | OSqrt \<Rightarrow> cl_sqrt L x | OAbs \<Rightarrow> d_abs x | OLog10 \<Rightarrow> cl_log10 L x
      | OSin \<Rightarrow> cl_sin L x | OCos \<Rightarrow> cl_cos L x | OExp \<Rightarrow> cl_exp L x | _ \<Rightarrow> d_floor x)"

text \<open>\<open>std::min(a, b)\<close> is \<open>b < a ? b : a\<close>, \<open>std::max(a, b)\<close> is \<open>a < b ? b : a\<close>.\<close>

definition op2 :: "calc_lib \<Rightarrow> calc_op \<Rightarrow> dbl \<Rightarrow> dbl \<Rightarrow> dbl" where
  "op2 L op x y =
     (case op of OAdd \<Rightarrow> d_add x y | OSub \<Rightarrow> d_sub x y | OMul \<Rightarrow> d_mul x y | ODiv \<Rightarrow> d_div x y
      | OPow \<Rightarrow> cl_pow L x y | OMin \<Rightarrow> (if d_lt y x then y else x) | _ \<Rightarrow> (if d_lt x y then y else x))"

text \<open>
  The value of a node and whether every variable was there; \<open>None\<close> when the code would read outside of its
  vectors or not return. \<open>draw i\<close> is what the generator gives node \<open>i\<close>, which is evaluated once.
\<close>

definition var_value :: "(qstring \<Rightarrow> dbl option) \<Rightarrow> calc_expr \<Rightarrow> int \<Rightarrow> (dbl \<times> bool) option" where
  "var_value vals e name =
     (if name < 0 \<or> name \<ge> int (length (ce_vars e)) then None
      else Some (case vals (ce_vars e ! nat name) of None \<Rightarrow> (d_zero, False) | Some v \<Rightarrow> (v, True)))"

definition node_at_index :: "calc_expr \<Rightarrow> int \<Rightarrow> calc_node" where
  "node_at_index e i = ce_nodes e ! nat i"

partial_function (option) eval_node ::
  "calc_lib \<Rightarrow> (nat \<Rightarrow> dbl) \<Rightarrow> (qstring \<Rightarrow> dbl option) \<Rightarrow> calc_expr \<Rightarrow> int \<Rightarrow> (dbl \<times> bool) option" where
  "eval_node L draw vals e i =
     (if i < 0 \<or> i \<ge> int (length (ce_nodes e)) then None
      else if nd_op (node_at_index e i) = ONum then Some (nd_value (node_at_index e i), True)
      else if nd_op (node_at_index e i) = OVar then var_value vals e (nd_name (node_at_index e i))
      else if nd_op (node_at_index e i) = ORand then Some (draw (nat i), True)
      else if nd_op (node_at_index e i) \<in> set unary_ops then
        Option.bind (eval_node L draw vals e (nd_a (node_at_index e i)))
          (\<lambda>x. Some (op1 L (nd_op (node_at_index e i)) (fst x), snd x))
      else
        Option.bind (eval_node L draw vals e (nd_a (node_at_index e i))) (\<lambda>x.
          Option.bind (eval_node L draw vals e (nd_b (node_at_index e i)))
            (\<lambda>y. Some (op2 L (nd_op (node_at_index e i)) (fst x) (fst y), snd x \<and> snd y))))"

text \<open>\<open>CalcExpr::eval\<close>: the outer \<open>None\<close> as above, the inner one is \<open>std::nullopt\<close>.\<close>

definition calc_eval :: "calc_lib \<Rightarrow> (nat \<Rightarrow> dbl) \<Rightarrow> (qstring \<Rightarrow> dbl option) \<Rightarrow> calc_expr \<Rightarrow> dbl option option" where
  "calc_eval L draw vals e =
     (if ce_root e < 0 then Some None
      else map_option (\<lambda>(v, ok). if ok \<and> d_isfinite v then Some v else None) (eval_node L draw vals e (ce_root e)))"

subsection \<open>Variables renamed, waveforms\<close>

text \<open>The rest of a number token after its first character: \<open>prev\<close> is the character before.\<close>

fun number_rest :: "calc_lib \<Rightarrow> u16 \<Rightarrow> qstring \<Rightarrow> nat" where
  "number_rest L prev [] = 0"
| "number_rest L prev (c # cs) =
     (if isNameChar L c \<or> c = of_char CHR ''.'' \<or>
         ((c = of_char CHR ''+'' \<or> c = of_char CHR ''-'') \<and> (prev = of_char CHR ''e'' \<or> prev = of_char CHR ''E''))
      then Suc (number_rest L c cs) else 0)"

text \<open>
  \<open>CalcExpr::renameVariable\<close>. A digit or letter is also an \<open>isLetterOrNumber\<close> character, so a token holds at
  least the character it starts with.
\<close>

function rename_from :: "calc_lib \<Rightarrow> qstring \<Rightarrow> qstring \<Rightarrow> qstring \<Rightarrow> qstring" where
  "rename_from L old new [] = []"
| "rename_from L old new (c # cs) =
     (if cl_digit L c \<or> c = of_char CHR ''.'' then
        (let n = number_rest L c cs in (c # take n cs) @ rename_from L old new (drop n cs))
      else if isNameStart L c then
        (let name = c # takeWhile (isNameChar L) cs; rest = dropWhile (isNameChar L) cs;
             after = dropWhile q_space rest; call = (after \<noteq> [] \<and> hd after = of_char CHR ''('')
         in (if name = old \<and> \<not> call then new else name) @ rename_from L old new rest)
      else c # rename_from L old new cs)"
  by pat_completeness auto
termination
  by (relation "measure (\<lambda>(L, old, new, s). length s)") (auto simp: le_imp_less_Suc length_dropWhile_le)

definition renameVariable :: "calc_lib \<Rightarrow> qstring \<Rightarrow> qstring \<Rightarrow> qstring \<Rightarrow> qstring" where
  "renameVariable L text old new = rename_from L old new text"

datatype waveform = Constant | Random | Sine | Triangle | Square | Sawtooth | Discharge | Custom

definition waveformFormula :: "calc_lib \<Rightarrow> waveform \<Rightarrow> qstring \<Rightarrow> qstring \<Rightarrow> qstring \<Rightarrow> qstring \<Rightarrow> qstring" where
  "waveformFormula L w mn mx period noise =
     (let lo = lit ''('' @ q_trim mn @ lit '')''; hi = lit ''('' @ q_trim mx @ lit '')'';
          span = lit ''('' @ hi @ lit '' - '' @ lo @ lit '')''; p = lit ''('' @ q_trim period @ lit '')'';
          head = lo @ lit '' + '' @ span;
          f = (case w of
                 Constant \<Rightarrow> hi
               | Random \<Rightarrow> head @ lit '' * rand()''
               | Sine \<Rightarrow> head @ lit '' * (0.5 + 0.5 * sin(2 * pi * t / '' @ p @ lit ''))''
               | Triangle \<Rightarrow> head @ lit '' * abs(2 * (t / '' @ p @ lit '' - floor(t / '' @ p @ lit '' + 0.5)))''
               | Square \<Rightarrow> head @ lit '' * (floor(2 * t / '' @ p @ lit '') - 2 * floor(t / '' @ p @ lit ''))''
               | Sawtooth \<Rightarrow> head @ lit '' * (t / '' @ p @ lit '' - floor(t / '' @ p @ lit ''))''
               | Discharge \<Rightarrow> head @ lit '' * exp(-t / '' @ p @ lit '')''
               | Custom \<Rightarrow> []);
          n = (case cl_to_double L (q_trim noise) of None \<Rightarrow> d_zero | Some v \<Rightarrow> v)
      in if w = Custom then []
         else if d_lt d_zero n then f @ lit '' + '' @ q_trim noise @ lit '' * (rand() - 0.5)'' else f)"

end
