(* ===== verification/Calc_Facts.thy ===== *)
theory Calc_Facts
  imports Calc_Expr
begin

text \<open>
  The parser of calculated values: what every part of it promises (\<open>parses\<close>), that an expression that parses is
  well formed and so is evaluated to the end, that the fuel of its loops is enough, and how deep trees get.
\<close>

subsection \<open>Well-formed nodes\<close>

text \<open>The operands of a node come before it, and a variable is one of the list.\<close>

definition node_ok :: "nat \<Rightarrow> nat \<Rightarrow> calc_node \<Rightarrow> bool" where
  "node_ok nv k n \<longleftrightarrow>
     (nd_op n = OVar \<longrightarrow> 0 \<le> nd_name n \<and> nd_name n < int nv) \<and>
     (nd_op n \<notin> {ONum, OVar, ORand} \<longrightarrow> 0 \<le> nd_a n \<and> nd_a n < int k) \<and>
     (nd_op n \<notin> {ONum, OVar, ORand} \<union> set unary_ops \<longrightarrow> 0 \<le> nd_b n \<and> nd_b n < int k)"

definition nodes_ok :: "nat \<Rightarrow> calc_node list \<Rightarrow> bool" where
  "nodes_ok nv ns \<longleftrightarrow> (\<forall>k < length ns. node_ok nv k (ns ! k))"

text \<open>A parser that has not failed has well-formed nodes.\<close>

definition pwf :: "parser \<Rightarrow> bool" where
  "pwf st \<longleftrightarrow> failed st \<or> nodes_ok (length (ps_vars st)) (ps_nodes st)"

lemma nodes_ok_snoc: "nodes_ok nv ns \<Longrightarrow> node_ok nv (length ns) n \<Longrightarrow> nodes_ok nv (ns @ [n])"
  by (auto simp: nodes_ok_def nth_append less_Suc_eq)

lemma node_ok_mono: "node_ok nv k n \<Longrightarrow> nv \<le> nv' \<Longrightarrow> node_ok nv' k n"
  by (auto simp: node_ok_def)

lemma nodes_ok_mono: "nodes_ok nv ns \<Longrightarrow> nv \<le> nv' \<Longrightarrow> nodes_ok nv' ns"
  by (auto simp: nodes_ok_def intro: node_ok_mono)

subsection \<open>What a part of the parser promises\<close>

definition adv :: "qstring \<Rightarrow> parser \<Rightarrow> parser \<Rightarrow> bool" where
  "adv s st st' \<longleftrightarrow>
     ps_pos st \<le> ps_pos st' \<and> ps_pos st' \<le> length s \<and> length (ps_nodes st) \<le> length (ps_nodes st') \<and>
     (failed st \<longrightarrow> failed st') \<and> pwf st'"

definition idx_ok :: "int \<Rightarrow> parser \<Rightarrow> bool" where
  "idx_ok i st \<longleftrightarrow> failed st \<or> (0 \<le> i \<and> i < int (length (ps_nodes st)))"

definition ready :: "qstring \<Rightarrow> parser \<Rightarrow> bool" where
  "ready s st \<longleftrightarrow> ps_pos st \<le> length s \<and> pwf st"

definition parses :: "qstring \<Rightarrow> operand \<Rightarrow> bool" where
  "parses s f \<longleftrightarrow> (\<forall>st. ready s st \<longrightarrow> adv s st (snd (f st)) \<and> idx_ok (fst (f st)) (snd (f st)))"

lemma parsesD:
  assumes "parses s f" and "ready s st" and "f st = (i, st')"
  shows "adv s st st'" and "idx_ok i st'"
  using assms unfolding parses_def by (metis fst_conv snd_conv)+

lemma parsesI:
  assumes "\<And>st i st'. ready s st \<Longrightarrow> f st = (i, st') \<Longrightarrow> adv s st st' \<and> idx_ok i st'"
  shows "parses s f"
  using assms unfolding parses_def by (metis prod.collapse)

lemma adv_trans [trans]: "adv s a b \<Longrightarrow> adv s b c \<Longrightarrow> adv s a c"
  by (auto simp: adv_def)

lemma advD: "adv s a b \<Longrightarrow> ps_pos a \<le> ps_pos b" "adv s a b \<Longrightarrow> ps_pos b \<le> length s"
  by (simp_all add: adv_def)

lemma adv_ready: "adv s a b \<Longrightarrow> ready s b"
  by (simp add: adv_def ready_def)

lemma adv_refl: "ready s st \<Longrightarrow> adv s st st"
  by (simp add: adv_def ready_def)

lemma idx_later: "adv s a b \<Longrightarrow> idx_ok i a \<Longrightarrow> idx_ok i b"
  by (auto simp: adv_def idx_ok_def)

lemma skip_pos: "ps_pos st \<le> length s \<Longrightarrow> ps_pos (skipSpace s st) \<le> length s"
  using length_takeWhile_le[of q_space "drop (ps_pos st) s"] by (simp add: skipSpace_def)

lemma skip_adv: "ready s st \<Longrightarrow> adv s st (skipSpace s st)"
  using skip_pos by (auto simp: adv_def ready_def skipSpace_def pwf_def)

lemma accept_adv:
  assumes "accept s c st = (b, st1)" and "ready s st"
  shows "adv s st st1" and "\<And>i. idx_ok i st1 = idx_ok i st" and "failed st1 = failed st"
    and "b \<Longrightarrow> ps_pos st < ps_pos st1"
  using assms skip_pos[of st s]
  by (auto simp: accept_def peek_def adv_def ready_def pwf_def idx_ok_def skipSpace_def Let_def split: if_splits)

lemma fail_adv:
  assumes "ready s st" and "pfail e p st = (i, st1)"
  shows "adv s st st1" and "idx_ok i st1" and "failed st1"
  using assms by (auto simp: pfail_def adv_def idx_ok_def ready_def pwf_def split: if_splits)

lemma add_adv:
  assumes "add_node op v n a b st = (i, st1)" and "ready s st"
    and "\<not> failed st \<Longrightarrow>
      node_ok (length (ps_vars st)) (length (ps_nodes st)) \<lparr>nd_op = op, nd_value = v, nd_name = n, nd_a = a, nd_b = b\<rparr>"
  shows "adv s st st1" and "idx_ok i st1"
proof -
  let ?n = "\<lparr>nd_op = op, nd_value = v, nd_name = n, nd_a = a, nd_b = b\<rparr>"
  have e: "i = int (length (ps_nodes st))" "st1 = st\<lparr>ps_nodes := ps_nodes st @ [?n]\<rparr>"
    using assms(1) by (simp_all add: add_node_def)
  have "pwf st1"
  proof (cases "failed st")
    case False
    then have "nodes_ok (length (ps_vars st)) (ps_nodes st @ [?n])"
      using assms(2,3) by (intro nodes_ok_snoc) (simp_all add: ready_def pwf_def)
    then show ?thesis by (simp add: pwf_def e)
  qed (simp add: pwf_def e)
  then show "adv s st st1" "idx_ok i st1" using assms(2) by (simp_all add: adv_def idx_ok_def ready_def e)
qed

lemma op_adv:
  assumes "add_op op a b st = (i, st1)" and "ready s st"
    and "idx_ok a st \<or> op = ORand" and "idx_ok b st \<or> op \<in> set unary_ops \<or> op = ORand" and "op \<noteq> OVar"
  shows "adv s st st1" and "idx_ok i st1"
  by (rule add_adv[OF assms(1,2)]; use assms(3-5) in \<open>auto simp: node_ok_def idx_ok_def\<close>)+

lemma leaf_adv:
  assumes "add_node ONum v (- 1) a b st = (i, st1)" and "ready s st"
  shows "adv s st st1" and "idx_ok i st1"
  by (rule add_adv[OF assms(1,2)]; simp add: node_ok_def)+

lemma variable_parses: "parses s (parse_variable L name)"
proof (rule parsesI)
  fix st i st'
  assume p: "ready s st" and v: "parse_variable L name st = (i, st')"
  let ?k = "index_of name (ps_vars st)"
  consider "name = lit ''pi''" | "name \<noteq> lit ''pi''" "?k < 0" | "name \<noteq> lit ''pi''" "\<not> ?k < 0" by blast
  then show "adv s st st' \<and> idx_ok i st'"
  proof cases
    case 1
    then show ?thesis using v leaf_adv[OF _ p] by (auto simp: parse_variable_def)
  next
    case 2
    let ?st = "st\<lparr>ps_vars := ps_vars st @ [name]\<rparr>"
    have a: "add_node OVar d_zero (int (length (ps_vars st))) (- 1) (- 1) ?st = (i, st')"
      using v 2 by (simp add: parse_variable_def Let_def)
    have r: "adv s st ?st" using p by (auto simp: adv_def ready_def pwf_def intro: nodes_ok_mono)
    from add_adv[OF a adv_ready[OF r]] have "adv s ?st st'" "idx_ok i st'" by (simp_all add: node_ok_def)
    then show ?thesis using adv_trans[OF r] by blast
  next
    case 3
    have "name \<in> set (ps_vars st)" using 3 index_of_absent[of name "ps_vars st"] by auto
    then have "?k < int (length (ps_vars st))" using index_of_nth by metis
    moreover have "add_node OVar d_zero ?k (- 1) (- 1) st = (i, st')"
      using v 3 by (simp add: parse_variable_def Let_def)
    ultimately show ?thesis using add_adv[OF _ p, of OVar d_zero ?k "- 1" "- 1" i st'] 3 by (simp add: node_ok_def)
  qed
qed

lemma run_bound: "q \<le> length s \<Longrightarrow> q + length (takeWhile P (drop q s)) \<le> length s"
  using length_takeWhile_le[of P "drop q s"] by simp

lemma exponent_end_bounds: "p \<le> length s \<Longrightarrow> p \<le> exponent_end L s p \<and> exponent_end L s p \<le> length s"
proof -
  assume p: "p \<le> length s"
  define q' where "q' = (if p + 1 < length s \<and> (s ! (p + 1) = of_char CHR ''+'' \<or> s ! (p + 1) = of_char CHR ''-'')
    then p + 1 + 1 else p + 1)"
  have "exponent_end L s p \<in> {p, q' + length (takeWhile (cl_digit L) (drop q' s))} \<and>
    (exponent_end L s p \<noteq> p \<longrightarrow> q' < length s)"
    unfolding exponent_end_def Let_def q'_def by (simp only: split: if_splits) blast
  moreover have "p \<le> q'" by (simp add: q'_def)
  ultimately show ?thesis using p run_bound[of q' s "cl_digit L"] by auto
qed

lemma number_end_bounds: "start \<le> length s \<Longrightarrow> start \<le> number_end L s start \<and> number_end L s start \<le> length s"
  using exponent_end_bounds[OF run_bound] unfolding number_end_def by (meson le_add1 le_trans)

lemma number_parses: "parses s (parse_number L s)"
proof (rule parsesI)
  fix st i st'
  assume r: "ready s st" and v: "parse_number L s st = (i, st')"
  let ?p = "number_end L s (ps_pos st)"
  have p: "ps_pos st \<le> length s" using r by (simp add: ready_def)
  note b = number_end_bounds[OF p, of L]
  have a: "adv s st (st\<lparr>ps_pos := ?p\<rparr>)" "?p < length s \<Longrightarrow> adv s st (st\<lparr>ps_pos := ?p, ps_pos := ?p + 1\<rparr>)"
    using b r by (auto simp: adv_def ready_def pwf_def)
  have l: "adv s st st' \<and> idx_ok i st'" if "add_node ONum w (- 1) (- 1) (- 1) t = (i, st')" "adv s st t" for w t
    using leaf_adv[OF that(1) adv_ready[OF that(2)]] adv_trans[OF that(2)] by simp
  have f: "adv s st st' \<and> idx_ok i st'" if "pfail e q t = (i, st')" "adv s st t" for e q t
    using fail_adv[OF adv_ready[OF that(2)] that(1)] adv_trans[OF that(2)] by simp
  let ?d = "take (?p - ps_pos st) (drop (ps_pos st) s)"
  have "adv s st st' \<and> idx_ok i st'"
  proof (cases "cl_to_double L ?d")
    case None
    then show ?thesis using v f[OF _ a(1)] by (simp add: parse_number_def Let_def)
  next
    case (Some w)
    show ?thesis
    proof (cases "?p < length s \<and> isNameStart L (s ! ?p)")
      case False
      then have "add_node ONum w (- 1) (- 1) (- 1) (st\<lparr>ps_pos := ?p\<rparr>) = (i, st')"
        using v Some by (simp only: parse_number_def Let_def option.case if_False)
      then show ?thesis using l a(1) by blast
    next
      case True
      have "(\<exists>e q. pfail e q (st\<lparr>ps_pos := ?p\<rparr>) = (i, st')) \<or>
          (\<exists>w. add_node ONum w (- 1) (- 1) (- 1) (st\<lparr>ps_pos := ?p, ps_pos := ?p + 1\<rparr>) = (i, st'))"
        using v True unfolding parse_number_def Let_def Some option.case by (simp only: simp_thms if_True split: if_splits) blast+
      then show ?thesis using l f a True by blast
    qed
  qed
  then show "adv s st st' \<and> idx_ok i st'" by simp
qed

subsection \<open>The interface of an operand\<close>

lemma accept_pair:
  assumes "ready s st"
  obtains b st1 where "accept s c st = (b, st1)" and "adv s st st1" and "ready s st1"
    and "b \<Longrightarrow> ps_pos st < ps_pos st1" and "\<And>i. idx_ok i st1 = idx_ok i st" and "failed st1 = failed st"
proof -
  obtain b st1 where a: "accept s c st = (b, st1)" by fastforce
  from accept_adv[OF a assms] show ?thesis by (intro that[OF a]) (auto intro: adv_ready)
qed

text \<open>
  What the levels of the grammar rely on: the operand of the level below keeps its promise. Every level keeps it
  then, too.
\<close>

locale calc_operand =
  fixes s :: qstring and f :: operand
  assumes operand_parses: "parses s f"
begin

lemma operand_pair:
  assumes "ready s st"
  obtains i st1 where "f st = (i, st1)" and "adv s st st1" and "ready s st1" and "idx_ok i st1"
proof -
  obtain i st1 where a: "f st = (i, st1)" by fastforce
  from parsesD[OF operand_parses assms a] show ?thesis by (intro that[OF a]) (auto intro: adv_ready)
qed

text \<open>An operand and the node of both.\<close>

lemma operator_step:
  assumes "ready s st" and "idx_ok left st" and "op \<noteq> OVar"
  obtains r st2 i st3 where "f st = (r, st2)" and "add_op op left r st2 = (i, st3)"
    and "adv s st st3" and "idx_ok i st3" and "ready s st3"
proof -
  obtain r st2 where o: "f st = (r, st2)" "adv s st st2" "ready s st2" "idx_ok r st2"
    using operand_pair[OF assms(1)] by metis
  obtain i st3 where a: "add_op op left r st2 = (i, st3)" by fastforce
  have "adv s st2 st3" "idx_ok i st3"
    using op_adv[OF a o(3)] idx_later[OF o(2) assms(2)] o(4) assms(3) by blast+
  then show ?thesis using that[OF o(1) a] adv_trans[OF o(2)] adv_ready by blast
qed

lemma loop_parses:
  assumes "ready s st" and "idx_ok left st" and "snd o1 \<noteq> OVar" and "snd o2 \<noteq> OVar"
    and "binop_loop s f o1 o2 n left st = (i, st')"
  shows "adv s st st' \<and> idx_ok i st'"
  using assms
proof (induction n arbitrary: left st)
  case 0
  then show ?case by (simp add: adv_refl)
next
  case (Suc n)
  show ?case
  proof (cases "failed st")
    case True
    then show ?thesis using Suc.prems by (simp add: adv_refl)
  next
    case nf: False
    obtain b st1 where a1: "accept s (fst o1) st = (b, st1)" "adv s st st1" "ready s st1" "idx_ok left st1"
      using accept_pair[OF Suc.prems(1)] Suc.prems(2) by metis
    show ?thesis
    proof (cases b)
      case True
      obtain r st2 j st3 where o: "f st1 = (r, st2)" "add_op (snd o1) left r st2 = (j, st3)" "adv s st1 st3"
        "idx_ok j st3" "ready s st3"
        using operator_step[OF a1(3,4) Suc.prems(3)] by metis
      have "binop_loop s f o1 o2 n j st3 = (i, st')" using Suc.prems(5) nf a1(1) True o(1,2) by simp
      from Suc.IH[OF o(5,4) Suc.prems(3,4) this] show ?thesis
        using adv_trans[OF adv_trans[OF a1(2) o(3)]] by blast
    next
      case False
      obtain b2 st2 where a2: "accept s (fst o2) st1 = (b2, st2)" "adv s st1 st2" "ready s st2" "idx_ok left st2"
        using accept_pair[OF a1(3)] a1(4) by metis
      show ?thesis
      proof (cases b2)
        case True
        obtain r st3 j st4 where o: "f st2 = (r, st3)" "add_op (snd o2) left r st3 = (j, st4)" "adv s st2 st4"
          "idx_ok j st4" "ready s st4"
          using operator_step[OF a2(3,4) Suc.prems(4)] by metis
        have "binop_loop s f o1 o2 n j st4 = (i, st')"
          using Suc.prems(5) nf a1(1) a2(1) \<open>\<not> b\<close> True o(1,2) by simp
        from Suc.IH[OF o(5,4) Suc.prems(3,4) this] show ?thesis
          using adv_trans[OF adv_trans[OF adv_trans[OF a1(2) a2(2)] o(3)]] by blast
      next
        case b2: False
        then show ?thesis
          using Suc.prems(5) nf a1(1) a2 \<open>\<not> b\<close> adv_trans[OF a1(2) a2(2)] by simp
      qed
    qed
  qed
qed

lemma binop_parses:
  assumes "snd o1 \<noteq> OVar" and "snd o2 \<noteq> OVar"
  shows "parses s (binop s f o1 o2)"
proof (rule parsesI)
  fix st i st'
  assume r: "ready s st" and b: "binop s f o1 o2 st = (i, st')"
  obtain left st1 where o: "f st = (left, st1)" "adv s st st1" "ready s st1" "idx_ok left st1"
    using operand_pair[OF r] by metis
  have "binop_loop s f o1 o2 (Suc (length s)) left st1 = (i, st')"
    using b o(1) by (simp only: binop_def prod.case)
  from loop_parses[OF o(3,4) assms this] show "adv s st st' \<and> idx_ok i st'"
    using adv_trans[OF o(2)] by blast
qed

text \<open>
  The loop's fuel does not matter once there is one more than there are characters left: every turn takes an
  operator, so the loop ends by itself.
\<close>

lemma loop_fuel:
  assumes "ready s st" and "idx_ok left st" and "snd o1 \<noteq> OVar" and "snd o2 \<noteq> OVar"
    and "length s - ps_pos st < n" and "n \<le> m"
  shows "binop_loop s f o1 o2 m left st = binop_loop s f o1 o2 n left st"
  using assms
proof (induction n arbitrary: m left st)
  case 0
  then show ?case by simp
next
  case (Suc n)
  obtain k where m: "m = Suc k" "n \<le> k" using Suc.prems(6) by (cases m) auto
  show ?case
  proof (cases "failed st")
    case True
    then show ?thesis by (simp add: m)
  next
    case nf: False
    obtain b st1 where a1: "accept s (fst o1) st = (b, st1)" "adv s st st1" "ready s st1" "idx_ok left st1"
      "b \<Longrightarrow> ps_pos st < ps_pos st1"
      using accept_pair[OF Suc.prems(1)] Suc.prems(2) by metis
    show ?thesis
    proof (cases b)
      case True
      obtain r st2 j st3 where o: "f st1 = (r, st2)" "add_op (snd o1) left r st2 = (j, st3)" "adv s st1 st3"
        "idx_ok j st3" "ready s st3"
        using operator_step[OF a1(3,4) Suc.prems(3)] by metis
      have "length s - ps_pos st3 < n"
        using Suc.prems(5) a1(5)[OF True] advD[OF o(3)] by linarith
      from Suc.IH[OF o(5,4) Suc.prems(3,4) this m(2)] show ?thesis using a1(1) True o(1,2) nf by (simp add: m)
    next
      case False
      obtain b2 st2 where a2: "accept s (fst o2) st1 = (b2, st2)" "adv s st1 st2" "ready s st2" "idx_ok left st2"
        "b2 \<Longrightarrow> ps_pos st1 < ps_pos st2"
        using accept_pair[OF a1(3)] a1(4) by metis
      show ?thesis
      proof (cases b2)
        case True
        obtain r st3 j st4 where o: "f st2 = (r, st3)" "add_op (snd o2) left r st3 = (j, st4)" "adv s st2 st4"
          "idx_ok j st4" "ready s st4"
          using operator_step[OF a2(3,4) Suc.prems(4)] by metis
        have "length s - ps_pos st4 < n"
          using Suc.prems(5) advD[OF a1(2)] a2(5)[OF True] advD[OF o(3)] by linarith
        from Suc.IH[OF o(5,4) Suc.prems(3,4) this m(2)] show ?thesis
          using a1(1) a2(1) \<open>\<not> b\<close> True o(1,2) nf by (simp add: m)
      qed (use a1(1) a2(1) \<open>\<not> b\<close> nf in \<open>simp add: m\<close>)
    qed
  qed
qed

end

subsection \<open>Every level keeps the promise\<close>

lemma ready_later: "adv s a b \<Longrightarrow> adv s b c \<Longrightarrow> adv s a c \<and> ready s c"
  using adv_trans adv_ready by blast

definition arity_ok :: "calc_op \<Rightarrow> nat \<Rightarrow> bool" where
  "arity_ok op arity \<longleftrightarrow> op \<noteq> OVar \<and> (arity = 0 \<longrightarrow> op = ORand) \<and> (arity \<noteq> 2 \<longrightarrow> op \<in> set unary_ops \<or> op = ORand)"

lemma function_arity: "calc_function name = Some (op, arity) \<Longrightarrow> arity_ok op arity"
proof -
  have "list_all (\<lambda>(n, op, arity). arity_ok op arity) calc_functions"
    by (simp add: calc_functions_def arity_ok_def unary_ops_def)
  moreover assume "calc_function name = Some (op, arity)"
  then have "(name, op, arity) \<in> set calc_functions" unfolding calc_function_def by (rule map_of_SomeD)
  ultimately show ?thesis by (auto simp: list_all_iff)
qed

context calc_operand
begin

lemma term_parses: "parses s (parse_term s f)"
  unfolding parse_term_def by (rule binop_parses) simp_all

lemma expr_parses: "parses s (parse_expr s f)"
  unfolding parse_expr_def by (rule calc_operand.binop_parses[OF calc_operand.intro[OF term_parses]]) simp_all

text \<open>A closing parenthesis: the node, or the error.\<close>

lemma closing:
  assumes "ready s st" and "arity_ok op arity" and "arity \<noteq> 0" and "idx_ok a st" and "idx_ok b st \<or> arity \<noteq> 2"
    and "(if failed st then add_op op a b st
      else case accept s (of_char CHR '')'') st of
             (True, st4) \<Rightarrow> add_op op a b st4 | (False, st4) \<Rightarrow> pfail MissingParen (ps_pos st4) st4) = (i, st')"
  shows "adv s st st' \<and> idx_ok i st'"
proof -
  have add: "adv s t st' \<and> idx_ok i st'"
    if "add_op op a b t = (i, st')" "ready s t" "idx_ok a t" "idx_ok b t \<or> arity \<noteq> 2" for t
    using op_adv[OF that(1,2)] that(3,4) assms(2) by (auto simp: arity_ok_def)
  show ?thesis
  proof (cases "failed st")
    case True
    then show ?thesis using assms add by simp
  next
    case False
    obtain ok st4 where a: "accept s (of_char CHR '')'') st = (ok, st4)" "adv s st st4" "ready s st4"
      "\<And>i. idx_ok i st4 = idx_ok i st"
      using accept_pair[OF assms(1)] by metis
    show ?thesis
    proof (cases ok)
      case True
      then have "add_op op a b st4 = (i, st')" using assms(6) a(1) False by simp
      from add[OF this a(3)] show ?thesis using a(4) assms(4,5) adv_trans[OF a(2)] by blast
    next
      case nok: False
      then have "pfail MissingParen (ps_pos st4) st4 = (i, st')" using assms(6) a(1) False by simp
      from fail_adv[OF a(3) this] show ?thesis using adv_trans[OF a(2)] by blast
    qed
  qed
qed

lemma arguments_parses:
  assumes "arity_ok op arity"
  shows "parses s (parse_arguments s f name op arity)"
proof (rule parsesI)
  fix st i st'
  assume r: "ready s st" and p: "parse_arguments s f name op arity st = (i, st')"
  show "adv s st st' \<and> idx_ok i st'"
  proof (cases "arity = 0")
    case True
    obtain ok st1 where a: "accept s (of_char CHR '')'') st = (ok, st1)" "adv s st st1" "ready s st1"
      using accept_pair[OF r] by metis
    show ?thesis
    proof (cases ok)
      case True
      then have "add_op op (- 1) (- 1) st1 = (i, st')" "op = ORand"
        using p a(1) \<open>arity = 0\<close> assms by (auto simp: parse_arguments_def arity_ok_def)
      then show ?thesis using op_adv[of op "- 1" "- 1" st1 i st' s] a adv_trans[OF a(2)] by blast
    next
      case False
      then have "pfail (NoArguments name) (ps_pos st1) st1 = (i, st')"
        using p a(1) \<open>arity = 0\<close> by (simp add: parse_arguments_def)
      from fail_adv[OF a(3) this] show ?thesis using adv_trans[OF a(2)] by blast
    qed
  next
    case ar: False
    obtain a st1 where o: "f st = (a, st1)" "adv s st st1" "ready s st1" "idx_ok a st1"
      using operand_pair[OF r] by metis
    show ?thesis
    proof (cases "\<not> failed st1 \<and> arity = 2")
      case False
      then have "(if failed st1 then add_op op a (- 1) st1
        else case accept s (of_char CHR '')'') st1 of
             (True, st4) \<Rightarrow> add_op op a (- 1) st4 | (False, st4) \<Rightarrow> pfail MissingParen (ps_pos st4) st4) = (i, st')"
        using p ar o(1) by (simp only: parse_arguments_def if_False prod.case bool.case)
      moreover have "idx_ok (- 1) st1 \<or> arity \<noteq> 2" using False by (auto simp: idx_ok_def)
      ultimately show ?thesis using closing[OF o(3) assms ar o(4)] adv_trans[OF o(2)] by blast
    next
      case True
      obtain ok st2 where c: "accept s (of_char CHR '','') st1 = (ok, st2)" "adv s st1 st2" "ready s st2"
        "\<And>i. idx_ok i st2 = idx_ok i st1"
        using accept_pair[OF o(3)] by metis
      show ?thesis
      proof (cases ok)
        case False
        then have "pfail (TwoArguments name) (ps_pos st2) st2 = (i, st')"
          using p ar o(1) True c(1) by (simp add: parse_arguments_def)
        from fail_adv[OF c(3) this] show ?thesis using adv_trans[OF adv_trans[OF o(2) c(2)]] by blast
      next
        case okay: True
        obtain b st3 where o2: "f st2 = (b, st3)" "adv s st2 st3" "ready s st3" "idx_ok b st3"
          using operand_pair[OF c(3)] by metis
        have "(if failed st3 then add_op op a b st3
          else case accept s (of_char CHR '')'') st3 of
             (True, st4) \<Rightarrow> add_op op a b st4 | (False, st4) \<Rightarrow> pfail MissingParen (ps_pos st4) st4) = (i, st')"
          using p ar o(1) True c(1) okay o2(1) by (simp add: parse_arguments_def)
        from closing[OF o2(3) assms ar _ _ this] show ?thesis
          using idx_later[OF o2(2)] c(4) o(4) o2(4) adv_trans[OF adv_trans[OF o(2) c(2)] adv_trans[OF o2(2)]] by blast
      qed
    qed
  qed
qed

end

lemma name_bound: "ps_pos st \<le> length s \<Longrightarrow> ps_pos st + length (takeWhile P (drop (ps_pos st) s)) \<le> length s"
  by (rule run_bound)

lemma name_parses:
  assumes "parses s ex"
  shows "parses s (parse_name L s ex)"
proof (rule parsesI)
  fix st i st'
  assume r: "ready s st" and p: "parse_name L s ex st = (i, st')"
  let ?name = "takeWhile (isNameChar L) (drop (ps_pos st) s)"
  let ?st = "st\<lparr>ps_pos := ps_pos st + length ?name\<rparr>"
  have v: "adv s st ?st" using r name_bound[of st s "isNameChar L"] by (simp add: adv_def ready_def pwf_def)
  obtain ok st1 where a: "accept s (of_char CHR ''('') ?st = (ok, st1)" "adv s ?st st1" "ready s st1"
    using accept_pair[OF adv_ready[OF v]] by metis
  have t: "adv s st st1" using v a(2) by (rule adv_trans)
  show "adv s st st' \<and> idx_ok i st'"
  proof (cases ok)
    case False
    then have "parse_variable L ?name st1 = (i, st')" using p a(1) by (simp add: parse_name_def Let_def)
    from parsesD[OF variable_parses a(3) this] show ?thesis using adv_trans[OF t] by blast
  next
    case True
    show ?thesis
    proof (cases "calc_function ?name")
      case None
      then have "pfail (UnknownFunction ?name) (ps_pos st) st1 = (i, st')"
        using p a(1) True by (simp add: parse_name_def Let_def)
      from fail_adv[OF a(3) this] show ?thesis using adv_trans[OF t] by blast
    next
      case (Some q)
      obtain op arity where q: "q = (op, arity)" by (cases q)
      have e: "parse_arguments s ex ?name op arity st1 = (i, st')"
        using p a(1) True Some q by (simp add: parse_name_def Let_def)
      have "parses s (parse_arguments s ex ?name op arity)"
        using calc_operand.arguments_parses[OF calc_operand.intro[OF assms]] function_arity Some q by blast
      from parsesD[OF this a(3) e] show ?thesis using adv_trans[OF t] by blast
    qed
  qed
qed

context calc_operand
begin

lemma atom_parses: "parses s (parse_atom L s f)"
proof (rule parsesI)
  fix st0 i st'
  assume r0: "ready s st0" and p: "parse_atom L s f st0 = (i, st')"
  define st where "st = skipSpace s st0"
  have sk: "adv s st0 st" unfolding st_def by (rule skip_adv[OF r0])
  have r: "ready s st" by (rule adv_ready[OF sk])
  consider (out) "ps_pos st \<ge> length s"
    | (paren) "ps_pos st < length s" "s ! ps_pos st = of_char CHR ''(''"
    | (number) "ps_pos st < length s" "parse_number L s st = (i, st')"
    | (name) "ps_pos st < length s" "parse_name L s (parse_expr s f) st = (i, st')"
    | (bad) "ps_pos st < length s" "pfail (Unexpected (s ! ps_pos st)) (ps_pos st) st = (i, st')"
    using p unfolding parse_atom_def Let_def st_def[symmetric] by (simp only: not_le[symmetric] split: if_splits) blast+
  then have "adv s st st' \<and> idx_ok i st'"
  proof cases
    case out
    then have "pfail UnexpectedEnd (ps_pos st) st = (i, st')" using p by (simp add: parse_atom_def Let_def st_def)
    from fail_adv[OF r this] show ?thesis by simp
  next
    case paren
    let ?st = "st\<lparr>ps_pos := ps_pos st + 1\<rparr>"
    have v: "adv s st ?st" using r paren(1) by (simp add: adv_def ready_def pwf_def)
    obtain j st1 where e: "parse_expr s f ?st = (j, st1)" by fastforce
    from parsesD[OF expr_parses adv_ready[OF v] e] have e1: "adv s ?st st1" "idx_ok j st1" by auto
    have t: "adv s st st1" using v e1(1) by (rule adv_trans)
    show ?thesis
    proof (cases "failed st1")
      case True
      then show ?thesis using p paren e e1 t by (simp add: parse_atom_def Let_def st_def)
    next
      case False
      obtain ok st2 where a: "accept s (of_char CHR '')'') st1 = (ok, st2)" "adv s st1 st2" "ready s st2"
        "\<And>i. idx_ok i st2 = idx_ok i st1"
        using accept_pair[OF adv_ready[OF t]] by metis
      show ?thesis
      proof (cases ok)
        case True
        then show ?thesis
          using p paren e e1 a False adv_trans[OF t a(2)] by (simp add: parse_atom_def Let_def st_def)
      next
        case nok: False
        then have "pfail MissingParen (ps_pos st2) st2 = (i, st')"
          using p paren e a(1) False by (simp add: parse_atom_def Let_def st_def)
        from fail_adv[OF a(3) this] show ?thesis using adv_trans[OF adv_trans[OF t a(2)]] by blast
      qed
    qed
  next
    case number
    from parsesD[OF number_parses r number(2)] show ?thesis by simp
  next
    case name
    from parsesD[OF name_parses[OF expr_parses] r name(2)] show ?thesis by simp
  next
    case bad
    from fail_adv[OF r bad(2)] show ?thesis by simp
  qed
  then show "adv s st0 st' \<and> idx_ok i st'" using adv_trans[OF sk] by blast
qed

lemma power_parses: "parses s (parse_power L s f)"
proof (rule parsesI)
  fix st i st'
  assume r: "ready s st" and p: "parse_power L s f st = (i, st')"
  obtain base st1 where e: "parse_atom L s f st = (base, st1)" by fastforce
  from parsesD[OF atom_parses r e] have e1: "adv s st st1" "idx_ok base st1" by auto
  show "adv s st st' \<and> idx_ok i st'"
  proof (cases "failed st1")
    case True
    then show ?thesis using p e e1 by (simp add: parse_power_def)
  next
    case False
    obtain ok st2 where a: "accept s (of_char CHR ''^'') st1 = (ok, st2)" "adv s st1 st2" "ready s st2" "idx_ok base st2"
      using accept_pair[OF adv_ready[OF e1(1)]] e1(2) by metis
    show ?thesis
    proof (cases ok)
      case True
      have ne: "OPow \<noteq> OVar" by simp
      obtain r2 st3 k st4 where o: "f st2 = (r2, st3)" "add_op OPow base r2 st3 = (k, st4)" "adv s st2 st4" "idx_ok k st4"
        using operator_step[OF a(3,4) ne] by metis
      then show ?thesis
        using p e False a(1) True adv_trans[OF adv_trans[OF e1(1) a(2)] o(3)] by (simp add: parse_power_def)
    next
      case nok: False
      then show ?thesis using p e False a adv_trans[OF e1(1) a(2)] by (simp add: parse_power_def)
    qed
  qed
qed

end

lemma unary_parses: "parses s (parse_unary L s d)"
proof (induction d)
  case 0
  show ?case by (rule parsesI) (use fail_adv in \<open>auto\<close>)
next
  case (Suc d)
  then have lower: "calc_operand s (parse_unary L s d)" by (rule calc_operand.intro)
  show ?case
  proof (rule parsesI)
    fix st i st'
    assume r: "ready s st" and p: "parse_unary L s (Suc d) st = (i, st')"
    obtain ok st1 where a: "accept s (of_char CHR ''-'') st = (ok, st1)" "adv s st st1" "ready s st1"
      using accept_pair[OF r] by metis
    show "adv s st st' \<and> idx_ok i st'"
    proof (cases ok)
      case True
      obtain x st2 where e: "parse_unary L s d st1 = (x, st2)" by fastforce
      from parsesD[OF Suc a(3) e] have e1: "adv s st1 st2" "idx_ok x st2" by auto
      have "add_op ONeg x (- 1) st2 = (i, st')" using p a(1) True e by simp
      then have "adv s st2 st' \<and> idx_ok i st'"
        using op_adv[OF _ adv_ready[OF e1(1)] disjI1[OF e1(2)], of ONeg "- 1"] by (simp add: unary_ops_def)
      then show ?thesis using adv_trans[OF adv_trans[OF a(2) e1(1)]] by blast
    next
      case False
      obtain ok2 st2 where a2: "accept s (of_char CHR ''+'') st1 = (ok2, st2)" "adv s st1 st2" "ready s st2"
        using accept_pair[OF a(3)] by metis
      have "parse_power L s (parse_unary L s d) st2 = (i, st')" using p a(1) False a2(1) by simp
      from parsesD[OF calc_operand.power_parses[OF lower] a2(3) this]
      show ?thesis using adv_trans[OF adv_trans[OF a(2) a2(2)]] by blast
    qed
  qed
qed

interpretation un: calc_operand s "parse_unary L s d" for s L d
  by unfold_locales (rule unary_parses)

subsection \<open>What parses is evaluated to the end\<close>

lemma parse_wellformed:
  assumes "calc_parse L src = Inr e"
  shows "nodes_ok (length (ce_vars e)) (ce_nodes e) \<and> 0 \<le> ce_root e \<and> ce_root e < int (length (ce_nodes e))"
proof -
  let ?s = "q_trim src"
  obtain i st0 where p: "parse_expr ?s (parse_unary L ?s kMaxDepth) parser0 = (i, st0)" by fastforce
  have "ready ?s parser0" by (simp add: ready_def parser0_def pwf_def nodes_ok_def)
  from parsesD[OF un.expr_parses this p] have a: "adv ?s parser0 st0" "idx_ok i st0" by auto
  have sk: "ps_err (skipSpace ?s st0) = ps_err st0" "ps_nodes (skipSpace ?s st0) = ps_nodes st0"
    "ps_vars (skipSpace ?s st0) = ps_vars st0" by (simp_all add: skipSpace_def)
  have "ps_err st0 = None" "ce_nodes e = ps_nodes st0" "ce_vars e = ps_vars st0" "ce_root e = i"
    using assms p sk by (auto simp: calc_parse_def Let_def split: if_splits option.splits)
  then show ?thesis using a by (simp add: adv_def pwf_def idx_ok_def)
qed

lemma eval_node_returns:
  assumes ok: "nodes_ok (length (ce_vars e)) (ce_nodes e)" and i: "0 \<le> i" "i < int (length (ce_nodes e))"
  shows "eval_node L draw vals e i \<noteq> None"
  using i
proof (induction "nat i" arbitrary: i rule: less_induct)
  case less
  let ?n = "node_at_index e i"
  have n: "node_ok (length (ce_vars e)) (nat i) ?n"
    using ok less.prems by (auto simp: nodes_ok_def node_at_index_def nat_less_iff)
  have sub: "eval_node L draw vals e j \<noteq> None" if "0 \<le> j" "j < int (nat i)" for j
    using less.hyps[of j] less.prems that by (simp add: nat_less_iff)
  have a: "eval_node L draw vals e (nd_a ?n) \<noteq> None" if "nd_op ?n \<notin> {ONum, OVar, ORand}"
    using n that by (intro sub) (simp_all add: node_ok_def)
  have b: "eval_node L draw vals e (nd_b ?n) \<noteq> None" if "nd_op ?n \<notin> {ONum, OVar, ORand} \<union> set unary_ops"
    using n that by (intro sub) (simp_all add: node_ok_def)
  have v: "var_value vals e (nd_name ?n) \<noteq> None" if "nd_op ?n = OVar"
    using n that by (simp add: node_ok_def var_value_def)
  show ?case
    using a b v less.prems by (subst eval_node.simps) (auto simp: Option.bind_eq_None_conv)
qed

text \<open>
  C12: An expression that parses is always evaluated to the end, whatever the variables and the generator give: no
  node refers to itself or to a later one, and no operand or variable index lies outside of its list.
\<close>

theorem calc_eval_returns:
  assumes "calc_parse L src = Inr e"
  shows "\<exists>v. calc_eval L draw vals e = Some v"
proof -
  have "eval_node L draw vals e (ce_root e) \<noteq> None"
    using parse_wellformed[OF assms] by (intro eval_node_returns) auto
  then show ?thesis by (auto simp: calc_eval_def)
qed

subsection \<open>Long sums are deep trees\<close>

text \<open>\<open>evalNode\<close> on node \<open>i\<close> nests at least so many calls of itself.\<close>

inductive nests :: "calc_node list \<Rightarrow> int \<Rightarrow> nat \<Rightarrow> bool" for ns where
  one: "0 \<le> i \<Longrightarrow> i < int (length ns) \<Longrightarrow> nests ns i 1"
| more: "0 \<le> i \<Longrightarrow> i < int (length ns) \<Longrightarrow> nd_op (ns ! nat i) \<notin> {ONum, OVar, ORand} \<Longrightarrow>
    nests ns (nd_a (ns ! nat i)) k \<Longrightarrow> nests ns i (Suc k)"

lemma nests_append: "nests ns i k \<Longrightarrow> nests (ns @ ms) i k"
proof (induction rule: nests.induct)
  case (one i)
  then show ?case by (intro nests.one) auto
next
  case (more i k)
  then have "(ns @ ms) ! nat i = ns ! nat i" by (simp add: nth_append nat_less_iff)
  with more show ?case by (intro nests.more) auto
qed

text \<open>\<open>a+a+...+a\<close> with so many signs.\<close>

definition long_sum :: "nat \<Rightarrow> qstring" where
  "long_sum n = map (\<lambda>k. if even k then 97 else 43) [0..<2 * n + 1]"

lemma long_sum_facts:
  "length (long_sum n) = 2 * n + 1" "k \<le> n \<Longrightarrow> long_sum n ! (2 * k) = 97"
  "k < n \<Longrightarrow> long_sum n ! (2 * k + 1) = 43" "q_trim (long_sum n) = long_sum n"
proof -
  show "q_trim (long_sum n) = long_sum n" by (rule q_trim_nospace) (auto simp: long_sum_def q_space_def)
qed (simp_all add: long_sum_def del: upt_Suc)

definition plain_letters :: "calc_lib \<Rightarrow> bool" where
  "plain_letters L \<longleftrightarrow> cl_letter L 97 \<and> cl_alnum L 97 \<and> \<not> cl_digit L 97 \<and> \<not> cl_alnum L 43"

lemma skip_none: "ps_pos st \<ge> length s \<or> \<not> q_space (s ! ps_pos st) \<Longrightarrow> skipSpace s st = st"
  by (cases "drop (ps_pos st) s") (auto simp: skipSpace_def nth_via_drop)

lemma accept_no:
  "ps_pos st \<ge> length s \<or> (\<not> q_space (s ! ps_pos st) \<and> s ! ps_pos st \<noteq> c) \<Longrightarrow> accept s c st = (False, st)"
  by (auto simp: accept_def peek_def Let_def skip_none)

lemma accept_yes:
  "ps_pos st < length s \<Longrightarrow> s ! ps_pos st = c \<Longrightarrow> \<not> q_space c \<Longrightarrow> accept s c st = (True, st\<lparr>ps_pos := ps_pos st + 1\<rparr>)"
  by (simp add: accept_def peek_def Let_def skip_none)

definition var_node :: calc_node where
  "var_node = \<lparr>nd_op = OVar, nd_value = d_zero, nd_name = 0, nd_a = - 1, nd_b = - 1\<rparr>"

lemma sum_operand:
  assumes L: "plain_letters L" and k: "k \<le> n" "ps_pos st = 2 * k" and v: "ps_vars st = [] \<or> ps_vars st = [[97]]"
    and f: "ps_err st = None"
  shows "parse_term (long_sum n) (parse_unary L (long_sum n) (Suc d)) st =
    (int (length (ps_nodes st)), st\<lparr>ps_pos := 2 * k + 1, ps_vars := [[97]], ps_nodes := ps_nodes st @ [var_node]\<rparr>)"
proof -
  let ?s = "long_sum n"
  let ?t = "st\<lparr>ps_pos := 2 * k + 1, ps_vars := [[97]], ps_nodes := ps_nodes st @ [var_node]\<rparr>"
  have c: "2 * k < length ?s" "?s ! (2 * k) = 97" using k long_sum_facts by auto
  have nxt: "2 * k + 1 \<ge> length ?s \<or> (2 * k + 1 < length ?s \<and> ?s ! (2 * k + 1) = 43)"
    using long_sum_facts(1)[of n] long_sum_facts(3)[of k n] by (cases "k < n") auto
  have name: "takeWhile (isNameChar L) (drop (2 * k) ?s) = [97]"
  proof -
    have "drop (2 * k) ?s = 97 # drop (2 * k + 1) ?s" using c by (metis Cons_nth_drop_Suc Suc_eq_plus1)
    moreover have "takeWhile (isNameChar L) (drop (2 * k + 1) ?s) = []"
      using nxt L by (cases "drop (2 * k + 1) ?s") (auto simp: nth_via_drop isNameChar_def plain_letters_def)
    ultimately show ?thesis using L by (simp add: isNameChar_def plain_letters_def)
  qed
  have no: "accept ?s c t = (False, t)" if "ps_pos t = 2 * k + 1" "c \<noteq> 43" for c t
    using nxt that by (intro accept_no) (auto simp: q_space_def)
  have no0: "accept ?s c st = (False, st)" if "c \<noteq> 97" for c
    using c k(2) that by (intro accept_no) (simp add: q_space_def)
  have "parse_variable L [97] (st\<lparr>ps_pos := 2 * k + 1\<rparr>) = (int (length (ps_nodes st)), ?t)"
    using v by (auto simp: parse_variable_def add_node_def var_node_def Let_def)
  then have nm: "parse_name L ?s ex st = (int (length (ps_nodes st)), ?t)" for ex
    using k(2) name by (simp add: parse_name_def Let_def no)
  have sk: "skipSpace ?s st = st" using c k(2) by (intro skip_none) (simp add: q_space_def)
  have "parse_atom L ?s un st = (int (length (ps_nodes st)), ?t)" for un
    using c k(2) L nm by (simp add: parse_atom_def Let_def sk isNameStart_def plain_letters_def)
  then have "parse_power L ?s un st = (int (length (ps_nodes st)), ?t)" for un
    using f by (simp add: parse_power_def no)
  then have "parse_unary L ?s (Suc d) st = (int (length (ps_nodes st)), ?t)" by (simp add: no0)
  then show ?thesis using f by (simp add: parse_term_def binop_def no)
qed

lemma sum_loop:
  assumes L: "plain_letters L"
  shows "k \<le> n \<Longrightarrow> ps_pos st = 2 * k + 1 \<Longrightarrow> ps_vars st = [[97]] \<Longrightarrow> ps_err st = None \<Longrightarrow>
    nests (ps_nodes st) left (Suc k) \<Longrightarrow> n - k < m \<Longrightarrow>
    \<exists>i st'. binop_loop (long_sum n) (parse_term (long_sum n) (parse_unary L (long_sum n) (Suc d)))
        (of_char CHR ''+'', OAdd) (of_char CHR ''-'', OSub) m left st = (i, st') \<and>
      ps_pos st' = 2 * n + 1 \<and> ps_err st' = None \<and> nests (ps_nodes st') i (Suc n)"
proof (induction m arbitrary: k left st)
  case 0
  then show ?case by simp
next
  case (Suc m)
  let ?s = "long_sum n"
  show ?case
  proof (cases "k < n")
    case False
    then have "accept ?s c st = (False, st)" for c
      using Suc.prems(1,2) long_sum_facts(1)[of n] by (intro accept_no) auto
    then show ?thesis using Suc.prems False by simp
  next
    case True
    let ?st = "st\<lparr>ps_pos := 2 * Suc k\<rparr>"
    have a: "accept ?s (of_char CHR ''+'') st = (True, ?st)"
      using True Suc.prems(2) long_sum_facts(1)[of n] long_sum_facts(3)[OF True]
      by (subst accept_yes) (simp_all add: q_space_def)
    let ?t = "?st\<lparr>ps_pos := 2 * Suc k + 1, ps_vars := [[97]], ps_nodes := ps_nodes st @ [var_node]\<rparr>"
    have o: "parse_term ?s (parse_unary L ?s (Suc d)) ?st = (int (length (ps_nodes st)), ?t)"
      using sum_operand[OF L, of "Suc k" n ?st d] True Suc.prems(3,4) by simp
    let ?sum = "\<lparr>nd_op = OAdd, nd_value = d_zero, nd_name = - 1, nd_a = left, nd_b = int (length (ps_nodes st))\<rparr>"
    let ?u = "?t\<lparr>ps_nodes := ps_nodes st @ [var_node] @ [?sum]\<rparr>"
    have add: "add_op OAdd left (int (length (ps_nodes st))) ?t = (int (length (ps_nodes st) + 1), ?u)"
      by (simp add: add_node_def)
    have "nests (ps_nodes st @ [var_node] @ [?sum]) left (Suc k)" by (rule nests_append[OF Suc.prems(5)])
    then have "nests (ps_nodes st @ [var_node] @ [?sum]) (int (length (ps_nodes st) + 1)) (Suc (Suc k))"
    proof -
      assume left: "nests (ps_nodes st @ [var_node] @ [?sum]) left (Suc k)"
      have ix: "(ps_nodes st @ [var_node] @ [?sum]) ! nat (int (length (ps_nodes st) + 1)) = ?sum"
        by (simp add: nth_append nat_add_distrib)
      show ?thesis by (rule nests.more; (unfold ix)?; use left in simp)
    qed
    then have "\<exists>i st'. binop_loop ?s (parse_term ?s (parse_unary L ?s (Suc d))) (of_char CHR ''+'', OAdd)
        (of_char CHR ''-'', OSub) m (int (length (ps_nodes st) + 1)) ?u = (i, st') \<and>
      ps_pos st' = 2 * n + 1 \<and> ps_err st' = None \<and> nests (ps_nodes st') i (Suc n)"
      using True Suc.prems(4,6) by (intro Suc.IH[of "Suc k"]) simp_all
    then show ?thesis using Suc.prems(4) a o add by (simp del: parse_unary.simps)
  qed
qed

text \<open>
  The bound on the nesting of the source does not bound the depth of the evaluation: a sum of single names,
  which nests nothing, parses to a tree on which the evaluator nests as many calls as there are terms.
\<close>

theorem calc_eval_depth_unbounded:
  assumes "plain_letters L"
  shows "\<exists>e. calc_parse L (long_sum n) = Inr e \<and> nests (ce_nodes e) (ce_root e) (Suc n)"
proof -
  let ?s = "long_sum n"
  let ?t = "parser0\<lparr>ps_pos := 1, ps_vars := [[97]], ps_nodes := [var_node]\<rparr>"
  have d: "kMaxDepth = Suc 199" by (simp add: kMaxDepth_def)
  have o: "parse_term ?s (parse_unary L ?s kMaxDepth) parser0 = (0, ?t)"
    using sum_operand[OF assms, of 0 n parser0 199] by (simp add: parser0_def d)
  have "nests [var_node] 0 (Suc 0)" using nests.one[of 0 "[var_node]"] by simp
  then have "\<exists>i st'. binop_loop ?s (parse_term ?s (parse_unary L ?s kMaxDepth)) (of_char CHR ''+'', OAdd)
        (of_char CHR ''-'', OSub) (Suc (length ?s)) 0 ?t = (i, st') \<and>
      ps_pos st' = 2 * n + 1 \<and> ps_err st' = None \<and> nests (ps_nodes st') i (Suc n)"
    unfolding d by (intro sum_loop[OF assms, of 0]) (simp_all add: parser0_def long_sum_facts)
  then obtain i st' where e: "parse_expr ?s (parse_unary L ?s kMaxDepth) parser0 = (i, st')"
    "ps_pos st' = 2 * n + 1" "ps_err st' = None" "nests (ps_nodes st') i (Suc n)"
    using o by (auto simp: parse_expr_def binop_def simp del: binop_loop.simps parse_unary.simps)
  have "skipSpace ?s st' = st'" using e(2) long_sum_facts(1)[of n] by (intro skip_none) simp
  then have "calc_parse L ?s = Inr \<lparr>ce_nodes = ps_nodes st', ce_vars = ps_vars st', ce_text = ?s, ce_root = i\<rparr>"
    using e(1-3) long_sum_facts(1,4)[of n] by (auto simp: calc_parse_def Let_def)
  then show ?thesis using e(4) by auto
qed

subsection \<open>Witnesses\<close>

definition calc_plain :: calc_lib where
  "calc_plain = \<lparr>cl_letter = q_letter, cl_digit = q_digit, cl_alnum = (\<lambda>c. q_letter c \<or> q_digit c),
     cl_to_double = (\<lambda>s. Some (DFin False (of_nat (digits_val s)))), cl_pi = DFin False 3, cl_pow = (\<lambda>x y. x),
     cl_sqrt = id, cl_log10 = id, cl_sin = id, cl_cos = id, cl_exp = id\<rparr>"

lemma calc_plain_parses: "\<exists>e. calc_parse calc_plain (lit ''a'') = Inr e"
  by (rule exI[of _ "\<lparr>ce_nodes = [var_node], ce_vars = [lit ''a''], ce_text = lit ''a'', ce_root = 0\<rparr>"]) code_simp

theorem calc_eval_returns_witness:
  "\<exists>e v. calc_parse calc_plain (lit ''a'') = Inr e \<and>
     calc_eval calc_plain (\<lambda>i. d_zero) (\<lambda>x. Some (DFin False 5)) e = Some v"
proof -
  obtain e where e: "calc_parse calc_plain (lit ''a'') = Inr e" using calc_plain_parses by blast
  from calc_eval_returns[OF e] e show ?thesis by blast
qed

theorem calc_eval_depth_unbounded_witness:
  "\<exists>e. calc_parse calc_plain (long_sum 100000) = Inr e \<and> nests (ce_nodes e) (ce_root e) 100001"
  using calc_eval_depth_unbounded[of calc_plain 100000]
  by (simp add: plain_letters_def calc_plain_def q_class_defs)

end
