(* ===== verification/Alarms.thy ===== *)
theory Alarms
  imports Value_Ref
begin

text \<open>
  \<open>src/src/core/alarm.h\<close> and \<open>alarm.cpp\<close>: the alarms of a meter, their conditions, and the manager that runs
  them against the readings.

  \<open>alarm_mgr\<close> is the state of \<open>AlarmManager\<close>; the signals \<open>raised\<close> and \<open>cleared\<close> are appended to \<open>am_log\<close>. Times are
  milliseconds, as the calls bring them.
\<close>

subsection \<open>An alarm\<close>

datatype alarm_condition = Below | Above | Outside | Inside | Overload | NoReadings
datatype recorder_action = RecorderNone | RecorderStart | RecorderStop
datatype alarm_repeat = Once | WhileRaised | Times

text \<open>\<open>QColor\<close>: red, green and blue, or no valid colour.\<close>

datatype qcolor = Invalid_Color | Rgb byte byte byte

record alarm =
  al_name :: qstring
  al_enabled :: bool
  al_value :: value_ref
  al_condition :: alarm_condition
  al_a :: dbl
  al_b :: dbl
  al_seconds :: dbl
  al_hysteresis :: dbl
  al_message :: qstring
  al_color :: qcolor
  al_banner :: bool
  al_tintDisplay :: bool
  al_sound :: qstring
  al_repeat :: alarm_repeat
  al_repeatCount :: int
  al_clearSound :: bool
  al_popup :: bool
  al_raiseWindow :: bool
  al_command :: qstring
  al_disconnect :: bool
  al_recorder :: recorder_action
  al_markGraph :: bool
  al_markTable :: bool

definition alarm0 :: alarm where
  "alarm0 = \<lparr>al_name = [], al_enabled = True, al_value = vref0, al_condition = Below, al_a = d_zero,
     al_b = d_zero, al_seconds = d_zero, al_hysteresis = d_zero, al_message = [],
     al_color = Rgb 0xd8 0x22 0x22, al_banner = True, al_tintDisplay = True, al_sound = lit ''beep'',
     al_repeat = Once, al_repeatCount = 3, al_clearSound = False, al_popup = False, al_raiseWindow = False,
     al_command = [], al_disconnect = False, al_recorder = RecorderNone, al_markGraph = True,
     al_markTable = True\<rparr>"

subsection \<open>Conditions\<close>

definition alarm_matches :: "alarm \<Rightarrow> dbl \<Rightarrow> bool \<Rightarrow> bool" where
  "alarm_matches al value overload =
     (let lo = d_qmin (al_a al) (al_b al); hi = d_qmax (al_a al) (al_b al) in
      case al_condition al of
        Overload \<Rightarrow> overload
      | NoReadings \<Rightarrow> False
      | Below \<Rightarrow> \<not> overload \<and> d_lt value (al_a al)
      | Above \<Rightarrow> \<not> overload \<and> d_lt (al_a al) value
      | Outside \<Rightarrow> \<not> overload \<and> (d_lt value lo \<or> d_lt hi value)
      | Inside \<Rightarrow> \<not> overload \<and> d_le lo value \<and> d_le value hi)"

definition alarm_released :: "alarm \<Rightarrow> dbl \<Rightarrow> bool \<Rightarrow> bool" where
  "alarm_released al value overload =
     (let lo = d_qmin (al_a al) (al_b al); hi = d_qmax (al_a al) (al_b al); h = d_abs (al_hysteresis al) in
      case al_condition al of
        Overload \<Rightarrow> \<not> overload
      | NoReadings \<Rightarrow> True
      | Below \<Rightarrow> \<not> overload \<and> d_le (d_add (al_a al) h) value
      | Above \<Rightarrow> \<not> overload \<and> d_le value (d_sub (al_a al) h)
      | Outside \<Rightarrow> \<not> overload \<and> d_le (d_add lo h) value \<and> d_le value (d_sub hi h)
      | Inside \<Rightarrow> \<not> overload \<and> (d_lt value (d_sub lo h) \<or> d_lt (d_add hi h) value))"

subsection \<open>JSON\<close>

fun conditionKey :: "alarm_condition \<Rightarrow> string" where
  "conditionKey Below = ''below''" | "conditionKey Above = ''above''" | "conditionKey Outside = ''outside''"
| "conditionKey Inside = ''inside''" | "conditionKey Overload = ''overload''"
| "conditionKey NoReadings = ''no-readings''"

definition conditionFromKey :: "qstring \<Rightarrow> alarm_condition" where
  "conditionFromKey k =
     (if k = lit ''above'' then Above else if k = lit ''outside'' then Outside
      else if k = lit ''inside'' then Inside else if k = lit ''overload'' then Overload
      else if k = lit ''no-readings'' then NoReadings else Below)"

text \<open>\<open>color_name\<close> and \<open>color_of\<close> stand for \<open>QColor::name()\<close> and the constructor of \<open>QColor\<close> from a name.\<close>

definition alarm_to_json :: "(qcolor \<Rightarrow> qstring) \<Rightarrow> alarm \<Rightarrow> jobj" where
  "alarm_to_json color_name al =
     (let o1 = jobj0(''name'' := JStr (al_name al), ''enabled'' := JBool (al_enabled al));
          o2 = (if al_value al \<noteq> vref0 then o1(''value'' := vref_to_json (al_value al)) else o1)
      in o2(''condition'' := JStr (lit (conditionKey (al_condition al))),
            ''a'' := JNum (al_a al), ''b'' := JNum (al_b al), ''seconds'' := JNum (al_seconds al),
            ''hysteresis'' := JNum (al_hysteresis al), ''message'' := JStr (al_message al),
            ''color'' := JStr (color_name (al_color al)), ''banner'' := JBool (al_banner al),
            ''tint-display'' := JBool (al_tintDisplay al), ''sound'' := JStr (al_sound al),
            ''repeat'' := JStr (lit (case al_repeat al of WhileRaised \<Rightarrow> ''while-raised'' | Times \<Rightarrow> ''times'' | Once \<Rightarrow> ''once'')),
            ''repeat-count'' := j_of_int (al_repeatCount al), ''clear-sound'' := JBool (al_clearSound al),
            ''popup'' := JBool (al_popup al), ''raise-window'' := JBool (al_raiseWindow al),
            ''command'' := JStr (al_command al), ''disconnect'' := JBool (al_disconnect al),
            ''recorder'' := JStr (lit (case al_recorder al of RecorderStart \<Rightarrow> ''start'' | RecorderStop \<Rightarrow> ''stop'' | RecorderNone \<Rightarrow> ''none'')),
            ''mark-graph'' := JBool (al_markGraph al), ''mark-table'' := JBool (al_markTable al)))"

definition alarm_from_json :: "(qcolor \<Rightarrow> qstring) \<Rightarrow> (qstring \<Rightarrow> qcolor) \<Rightarrow> jobj \<Rightarrow> alarm" where
  "alarm_from_json color_name color_of o' =
     (let rep = j_str [] (o' ''repeat''); rec = j_str [] (o' ''recorder'') in
      \<lparr>al_name = j_str [] (o' ''name''), al_enabled = j_bool True (o' ''enabled''),
       al_value = vref_from_json (o' ''value''), al_condition = conditionFromKey (j_str [] (o' ''condition'')),
       al_a = j_num d_zero (o' ''a''), al_b = j_num d_zero (o' ''b''), al_seconds = j_num d_zero (o' ''seconds''),
       al_hysteresis = j_num d_zero (o' ''hysteresis''), al_message = j_str [] (o' ''message''),
       al_color = color_of (j_str (color_name (al_color alarm0)) (o' ''color'')),
       al_banner = j_bool True (o' ''banner''), al_tintDisplay = j_bool True (o' ''tint-display''),
       al_sound = (if o' ''sound'' \<noteq> JUndefined then j_str [] (o' ''sound'')
                   else if j_bool True (o' ''beep'') then lit ''beep'' else []),
       al_repeat = (if rep = lit ''while-raised'' then WhileRaised else if rep = lit ''times'' then Times else Once),
       al_repeatCount = max 1 (j_int 3 (o' ''repeat-count'')), al_clearSound = j_bool False (o' ''clear-sound''),
       al_popup = j_bool False (o' ''popup''), al_raiseWindow = j_bool False (o' ''raise-window''),
       al_command = j_str [] (o' ''command''), al_disconnect = j_bool False (o' ''disconnect''),
       al_recorder = (if rec = lit ''start'' then RecorderStart else if rec = lit ''stop'' then RecorderStop else RecorderNone),
       al_markGraph = j_bool True (o' ''mark-graph''), al_markTable = j_bool True (o' ''mark-table'')\<rparr>)"

text \<open>
  The lists. \<open>parse\<close> gives the objects of the array a text holds (none for anything else), \<open>print\<close> the text of
  an array of objects.
\<close>

definition listFromJson ::
    "(qcolor \<Rightarrow> qstring) \<Rightarrow> (qstring \<Rightarrow> qcolor) \<Rightarrow> (qstring \<Rightarrow> jobj list) \<Rightarrow> qstring \<Rightarrow> alarm list" where
  "listFromJson color_name color_of parse json = map (alarm_from_json color_name color_of) (parse json)"

definition listToJson :: "(qcolor \<Rightarrow> qstring) \<Rightarrow> (jobj list \<Rightarrow> qstring) \<Rightarrow> alarm list \<Rightarrow> qstring" where
  "listToJson color_name print als = print (map (alarm_to_json color_name) als)"

definition listWithoutPrograms ::
    "(qcolor \<Rightarrow> qstring) \<Rightarrow> (qstring \<Rightarrow> qcolor) \<Rightarrow> (qstring \<Rightarrow> jobj list) \<Rightarrow> (jobj list \<Rightarrow> qstring)
      \<Rightarrow> qstring \<Rightarrow> qstring \<times> bool" where
  "listWithoutPrograms color_name color_of parse print json =
     (if json = [] then (json, False)
      else let als = listFromJson color_name color_of parse json
           in (listToJson color_name print (map (\<lambda>a. a\<lparr>al_command := [], al_disconnect := False\<rparr>) als),
               list_ex (\<lambda>a. q_trim (al_command a) \<noteq> []) als))"

subsection \<open>The manager\<close>

datatype alarm_state = Off | Pending | Raised | Acknowledged

datatype alarm_event = Raised_Event nat alarm dbl | Cleared_Event nat alarm

record alarm_mgr =
  am_alarms :: "alarm list"
  am_state :: "alarm_state list"
  am_since :: "int list"
  am_lastReading :: int
  am_silenceFrom :: int
  am_lastValue :: dbl
  am_lastOverload :: bool
  am_raiseOrder :: "qstring list"
  am_log :: "alarm_event list"

definition alarm_mgr0 :: alarm_mgr where
  "alarm_mgr0 = \<lparr>am_alarms = [], am_state = [], am_since = [], am_lastReading = - 1, am_silenceFrom = - 1,
     am_lastValue = d_zero, am_lastOverload = False, am_raiseOrder = [], am_log = []\<rparr>"

definition am_st :: "nat \<Rightarrow> alarm_mgr \<Rightarrow> alarm_state" where
  "am_st i m = (if i < length (am_state m) then am_state m ! i else Off)"

definition am_set :: "nat \<Rightarrow> alarm_state \<Rightarrow> alarm_mgr \<Rightarrow> alarm_mgr" where
  "am_set i s m = m\<lparr>am_state := (am_state m)[i := s]\<rparr>"

definition am_set_since :: "nat \<Rightarrow> int \<Rightarrow> alarm_mgr \<Rightarrow> alarm_mgr" where
  "am_set_since i t m = m\<lparr>am_since := (am_since m)[i := t]\<rparr>"

text \<open>Emitting \<open>raised\<close>: the slot connected in the constructor notes the order first.\<close>

definition am_raise :: "nat \<Rightarrow> alarm \<Rightarrow> dbl \<Rightarrow> alarm_mgr \<Rightarrow> alarm_mgr" where
  "am_raise i al value m =
     m\<lparr>am_raiseOrder := filter (\<lambda>n. n \<noteq> al_name al) (am_raiseOrder m) @ [al_name al],
       am_log := am_log m @ [Raised_Event i al value]\<rparr>"

definition am_clear :: "nat \<Rightarrow> alarm \<Rightarrow> alarm_mgr \<Rightarrow> alarm_mgr" where
  "am_clear i al m = m\<lparr>am_log := am_log m @ [Cleared_Event i al]\<rparr>"

text \<open>\<open>qint64(al.seconds * 1000.0)\<close>\<close>

definition al_millis :: "alarm \<Rightarrow> int" where
  "al_millis al = d_to_i64 (d_mul (al_seconds al) (dlit 1000))"

text \<open>The state an alarm carries over an edit: that of the last alarm of the same name.\<close>

definition am_carried :: "alarm_mgr \<Rightarrow> alarm \<Rightarrow> alarm_state \<times> int" where
  "am_carried m al =
     fold (\<lambda>i st. if al_name (am_alarms m ! i) = al_name al \<and> al_enabled al
                  then (am_state m ! i, am_since m ! i) else st)
       [0..<length (am_alarms m)] (Off, 0)"

definition setAlarms :: "alarm list \<Rightarrow> alarm_mgr \<Rightarrow> alarm_mgr" where
  "setAlarms als m =
     m\<lparr>am_alarms := als, am_state := map (\<lambda>al. fst (am_carried m al)) als,
       am_since := map (\<lambda>al. snd (am_carried m al)) als\<rparr>"

definition anyRaised :: "alarm_mgr \<Rightarrow> bool" where
  "anyRaised m = list_ex (\<lambda>s. s = Raised) (am_state m)"

definition displayColor :: "alarm_mgr \<Rightarrow> qcolor" where
  "displayColor m =
     (let hits = concat (map (\<lambda>n. filter (\<lambda>i. al_name (am_alarms m ! i) = n \<and> al_tintDisplay (am_alarms m ! i) \<and>
                     (am_st i m = Raised \<or> am_st i m = Acknowledged)) [0..<length (am_alarms m)])
                   (rev (am_raiseOrder m)))
      in case hits of [] \<Rightarrow> Invalid_Color | i # is \<Rightarrow> al_color (am_alarms m ! i))"

definition am_evaluate :: "nat \<Rightarrow> bool \<Rightarrow> bool \<Rightarrow> dbl \<Rightarrow> int \<Rightarrow> alarm_mgr \<Rightarrow> alarm_mgr" where
  "am_evaluate i matches releasedNow value nowMs m =
     (let al = am_alarms m ! i; s = am_st i m in
      if \<not> al_enabled al then (if s \<noteq> Off then am_clear i al (am_set i Off m) else m)
      else case s of
        Off \<Rightarrow>
          if matches then
            (let m = am_set i Pending (am_set_since i nowMs m)
             in if d_le (al_seconds al) d_zero then am_raise i al value (am_set i Raised m) else m)
          else m
      | Pending \<Rightarrow>
          if \<not> matches then am_set i Off m
          else if nowMs - am_since m ! i \<ge> al_millis al then am_raise i al value (am_set i Raised m)
          else m
      | _ \<Rightarrow> if releasedNow then am_clear i al (am_set i Off m) else m)"

definition am_feed_at :: "dbl \<Rightarrow> bool \<Rightarrow> int \<Rightarrow> int \<Rightarrow> qstring \<Rightarrow> nat \<Rightarrow> alarm_mgr \<Rightarrow> alarm_mgr" where
  "am_feed_at value overload nowMs valueId source i m =
     (let al = am_alarms m ! i in
      if al_condition al = NoReadings then
        (if valueId \<noteq> 0 then m
         else am_set_since i nowMs (if am_st i m \<noteq> Off then am_clear i al (am_set i Off m) else m))
      else if \<not> vref_matches (al_value al) valueId source then m
      else am_evaluate i (alarm_matches al value overload) (alarm_released al value overload) value nowMs m)"

definition am_feed :: "dbl \<Rightarrow> bool \<Rightarrow> int \<Rightarrow> int \<Rightarrow> qstring \<Rightarrow> alarm_mgr \<Rightarrow> alarm_mgr" where
  "am_feed value overload nowMs valueId source m =
     (let m = (if valueId = 0
               then m\<lparr>am_lastReading := nowMs, am_lastValue := value, am_lastOverload := overload\<rparr> else m)
      in fold (am_feed_at value overload nowMs valueId source) [0..<length (am_alarms m)] m)"

definition am_disconnect_at :: "nat \<Rightarrow> alarm_mgr \<Rightarrow> alarm_mgr" where
  "am_disconnect_at i m =
     (let al = am_alarms m ! i; s = am_st i m in
      if al_condition al = NoReadings \<and> s \<noteq> Off
      then (let m = am_set i Off m in if s \<noteq> Pending then am_clear i al m else m)
      else m)"

definition am_setConnected :: "bool \<Rightarrow> int \<Rightarrow> alarm_mgr \<Rightarrow> alarm_mgr" where
  "am_setConnected on nowMs m =
     (if on = (am_silenceFrom m \<ge> 0) then m
      else let m = m\<lparr>am_silenceFrom := (if on then nowMs else - 1), am_lastReading := - 1\<rparr>
           in if on then m else fold am_disconnect_at [0..<length (am_alarms m)] m)"

definition am_tick_at :: "int \<Rightarrow> nat \<Rightarrow> alarm_mgr \<Rightarrow> alarm_mgr" where
  "am_tick_at nowMs i m =
     (let al = am_alarms m ! i in
      if al_condition al \<noteq> NoReadings \<or> \<not> al_enabled al then m
      else let since = (if am_lastReading m \<ge> 0 then am_lastReading m else am_silenceFrom m) in
        if since < 0 then m
        else if nowMs - since \<ge> al_millis al \<and> am_st i m = Off
        then am_raise i al (am_lastValue m) (am_set i Raised m) else m)"

definition am_tick :: "int \<Rightarrow> alarm_mgr \<Rightarrow> alarm_mgr" where
  "am_tick nowMs m = fold (am_tick_at nowMs) [0..<length (am_alarms m)] m"

definition am_acknowledge :: "int \<Rightarrow> alarm_mgr \<Rightarrow> alarm_mgr" where
  "am_acknowledge index m =
     (if index \<ge> 0 \<and> nat index < length (am_state m) \<and> am_state m ! nat index = Raised
      then am_set (nat index) Acknowledged m else m)"

definition am_acknowledgeAll :: "alarm_mgr \<Rightarrow> alarm_mgr" where
  "am_acknowledgeAll m = fold (\<lambda>i. am_acknowledge (int i)) [0..<length (am_state m)] m"

subsection \<open>Each alarm on its own\<close>

text \<open>
  What the manager keeps of one alarm: its state, when its condition started to hold, and the signals it has
  given. The functions say what each call does to one alarm; that the manager, which goes through all of
  them, does this to every one is what the locale below gives.
\<close>

type_synonym cell = "alarm_state \<times> int \<times> alarm_event list"

fun ev_index :: "alarm_event \<Rightarrow> nat" where
  "ev_index (Raised_Event i al v) = i" | "ev_index (Cleared_Event i al) = i"

definition am_cell :: "nat \<Rightarrow> alarm_mgr \<Rightarrow> cell" where
  "am_cell i m = (am_st i m, am_since m ! i, filter (\<lambda>e. ev_index e = i) (am_log m))"

definition am_params :: "alarm_mgr \<Rightarrow> alarm list \<times> int \<times> int \<times> dbl" where
  "am_params m = (am_alarms m, am_lastReading m, am_silenceFrom m, am_lastValue m)"

definition am_wf :: "alarm_mgr \<Rightarrow> bool" where
  "am_wf m \<longleftrightarrow> length (am_state m) = length (am_alarms m) \<and> length (am_since m) = length (am_alarms m)"

definition cell_eval :: "nat \<Rightarrow> alarm \<Rightarrow> bool \<Rightarrow> bool \<Rightarrow> dbl \<Rightarrow> int \<Rightarrow> cell \<Rightarrow> cell" where
  "cell_eval i al matches releasedNow value nowMs c =
     (case c of (s, t, es) \<Rightarrow>
        if \<not> al_enabled al then (if s = Off then c else (Off, t, es @ [Cleared_Event i al]))
        else case s of
          Off \<Rightarrow> if \<not> matches then c
                 else if d_le (al_seconds al) d_zero then (Raised, nowMs, es @ [Raised_Event i al value])
                 else (Pending, nowMs, es)
        | Pending \<Rightarrow> if \<not> matches then (Off, t, es)
                 else if nowMs - t \<ge> al_millis al then (Raised, t, es @ [Raised_Event i al value])
                 else c
        | _ \<Rightarrow> if releasedNow then (Off, t, es @ [Cleared_Event i al]) else c)"

definition cell_feed :: "dbl \<Rightarrow> bool \<Rightarrow> int \<Rightarrow> int \<Rightarrow> qstring \<Rightarrow> nat \<Rightarrow> alarm \<Rightarrow> cell \<Rightarrow> cell" where
  "cell_feed value overload nowMs valueId source i al c =
     (case c of (s, t, es) \<Rightarrow>
        if al_condition al = NoReadings then
          (if valueId \<noteq> 0 then c else (Off, nowMs, if s = Off then es else es @ [Cleared_Event i al]))
        else if \<not> vref_matches (al_value al) valueId source then c
        else cell_eval i al (alarm_matches al value overload) (alarm_released al value overload) value nowMs c)"

definition cell_disconnect :: "nat \<Rightarrow> alarm \<Rightarrow> cell \<Rightarrow> cell" where
  "cell_disconnect i al c =
     (case c of (s, t, es) \<Rightarrow>
        if al_condition al = NoReadings \<and> s \<noteq> Off
        then (Off, t, if s = Pending then es else es @ [Cleared_Event i al]) else c)"

definition cell_tick :: "int \<Rightarrow> int \<Rightarrow> dbl \<Rightarrow> nat \<Rightarrow> alarm \<Rightarrow> cell \<Rightarrow> cell" where
  "cell_tick nowMs since lastValue i al c =
     (case c of (s, t, es) \<Rightarrow>
        if al_condition al = NoReadings \<and> al_enabled al \<and> 0 \<le> since \<and> nowMs - since \<ge> al_millis al \<and> s = Off
        then (Raised, t, es @ [Raised_Event i al lastValue]) else c)"

text \<open>A pass over the alarms by index, where what is done at an index looks at and changes that alarm only.\<close>

locale per_alarm =
  fixes f :: "nat \<Rightarrow> alarm_mgr \<Rightarrow> alarm_mgr"
    and g :: "alarm list \<times> int \<times> int \<times> dbl \<Rightarrow> nat \<Rightarrow> alarm \<Rightarrow> cell \<Rightarrow> cell"
  assumes keeps_params: "am_params (f i m) = am_params m"
    and keeps_wf: "am_wf m \<Longrightarrow> am_wf (f i m)"
    and self: "am_wf m \<Longrightarrow> i < length (am_alarms m) \<Longrightarrow>
      am_cell i (f i m) = g (am_params m) i (am_alarms m ! i) (am_cell i m)"
    and others: "i \<noteq> j \<Longrightarrow> am_cell j (f i m) = am_cell j m"
begin

lemma pass_prefix:
  "n \<le> length (am_alarms m) \<Longrightarrow> am_wf m \<Longrightarrow>
     am_params (fold f [0..<n] m) = am_params m \<and> am_wf (fold f [0..<n] m) \<and>
     (\<forall>j. am_cell j (fold f [0..<n] m) =
        (if j < n then g (am_params m) j (am_alarms m ! j) (am_cell j m) else am_cell j m))"
proof (induction n)
  case 0
  then show ?case by simp
next
  case (Suc n)
  let ?m = "fold f [0..<n] m"
  have ih: "am_params ?m = am_params m" "am_wf ?m"
    "\<And>j. am_cell j ?m = (if j < n then g (am_params m) j (am_alarms m ! j) (am_cell j m) else am_cell j m)"
    using Suc by auto
  have al: "am_alarms ?m = am_alarms m" using ih(1) by (simp add: am_params_def)
  have "fold f [0..<Suc n] m = f n ?m" by simp
  then show ?case
    using ih al Suc.prems keeps_params[of n ?m] keeps_wf[of ?m n] self[of ?m n] others[of n _ ?m]
    by (auto simp: less_Suc_eq)
qed

lemma pass:
  assumes "am_wf m"
  shows "am_params (fold f [0..<length (am_alarms m)] m) = am_params m"
    and "am_wf (fold f [0..<length (am_alarms m)] m)"
    and "j < length (am_alarms m) \<Longrightarrow>
      am_cell j (fold f [0..<length (am_alarms m)] m) = g (am_params m) j (am_alarms m ! j) (am_cell j m)"
  using pass_prefix[OF order.refl assms] by auto

end

lemma am_st_set [simp]: "am_st j (am_set i s m) = (if j = i \<and> i < length (am_state m) then s else am_st j m)"
  by (auto simp: am_st_def am_set_def)

lemma am_sel [simp]:
  "am_st j (am_set_since i t m) = am_st j m" "am_st j (am_raise i al v m) = am_st j m"
  "am_st j (am_clear i al m) = am_st j m"
  "am_since (am_set i s m) = am_since m" "am_since (am_raise i al v m) = am_since m"
  "am_since (am_clear i al m) = am_since m" "am_since (am_set_since i t m) = (am_since m)[i := t]"
  "am_log (am_set i s m) = am_log m" "am_log (am_set_since i t m) = am_log m"
  "am_log (am_raise i al v m) = am_log m @ [Raised_Event i al v]"
  "am_log (am_clear i al m) = am_log m @ [Cleared_Event i al]"
  "am_params (am_set i s m) = am_params m" "am_params (am_set_since i t m) = am_params m"
  "am_params (am_raise i al v m) = am_params m" "am_params (am_clear i al m) = am_params m"
  "am_wf (am_set i s m) = am_wf m" "am_wf (am_set_since i t m) = am_wf m"
  "am_wf (am_raise i al v m) = am_wf m" "am_wf (am_clear i al m) = am_wf m"
  "am_alarms (am_set i s m) = am_alarms m" "am_alarms (am_set_since i t m) = am_alarms m"
  "length (am_state (am_set i s m)) = length (am_state m)"
  "am_state (am_set_since i t m) = am_state m"
  by (simp_all add: am_st_def am_set_def am_set_since_def am_raise_def am_clear_def am_params_def am_wf_def)

lemma evaluate_cell:
  assumes "am_wf m" and "i < length (am_alarms m)"
  shows "am_cell i (am_evaluate i p r v t m) = cell_eval i (am_alarms m ! i) p r v t (am_cell i m)"
  using assms by (cases "am_st i m") (simp_all add: am_evaluate_def cell_eval_def am_cell_def am_wf_def Let_def)

lemma evaluate_keeps:
  "am_params (am_evaluate i p r v t m) = am_params m" "am_wf m \<Longrightarrow> am_wf (am_evaluate i p r v t m)"
  "i \<noteq> j \<Longrightarrow> am_cell j (am_evaluate i p r v t m) = am_cell j m"
  by (cases "am_st i m"; simp add: am_evaluate_def am_cell_def Let_def)+

interpretation pa_feed: per_alarm "am_feed_at v ov now vid src"
    "\<lambda>_. cell_feed v ov now vid src" for v ov now vid src
proof
  fix i j m
  show "am_params (am_feed_at v ov now vid src i m) = am_params m"
    by (simp add: am_feed_at_def Let_def evaluate_keeps)
  show "am_wf m \<Longrightarrow> am_wf (am_feed_at v ov now vid src i m)"
    by (simp add: am_feed_at_def Let_def evaluate_keeps)
  show "i \<noteq> j \<Longrightarrow> am_cell j (am_feed_at v ov now vid src i m) = am_cell j m"
    by (simp add: am_feed_at_def Let_def evaluate_keeps) (simp add: am_cell_def)
  show "am_wf m \<Longrightarrow> i < length (am_alarms m) \<Longrightarrow>
      am_cell i (am_feed_at v ov now vid src i m) =
      cell_feed v ov now vid src i (am_alarms m ! i) (am_cell i m)"
    by (simp add: am_feed_at_def Let_def evaluate_cell cell_feed_def split: prod.splits)
      (auto simp: am_cell_def am_wf_def)
qed

interpretation pa_disconnect: per_alarm am_disconnect_at "\<lambda>_. cell_disconnect"
proof
  fix i j m
  show "am_params (am_disconnect_at i m) = am_params m"
    by (simp add: am_disconnect_at_def Let_def)
  show "am_wf m \<Longrightarrow> am_wf (am_disconnect_at i m)"
    by (simp add: am_disconnect_at_def Let_def)
  show "i \<noteq> j \<Longrightarrow> am_cell j (am_disconnect_at i m) = am_cell j m"
    by (simp add: am_disconnect_at_def am_cell_def Let_def)
  show "am_wf m \<Longrightarrow> i < length (am_alarms m) \<Longrightarrow>
      am_cell i (am_disconnect_at i m) = cell_disconnect i (am_alarms m ! i) (am_cell i m)"
    by (simp add: am_disconnect_at_def cell_disconnect_def am_cell_def am_wf_def Let_def)
qed

definition am_silent_since :: "alarm list \<times> int \<times> int \<times> dbl \<Rightarrow> int" where
  "am_silent_since p = (case p of (_, lastReading, silenceFrom, _) \<Rightarrow>
     if lastReading \<ge> 0 then lastReading else silenceFrom)"

interpretation pa_tick: per_alarm "am_tick_at now"
    "\<lambda>p. cell_tick now (am_silent_since p) (snd (snd (snd p)))" for now
proof
  fix i j m
  show "am_params (am_tick_at now i m) = am_params m"
    by (simp add: am_tick_at_def Let_def)
  show "am_wf m \<Longrightarrow> am_wf (am_tick_at now i m)"
    by (simp add: am_tick_at_def Let_def)
  show "i \<noteq> j \<Longrightarrow> am_cell j (am_tick_at now i m) = am_cell j m"
    by (simp add: am_tick_at_def am_cell_def Let_def)
  show "am_wf m \<Longrightarrow> i < length (am_alarms m) \<Longrightarrow> am_cell i (am_tick_at now i m) =
      cell_tick now (am_silent_since (am_params m)) (snd (snd (snd (am_params m)))) i (am_alarms m ! i) (am_cell i m)"
    by (auto simp: am_tick_at_def cell_tick_def am_cell_def am_wf_def am_params_def am_silent_since_def Let_def)
qed

subsection \<open>The calls\<close>

datatype am_call = Feed dbl bool int int qstring | Connected bool int | Tick int | Acknowledge int | AcknowledgeAll

fun am_do :: "am_call \<Rightarrow> alarm_mgr \<Rightarrow> alarm_mgr" where
  "am_do (Feed v ov now i src) m = am_feed v ov now i src m"
| "am_do (Connected on now) m = am_setConnected on now m"
| "am_do (Tick now) m = am_tick now m"
| "am_do (Acknowledge i) m = am_acknowledge i m"
| "am_do AcknowledgeAll m = am_acknowledgeAll m"

text \<open>The signals of one alarm: whether they leave it raised; \<open>None\<close> when they do not alternate.\<close>

definition sig_step :: "alarm_event \<Rightarrow> bool option \<Rightarrow> bool option" where
  "sig_step e p = (case e of
     Raised_Event _ _ _ \<Rightarrow> (if p = Some False then Some True else None)
   | Cleared_Event _ _ \<Rightarrow> (if p = Some True then Some False else None))"

definition signals_up :: "alarm_event list \<Rightarrow> bool option" where
  "signals_up es = fold sig_step es (Some False)"

fun is_up :: "alarm_state \<Rightarrow> bool" where
  "is_up Off = False" | "is_up Pending = False" | "is_up Raised = True" | "is_up Acknowledged = True"

definition cell_ok :: "alarm \<Rightarrow> cell \<Rightarrow> bool" where
  "cell_ok al c = (case c of (s, t, es) \<Rightarrow>
     signals_up es = Some (is_up s) \<and> (al_condition al = NoReadings \<longrightarrow> s \<noteq> Pending) \<and> (\<not> al_enabled al \<longrightarrow> s = Off))"

lemma signals_up_simps [simp]:
  "signals_up [] = Some False"
  "signals_up (es @ [Raised_Event i al v]) = (if signals_up es = Some False then Some True else None)"
  "signals_up (es @ [Cleared_Event i al]) = (if signals_up es = Some True then Some False else None)"
  by (simp_all add: signals_up_def sig_step_def)

lemma cell_eval_ok: "al_condition al \<noteq> NoReadings \<Longrightarrow> cell_ok al c \<Longrightarrow> cell_ok al (cell_eval i al p r v t c)"
  by (cases c; cases "fst c") (auto simp: cell_ok_def cell_eval_def)

lemma cell_feed_ok: "cell_ok al c \<Longrightarrow> cell_ok al (cell_feed v ov t vid src i al c)"
proof (cases "al_condition al = NoReadings")
  case True
  then show "cell_ok al c \<Longrightarrow> ?thesis" by (cases c; cases "fst c") (auto simp: cell_ok_def cell_feed_def)
next
  case False
  then show "cell_ok al c \<Longrightarrow> ?thesis" using cell_eval_ok by (cases c) (auto simp: cell_feed_def)
qed

lemma cell_disconnect_ok: "cell_ok al c \<Longrightarrow> cell_ok al (cell_disconnect i al c)"
  by (cases c; cases "fst c") (auto simp: cell_ok_def cell_disconnect_def)

lemma cell_tick_ok: "cell_ok al c \<Longrightarrow> cell_ok al (cell_tick now since v i al c)"
  by (cases c) (auto simp: cell_ok_def cell_tick_def)

definition am_ok :: "alarm_mgr \<Rightarrow> bool" where
  "am_ok m \<longleftrightarrow> am_wf m \<and> (\<forall>i < length (am_alarms m). cell_ok (am_alarms m ! i) (am_cell i m))"

context per_alarm
begin

lemma pass_ok:
  assumes "am_ok m" and "\<And>p i al c. cell_ok al c \<Longrightarrow> cell_ok al (g p i al c)"
  shows "am_ok (fold f [0..<length (am_alarms m)] m)"
proof -
  have wf: "am_wf m" using assms(1) by (simp add: am_ok_def)
  then have "am_alarms (fold f [0..<length (am_alarms m)] m) = am_alarms m"
    using pass(1) by (simp add: am_params_def)
  then show ?thesis using assms pass(2,3)[OF wf] by (simp add: am_ok_def)
qed

end

lemma feed_cell:
  assumes "am_wf m" and "i < length (am_alarms m)"
  shows "am_cell i (am_feed v ov now vid src m) = cell_feed v ov now vid src i (am_alarms m ! i) (am_cell i m)"
proof -
  let ?m = "if vid = 0 then m\<lparr>am_lastReading := now, am_lastValue := v, am_lastOverload := ov\<rparr> else m"
  have "am_wf ?m" "am_alarms ?m = am_alarms m" "am_cell i ?m = am_cell i m"
    using assms(1) by (simp_all add: am_wf_def am_cell_def am_st_def)
  then show ?thesis
    using pa_feed.pass(3)[of ?m i v ov now vid src] assms(2) by (simp add: am_feed_def Let_def)
qed

lemma feed_keeps:
  assumes "am_wf m"
  shows "am_alarms (am_feed v ov now vid src m) = am_alarms m" and "am_wf (am_feed v ov now vid src m)"
proof -
  let ?m = "if vid = 0 then m\<lparr>am_lastReading := now, am_lastValue := v, am_lastOverload := ov\<rparr> else m"
  have "am_wf ?m" "am_alarms ?m = am_alarms m" using assms by (simp_all add: am_wf_def)
  then show "am_alarms (am_feed v ov now vid src m) = am_alarms m" "am_wf (am_feed v ov now vid src m)"
    using pa_feed.pass(1,2)[of ?m v ov now vid src] by (simp_all add: am_feed_def Let_def am_params_def)
qed

text \<open>
  One reading does to every alarm of the list what it does to that alarm alone, whatever the other alarms
  are: the loop of \<open>feed\<close> refines independent alarms.
\<close>

theorem alarm_feed_refines:
  assumes "am_wf m" and "i < length (am_alarms m)"
  shows "am_cell i (am_feed v ov now vid src m) = cell_feed v ov now vid src i (am_alarms m ! i) (am_cell i m)"
  using assms by (rule feed_cell)

lemma am_ok_cong:
  "am_alarms m' = am_alarms m \<Longrightarrow> am_state m' = am_state m \<Longrightarrow> am_since m' = am_since m \<Longrightarrow> am_log m' = am_log m
    \<Longrightarrow> am_ok m' = am_ok m"
  by (simp add: am_ok_def am_wf_def am_cell_def am_st_def)

lemma acknowledge_ok:
  assumes "am_ok m"
  shows "am_ok (am_acknowledge i m)"
proof (cases "i \<ge> 0 \<and> nat i < length (am_state m) \<and> am_state m ! nat i = Raised")
  case False
  then have "am_acknowledge i m = m" unfolding am_acknowledge_def by (simp only: if_False)
  then show ?thesis using assms by simp
next
  case True
  have "am_st (nat i) m = Raised" using True by (simp add: am_st_def)
  then have "cell_ok (am_alarms m ! j) (am_cell j (am_set (nat i) Acknowledged m)) = cell_ok (am_alarms m ! j) (am_cell j m)" for j
    by (auto simp: am_cell_def cell_ok_def)
  then show ?thesis using True assms by (simp add: am_acknowledge_def am_ok_def)
qed

lemma call_ok: "am_ok m \<Longrightarrow> am_ok (am_do c m)"
proof (induction c m rule: am_do.induct)
  case (1 v ov now i src m)
  let ?m = "if i = 0 then m\<lparr>am_lastReading := now, am_lastValue := v, am_lastOverload := ov\<rparr> else m"
  have "am_ok ?m" using 1 am_ok_cong[of ?m m] by simp
  then show ?case using pa_feed.pass_ok[of ?m v ov now i src] cell_feed_ok by (simp add: am_feed_def Let_def)
next
  case (2 on now m)
  let ?m = "m\<lparr>am_silenceFrom := - 1, am_lastReading := - 1\<rparr>"
  have "am_ok (m\<lparr>am_silenceFrom := t, am_lastReading := - 1\<rparr>)" for t
    using 2 am_ok_cong[of "m\<lparr>am_silenceFrom := t, am_lastReading := - 1\<rparr>" m] by simp
  then show ?case
    using 2 pa_disconnect.pass_ok[of ?m] cell_disconnect_ok by (simp add: am_setConnected_def Let_def)
next
  case (3 now m)
  then show ?case using pa_tick.pass_ok[of m now] cell_tick_ok by (simp add: am_tick_def)
next
  case (4 i m)
  then show ?case by (simp add: acknowledge_ok)
next
  case (5 m)
  have "am_ok (fold (\<lambda>i. am_acknowledge (int i)) is m)" if "am_ok m" for "is" m
    using that by (induction "is" arbitrary: m) (simp_all add: acknowledge_ok)
  then show ?case using 5 by (simp add: am_acknowledgeAll_def)
qed

lemma fresh_ok: "am_ok (setAlarms als alarm_mgr0)"
  by (simp add: am_ok_def am_wf_def setAlarms_def am_carried_def alarm_mgr0_def am_cell_def am_st_def cell_ok_def)

lemma calls_ok: "am_ok m \<Longrightarrow> am_ok (fold am_do cs m)"
  by (induction cs arbitrary: m) (simp_all add: call_ok)

lemma acknowledge_alarms [simp]: "am_alarms (am_acknowledge i m) = am_alarms m"
  by (simp add: am_acknowledge_def)

lemma call_alarms: "am_ok m \<Longrightarrow> am_alarms (am_do c m) = am_alarms m"
proof (induction c m rule: am_do.induct)
  case (1 v ov now i src m)
  then show ?case using feed_keeps(1) by (simp add: am_ok_def)
next
  case (2 on now m)
  let ?m = "m\<lparr>am_silenceFrom := - 1, am_lastReading := - 1\<rparr>"
  have "am_wf ?m" using 2 by (simp add: am_ok_def am_wf_def)
  then show ?case using pa_disconnect.pass(1)[of ?m] by (simp add: am_setConnected_def am_params_def Let_def)
next
  case (3 now m)
  then show ?case using pa_tick.pass(1)[of m now] by (simp add: am_tick_def am_ok_def am_params_def)
next
  case (5 m)
  have "am_alarms (fold (\<lambda>i. am_acknowledge (int i)) is m) = am_alarms m" for "is"
    by (induction "is" arbitrary: m) simp_all
  then show ?case by (simp add: am_acknowledgeAll_def)
qed simp

lemma calls_alarms: "am_ok m \<Longrightarrow> am_alarms (fold am_do cs m) = am_alarms m"
  by (induction cs arbitrary: m) (simp_all add: call_ok call_alarms)


definition alarm_example :: alarm where
  "alarm_example = alarm0\<lparr>al_condition := Above, al_a := DFin False 5\<rparr>"


theorem alarm_feed_refines_witness:
  "am_cell 0 (am_feed (DFin False 6) False 10 0 [] (setAlarms [alarm_example] alarm_mgr0)) =
     (Raised, 10, [Raised_Event 0 alarm_example (DFin False 6)])"
  using alarm_feed_refines[of "setAlarms [alarm_example] alarm_mgr0" 0 "DFin False 6" False 10 0 "[]"]
  by (simp add: am_wf_def setAlarms_def am_carried_def alarm_mgr0_def am_cell_def am_st_def cell_feed_def
      cell_eval_def alarm_example_def alarm0_def vref_matches_def vref0_def alarm_matches_def d_zero_def d_le_def Let_def)

subsection \<open>When an alarm raises and clears\<close>

text \<open>
  The readings of one alarm, as (value, overload, time). While it is pending, every reading since the time it
  remembers has met the condition.
\<close>

type_synonym alarm_reading = "dbl \<times> bool \<times> int"

abbreviation meets :: "alarm \<Rightarrow> alarm_reading \<Rightarrow> bool" where
  "meets al r \<equiv> alarm_matches al (fst r) (fst (snd r))"

abbreviation time_of :: "alarm_reading \<Rightarrow> int" where
  "time_of r \<equiv> snd (snd r)"

definition held_since :: "alarm \<Rightarrow> alarm_reading list \<Rightarrow> int \<Rightarrow> bool" where
  "held_since al rs t \<longleftrightarrow> (\<exists>pre r mid. rs = pre @ r # mid \<and> time_of r = t \<and> list_all (meets al) (r # mid))"

definition feed_calls :: "alarm \<Rightarrow> qstring \<Rightarrow> alarm_reading list \<Rightarrow> am_call list" where
  "feed_calls al src rs = map (\<lambda>(v, ov, t). Feed v ov t (vr_id (al_value al)) src) rs"

lemma held_since_snoc: "held_since al rs t \<Longrightarrow> meets al r \<Longrightarrow> held_since al (rs @ [r]) t"
  by (fastforce simp: held_since_def)

lemma held_since_new: "meets al r \<Longrightarrow> held_since al (rs @ [r]) (time_of r)"
  unfolding held_since_def by (intro exI[of _ rs] exI[of _ r] exI[of _ "[]"]) simp

lemma feed_run:
  assumes i: "i < length als" and al: "al = als ! i" "al_condition al \<noteq> NoReadings" "al_enabled al"
    and src: "vr_source (al_value al) = [] \<or> src = vr_source (al_value al)"
  defines "run \<equiv> \<lambda>rs. fold am_do (feed_calls al src rs) (setAlarms als alarm_mgr0)"
  shows "am_wf (run rs) \<and> am_alarms (run rs) = als \<and>
    (am_st i (run rs) = Pending \<longrightarrow> held_since al rs (am_since (run rs) ! i))"
proof (induction rs rule: rev_induct)
  case Nil
  then show ?case
    by (simp add: run_def feed_calls_def setAlarms_def am_wf_def am_carried_def alarm_mgr0_def am_st_def)
next
  case (snoc r rs)
  obtain v ov t where r: "r = (v, ov, t)" by (cases r)
  let ?m = "run rs"
  have step: "run (rs @ [r]) = am_feed v ov t (vr_id (al_value al)) src ?m"
    by (simp add: run_def feed_calls_def r)
  have wf: "am_wf ?m" "am_alarms ?m = als" using snoc by simp_all
  have "vref_matches (al_value al) (vr_id (al_value al)) src" using src by (simp add: vref_matches_def)
  then have "am_cell i (run (rs @ [r])) =
      cell_eval i al (alarm_matches al v ov) (alarm_released al v ov) v t (am_cell i ?m)"
    using feed_cell[OF wf(1), of i v ov t "vr_id (al_value al)" src] i al wf(2)
    by (simp add: step cell_feed_def split: prod.splits)
  then have "am_st i (run (rs @ [r])) = Pending \<Longrightarrow> meets al r \<and>
      (am_since (run (rs @ [r])) ! i = t \<or>
       (am_st i ?m = Pending \<and> am_since (run (rs @ [r])) ! i = am_since ?m ! i))"
    using al(3) by (cases "am_st i ?m") (auto simp: am_cell_def cell_eval_def r split: if_splits)
  then have "am_st i (run (rs @ [r])) = Pending \<Longrightarrow> held_since al (rs @ [r]) (am_since (run (rs @ [r])) ! i)"
    using snoc held_since_snoc held_since_new[of al r rs] r by auto
  then show ?case using feed_keeps[OF wf(1)] wf(2) step by simp
qed



text \<open>Numbers the dialog can enter: representable and finite.\<close>

definition alarm_numbers :: "alarm \<Rightarrow> bool" where
  "alarm_numbers al \<longleftrightarrow> list_all (\<lambda>x. d_wf x \<and> d_isfinite x) [al_a al, al_b al, al_hysteresis al]"

text \<open>
  C18: No reading both meets the condition of an alarm and releases it, so an alarm cannot clear on a reading it
  would raise on, whatever its limits, their order and its hysteresis are.
\<close>

theorem alarm_no_flapping:
  assumes "alarm_numbers al" and "alarm_matches al v ov"
  shows "\<not> alarm_released al v ov"
proof -
  let ?lo = "d_qmin (al_a al) (al_b al)" and ?hi = "d_qmax (al_a al) (al_b al)"
  let ?h = "d_abs (al_hysteresis al)"
  have num: "d_wf x \<and> d_isfinite x" if "x \<in> {al_a al, al_b al, al_hysteresis al, ?lo, ?hi}" for x
    using assms(1) that by (auto simp: alarm_numbers_def d_qmin_def d_qmax_def)
  have up: "d_le x (d_add x ?h)" and down: "d_le (d_sub x ?h) x"
    if "x \<in> {al_a al, al_b al, ?lo, ?hi}" for x
    using that num by (auto intro!: d_le_add_abs)
  have cyc: "d_lt p q \<Longrightarrow> d_le q r \<Longrightarrow> d_le r p \<Longrightarrow> False" for p q r
    using d_le_trans[of q r p] d_lt_le_trans[of p q p] by simp
  show ?thesis
  proof
    assume rel: "alarm_released al v ov"
    show False
    proof (cases "al_condition al")
      case Below
      then show ?thesis using assms(2) rel cyc[OF _ up[of "al_a al"], of v]
        by (simp add: alarm_matches_def alarm_released_def Let_def)
    next
      case Above
      then show ?thesis using assms(2) rel cyc[of "al_a al" v, OF _ _ down[of "al_a al"]]
        by (simp add: alarm_matches_def alarm_released_def Let_def)
    next
      case Outside
      then show ?thesis
        using assms(2) rel cyc[OF _ up[of ?lo], of v] cyc[of ?hi v, OF _ _ down[of ?hi]]
        by (auto simp: alarm_matches_def alarm_released_def Let_def)
    next
      case Inside
      then show ?thesis
        using assms(2) rel cyc[of v, OF _ down[of ?lo]] cyc[of _ v, OF _ _ up[of ?hi]]
        by (auto simp: alarm_matches_def alarm_released_def Let_def)
    qed (use assms(2) rel in \<open>simp_all add: alarm_matches_def alarm_released_def Let_def\<close>)
  qed
qed

theorem alarm_no_flapping_witness:
  "\<not> alarm_released (alarm0\<lparr>al_condition := Above\<rparr>) (DFin False 1) False"
  by (rule alarm_no_flapping)
    (simp_all add: alarm_numbers_def alarm0_def d_zero_def pow2_def alarm_matches_def Let_def)

subsection \<open>What is kept\<close>

definition alarm_ok :: "(qcolor \<Rightarrow> qstring) \<Rightarrow> (qstring \<Rightarrow> qcolor) \<Rightarrow> alarm \<Rightarrow> bool" where
  "alarm_ok color_name color_of al \<longleftrightarrow>
     vref_ok (al_value al) \<and> 1 \<le> al_repeatCount al \<and> al_repeatCount al < 2 ^ 31 \<and>
     color_of (color_name (al_color al)) = al_color al"

lemma condition_key [simp]: "conditionFromKey (lit (conditionKey c)) = c"
  by (cases c) (simp_all add: conditionFromKey_def)

lemma jobj_keys: "(o'(k := v)) k' = (if k' = k then v else o' k')" for o' :: jobj
  by simp

text \<open>
  An alarm read back from the JSON it is kept as is the alarm that was written, its condition, value, limits,
  actions and colour, provided the colour's name gives the colour back.
\<close>

theorem alarm_json_roundtrip:
  assumes "alarm_ok color_name color_of al"
  shows "alarm_from_json color_name color_of (alarm_to_json color_name al) = al"
proof -
  have "vref_ok (al_value al)" "color_of (color_name (al_color al)) = al_color al"
    "max 1 (j_int 3 (j_of_int (al_repeatCount al))) = al_repeatCount al"
    using assms by (simp_all add: alarm_ok_def)
  then show ?thesis
    by (cases "al_value al = vref0"; cases "al_repeat al"; cases "al_recorder al")
      (simp_all add: alarm_from_json_def alarm_to_json_def jobj0_def Let_def)
qed

theorem alarm_json_roundtrip_witness:
  "alarm_from_json (\<lambda>_. []) (\<lambda>_. Rgb 0xd8 0x22 0x22)
     (alarm_to_json (\<lambda>_. []) (alarm0\<lparr>al_value := \<lparr>vr_source = [], vr_id = 2\<rparr>, al_condition := NoReadings\<rparr>)) =
   alarm0\<lparr>al_value := \<lparr>vr_source = [], vr_id = 2\<rparr>, al_condition := NoReadings\<rparr>"
  by (rule alarm_json_roundtrip) (simp add: alarm_ok_def alarm0_def vref_ok_def kMaxValues_def q_trim_def)

lemma json_keeps_program [simp]:
  "al_command (alarm_from_json cn co (alarm_to_json cn al)) = al_command al"
  "al_disconnect (alarm_from_json cn co (alarm_to_json cn al)) = al_disconnect al"
  "al_name (alarm_from_json cn co (alarm_to_json cn al)) = al_name al"
  by (simp_all add: alarm_from_json_def alarm_to_json_def jobj0_def Let_def)

definition without_programs :: "(qcolor \<Rightarrow> qstring) \<Rightarrow> alarm list \<Rightarrow> jobj list" where
  "without_programs cn als = map (\<lambda>al. alarm_to_json cn (al\<lparr>al_command := [], al_disconnect := False\<rparr>)) als"

text \<open>
  C19: The alarms taken over from a file of someone else run no program and close no port: read back, the text
  holds the same alarms in the same order, each with an empty command, and the flag says whether one had a
  program. (The library reads back the objects it wrote.)
\<close>

theorem alarms_without_programs:
  assumes "os = without_programs cn (listFromJson cn co parse json)" and "parse (print os) = os" and "parse [] = []"
    and "listWithoutPrograms cn co parse print json = (json', removed)"
  shows "list_all (\<lambda>al. al_command al = [] \<and> \<not> al_disconnect al) (listFromJson cn co parse json') \<and>
    map al_name (listFromJson cn co parse json') = map al_name (listFromJson cn co parse json) \<and>
    removed = list_ex (\<lambda>al. q_trim (al_command al) \<noteq> []) (listFromJson cn co parse json)"
proof (cases "json = []")
  case True
  then show ?thesis using assms(3,4) by (auto simp: listWithoutPrograms_def listFromJson_def)
next
  case False
  then have j: "json' = print os"
    and r: "removed = list_ex (\<lambda>al. q_trim (al_command al) \<noteq> []) (listFromJson cn co parse json)"
    using assms(1,4) by (simp_all add: listWithoutPrograms_def listToJson_def without_programs_def comp_def Let_def)
  have "parse json' = os" using j assms(2) by simp
  then have "listFromJson cn co parse json' = map (alarm_from_json cn co) os" by (simp add: listFromJson_def)
  also have "\<dots> = map (\<lambda>al. alarm_from_json cn co (alarm_to_json cn
      (al\<lparr>al_command := [], al_disconnect := False\<rparr>))) (listFromJson cn co parse json)"
    unfolding assms(1) without_programs_def by simp
  finally show ?thesis using r by (simp add: list_all_iff comp_def)
qed

text \<open>For the witness: one text holds an alarm with a program, every other but the empty one what is written.\<close>

definition doc_obj :: jobj where
  "doc_obj = jobj0(''command'' := JStr (lit ''rm''), ''disconnect'' := JBool True)"

definition doc_parse :: "qstring \<Rightarrow> jobj list" where
  "doc_parse s = (if s = [] then [] else if s = lit ''x'' then [doc_obj]
     else without_programs (\<lambda>_. []) [alarm_from_json (\<lambda>_. []) (\<lambda>_. Invalid_Color) doc_obj])"

theorem alarms_without_programs_witness:
  "listWithoutPrograms (\<lambda>_. []) (\<lambda>_. Invalid_Color) doc_parse (\<lambda>_. lit ''y'') (lit ''x'') = (lit ''y'', True) \<and>
   list_all (\<lambda>al. al_command al = []) (listFromJson (\<lambda>_. []) (\<lambda>_. Invalid_Color) doc_parse (lit ''y''))"
proof -
  let ?cn = "\<lambda>_ :: qcolor. [] :: qstring" and ?co = "\<lambda>_ :: qstring. Invalid_Color"
  have w: "listWithoutPrograms ?cn ?co doc_parse (\<lambda>_. lit ''y'') (lit ''x'') = (lit ''y'', True)"
    by (simp add: listWithoutPrograms_def listToJson_def listFromJson_def doc_parse_def doc_obj_def jobj0_def
        alarm_from_json_def q_trim_def q_space_def Let_def)
  have "doc_parse (lit ''y'') = without_programs ?cn (listFromJson ?cn ?co doc_parse (lit ''x''))"
    by (simp add: doc_parse_def listFromJson_def)
  with w show ?thesis
    using alarms_without_programs[OF refl, where parse = doc_parse and print = "\<lambda>_. lit ''y''" and cn = ?cn
        and co = ?co and json = "lit ''x''", OF _ _ w]
    by (simp add: doc_parse_def list_all_iff)
qed

text \<open>
  A silence alarm raises only on the clock, only while the meter is connected, and only when the last
  reading, or the connection if none came, is at least the set time ago; a reading ends it at once.
\<close>

theorem alarm_silence:
  assumes "am_wf m" and "i < length (am_alarms m)" and "al_condition (am_alarms m ! i) = NoReadings"
  shows "(am_st i (am_tick now m) = Raised \<and> am_st i m \<noteq> Raised \<longrightarrow>
       0 \<le> am_silent_since (am_params m) \<and> now - am_silent_since (am_params m) \<ge> al_millis (am_alarms m ! i)) \<and>
     am_st i (am_feed v ov now 0 src m) = Off"
proof
  have "am_cell i (am_tick now m) =
      cell_tick now (am_silent_since (am_params m)) (snd (snd (snd (am_params m)))) i (am_alarms m ! i) (am_cell i m)"
    using pa_tick.pass(3)[OF assms(1,2)] by (simp add: am_tick_def)
  then show "am_st i (am_tick now m) = Raised \<and> am_st i m \<noteq> Raised \<longrightarrow>
      0 \<le> am_silent_since (am_params m) \<and> now - am_silent_since (am_params m) \<ge> al_millis (am_alarms m ! i)"
    by (auto simp: am_cell_def cell_tick_def split: if_splits)
  show "am_st i (am_feed v ov now 0 src m) = Off"
    using feed_cell[OF assms(1,2), of v ov now 0 src] assms(3) by (simp add: am_cell_def cell_feed_def)
qed

theorem alarm_silence_witness:
  "am_st 0 (am_feed (DFin False 1) False 5 0 [] (setAlarms [alarm0\<lparr>al_condition := NoReadings\<rparr>] alarm_mgr0)) = Off"
  using alarm_silence[of "setAlarms [alarm0\<lparr>al_condition := NoReadings\<rparr>] alarm_mgr0" 0 0 "DFin False 1" False "[]"]
    alarm_silence[of "setAlarms [alarm0\<lparr>al_condition := NoReadings\<rparr>] alarm_mgr0" 0 5 "DFin False 1" False "[]"]
  by (simp add: setAlarms_def am_wf_def alarm_mgr0_def)

text \<open>
  An alarm that waits out its duration and is edited into a silence alarm of the same name gives \<open>cleared\<close>
  on the next reading although it was never raised.
\<close>

theorem alarm_edit_clears_unraised:
  "let below = alarm0\<lparr>al_condition := Below, al_a := DFin False 5, al_seconds := DFin False 60\<rparr>;
       silent = below\<lparr>al_condition := NoReadings\<rparr>;
       m = am_feed (DFin False 4) False 2000 0 []
             (setAlarms [silent] (am_feed (DFin False 4) False 1000 0 [] (setAlarms [below] alarm_mgr0)))
   in am_log m = [Cleared_Event 0 silent]"
  by (simp add: Let_def am_feed_def am_feed_at_def setAlarms_def am_carried_def alarm_mgr0_def am_st_def
      am_evaluate_def alarm_matches_def alarm0_def vref_matches_def vref0_def am_set_def am_set_since_def
      am_clear_def am_raise_def d_zero_def d_le_def)

end
