(* ===== verification/Protocols.thy ===== *)
theory Protocols
  imports Sample_Types
begin

text \<open>
  \<open>src/src/device/frameformat.h\<close> and \<open>protocols.cpp\<close>: the wire protocols, in the source's order, and the table
  that ties a protocol to the name the settings keep. The description of a row, a text for the combo box, is left
  out; the factory of a row is the name of the decoder class it makes.
\<close>

datatype frame_format =
  Invalid | Metex14 | PeakTech10 | Voltcraft14Continuous | Voltcraft15Continuous | M9803RContinuous |
  VC820Continuous | CyrustekES51986 | VC940Continuous | QM1537Continuous | RS22812Continuous | VC870Continuous |
  DO3122Continuous | CyrustekES51922 | DTM0660 | CyrustekES51962 | Sigrok | GDM703Continuous | BrymenBM25x |
  BrymenBM86x | BrymenBM52x | BrymenBM82x | FlukeQM | Fluke45 | VictronBLE | UniTiDMM | UniTUT61Plus |
  TfaAirControl | KeysightU12xx | UniTUT32x | MastechMS6514 | AppaDmm | Appa500 | UniTUT382 | BenetechGM1020 |
  UniTUT202BT | UniTiENV | ZotekBLE | VC820BLE | OwonBLE | OwonBLE15 | UniTUT181A | VoltcraftVC880 | VoltcraftVC890 |
  UniTUT171 | UniTUT8802 | UniTUT8803 | Eevblog121GW | BrymenBM78xBT | EndOfList

record protocol_info =
  pi_id :: frame_format
  pi_name :: string
  pi_chip :: string
  pi_transport :: string
  pi_create :: string

definition protocol_row :: "frame_format \<Rightarrow> string \<Rightarrow> string \<Rightarrow> string \<Rightarrow> string \<Rightarrow> protocol_info" where
  "protocol_row f n c t k = \<lparr>pi_id = f, pi_name = n, pi_chip = c, pi_transport = t, pi_create = k\<rparr>"

definition protocols :: "protocol_info list" where
  "protocols =
    [protocol_row Metex14 ''Metex14'' ''Metex KS57C2016'' '''' ''DecoderAscii'',
     protocol_row PeakTech10 ''PeakTech10'' '''' '''' ''DecoderAscii'',
     protocol_row Voltcraft14Continuous ''Voltcraft14Continuous'' '''' '''' ''DecoderAscii'',
     protocol_row Voltcraft15Continuous ''Voltcraft15Continuous'' '''' '''' ''DecoderAscii'',
     protocol_row M9803RContinuous ''M9803RContinuous'' '''' '''' ''DecoderM9803R'',
     protocol_row VC820Continuous ''VC820Continuous'' ''FS9721 LP3'' '''' ''DecoderVC820'',
     protocol_row CyrustekES51986 ''CyrustekES51986'' ''ES51986'' '''' ''DecoderCyrusTekES51986'',
     protocol_row VC940Continuous ''VC940Continuous'' '''' '''' ''DecoderVC940'',
     protocol_row QM1537Continuous ''QM1537Continuous'' ''FS9922-DMM4'' '''' ''DecoderQM1537'',
     protocol_row RS22812Continuous ''RS22812Continuous'' '''' '''' ''DecoderRS22812'',
     protocol_row VC870Continuous ''VC870Continuous'' '''' '''' ''DecoderVC870'',
     protocol_row DO3122Continuous ''DO3122Continuous'' '''' '''' ''DecoderDO3122'',
     protocol_row CyrustekES51922 ''CyrustekES51922'' ''ES51922'' '''' ''DecoderCyrusTekES51922'',
     protocol_row DTM0660 ''DTM0660'' ''DTM0660'' '''' ''DecoderDTM0660'',
     protocol_row CyrustekES51962 ''CyrustekES51962'' ''ES51962'' '''' ''DecoderCyrusTekES51962'',
     protocol_row Sigrok ''Sigrok'' '''' ''sigrok-cli'' ''DecoderAscii'',
     protocol_row GDM703Continuous ''GDM703Continuous'' ''WENS98A'' '''' ''DecoderGDM703'',
     protocol_row BrymenBM25x ''BrymenBM25x'' ''Brymen BM25x'' '''' ''DecoderBrymenBM25x'',
     protocol_row BrymenBM86x ''BrymenBM86x'' ''Brymen BM86x (BU-86X)'' ''USB-HID (BU-86X)'' ''DecoderBrymenBM86x'',
     protocol_row BrymenBM52x ''BrymenBM52x'' ''Brymen BM52x (BU-86X)'' ''USB-HID (BU-86X)'' ''DecoderBrymenBM52x'',
     protocol_row BrymenBM82x ''BrymenBM82x'' ''Brymen BM82x (BU-86X)'' ''USB-HID (BU-86X)'' ''DecoderBrymenBM52x'',
     protocol_row FlukeQM ''FlukeQM'' '''' '''' ''DecoderFlukeQM'',
     protocol_row Fluke45 ''Fluke45'' '''' '''' ''DecoderFluke45'',
     protocol_row VictronBLE ''VictronBLE'' '''' ''Bluetooth LE'' ''DecoderVictronBLE'',
     protocol_row UniTiDMM ''UniTiDMM'' '''' ''Bluetooth LE'' ''DecoderUniTiDMM'',
     protocol_row UniTUT61Plus ''UniTUT61Plus'' '''' ''Bluetooth LE'' ''DecoderUniTiDMM'',
     protocol_row UniTUT202BT ''UniTUT202BT'' '''' ''Bluetooth LE'' ''DecoderUniTiDMM'',
     protocol_row UniTiENV ''UniTiENV'' '''' ''Bluetooth LE'' ''DecoderUniTiENV'',
     protocol_row TfaAirControl ''TfaAirControl'' ''Holtek'' ''USB-HID (Holtek)'' ''DecoderTfaAirControl'',
     protocol_row KeysightU12xx ''KeysightU12xx'' '''' '''' ''DecoderKeysightU12xx'',
     protocol_row UniTUT32x ''UniTUT32x'' '''' '''' ''DecoderUniTUT32x'',
     protocol_row MastechMS6514 ''MastechMS6514'' '''' '''' ''DecoderMastechMS6514'',
     protocol_row AppaDmm ''AppaDmm'' '''' ''Bluetooth LE'' ''DecoderAppa'',
     protocol_row Appa500 ''Appa500'' '''' '''' ''DecoderAppa'',
     protocol_row UniTUT382 ''UniTUT382'' '''' '''' ''DecoderUniTUT382'',
     protocol_row BenetechGM1020 ''BenetechGM1020'' '''' '''' ''DecoderBenetechGM1020'',
     protocol_row ZotekBLE ''ZotekBLE'' '''' ''Bluetooth LE'' ''DecoderZotek'',
     protocol_row VC820BLE ''VC820BLE'' ''FS9721 LP3'' ''Bluetooth LE'' ''DecoderVC820'',
     protocol_row OwonBLE ''OwonBLE'' '''' ''Bluetooth LE'' ''DecoderOwon'',
     protocol_row OwonBLE15 ''OwonBLE15'' '''' ''Bluetooth LE'' ''DecoderOwon15'',
     protocol_row UniTUT181A ''UniTUT181A'' '''' ''Bluetooth LE'' ''DecoderUT181A'',
     protocol_row VoltcraftVC880 ''VoltcraftVC880'' ''ES51966A'' '''' ''DecoderVC8x0'',
     protocol_row VoltcraftVC890 ''VoltcraftVC890'' ''ES51997P'' '''' ''DecoderVC8x0'',
     protocol_row UniTUT171 ''UniTUT171'' '''' ''Bluetooth LE'' ''DecoderUT171'',
     protocol_row UniTUT8802 ''UniTUT8802'' '''' '''' ''DecoderUT8802'',
     protocol_row UniTUT8803 ''UniTUT8803'' '''' '''' ''DecoderUT8803'',
     protocol_row Eevblog121GW ''Eevblog121GW'' '''' ''Bluetooth LE'' ''Decoder121GW'',
     protocol_row BrymenBM78xBT ''BrymenBM78xBT'' '''' ''Bluetooth LE'' ''DecoderBM78xBT'']"

definition protocolInfo :: "frame_format \<Rightarrow> protocol_info option" where
  "protocolInfo f = find (\<lambda>p. pi_id p = f) protocols"

definition ff_toString :: "frame_format \<Rightarrow> qstring" where
  "ff_toString f = (case protocolInfo f of Some p \<Rightarrow> lit (pi_name p) | None \<Rightarrow> lit ''Invalid'')"

definition ff_fromString :: "qstring \<Rightarrow> frame_format" where
  "ff_fromString s = (case find (\<lambda>p. s = lit (pi_name p)) protocols of Some p \<Rightarrow> pi_id p | None \<Rightarrow> Invalid)"

text \<open>The decoder class made for a protocol and given the protocol itself; none for one without a row.\<close>

definition getInstance :: "frame_format \<Rightarrow> (string \<times> frame_format) option" where
  "getInstance f = map_option (\<lambda>p. (pi_create p, f)) (protocolInfo f)"

subsection \<open>Every protocol has one row\<close>

lemma protocols_ids: "distinct (map pi_id protocols)"
  by (simp add: protocols_def protocol_row_def)

lemma protocols_names: "distinct (map pi_name protocols)"
  by (simp add: protocols_def protocol_row_def)

lemma protocols_all: "f \<noteq> Invalid \<Longrightarrow> f \<noteq> EndOfList \<Longrightarrow> f \<in> set (map pi_id protocols)"
  by (cases f) (simp_all add: protocols_def protocol_row_def)

lemma find_by_key:
  assumes "distinct (map f xs)" and "x \<in> set xs"
  shows "find (\<lambda>e. f e = f x) xs = Some x"
  using assms by (induction xs) (auto simp: rev_image_eqI)

lemma protocolInfo_name:
  assumes "p \<in> set protocols"
  shows "protocolInfo (pi_id p) = Some p" and "ff_fromString (lit (pi_name p)) = pi_id p"
proof -
  show "protocolInfo (pi_id p) = Some p"
    using find_by_key[OF protocols_ids assms] by (simp add: protocolInfo_def)
  have "find (\<lambda>e. lit (pi_name p) = lit (pi_name e)) protocols = Some p"
    using find_by_key[OF protocols_names assms] by (simp add: eq_commute)
  then show "ff_fromString (lit (pi_name p)) = pi_id p"
    by (simp add: ff_fromString_def)
qed

text \<open>
  The settings keep the name of a protocol. Reading it back gives the protocol for each one that can be chosen;
  everything else becomes \<open>Invalid\<close>, which has no decoder.
\<close>

theorem protocol_names_roundtrip:
  "ff_fromString (ff_toString f) = (if f = EndOfList then Invalid else f) \<and>
   (getInstance (ff_fromString s) = None \<longleftrightarrow> s \<notin> set (map (\<lambda>p. lit (pi_name p)) protocols))"
proof
  have none: "protocolInfo Invalid = None" "protocolInfo EndOfList = None"
    by (simp_all add: protocolInfo_def protocols_def protocol_row_def)
  then have inv: "protocolInfo f = None \<longleftrightarrow> f = Invalid \<or> f = EndOfList" for f
    using protocols_all[of f] by (auto simp: protocolInfo_def find_None_iff)
  have "''Invalid'' \<notin> set (map pi_name protocols)"
    by (simp add: protocols_def protocol_row_def)
  then have none: "lit n \<notin> set (map (\<lambda>p. lit (pi_name p)) protocols)" if "n = ''Invalid''" for n
    unfolding set_map image_iff lit_inj using that by (simp only: bex_simps)
  show "ff_fromString (ff_toString f) = (if f = EndOfList then Invalid else f)"
  proof (cases "protocolInfo f")
    case None
    moreover have "find (\<lambda>p. lit ''Invalid'' = lit (pi_name p)) protocols = None"
      using none[OF refl] by (auto simp only: find_None_iff set_map)
    then have "ff_fromString (lit ''Invalid'') = Invalid"
      by (simp only: ff_fromString_def option.case)
    ultimately show ?thesis using inv[of f] by (auto simp: ff_toString_def)
  next
    case (Some p)
    then have "p \<in> set protocols" "pi_id p = f"
      by (auto simp: protocolInfo_def find_Some_iff)
    then show ?thesis using Some protocolInfo_name(2)[of p] inv[of f] by (auto simp: ff_toString_def)
  qed
  show "getInstance (ff_fromString s) = None \<longleftrightarrow> s \<notin> set (map (\<lambda>p. lit (pi_name p)) protocols)"
  proof (cases "find (\<lambda>p. s = lit (pi_name p)) protocols")
    case None
    moreover from None have "s \<notin> set (map (\<lambda>p. lit (pi_name p)) protocols)"
      by (auto simp only: find_None_iff set_map)
    ultimately show ?thesis by (simp add: getInstance_def ff_fromString_def inv)
  next
    case (Some p)
    then have p: "p \<in> set protocols" "s = lit (pi_name p)" by (auto simp: find_Some_iff)
    then have "s \<in> set (map (\<lambda>p. lit (pi_name p)) protocols)" by (simp only: set_map image_eqI)
    then show ?thesis
      using Some protocolInfo_name(1)[OF p(1)] by (simp only: getInstance_def ff_fromString_def option.case) simp
  qed
qed

end
