(* ===== verification/Dmm_Decoder.thy ===== *)
theory Dmm_Decoder
  imports Protocols Si_Prefix
begin

text \<open>
  \<open>src/src/device/dmmdecoder.h\<close> and \<open>dmmdecoder.cpp\<close>: what a decoded frame holds, what is known of a model, and
  the helpers every decoder uses. A decoder's \<open>m_result\<close> is a value its functions return. \<open>QString::toDouble\<close> is the
  parameter \<open>to_double\<close>, \<open>None\<close> where it reports a failure (and returns 0).
\<close>

subsection \<open>Responses and models\<close>

record dmm_channel =
  ch_id :: int
  ch_dval :: dbl
  ch_val :: qstring
  ch_unit :: qstring
  ch_special :: qstring
  ch_states :: u32
  ch_noValue :: bool
  ch_fault :: qstring
  ch_name :: qstring

definition channel0 :: dmm_channel where
  "channel0 = \<lparr>ch_id = 0, ch_dval = d_zero, ch_val = [], ch_unit = [], ch_special = [], ch_states = 0,
     ch_noValue = False, ch_fault = [], ch_name = []\<rparr>"

record dmm_response =
  re_channels :: "dmm_channel list"
  re_range :: qstring
  re_hold :: bool
  re_showBar :: bool
  re_lowBat :: bool
  re_error :: qstring
  re_received :: int
  re_receivedWall :: int

definition response0 :: dmm_response where
  "response0 = \<lparr>re_channels = [channel0], re_range = [], re_hold = False, re_showBar = False, re_lowBat = False,
     re_error = [], re_received = 0, re_receivedWall = 0\<rparr>"

text \<open>\<open>main()\<close>, read and changed.\<close>

definition re_main :: "dmm_response \<Rightarrow> dmm_channel" where
  "re_main r = re_channels r ! 0"

definition upd_main :: "(dmm_channel \<Rightarrow> dmm_channel) \<Rightarrow> dmm_response \<Rightarrow> dmm_response" where
  "upd_main f r = r\<lparr>re_channels := (re_channels r)[0 := f (re_channels r ! 0)]\<rparr>"

definition has_main :: "dmm_response \<Rightarrow> bool" where
  "has_main r \<longleftrightarrow> re_channels r \<noteq> []"

definition addChannel :: "int \<Rightarrow> dmm_response \<Rightarrow> dmm_response" where
  "addChannel i r = r\<lparr>re_channels := re_channels r @ [channel0\<lparr>ch_id := i\<rparr>]\<rparr>"

record dmm_info =
  di_vendor :: qstring
  di_model :: qstring
  di_name :: qstring
  di_baud :: int
  di_protocol :: frame_format
  di_bits :: int
  di_stopBits :: int
  di_framesPerReading :: int
  di_parity :: int
  di_display :: int
  di_externalSetup :: bool
  di_rts :: bool
  di_dtr :: bool
  di_sigrokExe :: qstring
  di_sigrokDriver :: qstring
  di_channels :: int

definition valueCount :: "dmm_info \<Rightarrow> int" where
  "valueCount i = (if di_channels i > 0 then di_channels i else di_framesPerReading i)"

definition addConfig :: "dmm_info \<Rightarrow> dmm_info list \<Rightarrow> dmm_info list" where
  "addConfig i cs = cs @ [i\<lparr>di_name := di_vendor i @ lit '' '' @ di_model i\<rparr>]"

definition canonicalModel :: "qstring \<Rightarrow> qstring" where
  "canonicalModel n = (if n = lit ''QtDMM Virtual meter'' then lit ''QtDMM Simulated meter'' else n)"

definition bare_model :: "qstring \<Rightarrow> qstring" where
  "bare_model n =
     canonicalModel (if length n \<ge> 2 \<and> drop (length n - 2) n = lit '' *'' then take (length n - 2) n else n)"

definition sameModel :: "qstring \<Rightarrow> qstring \<Rightarrow> bool" where
  "sameModel a b \<longleftrightarrow> bare_model a = bare_model b"

subsection \<open>The ring buffer as a decoder sees it\<close>

definition FIFO_LENGTH :: nat where "FIFO_LENGTH = 100"

text \<open>The byte \<open>back\<close> places before the one at \<open>idx\<close>, and the last \<open>n\<close> bytes, oldest first.\<close>

definition ringByte :: "bytes \<Rightarrow> nat \<Rightarrow> nat \<Rightarrow> byte" where
  "ringByte data idx back = data ! ((idx + FIFO_LENGTH - back) mod FIFO_LENGTH)"

definition lastBytes :: "bytes \<Rightarrow> nat \<Rightarrow> nat \<Rightarrow> bytes" where
  "lastBytes data idx n = map (\<lambda>i. ringByte data idx (n - 1 - i)) [0..<n]"

subsection \<open>Sums and bits\<close>

definition sum_bytes :: "bytes \<Rightarrow> u32" where
  "sum_bytes f = foldl (\<lambda>s c. s + ucast c) 0 f"

definition appendSum16 :: "bytes \<Rightarrow> bytes" where
  "appendSum16 f = f @ [ucast (drop_bit 8 (sum_bytes f) AND 0xFF), ucast (sum_bytes f AND 0xFF)]"

definition sum16Valid :: "bytes \<Rightarrow> nat \<Rightarrow> bool" where
  "sum16Valid f n \<longleftrightarrow>
     drop_bit 8 (sum_bytes (take (n - 2) f)) AND 0xFF = ucast (f ! (n - 2)) \<and>
     sum_bytes (take (n - 2) f) AND 0xFF = ucast (f ! (n - 1))"

definition data_bit :: "bytes \<Rightarrow> nat \<Rightarrow> nat \<Rightarrow> bool" where
  "data_bit data i b \<longleftrightarrow> data ! i AND push_bit b 1 \<noteq> 0"

subsection \<open>Values\<close>

text \<open>\<open>val.left(2 + pos) + "." + val.right(4 - pos)\<close>\<close>

definition insertComma :: "qstring \<Rightarrow> nat \<Rightarrow> qstring" where
  "insertComma v pos = take (2 + pos) v @ lit ''.'' @ drop (length v - (4 - pos)) v"

definition insertCommaIT :: "qstring \<Rightarrow> nat \<Rightarrow> qstring" where
  "insertCommaIT v pos =
     (if pos = 0 then v
      else if hd v = 45 \<or> hd v = 32 then take (pos + 1) v @ lit ''.'' @ drop (pos + 1) v
      else take pos v @ lit ''.'' @ drop pos v)"

definition prefixFactor :: "qstring \<Rightarrow> dbl" where
  "prefixFactor p = si_factor p"

definition double_or_0 :: "dbl option \<Rightarrow> dbl" where
  "double_or_0 d = (case d of Some x \<Rightarrow> x | None \<Rightarrow> d_zero)"

definition formatResultValue :: "(qstring \<Rightarrow> dbl option) \<Rightarrow> nat \<Rightarrow> qstring \<Rightarrow> qstring \<Rightarrow> dmm_response \<Rightarrow> dmm_response" where
  "formatResultValue to_double commaPos prefix baseUnit r =
     (let v = insertCommaIT (ch_val (re_main r)) commaPos
      in upd_main (\<lambda>c. c\<lparr>ch_val := v,
           ch_dval := d_mul (double_or_0 (to_double (filter (\<lambda>c. c \<noteq> 32) v))) (prefixFactor prefix),
           ch_unit := prefix @ baseUnit\<rparr>) r)"

definition noValueWithoutUnit :: "dmm_response \<Rightarrow> dmm_response" where
  "noValueWithoutUnit r = (if ch_unit (re_main r) = [] then upd_main (\<lambda>c. c\<lparr>ch_noValue := True\<rparr>) r else r)"

text \<open>The bytes of a field as text, behind an optional minus.\<close>

definition makeValue :: "bytes \<Rightarrow> nat \<Rightarrow> nat \<Rightarrow> bool \<Rightarrow> qstring" where
  "makeValue data first last' neg =
     (if neg then lit ''-'' else []) @ map ucast (drop first (take (Suc last') data))"

subsection \<open>Text\<close>

text \<open>\<open>QString::mid\<close>, \<open>endsWith\<close>, \<open>startsWith\<close>, \<open>chop\<close>, and \<open>split(' ', Qt::SkipEmptyParts)\<close>.\<close>

definition q_mid :: "nat \<Rightarrow> nat \<Rightarrow> qstring \<Rightarrow> qstring" where
  "q_mid pos n s = take n (drop pos s)"

definition q_starts :: "qstring \<Rightarrow> qstring \<Rightarrow> bool" where
  "q_starts p s \<longleftrightarrow> take (length p) s = p"

definition q_ends :: "qstring \<Rightarrow> qstring \<Rightarrow> bool" where
  "q_ends e s \<longleftrightarrow> length e \<le> length s \<and> drop (length s - length e) s = e"

definition q_chop :: "nat \<Rightarrow> qstring \<Rightarrow> qstring" where
  "q_chop n s = take (length s - n) s"

definition q_words :: "qstring \<Rightarrow> qstring list" where
  "q_words s = filter (\<lambda>w. w \<noteq> []) (q_split 32 s)"

lemma q_starts_append: "q_starts p (p @ s)"
  by (simp add: q_starts_def)

lemma q_ends_append: "q_ends e (s @ e)"
  by (simp add: q_ends_def)

lemma q_chop_append: "q_chop (length e) (s @ e) = s"
  by (simp add: q_chop_def)

text \<open>
  \<open>setFromENotation\<close>: the digits of the meter where the exponent is one of the prefixes, otherwise as \<open>SiPrefix::format\<close> puts it
  (\<open>si_format\<close>: the text and the prefix; a parameter, because it formats a double).
\<close>

definition e_prefixes :: "(int \<times> qstring) list" where
  "e_prefixes = [(- 12, lit ''p''), (- 9, lit ''n''), (- 6, micro), (- 3, lit ''m''), (0, []), (3, lit ''k''), (6, lit ''M''), (9, lit ''G'')]"

definition e_exponent :: "qstring \<Rightarrow> int option" where
  "e_exponent number =
     (case find (\<lambda>i. number ! i = 69 \<or> number ! i = 101) [0..<length number] of
        None \<Rightarrow> None | Some e \<Rightarrow> q_to_int (drop (e + 1) number))"

definition setFromENotation :: "(dbl \<Rightarrow> qstring \<times> qstring) \<Rightarrow> qstring \<Rightarrow> dbl \<Rightarrow> qstring \<Rightarrow> int \<Rightarrow> dmm_response \<Rightarrow> dmm_response" where
  "setFromENotation si_format number v unit lowestExponent r =
     (case e_exponent number of
        Some x \<Rightarrow>
          if x \<ge> lowestExponent \<and> map_of e_prefixes x \<noteq> None then
            (let mantissa = takeWhile (\<lambda>c. c \<noteq> 69 \<and> c \<noteq> 101) number;
                 mantissa' = (if mantissa \<noteq> [] \<and> hd mantissa = 43 then tl mantissa else mantissa)
             in upd_main (\<lambda>c. c\<lparr>ch_val := mantissa', ch_unit := the (map_of e_prefixes x) @ unit\<rparr>) r)
          else upd_main (\<lambda>c. c\<lparr>ch_val := fst (si_format v), ch_unit := snd (si_format v) @ unit\<rparr>) r
      | None \<Rightarrow> upd_main (\<lambda>c. c\<lparr>ch_val := fst (si_format v), ch_unit := snd (si_format v) @ unit\<rparr>) r)"

subsection \<open>Facts\<close>

lemma length_lastBytes [simp]: "length (lastBytes data idx n) = n"
  by (simp add: lastBytes_def)

lemma re_main_upd [simp]: "re_channels r \<noteq> [] \<Longrightarrow> re_main (upd_main f r) = f (re_main r)"
  by (simp add: re_main_def upd_main_def)

lemma upd_main_simps [simp]:
  "re_range (upd_main f r) = re_range r" "re_hold (upd_main f r) = re_hold r" "re_showBar (upd_main f r) = re_showBar r"
  "re_lowBat (upd_main f r) = re_lowBat r" "re_channels (upd_main f r) = (re_channels r)[0 := f (re_main r)]"
  by (simp_all add: upd_main_def re_main_def)

lemma has_main_upd [simp]: "has_main (upd_main f r) = has_main r" "has_main response0"
  "has_main (r\<lparr>re_range := a\<rparr>) = has_main r" "has_main (r\<lparr>re_hold := b\<rparr>) = has_main r"
  "has_main (r\<lparr>re_showBar := b\<rparr>) = has_main r"
  by (simp_all add: has_main_def upd_main_def response0_def)

lemma sum16_append: "sum16Valid (appendSum16 f) (length f + 2)"
proof -
  have low: "ucast (ucast (w AND 0xFF :: u32) :: byte) = w AND 0xFF" for w :: u32
  proof (rule bit_word_eqI)
    fix n :: nat
    have "w AND 0xFF = take_bit 8 w" by (simp add: take_bit_eq_mask mask_eq_exp_minus_1)
    then show "bit (ucast (ucast (w AND 0xFF :: u32) :: byte) :: u32) n = bit (w AND 0xFF) n"
      by (auto simp: bit_simps)
  qed
  show ?thesis
    by (simp add: sum16Valid_def appendSum16_def nth_append low)
qed

subsection \<open>Reading a decimal\<close>

text \<open>
  What \<open>QString::toDouble\<close> documents for a decimal without an exponent: blanks in front are skipped, and the result is the
  double nearest to the number. \<open>plain_double\<close> is a function that does just this.
\<close>

definition decimal_text :: "qstring \<Rightarrow> bool \<Rightarrow> qstring \<Rightarrow> qstring \<Rightarrow> qstring" where
  "decimal_text ws neg ds fs = ws @ (if neg then [45] else []) @ ds @ (if fs = [] then [] else 46 # fs)"

definition decimal_value :: "qstring \<Rightarrow> qstring \<Rightarrow> rat" where
  "decimal_value ds fs = of_nat (digits_val (ds @ fs)) / 10 ^ length fs"

definition reads_decimals :: "(qstring \<Rightarrow> dbl option) \<Rightarrow> bool" where
  "reads_decimals to_double \<longleftrightarrow>
     (\<forall>ws neg ds fs. set ws \<subseteq> {32} \<longrightarrow> ds \<noteq> [] \<longrightarrow> list_all q_digit (ds @ fs) \<longrightarrow>
        to_double (decimal_text ws neg ds fs) = Some (dbl_mag neg (decimal_value ds fs)))"

definition plain_double :: "qstring \<Rightarrow> dbl option" where
  "plain_double s =
     (let t = dropWhile q_space s; neg = (t \<noteq> [] \<and> hd t = 45); u = (if neg then tl t else t);
          ds = takeWhile q_digit u; r = dropWhile q_digit u; fs = tl r
      in if ds = [] \<or> \<not> (r = [] \<or> hd r = 46 \<and> list_all q_digit fs) then None
         else Some (dbl_mag neg (decimal_value ds fs)))"

lemma plain_double_reads: "reads_decimals plain_double"
  unfolding reads_decimals_def
proof (intro allI impI)
  fix ws ds fs :: qstring and neg :: bool
  assume ws: "set ws \<subseteq> {32}" and ds: "ds \<noteq> []" and dig: "list_all q_digit (ds @ fs)"
  let ?r = "if fs = [] then [] else 46 # fs"
  have first: "q_digit (hd ds)" using ds dig by (cases ds) auto
  have nd: "q_space 32" "\<not> q_space 45" "\<not> q_digit 46" by (simp_all add: q_space_def q_digit_def)
  have "dropWhile q_space (decimal_text ws neg ds fs) = (if neg then [45] else []) @ ds @ ?r"
  proof -
    have "\<forall>x \<in> set ws. q_space x" using ws nd(1) by auto
    then have "dropWhile q_space (ws @ t) = dropWhile q_space t" for t by (simp add: dropWhile_append2)
    moreover have "dropWhile q_space (ds @ ?r) = ds @ ?r"
      using ds digit_not[OF first] by (cases ds) auto
    ultimately show ?thesis using nd(2) by (cases neg) (simp_all add: decimal_text_def)
  qed
  moreover have "hd (ds @ ?r) \<noteq> 45" using ds digit_not[OF first] by simp
  moreover have "takeWhile q_digit (ds @ ?r) = ds" "dropWhile q_digit (ds @ ?r) = ?r"
    using dig nd(3) by (auto simp: list_all_iff takeWhile_append2 dropWhile_append2)
  moreover have "tl ?r = fs" by simp
  ultimately show "plain_double (decimal_text ws neg ds fs) = Some (dbl_mag neg (decimal_value ds fs))"
    using ds dig by (auto simp: plain_double_def Let_def list_all_iff)
qed

end
