(* ===== verification/Frame_Reader.thy ===== *)
theory Frame_Reader
  imports Dmm_Decoder
begin

text \<open>
  \<open>src/src/device/framereader.h\<close> and \<open>framereader.cpp\<close>: the bytes of the port are written into a ring of 100 bytes; after
  each one the decoder is asked whether a frame ends there, and a frame is emitted with its number. A decoder is the
  record of the three functions the reader calls; what a decoder counts in \<open>pollRequest\<close> is the type variable \<open>'d\<close>. The
  port is the bytes that wait in it and the bytes written to it, \<open>None\<close> when there is none. Writing to no port is a null
  pointer dereference: the result is \<open>None\<close>.

  Slots connected to \<open>readEvent\<close> run after the read here; the slots of the program do not come back into the reader.
\<close>

subsection \<open>The reader\<close>

record 'd frame_decoder =
  fd_packetLength :: nat
  fd_checkFormat :: "bytes \<Rightarrow> nat \<Rightarrow> bool"
  fd_pollRequest :: "'d \<Rightarrow> bytes \<times> 'd"

record port =
  po_in :: bytes
  po_out :: bytes

record 'd reader =
  fr_readValue :: bool
  fr_fifo :: bytes
  fr_length :: nat
  fr_sendRequest :: bool
  fr_id :: nat
  fr_framesPerReading :: nat
  fr_decoder :: "'d frame_decoder option"
  fr_dstate :: 'd
  fr_port :: "port option"

record frame_event =
  ev_data :: bytes
  ev_id :: nat
  ev_t :: int
  ev_wall :: int

text \<open>The constructor leaves the ring as the memory was: \<open>ring\<close>.\<close>

definition reader0 :: "bytes \<Rightarrow> 'd \<Rightarrow> 'd reader" where
  "reader0 ring d = \<lparr>fr_readValue = False, fr_fifo = ring, fr_length = 0, fr_sendRequest = True, fr_id = 0,
     fr_framesPerReading = 1, fr_decoder = None, fr_dstate = d, fr_port = None\<rparr>"

definition setHandle :: "port option \<Rightarrow> 'd reader \<Rightarrow> 'd reader" where
  "setHandle h r = r\<lparr>fr_port := h, fr_readValue := False\<rparr>"

definition socketClose :: "'d reader \<Rightarrow> 'd reader" where
  "socketClose r = r\<lparr>fr_id := 0\<rparr>"

definition setDecoder :: "'d frame_decoder option \<Rightarrow> 'd \<Rightarrow> 'd reader \<Rightarrow> 'd reader" where
  "setDecoder d st r = r\<lparr>fr_decoder := d, fr_dstate := st\<rparr>"

definition setFramesPerReading :: "nat \<Rightarrow> 'd reader \<Rightarrow> 'd reader" where
  "setFramesPerReading n r = r\<lparr>fr_framesPerReading := n\<rparr>"

definition startRead :: "'d reader \<Rightarrow> 'd reader" where
  "startRead r = r\<lparr>fr_readValue := True, fr_sendRequest := True\<rparr>"

definition sendReadRequest :: "'d reader \<Rightarrow> 'd reader option" where
  "sendReadRequest r =
     (case fr_decoder r of
        None \<Rightarrow> Some r
      | Some d \<Rightarrow>
          if \<not> fr_sendRequest r then Some r
          else (case fd_pollRequest d (fr_dstate r) of
                  (request, st) \<Rightarrow>
                    if request = [] then Some (r\<lparr>fr_dstate := st\<rparr>)
                    else (case fr_port r of
                            None \<Rightarrow> None
                          | Some p \<Rightarrow> Some (r\<lparr>fr_dstate := st, fr_sendRequest := False,
                                         fr_port := Some (p\<lparr>po_out := po_out p @ request\<rparr>)\<rparr>))))"

definition reader_timer :: "'d reader \<Rightarrow> 'd reader option" where
  "reader_timer r =
     (if fr_readValue r then map_option (\<lambda>r'. r'\<lparr>fr_readValue := False\<rparr>) (sendReadRequest r) else Some r)"

definition packetLength :: "'d reader \<Rightarrow> nat" where
  "packetLength r = (case fr_decoder r of None \<Rightarrow> 0 | Some d \<Rightarrow> fd_packetLength d)"

definition complete_at :: "'d reader \<Rightarrow> bytes \<Rightarrow> nat \<Rightarrow> bool" where
  "complete_at r ring i = (case fr_decoder r of None \<Rightarrow> False | Some d \<Rightarrow> fd_checkFormat d ring i)"

text \<open>The copy loop: \<open>n\<close> bytes that end at \<open>len\<close>.\<close>

definition copy_out :: "bytes \<Rightarrow> nat \<Rightarrow> nat \<Rightarrow> bytes" where
  "copy_out ring len n = map (\<lambda>i. ring ! (((len + 1 + FIFO_LENGTH - n) mod FIFO_LENGTH + i) mod FIFO_LENGTH)) [0..<n]"

text \<open>One byte: the body of the loop up to the frame it completes.\<close>

definition read_byte :: "int \<Rightarrow> int \<Rightarrow> 'd reader \<Rightarrow> byte \<Rightarrow> 'd reader \<times> frame_event option" where
  "read_byte t wall r b =
     (let ring = (fr_fifo r)[fr_length r := b]; r1 = r\<lparr>fr_fifo := ring\<rparr>
      in if complete_at r ring (fr_length r) then
           (let bytesToRead = (if packetLength r > 0 then packetLength r else fr_length r + 1)
            in (r1\<lparr>fr_sendRequest := True, fr_length := 0, fr_id := (fr_id r + 1) mod fr_framesPerReading r\<rparr>,
                Some \<lparr>ev_data = copy_out ring (fr_length r) bytesToRead, ev_id = fr_id r, ev_t = t, ev_wall = wall\<rparr>))
         else if packetLength r = 0 \<and> fr_length r + 1 \<ge> FIFO_LENGTH then (r1\<lparr>fr_length := 0\<rparr>, None)
         else (r1\<lparr>fr_length := (fr_length r + 1) mod FIFO_LENGTH\<rparr>, None))"

text \<open>The loop: it leaves the rest in the port when fewer bytes wait than the frame had.\<close>

fun read_loop :: "int \<Rightarrow> int \<Rightarrow> bytes \<Rightarrow> 'd reader \<Rightarrow> 'd reader \<times> bytes \<times> frame_event list" where
  "read_loop t wall [] r = (r, [], [])"
| "read_loop t wall (b # bs) r =
     (case read_byte t wall r b of
        (r', None) \<Rightarrow> read_loop t wall bs r'
      | (r', Some ev) \<Rightarrow>
          if length bs < length (ev_data ev) then (r', bs, [ev])
          else (case read_loop t wall bs r' of (r'', rest, evs) \<Rightarrow> (r'', rest, ev # evs)))"

definition socketNotifierSLOT :: "int \<Rightarrow> int \<Rightarrow> 'd reader \<Rightarrow> 'd reader \<times> frame_event list" where
  "socketNotifierSLOT t wall r =
     (case fr_port r of
        None \<Rightarrow> (r, [])
      | Some p \<Rightarrow> (case read_loop t wall (po_in p) r of
                     (r', rest, evs) \<Rightarrow> (r'\<lparr>fr_port := Some (p\<lparr>po_in := rest\<rparr>)\<rparr>, evs)))"

text \<open>The port receives bytes and tells the reader; a sequence of such arrivals, with the times of each.\<close>

definition arrive :: "bytes \<times> int \<times> int \<Rightarrow> 'd reader \<Rightarrow> 'd reader \<times> frame_event list" where
  "arrive a r = (case a of (c, t, wall) \<Rightarrow>
     socketNotifierSLOT t wall (r\<lparr>fr_port := map_option (\<lambda>p. p\<lparr>po_in := po_in p @ c\<rparr>) (fr_port r)\<rparr>))"

fun arrivals :: "(bytes \<times> int \<times> int) list \<Rightarrow> 'd reader \<Rightarrow> 'd reader \<times> frame_event list" where
  "arrivals [] r = (r, [])"
| "arrivals (a # as) r =
     (case arrive a r of (r', evs) \<Rightarrow> (case arrivals as r' of (r'', evs') \<Rightarrow> (r'', evs @ evs')))"

definition waiting :: "'d reader \<Rightarrow> bytes" where
  "waiting r = (case fr_port r of None \<Rightarrow> [] | Some p \<Rightarrow> po_in p)"

subsection \<open>Well-formed readers\<close>

definition reader_ok :: "'d reader \<Rightarrow> bool" where
  "reader_ok r \<longleftrightarrow> length (fr_fifo r) = FIFO_LENGTH \<and> fr_length r < FIFO_LENGTH"

lemma FIFO_pos [simp]: "0 < FIFO_LENGTH"
  by (simp add: FIFO_LENGTH_def)

text \<open>The bytes one after the other, without the early end of the loop.\<close>

fun feed_bytes :: "bytes \<Rightarrow> 'd reader \<Rightarrow> 'd reader \<times> bytes list" where
  "feed_bytes [] r = (r, [])"
| "feed_bytes (b # bs) r =
     (case read_byte 0 0 r b of
        (r', e) \<Rightarrow> (case feed_bytes bs r' of
           (r'', fs) \<Rightarrow> (r'', (case e of None \<Rightarrow> fs | Some ev \<Rightarrow> ev_data ev # fs))))"

definition fires :: "'d reader \<Rightarrow> byte \<Rightarrow> bool" where
  "fires r b \<longleftrightarrow> complete_at r ((fr_fifo r)[fr_length r := b]) (fr_length r)"

lemma read_byte_keeps [simp]:
  "reader_ok r \<Longrightarrow> reader_ok (fst (read_byte t wall r b))"
  "fr_decoder (fst (read_byte t wall r b)) = fr_decoder r" "fr_port (fst (read_byte t wall r b)) = fr_port r"
  by (simp_all add: read_byte_def reader_ok_def Let_def)

lemma read_byte_fires: "snd (read_byte t wall r b) \<noteq> None \<longleftrightarrow> fires r b"
  by (simp add: read_byte_def fires_def Let_def)

lemma read_byte_time:
  "fst (read_byte t wall r b) = fst (read_byte 0 0 r b)"
  "map_option ev_data (snd (read_byte t wall r b)) = map_option ev_data (snd (read_byte 0 0 r b))"
  by (simp_all add: read_byte_def Let_def)

lemma read_byte_port:
  "read_byte t wall (r\<lparr>fr_port := x\<rparr>) b = ((fst (read_byte t wall r b))\<lparr>fr_port := x\<rparr>, snd (read_byte t wall r b))"
  by (simp add: read_byte_def Let_def complete_at_def packetLength_def)

lemma feed_bytes_keeps [simp]:
  "reader_ok r \<Longrightarrow> reader_ok (fst (feed_bytes bs r))"
  "fr_decoder (fst (feed_bytes bs r)) = fr_decoder r" "fr_port (fst (feed_bytes bs r)) = fr_port r"
  by (induction bs arbitrary: r) (simp_all add: split_beta)

lemma feed_append:
  "feed_bytes (a @ b) r =
     (fst (feed_bytes b (fst (feed_bytes a r))), snd (feed_bytes a r) @ snd (feed_bytes b (fst (feed_bytes a r))))"
  by (induction a arbitrary: r) (auto simp: split_beta split: option.splits)

lemma feed_port: "feed_bytes bs (r\<lparr>fr_port := x\<rparr>) = ((fst (feed_bytes bs r))\<lparr>fr_port := x\<rparr>, snd (feed_bytes bs r))"
  by (induction bs arbitrary: r) (auto simp: split_beta read_byte_port split: option.splits)

text \<open>
  A read takes a part of what waits, as if byte by byte. When it leaves something, the last byte it took completed a
  frame, and what it left is shorter than that frame.
\<close>

definition stop_ok :: "'d reader \<Rightarrow> bytes \<Rightarrow> bytes \<Rightarrow> bool" where
  "stop_ok r used rest \<longleftrightarrow>
     rest = [] \<or> (used \<noteq> [] \<and> fires (fst (feed_bytes (butlast used) r)) (last used) \<and>
       snd (feed_bytes used r) \<noteq> [] \<and> length rest < length (last (snd (feed_bytes used r))))"

lemma stop_ok_append: "stop_ok (fst (feed_bytes a r)) b rest \<Longrightarrow> stop_ok r (a @ b) rest"
  by (auto simp: stop_ok_def feed_append butlast_append)

lemma read_loop_feed:
  "\<exists>used. bs = used @ fst (snd (read_loop t wall bs r)) \<and>
     feed_bytes used r = (fst (read_loop t wall bs r), map ev_data (snd (snd (read_loop t wall bs r)))) \<and>
     stop_ok r used (fst (snd (read_loop t wall bs r)))"
proof (induction bs arbitrary: r)
  case Nil
  then show ?case by (simp add: stop_ok_def)
next
  case (Cons b bs)
  let ?r = "fst (read_byte t wall r b)" and ?e = "snd (read_byte t wall r b)"
  have one: "feed_bytes [b] r = (?r, case ?e of None \<Rightarrow> [] | Some ev \<Rightarrow> [ev_data ev])"
    using read_byte_time[of t wall r b] by (auto simp: split_beta split: option.splits)
  obtain used where u: "bs = used @ fst (snd (read_loop t wall bs ?r))"
      "feed_bytes used ?r = (fst (read_loop t wall bs ?r), map ev_data (snd (snd (read_loop t wall bs ?r))))"
      "stop_ok ?r used (fst (snd (read_loop t wall bs ?r)))"
    using Cons by blast
  have go: "feed_bytes (b # used) r = (fst (read_loop t wall bs ?r),
        (case ?e of None \<Rightarrow> [] | Some ev \<Rightarrow> [ev_data ev]) @ map ev_data (snd (snd (read_loop t wall bs ?r))))"
    using feed_append[of "[b]" used r] one u(2) by simp
  have ok: "stop_ok r (b # used) (fst (snd (read_loop t wall bs ?r)))"
    using stop_ok_append[of "[b]" r used] one u(3) by simp
  show ?case
  proof (cases ?e)
    case None
    then show ?thesis using u(1) go ok by (intro exI[of _ "b # used"]) (simp add: split_beta)
  next
    case (Some ev)
    show ?thesis
    proof (cases "length bs < length (ev_data ev)")
      case True
      have "fires r b" using Some read_byte_fires[of t wall r b] by simp
      then have "stop_ok r [b] bs" using True Some one by (simp add: stop_ok_def)
      then show ?thesis using True Some one by (intro exI[of _ "[b]"]) (simp add: split_beta)
    next
      case False
      then show ?thesis using u(1) go ok Some by (intro exI[of _ "b # used"]) (simp add: split_beta)
    qed
  qed
qed

lemma arrive_feed:
  assumes "fr_port r \<noteq> None"
  shows "\<exists>used x. waiting r @ fst a = used @ waiting (fst (arrive a r)) \<and>
    fst (arrive a r) = (fst (feed_bytes used r))\<lparr>fr_port := Some x\<rparr> \<and>
    map ev_data (snd (arrive a r)) = snd (feed_bytes used r) \<and> stop_ok r used (waiting (fst (arrive a r)))"
proof -
  obtain c t wall where a: "a = (c, t, wall)" by (cases a)
  obtain p where p: "fr_port r = Some p" using assms by blast
  let ?r = "r\<lparr>fr_port := Some (p\<lparr>po_in := po_in p @ c\<rparr>)\<rparr>" and ?w = "po_in p @ c"
  obtain used where u: "?w = used @ fst (snd (read_loop t wall ?w ?r))"
      "feed_bytes used ?r = (fst (read_loop t wall ?w ?r), map ev_data (snd (snd (read_loop t wall ?w ?r))))"
      "stop_ok ?r used (fst (snd (read_loop t wall ?w ?r)))"
    using read_loop_feed by blast
  have st: "stop_ok r used rest = stop_ok ?r used rest" for rest
    by (simp add: stop_ok_def feed_port fires_def complete_at_def)
  have "fst (read_loop t wall ?w ?r) = (fst (feed_bytes used r))\<lparr>fr_port := Some (p\<lparr>po_in := po_in p @ c\<rparr>)\<rparr>"
    using u(2) by (simp add: feed_port)
  moreover have "map ev_data (snd (snd (read_loop t wall ?w ?r))) = snd (feed_bytes used r)"
    using u(2) by (simp add: feed_port)
  ultimately show ?thesis
    using u p st by (intro exI[of _ used])
      (auto simp: a arrive_def socketNotifierSLOT_def waiting_def split_beta intro!: exI)
qed

lemma arrivals_feed:
  assumes "fr_port r \<noteq> None"
  shows "\<exists>used x. waiting r @ concat (map fst as) = used @ waiting (fst (arrivals as r)) \<and>
    fst (arrivals as r) = (fst (feed_bytes used r))\<lparr>fr_port := Some x\<rparr> \<and>
    map ev_data (snd (arrivals as r)) = snd (feed_bytes used r) \<and>
    (as \<noteq> [] \<longrightarrow> stop_ok r used (waiting (fst (arrivals as r))))"
  using assms
proof (induction as arbitrary: r)
  case Nil
  then obtain p where "fr_port r = Some p" by blast
  then have "r = r\<lparr>fr_port := Some p\<rparr>" by (cases r) simp
  then show ?case by (intro exI[of _ "[]"]) auto
next
  case (Cons a as)
  obtain u x where u: "waiting r @ fst a = u @ waiting (fst (arrive a r))"
      "fst (arrive a r) = (fst (feed_bytes u r))\<lparr>fr_port := Some x\<rparr>"
      "map ev_data (snd (arrive a r)) = snd (feed_bytes u r)" "stop_ok r u (waiting (fst (arrive a r)))"
    using arrive_feed[OF Cons.prems] by blast
  let ?r = "fst (arrive a r)"
  have port: "fr_port ?r \<noteq> None" using u(2) by simp
  obtain v y where v: "waiting ?r @ concat (map fst as) = v @ waiting (fst (arrivals as ?r))"
      "fst (arrivals as ?r) = (fst (feed_bytes v ?r))\<lparr>fr_port := Some y\<rparr>"
      "map ev_data (snd (arrivals as ?r)) = snd (feed_bytes v ?r)"
      "as \<noteq> [] \<longrightarrow> stop_ok ?r v (waiting (fst (arrivals as ?r)))"
    using Cons.IH[OF port] by blast
  have st: "stop_ok ?r v rest = stop_ok (fst (feed_bytes u r)) v rest" for rest
    by (simp add: u(2) stop_ok_def feed_port fires_def complete_at_def)
  have "stop_ok r (u @ v) (waiting (fst (arrivals as ?r)))"
  proof (cases "as = []")
    case True
    then show ?thesis using u(4) v(1) by simp
  next
    case False
    then show ?thesis using v(4) st stop_ok_append by blast
  qed
  moreover have "snd (feed_bytes (u @ v) r) = snd (feed_bytes u r) @ snd (feed_bytes v ?r)"
    by (simp add: feed_append u(2) feed_port)
  moreover have "fst (arrivals as ?r) = (fst (feed_bytes (u @ v) r))\<lparr>fr_port := Some y\<rparr>"
    unfolding v(2) by (simp add: feed_append u(2) feed_port)
  moreover have "waiting r @ concat (map fst (a # as)) = (u @ v) @ waiting (fst (arrivals as ?r))"
    using u(1) v(1) by (metis append.assoc concat.simps(2) list.simps(9))
  ultimately show ?case
    using u(3) v(3) by (intro exI[of _ "u @ v"] exI[of _ y]) (simp add: split_beta)
qed

subsection \<open>Packets of a fixed length\<close>

text \<open>
  The contract of a decoder whose packets have \<open>L\<close> bytes: a packet (\<open>good\<close>) has one terminator, at its end; nothing is
  accepted that does not end in one, and a packet that lies whole in the ring is accepted.
\<close>

locale packet_code =
  fixes check :: "bytes \<Rightarrow> nat \<Rightarrow> bool"
    and L :: nat
    and good :: "bytes \<Rightarrow> bool"
    and ends :: "byte \<Rightarrow> bool"
  assumes packet_len: "0 < L" "L \<le> FIFO_LENGTH"
    and check_ends: "check ring i \<Longrightarrow> ends (ring ! i)"
    and good_length: "good f \<Longrightarrow> length f = L"
    and good_ends: "good f \<Longrightarrow> ends (last f) \<and> (\<forall>b \<in> set (butlast f). \<not> ends b)"
    and good_check: "length ring = FIFO_LENGTH \<Longrightarrow> i < FIFO_LENGTH \<Longrightarrow> good (lastBytes ring i L) \<Longrightarrow> check ring i"
begin

definition reads :: "'d reader \<Rightarrow> bool" where
  "reads r \<longleftrightarrow> reader_ok r \<and> packetLength r = L \<and> (\<forall>ring i. complete_at r ring i = check ring i)"

lemma reads_byte: "reads r \<Longrightarrow> reads (fst (read_byte t wall r b))"
  by (simp add: reads_def packetLength_def complete_at_def)

lemma reads_feed: "reads r \<Longrightarrow> reads (fst (feed_bytes bs r))"
  by (simp add: reads_def packetLength_def complete_at_def)

lemma fires_ends: "reads r \<Longrightarrow> fires r b \<Longrightarrow> ends b"
  using check_ends by (fastforce simp: reads_def fires_def reader_ok_def)

text \<open>Bytes that end no packet are written one after the other into the ring.\<close>

lemma feed_quiet:
  assumes "reads r" and "\<forall>b \<in> set bs. \<not> ends b" and "length bs \<le> FIFO_LENGTH"
  shows "snd (feed_bytes bs r) = [] \<and>
    fr_length (fst (feed_bytes bs r)) = (fr_length r + length bs) mod FIFO_LENGTH \<and>
    (\<forall>k < length bs. fr_fifo (fst (feed_bytes bs r)) ! ((fr_length r + k) mod FIFO_LENGTH) = bs ! k)"
  using assms(2,3)
proof (induction bs rule: rev_induct)
  case Nil
  then show ?case using assms(1) by (simp add: reads_def reader_ok_def)
next
  case (snoc b bs)
  let ?r = "fst (feed_bytes bs r)"
  have IH: "snd (feed_bytes bs r) = []" "fr_length ?r = (fr_length r + length bs) mod FIFO_LENGTH"
      "\<forall>k < length bs. fr_fifo ?r ! ((fr_length r + k) mod FIFO_LENGTH) = bs ! k"
    using snoc by auto
  have rd: "reads ?r" using assms(1) by (rule reads_feed)
  have quiet: "\<not> fires ?r b" using fires_ends[OF rd] snoc.prems(1) by auto
  have L: "packetLength ?r \<noteq> 0" using rd packet_len by (simp add: reads_def)
  have step: "read_byte 0 0 ?r b =
      (?r\<lparr>fr_fifo := (fr_fifo ?r)[fr_length ?r := b], fr_length := (fr_length ?r + 1) mod FIFO_LENGTH\<rparr>, None)"
    using quiet L by (simp add: read_byte_def fires_def Let_def)
  have len: "length (fr_fifo ?r) = FIFO_LENGTH" using rd by (simp add: reads_def reader_ok_def)
  have other: "(fr_length r + k) mod FIFO_LENGTH \<noteq> (fr_length r + length bs) mod FIFO_LENGTH" if "k < length bs" for k
  proof
    assume "(fr_length r + k) mod FIFO_LENGTH = (fr_length r + length bs) mod FIFO_LENGTH"
    then have "FIFO_LENGTH dvd (fr_length r + length bs) - (fr_length r + k)"
      using that by (intro mod_eq_dvd_iff_nat[THEN iffD1]) simp_all
    then show False using that snoc.prems(2) by (auto dest: dvd_imp_le)
  qed
  have "fr_fifo (fst (feed_bytes (bs @ [b]) r)) ! ((fr_length r + k) mod FIFO_LENGTH) = (bs @ [b]) ! k"
    if "k < length (bs @ [b])" for k
  proof (cases "k = length bs")
    case True
    then show ?thesis using len IH(2) by (simp add: feed_append step)
  next
    case False
    then have "k < length bs" using that by simp
    then show ?thesis using IH(2,3) other[of k] not_sym by (simp add: feed_append step nth_append)
  qed
  then show ?case using IH by (simp add: feed_append step mod_Suc_eq)
qed

lemma copy_out_lastBytes: "len < FIFO_LENGTH \<Longrightarrow> n \<le> FIFO_LENGTH \<Longrightarrow> copy_out ring len n = lastBytes ring len n"
proof -
  assume *: "len < FIFO_LENGTH" "n \<le> FIFO_LENGTH"
  have "((len + 1 + FIFO_LENGTH - n) mod FIFO_LENGTH + i) mod FIFO_LENGTH = (len + FIFO_LENGTH - (n - 1 - i)) mod FIFO_LENGTH"
    if "i < n" for i
  proof -
    have "len + 1 + FIFO_LENGTH - n + i = len + FIFO_LENGTH - (n - 1 - i)" using that * by simp
    then show ?thesis by (metis mod_add_left_eq)
  qed
  then show ?thesis by (simp add: copy_out_def lastBytes_def ringByte_def)
qed

text \<open>A packet is emitted whatever the ring held before.\<close>

lemma feed_packet:
  assumes "reads r" and "good f"
  shows "snd (feed_bytes f r) = [f]"
proof -
  obtain u b where f: "f = u @ [b]" using good_length[OF assms(2)] packet_len by (metis length_greater_0_conv rev_exhaust)
  have b: "ends b" "\<forall>x \<in> set u. \<not> ends x" using good_ends[OF assms(2)] f by auto
  have lu: "Suc (length u) = L" using good_length[OF assms(2)] f by simp
  let ?r = "fst (feed_bytes u r)" and ?m = "fr_length (fst (feed_bytes u r))"
  let ?ring = "(fr_fifo ?r)[?m := b]"
  have q: "snd (feed_bytes u r) = []" "?m = (fr_length r + length u) mod FIFO_LENGTH"
      "\<forall>k < length u. fr_fifo ?r ! ((fr_length r + k) mod FIFO_LENGTH) = u ! k"
    using feed_quiet[OF assms(1) b(2)] lu packet_len by auto
  have rd: "reads ?r" using assms(1) by (rule reads_feed)
  then have ok: "length (fr_fifo ?r) = FIFO_LENGTH" "?m < FIFO_LENGTH" by (simp_all add: reads_def reader_ok_def)
  have "lastBytes ?ring ?m L = f"
  proof (rule nth_equalityI)
    show "length (lastBytes ?ring ?m L) = length f" using lu f by simp
    fix i assume "i < length (lastBytes ?ring ?m L)"
    then have i: "i < L" by simp
    have pos: "(?m + FIFO_LENGTH - (L - 1 - i)) mod FIFO_LENGTH = (fr_length r + i) mod FIFO_LENGTH"
    proof -
      have "(?m + (FIFO_LENGTH - (L - 1 - i))) mod FIFO_LENGTH
          = (fr_length r + length u + (FIFO_LENGTH - (L - 1 - i))) mod FIFO_LENGTH"
        unfolding q(2) by (rule mod_add_left_eq)
      also have "fr_length r + length u + (FIFO_LENGTH - (L - 1 - i)) = fr_length r + i + FIFO_LENGTH"
        using lu i packet_len by simp
      finally have "(?m + (FIFO_LENGTH - (L - 1 - i))) mod FIFO_LENGTH = (fr_length r + i) mod FIFO_LENGTH"
        by simp
      moreover have "?m + FIFO_LENGTH - (L - 1 - i) = ?m + (FIFO_LENGTH - (L - 1 - i))"
        using i packet_len by simp
      ultimately show ?thesis by (simp only:)
    qed
    have lb: "lastBytes ?ring ?m L ! i = ?ring ! ((fr_length r + i) mod FIFO_LENGTH)"
      unfolding pos[symmetric] using i by (simp add: lastBytes_def ringByte_def)
    show "lastBytes ?ring ?m L ! i = f ! i"
    proof (cases "i = length u")
      case True
      then show ?thesis unfolding lb using ok q(2) f by simp
    next
      case False
      then have k: "i < length u" using i lu by simp
      have "(fr_length r + i) mod FIFO_LENGTH \<noteq> ?m"
      proof
        assume "(fr_length r + i) mod FIFO_LENGTH = ?m"
        then have "FIFO_LENGTH dvd (fr_length r + length u) - (fr_length r + i)"
          unfolding q(2) using k by (intro mod_eq_dvd_iff_nat[THEN iffD1]) simp_all
        then show False using k lu packet_len by (auto dest: dvd_imp_le)
      qed
      then show ?thesis unfolding lb using k q(3) f not_sym by (simp add: nth_append)
    qed
  qed
  moreover from this have "check ?ring ?m" using good_check[of ?ring ?m] ok assms(2) by simp
  ultimately have "snd (read_byte 0 0 ?r b) \<noteq> None \<and> map_option ev_data (snd (read_byte 0 0 ?r b)) = Some f"
    using rd ok packet_len by (simp add: read_byte_def reads_def Let_def copy_out_lastBytes)
  then show ?thesis using q(1) by (auto simp: f feed_append split_beta)
qed

lemma feed_packets:
  fixes r :: "'d reader"
  assumes "reads r" and "\<forall>f \<in> set fs. good f"
  shows "snd (feed_bytes (g @ concat fs) r) = snd (feed_bytes g r) @ fs"
proof -
  have "snd (feed_bytes (concat fs) s) = fs" if "reads s" for s :: "'d reader"
    using assms(2) that by (induction fs arbitrary: s) (auto simp: feed_append feed_packet reads_feed)
  then show ?thesis using reads_feed[OF assms(1)] by (simp add: feed_append)
qed

text \<open>
  Whatever came before, and however the stream is cut: once a packet has arrived whole, all packets are emitted, in
  order, behind what the garbage before them gave, and nothing is left waiting.
\<close>

lemma delivery:
  fixes r :: "'d reader"
  assumes "reads r" and "fr_port r \<noteq> None" and "\<forall>f \<in> set fs. good f" and "fs \<noteq> []" and "as \<noteq> []"
    and stream: "waiting r @ concat (map fst as) = g @ concat fs"
  shows "map ev_data (snd (arrivals as r)) = snd (feed_bytes g r) @ fs" and "waiting (fst (arrivals as r)) = []"
proof -
  obtain used x where u: "g @ concat fs = used @ waiting (fst (arrivals as r))"
      "map ev_data (snd (arrivals as r)) = snd (feed_bytes used r)" "stop_ok r used (waiting (fst (arrivals as r)))"
    using arrivals_feed[OF assms(2), of as] assms(5) unfolding stream by blast
  let ?rest = "waiting (fst (arrivals as r))"
  have sizes: "\<forall>f \<in> set (snd (feed_bytes bs s)). length f = L" if "reads s" for bs and s :: "'d reader"
    using that
  proof (induction bs arbitrary: s)
    case (Cons b bs)
    have "length (ev_data e) = L" if "snd (read_byte 0 0 s b) = Some e" for e
      using that Cons.prems packet_len
      by (auto simp: read_byte_def reads_def Let_def copy_out_def split: if_splits)
    then show ?case using Cons.IH[OF reads_byte[OF Cons.prems]] by (auto simp: split_beta split: option.splits)
  qed simp
  show rest: "?rest = []"
  proof (rule ccontr)
    assume ne: "?rest \<noteq> []"
    then have s: "used \<noteq> []" "fires (fst (feed_bytes (butlast used) r)) (last used)"
        "snd (feed_bytes used r) \<noteq> []" "length ?rest < length (last (snd (feed_bytes used r)))"
      using u(3) by (auto simp: stop_ok_def)
    have short: "length ?rest < L" using s(3,4) sizes[OF assms(1), of used] by simp
    obtain gs f where fs: "fs = gs @ [f]" using assms(4) by (metis rev_exhaust)
    have f: "good f" "length f = L" using assms(3) fs good_length by auto
    let ?k = "L - length ?rest"
    have "used @ ?rest = (g @ concat gs @ take ?k f) @ drop ?k f" using u(1) fs by simp
    moreover have "length ?rest = length (drop ?k f)" using f(2) short by simp
    ultimately have used: "used = g @ concat gs @ take ?k f" by (metis append_eq_append_conv)
    have k: "0 < ?k" "?k < L" using short ne by auto
    then have tk: "take ?k f \<noteq> []" using f(2) by auto
    have "last used = last (take ?k f)" using tk by (simp add: used)
    also have "\<dots> = f ! (?k - 1)" by (subst last_conv_nth[OF tk]) (use k f(2) in simp)
    finally have "last used \<in> set (butlast f)"
      using k f(2) by (simp add: in_set_conv_nth) (rule exI[of _ "?k - 1"], simp add: nth_butlast)
    then show False using fires_ends[OF reads_feed[OF assms(1)] s(2)] good_ends[OF f(1)] by blast
  qed
  show "map ev_data (snd (arrivals as r)) = snd (feed_bytes g r) @ fs"
    using u(1,2) rest feed_packets[OF assms(1,3), of g] by simp
qed

end

subsection \<open>Lines\<close>

text \<open>
  A protocol without a fixed length is specified by the bytes since the last frame: they are a frame as soon as \<open>P\<close>
  holds of them, and are dropped when there are 100 of them.
\<close>

fun lines_of :: "(bytes \<Rightarrow> bool) \<Rightarrow> bytes \<Rightarrow> bytes \<Rightarrow> bytes \<times> bytes list" where
  "lines_of P acc [] = (acc, [])"
| "lines_of P acc (b # bs) =
     (if P (acc @ [b]) then (case lines_of P [] bs of (acc', fs) \<Rightarrow> (acc', (acc @ [b]) # fs))
      else if length acc + 1 \<ge> FIFO_LENGTH then lines_of P [] bs
      else lines_of P (acc @ [b]) bs)"

text \<open>The contract: what the decoder accepts depends on the bytes from the start of the ring only.\<close>

locale line_code =
  fixes check :: "bytes \<Rightarrow> nat \<Rightarrow> bool"
    and P :: "bytes \<Rightarrow> bool"
  assumes check_line: "length ring = FIFO_LENGTH \<Longrightarrow> i < FIFO_LENGTH \<Longrightarrow> check ring i \<longleftrightarrow> P (take (Suc i) ring)"
begin

definition reads :: "'d reader \<Rightarrow> bool" where
  "reads r \<longleftrightarrow> reader_ok r \<and> packetLength r = 0 \<and> (\<forall>ring i. complete_at r ring i = check ring i)"

lemma reads_byte: "reads r \<Longrightarrow> reads (fst (read_byte t wall r b))"
  by (simp add: reads_def packetLength_def complete_at_def)

definition line_so_far :: "'d reader \<Rightarrow> bytes" where
  "line_so_far r = take (fr_length r) (fr_fifo r)"

lemma copy_line: "length ring = FIFO_LENGTH \<Longrightarrow> i < FIFO_LENGTH \<Longrightarrow> copy_out ring i (Suc i) = take (Suc i) ring"
  by (rule nth_equalityI) (simp_all add: copy_out_def del: upt_Suc)

lemma byte_line:
  assumes "reads r"
  shows "read_byte t wall r b =
    (let r' = fst (read_byte t wall r b) in
     (r', if P (line_so_far r @ [b]) then Some \<lparr>ev_data = line_so_far r @ [b], ev_id = fr_id r, ev_t = t, ev_wall = wall\<rparr>
          else None))"
    and "line_so_far (fst (read_byte t wall r b)) =
      (if P (line_so_far r @ [b]) \<or> length (line_so_far r) + 1 \<ge> FIFO_LENGTH then [] else line_so_far r @ [b])"
proof -
  let ?i = "fr_length r" and ?ring = "(fr_fifo r)[fr_length r := b]"
  have ok: "length (fr_fifo r) = FIFO_LENGTH" "?i < FIFO_LENGTH" "packetLength r = 0"
      "\<And>ring i. complete_at r ring i = check ring i"
    using assms by (auto simp: reads_def reader_ok_def)
  have tk: "take (Suc ?i) ?ring = line_so_far r @ [b]" "length (line_so_far r) = ?i"
    using ok by (simp_all add: line_so_far_def take_Suc_conv_app_nth)
  have c: "check ?ring ?i = P (line_so_far r @ [b])" using check_line[of ?ring ?i] ok tk by simp
  show "read_byte t wall r b = (let r' = fst (read_byte t wall r b) in
     (r', if P (line_so_far r @ [b]) then Some \<lparr>ev_data = line_so_far r @ [b], ev_id = fr_id r, ev_t = t, ev_wall = wall\<rparr>
          else None))"
    using ok tk copy_line[of ?ring ?i] by (simp add: read_byte_def Let_def c)
  show "line_so_far (fst (read_byte t wall r b)) =
      (if P (line_so_far r @ [b]) \<or> length (line_so_far r) + 1 \<ge> FIFO_LENGTH then [] else line_so_far r @ [b])"
    using ok tk by (auto simp: read_byte_def Let_def c line_so_far_def[of "_ :: 'd reader"] mod_Suc)
qed

text \<open>The ring refines the specification: what it held before the line never shows.\<close>

lemma feed_lines:
  assumes "reads r"
  shows "lines_of P (line_so_far r) bs = (line_so_far (fst (feed_bytes bs r)), snd (feed_bytes bs r))"
  using assms
proof (induction bs arbitrary: r)
  case (Cons b bs)
  let ?r = "fst (read_byte 0 0 r b)"
  have IH: "lines_of P (line_so_far ?r) bs = (line_so_far (fst (feed_bytes bs ?r)), snd (feed_bytes bs ?r))"
    by (rule Cons.IH) (rule reads_byte[OF Cons.prems])
  have e: "snd (read_byte 0 0 r b) =
      (if P (line_so_far r @ [b]) then Some \<lparr>ev_data = line_so_far r @ [b], ev_id = fr_id r, ev_t = 0, ev_wall = 0\<rparr> else None)"
    using arg_cong[OF byte_line(1)[OF Cons.prems, of 0 0 b], of snd] by (simp add: Let_def)
  note l = byte_line(2)[OF Cons.prems, of 0 0 b]
  consider (frame) "P (line_so_far r @ [b])"
    | (full) "\<not> P (line_so_far r @ [b])" "length (line_so_far r) + 1 \<ge> FIFO_LENGTH"
    | (on) "\<not> P (line_so_far r @ [b])" "\<not> length (line_so_far r) + 1 \<ge> FIFO_LENGTH"
    by blast
  then show ?case
  proof cases
    case frame
    then have "lines_of P [] bs = (line_so_far (fst (feed_bytes bs ?r)), snd (feed_bytes bs ?r))" using IH l by simp
    then show ?thesis using frame by (simp add: split_beta e)
  next
    case full
    then have "lines_of P [] bs = (line_so_far (fst (feed_bytes bs ?r)), snd (feed_bytes bs ?r))" using IH l by simp
    then show ?thesis using full by (simp add: split_beta e)
  next
    case on
    then have "lines_of P (line_so_far r @ [b]) bs = (line_so_far (fst (feed_bytes bs ?r)), snd (feed_bytes bs ?r))"
      using IH l by simp
    then show ?thesis using on by (simp add: split_beta e)
  qed
qed simp

text \<open>A line that comes alone, in any pieces, is emitted whole, and the reader is ready for the next one.\<close>

lemma one_line:
  fixes r :: "'d reader"
  assumes "reads r" and "fr_port r \<noteq> None" and "fr_length r = 0" and "waiting r = []" and "as \<noteq> []"
    and line: "concat (map fst as) = l" "P l" "l \<noteq> []" "length l \<le> FIFO_LENGTH"
    and first: "\<And>n. 0 < n \<Longrightarrow> n < length l \<Longrightarrow> \<not> P (take n l)"
  shows "map ev_data (snd (arrivals as r)) = [l]" and "waiting (fst (arrivals as r)) = []"
    and "fr_length (fst (arrivals as r)) = 0"
proof -
  obtain used x where u: "l = used @ waiting (fst (arrivals as r))"
      "fst (arrivals as r) = (fst (feed_bytes used r))\<lparr>fr_port := Some x\<rparr>"
      "map ev_data (snd (arrivals as r)) = snd (feed_bytes used r)" "stop_ok r used (waiting (fst (arrivals as r)))"
    using arrivals_feed[OF assms(2), of as] assms(4,5) line(1) by auto
  have start: "line_so_far r = []" using assms(3) by (simp add: line_so_far_def)
  have quiet: "lines_of P (take k l) (drop k (take n l)) = (take n l, [])" if "k \<le> n" "n < length l" for k n
    using that
  proof (induction "n - k" arbitrary: k)
    case (Suc d)
    then have k: "k < n" by simp
    then have "drop k (take n l) = l ! k # drop (Suc k) (take n l)"
      using Suc.prems by (simp add: Cons_nth_drop_Suc[symmetric])
    moreover have "take k l @ [l ! k] = take (Suc k) l" using k Suc.prems by (simp add: take_Suc_conv_app_nth)
    ultimately show ?case using Suc first[of "Suc k"] k line(4) by simp
  qed simp
  have whole: "waiting (fst (arrivals as r)) = []"
  proof (rule ccontr)
    assume ne: "waiting (fst (arrivals as r)) \<noteq> []"
    then have "used = take (length used) l" "length used < length l" using u(1) by (auto simp: arg_cong[OF u(1)])
    then have "snd (feed_bytes used r) = []"
      using quiet[of 0 "length used"] feed_lines[OF assms(1), of used] start by simp
    then show False using u(4) ne by (simp add: stop_ok_def)
  qed
  then have used: "used = l" using u(1) by simp
  let ?n = "length l - 1"
  have l: "l = take ?n l @ [l ! ?n]" "take ?n l @ [l ! ?n] = l"
    using line(3) by (simp_all add: take_Suc_conv_app_nth[symmetric])
  have "lines_of P [] l = ([], [l])"
  proof -
    have app: "lines_of P a (u @ [b]) = (let (acc, fs) = lines_of P a u in
        if P (acc @ [b]) then ([], fs @ [acc @ [b]]) else if length acc + 1 \<ge> FIFO_LENGTH then ([], fs) else (acc @ [b], fs))"
      for a u b
      by (induction u arbitrary: a) (auto simp: Let_def split_beta)
    show ?thesis
      using app[of "[]" "take ?n l" "l ! ?n"] quiet[of 0 ?n] line(2,3) l by simp
  qed
  then have "snd (feed_bytes l r) = [l]" "line_so_far (fst (feed_bytes l r)) = []"
    using feed_lines[OF assms(1), of l] start by simp_all
  moreover have "reads (fst (feed_bytes l r))"
    using assms(1) by (simp add: reads_def packetLength_def complete_at_def)
  ultimately show "map ev_data (snd (arrivals as r)) = [l]" "waiting (fst (arrivals as r)) = []"
      "fr_length (fst (arrivals as r)) = 0"
    using u(2,3) whole unfolding used by (auto simp: line_so_far_def reads_def reader_ok_def)
qed

text \<open>
  Two lines in one read, the second one shorter: only the first is emitted. The second waits in the port until more
  bytes come.
\<close>

lemma shorter_line_waits:
  assumes "reads r" and "fr_port r = Some p" and "po_in p = []" and "fr_length r = 0"
    and "P l" and "\<And>n. 0 < n \<Longrightarrow> n < length l \<Longrightarrow> \<not> P (take n l)" and "length l \<le> FIFO_LENGTH"
    and "length m < length l"
  shows "map ev_data (snd (arrive (l @ m, t, wall) r)) = [l]" and "waiting (fst (arrive (l @ m, t, wall) r)) = m"
proof -
  have go: "\<exists>r' e. read_loop t wall (drop k l @ m) s = (r', m, [e]) \<and> ev_data e = l"
    if "reads s" "line_so_far s = take k l" "k < length l" for k s
    using that
  proof (induction "length l - k" arbitrary: k s)
    case (Suc d)
    have d: "drop k l @ m = l ! k # drop (Suc k) l @ m" using Suc.prems(3) by (simp add: Cons_nth_drop_Suc)
    have tk: "line_so_far s @ [l ! k] = take (Suc k) l" using Suc.prems by (simp add: take_Suc_conv_app_nth)
    let ?s = "fst (read_byte t wall s (l ! k))"
    show ?case
    proof (cases "Suc k = length l")
      case True
      then have "snd (read_byte t wall s (l ! k)) = Some \<lparr>ev_data = l, ev_id = fr_id s, ev_t = t, ev_wall = wall\<rparr>"
        using arg_cong[OF byte_line(1)[OF Suc.prems(1), of t wall "l ! k"], of snd] tk assms(5) by (simp add: Let_def)
      then show ?thesis using True d assms(8) by (simp add: split_beta)
    next
      case False
      then have k: "Suc k < length l" using Suc.prems(3) by simp
      then have np: "\<not> P (take (Suc k) l)" using assms(6) by simp
      have "snd (read_byte t wall s (l ! k)) = None"
        using arg_cong[OF byte_line(1)[OF Suc.prems(1), of t wall "l ! k"], of snd] tk np by (simp add: Let_def)
      moreover have "line_so_far ?s = take (Suc k) l"
        using byte_line(2)[OF Suc.prems(1), of t wall "l ! k"] tk np k assms(7) Suc.prems(2,3) by simp
      ultimately show ?thesis
        using Suc.hyps(1)[of "Suc k" ?s] Suc.hyps(2) reads_byte[OF Suc.prems(1)] k d by (simp add: split_beta)
    qed
  qed simp
  let ?r = "r\<lparr>fr_port := Some (p\<lparr>po_in := l @ m\<rparr>)\<rparr>"
  have "reads ?r" "line_so_far ?r = take 0 l" "0 < length l"
    using assms by (auto simp: reads_def reader_ok_def packetLength_def complete_at_def line_so_far_def)
  then obtain r' e where "read_loop t wall (l @ m) ?r = (r', m, [e])" "ev_data e = l"
    using go[of ?r 0] by auto
  then show "map ev_data (snd (arrive (l @ m, t, wall) r)) = [l]" "waiting (fst (arrive (l @ m, t, wall) r)) = m"
    using assms(2,3) by (simp_all add: arrive_def socketNotifierSLOT_def waiting_def)
qed

end

end
