(* ===== verification/Ascii_Decoder.thy ===== *)
theory Ascii_Decoder
  imports Frame_Reader
begin

text \<open>
  \<open>src/src/device/decoders/ascii.cpp\<close>: the meters that send text (Metex and Voltcraft, PeakTech 451), and the lines of
  sigrok-cli, which the calculated meters of the program write, too. \<open>from_utf8\<close> is \<open>QString(const QByteArray &)\<close>.
\<close>

subsection \<open>The decoder\<close>

definition ascii_checkFormat :: "frame_format \<Rightarrow> bytes \<Rightarrow> nat \<Rightarrow> bool" where
  "ascii_checkFormat m_type data idx \<longleftrightarrow>
     (case m_type of
        PeakTech10 \<Rightarrow> idx \<ge> 10 \<and> ringByte data idx 10 = 0x23
      | Metex14 \<Rightarrow> data ! idx = 0x0D
      | Voltcraft14Continuous \<Rightarrow> data ! idx = 0x0D
      | Sigrok \<Rightarrow> data ! idx = 0x0A
      | Voltcraft15Continuous \<Rightarrow> ringByte data idx 1 = 0x0D \<and> data ! idx = 0x0A
      | _ \<Rightarrow> False)"

definition ascii_packetLength :: "frame_format \<Rightarrow> nat" where
  "ascii_packetLength m_type =
     (case m_type of Sigrok \<Rightarrow> 30 | PeakTech10 \<Rightarrow> 11 | Metex14 \<Rightarrow> 14 | Voltcraft14Continuous \<Rightarrow> 14
      | Voltcraft15Continuous \<Rightarrow> 15 | _ \<Rightarrow> 0)"

definition ascii_pollRequest :: "frame_format \<Rightarrow> bytes" where
  "ascii_pollRequest m_type = (if m_type = Metex14 then asc ''D\<newline>'' else [])"

text \<open>\<open>^P(\d+):$\<close>, the digits; \<open>$\<close> also matches before a line feed at the end.\<close>

definition sigrok_channel :: "qstring \<Rightarrow> qstring option" where
  "sigrok_channel w =
     (let w' = (if w \<noteq> [] \<and> last w = 10 then butlast w else w); ds = tl (butlast w')
      in if length w' \<ge> 3 \<and> hd w' = 80 \<and> last w' = 58 \<and> list_all q_digit ds then Some ds else None)"

definition sigrok_unit :: "qstring \<Rightarrow> qstring" where
  "sigrok_unit u =
     (let u' = concat (map (\<lambda>c. if c = 0x3A9 then lit ''Ohm'' else [c]) u)
      in if u' = [0xB0, 67] then lit ''C'' else if u' = [0xB0, 70] then lit ''dF'' else u')"

definition sigrok_flag :: "dmm_response \<Rightarrow> qstring \<Rightarrow> dmm_response" where
  "sigrok_flag r item =
     (if item = lit ''HOLD'' then r\<lparr>re_hold := True\<rparr>
      else if item = lit ''AUTO'' then r\<lparr>re_range := lit ''AUTO''\<rparr>
      else if item = lit ''DC'' then upd_main (\<lambda>c. c\<lparr>ch_special := lit ''DC''\<rparr>) r
      else if item = lit ''AC'' then upd_main (\<lambda>c. c\<lparr>ch_special := lit ''AC''\<rparr>) r
      else if item = lit ''DIODE'' then upd_main (\<lambda>c. c\<lparr>ch_special := lit ''DI''\<rparr>) r
      else r)"

definition decodeSigrok :: "qstring \<Rightarrow> dmm_response \<Rightarrow> dmm_response option" where
  "decodeSigrok str r =
     (let ws = q_words (q_trim str)
      in if length ws < 2 then None
         else
           (let n = map_option q_to_int0 (sigrok_channel (ws ! 0))
            in if n \<noteq> None \<and> the n > kMaxValues then None
               else
                 (let r1 = (case n of None \<Rightarrow> r | Some k \<Rightarrow> upd_main (\<lambda>c. c\<lparr>ch_id := max 1 k - 1\<rparr>) r);
                      v = (if ws ! 1 = lit ''inf'' then lit '' OL '' else if ws ! 1 = lit ''-inf'' then lit ''-OL '' else ws ! 1);
                      u = (if length ws > 2 then ws ! 2 else []);
                      r2 = upd_main (\<lambda>c. c\<lparr>ch_val := v, ch_unit := sigrok_unit u,
                              ch_special := (if u = [] then lit ''BUZ'' else ch_special c)\<rparr>) r1
                  in Some (foldl sigrok_flag (r2\<lparr>re_range := lit ''MANU''\<rparr>) ws))))"

text \<open>The value and the unit put together, with the prefix taken off.\<close>

definition ascii_finish :: "(qstring \<Rightarrow> dbl option) \<Rightarrow> frame_format \<Rightarrow> dmm_response \<Rightarrow> dmm_response option" where
  "ascii_finish to_double m_type r =
     (let u = ch_unit (re_main r);
          r' = upd_main (\<lambda>c. c\<lparr>ch_dval := double_or_0 (to_double (filter (\<lambda>c. c \<noteq> 32) (ch_val c)))\<rparr>) r
      in if length u = 0 then
           (if m_type \<noteq> Sigrok then None else Some (formatResultValue to_double 0 [] u r'))
         else if length u = 1 then Some (formatResultValue to_double 0 [] u r')
         else
           (let (prefix, base) = si_split (if hd u = 75 then 107 # tl u else u)
            in if prefix = [] then Some (formatResultValue to_double 0 [] u r')
               else Some (formatResultValue to_double 0 prefix base r')))"

definition ascii_decode :: "(bytes \<Rightarrow> qstring) \<Rightarrow> (qstring \<Rightarrow> dbl option) \<Rightarrow> frame_format \<Rightarrow> bytes \<Rightarrow> int \<Rightarrow> dmm_response option" where
  "ascii_decode from_utf8 to_double m_type data i =
     (let r = upd_main (\<lambda>c. c\<lparr>ch_id := i\<rparr>) (response0\<lparr>re_showBar := True\<rparr>);
          str = from_utf8 data
      in if m_type \<in> {Metex14, Voltcraft14Continuous, Voltcraft15Continuous} then
           ascii_finish to_double m_type (upd_main (\<lambda>c. c\<lparr>ch_val := q_trim (q_mid 2 7 str),
             ch_unit := q_trim (q_mid 9 4 str), ch_special := q_trim (take 3 str)\<rparr>) r)
         else if m_type = PeakTech10 then
           ascii_finish to_double m_type (upd_main (\<lambda>c. c\<lparr>ch_val := q_trim (q_mid 1 6 str),
             ch_unit := q_trim (q_mid 7 4 str)\<rparr>) r)
         else if m_type = Sigrok then
           (case decodeSigrok str r of None \<Rightarrow> None | Some r' \<Rightarrow> ascii_finish to_double m_type r')
         else None)"

definition ascii_decoder :: "frame_format \<Rightarrow> 'd frame_decoder" where
  "ascii_decoder m_type = \<lparr>fd_packetLength = ascii_packetLength m_type, fd_checkFormat = ascii_checkFormat m_type,
     fd_pollRequest = (\<lambda>s. (ascii_pollRequest m_type, s))\<rparr>"

subsection \<open>Frames in the stream\<close>

definition text_frame :: "nat \<Rightarrow> byte \<Rightarrow> bytes \<Rightarrow> bool" where
  "text_frame n e f \<longleftrightarrow> length f = n \<and> last f = e \<and> e \<notin> set (butlast f)"

lemma packet_code_terminated:
  assumes "0 < n" and "n \<le> FIFO_LENGTH" and "\<And>ring i. check ring i \<longleftrightarrow> ring ! i = e"
  shows "packet_code check n (text_frame n e) (\<lambda>b. b = e)"
proof
  show "check ring i" if "length ring = FIFO_LENGTH" "i < FIFO_LENGTH" "text_frame n e (lastBytes ring i n)" for ring i
  proof -
    have "last (lastBytes ring i n) = lastBytes ring i n ! (n - 1)"
      using assms(1) by (subst last_conv_nth) (auto simp flip: length_0_conv)
    also have "\<dots> = ring ! i"
      using assms(1) that(2) by (simp add: lastBytes_def ringByte_def del: upt_Suc)
    finally show ?thesis using that(3) assms(3) by (simp add: text_frame_def)
  qed
qed (use assms in \<open>auto simp: text_frame_def\<close>)

lemma ascii_lengths:
  "ascii_packetLength Metex14 = 14" "ascii_packetLength Voltcraft14Continuous = 14" "ascii_packetLength Sigrok = 30"
  by (simp_all add: ascii_packetLength_def)

interpretation metex: packet_code "ascii_checkFormat Metex14" "ascii_packetLength Metex14" "text_frame 14 0x0D" "\<lambda>b. b = 0x0D"
  unfolding ascii_lengths by (rule packet_code_terminated) (simp_all add: ascii_checkFormat_def FIFO_LENGTH_def)

interpretation voltcraft14: packet_code "ascii_checkFormat Voltcraft14Continuous" "ascii_packetLength Voltcraft14Continuous"
  "text_frame 14 0x0D" "\<lambda>b. b = 0x0D"
  unfolding ascii_lengths by (rule packet_code_terminated) (simp_all add: ascii_checkFormat_def FIFO_LENGTH_def)

interpretation sigrok: packet_code "ascii_checkFormat Sigrok" "ascii_packetLength Sigrok" "text_frame 30 0x0A" "\<lambda>b. b = 0x0A"
  unfolding ascii_lengths by (rule packet_code_terminated) (simp_all add: ascii_checkFormat_def FIFO_LENGTH_def)

subsection \<open>The contract of a channel\<close>

text \<open>
  What \<open>DmmChannel\<close> demands: the value is the number of the text in SI base units, the factor of the prefix of the unit
  shown multiplied in. \<open>formatResultValue\<close> gives it; so every text decoder has it.
\<close>

definition channel_contract :: "(qstring \<Rightarrow> dbl option) \<Rightarrow> dmm_channel \<Rightarrow> bool" where
  "channel_contract to_double c \<longleftrightarrow>
     (\<exists>p b. ch_unit c = p @ b \<and> (p = [] \<or> si_isPrefix p) \<and>
        ch_dval c = d_mul (double_or_0 (to_double (filter (\<lambda>x. x \<noteq> 32) (ch_val c)))) (si_factor p))"

lemma formatResultValue_contract:
  assumes "has_main r" and "p = [] \<or> si_isPrefix p"
  shows "channel_contract to_double (re_main (formatResultValue to_double k p b r))"
  using assms by (auto simp: formatResultValue_def Let_def channel_contract_def prefixFactor_def has_main_def)

lemma foldl_keeps: "Q r \<Longrightarrow> (\<And>r x. Q r \<Longrightarrow> Q (f r x)) \<Longrightarrow> Q (foldl f r xs)"
  by (induction xs arbitrary: r) auto

lemma decodeSigrok_main: "decodeSigrok s r = Some r' \<Longrightarrow> has_main r \<Longrightarrow> has_main r'"
  unfolding decodeSigrok_def Let_def
  by (auto split: if_splits option.splits intro!: foldl_keeps[where Q = has_main] simp: sigrok_flag_def)

lemma ascii_finish_contract:
  assumes "ascii_finish to_double f r = Some r'" and "has_main r"
  shows "channel_contract to_double (re_main r')"
  using assms si_split_prefix[of "if hd (ch_unit (re_main r)) = 75 then 107 # tl (ch_unit (re_main r)) else ch_unit (re_main r)"]
  by (auto simp: ascii_finish_def Let_def split: if_splits prod.splits intro!: formatResultValue_contract)


definition plain_utf8 :: "bytes \<Rightarrow> qstring" where
  "plain_utf8 b = map ucast b"

definition metex_khz :: bytes where
  "metex_khz = asc ''FR  0.050 KHz'' @ [13]"


end
