(* ===== verification/Dtm0660.thy ===== *)
theory Dtm0660
  imports Ascii_Decoder
begin

text \<open>
  \<open>src/src/device/decoders/dtm0660.cpp\<close>: the frames of the DTM0660 meters, 15 bytes with the segments of the display in the
  low nibbles. Only the last byte is looked at to find a frame.
\<close>

definition dtm_packetLength :: "frame_format \<Rightarrow> nat" where
  "dtm_packetLength m_type = (if m_type = DTM0660 then 15 else 0)"

definition dtm_checkFormat :: "frame_format \<Rightarrow> bytes \<Rightarrow> nat \<Rightarrow> bool" where
  "dtm_checkFormat m_type data idx \<longleftrightarrow> m_type = DTM0660 \<and> data ! idx AND 0xF0 = 0xF0"

definition dtm_table :: "(byte \<times> qstring) list" where
  "dtm_table = [(0xEB, lit ''0''), (0x0A, lit ''1''), (0xAD, lit ''2''), (0x8F, lit ''3''), (0x4E, lit ''4''),
     (0xC7, lit ''5''), (0xE7, lit ''6''), (0x8A, lit ''7''), (0xEF, lit ''8''), (0xCF, lit ''9'')]"

definition dtm_digit :: "byte \<Rightarrow> qstring" where
  "dtm_digit b = (case find (\<lambda>e. b AND 0xEF = fst e) dtm_table of Some e \<Rightarrow> snd e | None \<Rightarrow> [])"

definition dtm_text :: "bytes \<Rightarrow> qstring" where
  "dtm_text d =
     (let v = (if d ! 3 AND 0x0E = 0x0E \<and> d ! 4 AND 0x0F = 0x0B \<and> d ! 5 AND 0x0E = 0x06 \<and> d ! 6 AND 0x0F = 0x01
               then lit '' 0L ''
               else (if d ! 1 AND 0x01 \<noteq> 0 then lit '' -'' else lit ''  '') @
                 concat (map (\<lambda>i. dtm_digit (push_bit 4 (d ! (1 + 2 * i) AND 0x0F) OR (d ! (2 + 2 * i) AND 0x0F))) [0..<4]))
      in if d ! 3 AND 0x01 \<noteq> 0 then insertComma v 1
         else if d ! 5 AND 0x01 \<noteq> 0 then insertComma v 2
         else if d ! 7 AND 0x01 \<noteq> 0 then insertComma v 3
         else v)"

text \<open>The unit without its prefix, and the mode.\<close>

definition dtm_mode :: "bytes \<Rightarrow> qstring \<times> qstring" where
  "dtm_mode d =
     (let special = (if d ! 0 AND 0x02 \<noteq> 0 then lit ''DC'' else if d ! 0 AND 0x01 \<noteq> 0 then lit ''AC''
                     else if d ! 9 AND 0x08 \<noteq> 0 then lit ''DI'' else [])
      in if d ! 11 AND 0x01 \<noteq> 0 then (lit ''F'', lit ''CA'')
         else if d ! 11 AND 0x02 \<noteq> 0 then (lit ''Ohm'', lit ''OH'')
         else if d ! 12 AND 0x08 \<noteq> 0 then (lit ''A'', special)
         else if d ! 12 AND 0x04 \<noteq> 0 then (lit ''Hz'', lit ''HZ'')
         else if d ! 12 AND 0x02 \<noteq> 0 then (lit ''V'', special)
         else if d ! 10 AND 0x02 \<noteq> 0 then (lit ''%'', lit ''PC'')
         else if d ! 13 AND 0x02 \<noteq> 0 then (lit ''C'', lit ''TE'')
         else if d ! 13 AND 0x01 \<noteq> 0 then (lit ''F'', lit ''TE'')
         else ([], special))"

text \<open>The prefix, and what it does to the value.\<close>

definition dtm_scale :: "bytes \<Rightarrow> qstring \<times> (dbl \<Rightarrow> dbl)" where
  "dtm_scale d =
     (if d ! 9 AND 0x02 \<noteq> 0 then (lit ''n'', \<lambda>v. d_div v (dlit (10 ^ 9)))
      else if d ! 9 AND 0x01 \<noteq> 0 then (lit ''u'', \<lambda>v. d_div v (dlit (10 ^ 6)))
      else if d ! 10 AND 0x01 \<noteq> 0 then (lit ''m'', \<lambda>v. d_div v (dlit (10 ^ 3)))
      else if d ! 9 AND 0x04 \<noteq> 0 then (lit ''k'', \<lambda>v. d_mul v (dlit (10 ^ 3)))
      else if d ! 10 AND 0x04 \<noteq> 0 then (lit ''M'', \<lambda>v. d_mul v (dlit (10 ^ 6)))
      else ([], \<lambda>v. v))"

definition dtm_decode :: "(qstring \<Rightarrow> dbl option) \<Rightarrow> bytes \<Rightarrow> int \<Rightarrow> dmm_response option" where
  "dtm_decode to_double d i =
     Some (upd_main (\<lambda>c. c\<lparr>ch_id := i, ch_val := dtm_text d,
         ch_dval := snd (dtm_scale d) (double_or_0 (to_double (dtm_text d))),
         ch_unit := fst (dtm_scale d) @ fst (dtm_mode d), ch_special := snd (dtm_mode d)\<rparr>)
       (response0\<lparr>re_showBar := True\<rparr>))"

definition dtm_decoder :: "frame_format \<Rightarrow> 'd frame_decoder" where
  "dtm_decoder m_type = \<lparr>fd_packetLength = dtm_packetLength m_type, fd_checkFormat = dtm_checkFormat m_type,
     fd_pollRequest = (\<lambda>s. ([], s))\<rparr>"

subsection \<open>Frames in the stream\<close>

definition dtm_end :: "byte \<Rightarrow> bool" where
  "dtm_end b \<longleftrightarrow> b AND 0xF0 = 0xF0"

definition dtm_good :: "bytes \<Rightarrow> bool" where
  "dtm_good f \<longleftrightarrow> length f = 15 \<and> dtm_end (last f) \<and> (\<forall>b \<in> set (butlast f). \<not> dtm_end b)"

interpretation dtm: packet_code "dtm_checkFormat DTM0660" "dtm_packetLength DTM0660" dtm_good dtm_end
proof
  show "dtm_checkFormat DTM0660 ring i"
    if "length ring = FIFO_LENGTH" "i < FIFO_LENGTH" "dtm_good (lastBytes ring i (dtm_packetLength DTM0660))" for ring i
  proof -
    have "last (lastBytes ring i 15) = lastBytes ring i 15 ! 14"
      by (subst last_conv_nth) (auto simp flip: length_0_conv)
    also have "\<dots> = ring ! i" using that(2) by (simp add: lastBytes_def ringByte_def del: upt_Suc)
    finally show ?thesis using that(3) by (simp add: dtm_good_def dtm_packetLength_def dtm_checkFormat_def dtm_end_def)
  qed
qed (simp_all add: dtm_packetLength_def dtm_checkFormat_def dtm_end_def dtm_good_def FIFO_LENGTH_def)

text \<open>The frames are found again, and the overload has the fault of the VC820: with a point it is shown twice.\<close>

lemma dtm_frames_delivered:
  assumes "reader_ok r" and "fr_decoder r = Some (dtm_decoder DTM0660)" and "fr_port r \<noteq> None" and "\<forall>f \<in> set fs. dtm_good f"
    and "fs \<noteq> []" and "as \<noteq> []" and "waiting r @ concat (map fst as) = g @ concat fs"
  shows "map ev_data (snd (arrivals as r)) = snd (feed_bytes g r) @ fs"
proof -
  have "dtm.reads r"
    using assms(1,2) by (simp add: dtm.reads_def packetLength_def complete_at_def dtm_decoder_def)
  from dtm.delivery(1)[OF this assms(3-7)] show ?thesis .
qed

lemma dtm_overload_text:
  "dtm_text [0x10, 0x20, 0x30, 0x4E, 0x5B, 0x67, 0x71, 0x80, 0x90, 0xA0, 0xB0, 0xC2, 0xD0, 0xE0, 0xF0] = lit '' 0L .L ''"
  by (simp add: dtm_text_def insertComma_def)

end
