(* ===== verification/Fluke_Qm.thy ===== *)
theory Fluke_Qm
  imports Ascii_Decoder
begin

text \<open>
  \<open>src/src/device/decoders/fluke_qm.cpp\<close>: the Fluke handheld meters that answer \<open>QM\<close> with a line. The answers have no fixed
  length: a frame is what came since the last one, the acknowledgement in front included.
\<close>

subsection \<open>The decoder\<close>

definition fluke_checkFormat :: "bytes \<Rightarrow> nat \<Rightarrow> bool" where
  "fluke_checkFormat data idx \<longleftrightarrow> data ! idx = 0x0D \<and> idx \<ge> 2"

definition fluke_decoder :: "'d frame_decoder" where
  "fluke_decoder = \<lparr>fd_packetLength = 0, fd_checkFormat = fluke_checkFormat, fd_pollRequest = (\<lambda>s. (asc ''QM'' @ [0x0D], s))\<rparr>"

text \<open>\<open>unit18x\<close>: the prefix, the unit and the mode of a word; \<open>None\<close> for a word it does not know.\<close>

definition fluke_u :: "qstring \<Rightarrow> qstring" where
  "fluke_u s = (if s = lit ''u'' then micro else s)"

definition fluke_coupling :: "qstring \<Rightarrow> qstring \<Rightarrow> (qstring \<times> qstring \<times> qstring) option" where
  "fluke_coupling w base =
     (let go = (\<lambda>special s.
            if q_ends base s \<and> length (q_chop (length base) s) \<le> 1
            then Some (fluke_u (q_chop (length base) s), base, special) else None)
      in if q_ends (lit ''AC+DC'') w then go (lit ''ACDC'') (q_chop 5 w)
         else if q_ends (lit ''AC'') w then go (lit ''AC'') (q_chop 2 w)
         else if q_ends (lit ''DC'') w then go (lit ''DC'') (q_chop 2 w)
         else None)"

definition unit18x :: "qstring \<Rightarrow> (qstring \<times> qstring \<times> qstring) option" where
  "unit18x w =
     (if q_ends (lit ''Ohms'') w then
        (let s = q_chop 4 w in if length s > 1 then None
          else Some (if s = lit ''K'' then lit ''k'' else s, lit ''Ohm'', lit ''OH''))
      else if q_ends (lit ''Farads'') w then
        (let s = q_chop 6 w in if length s > 1 then None else Some (fluke_u s, lit ''F'', lit ''CA''))
      else if w = lit ''DegC'' then Some ([], lit ''C'', lit ''TE'')
      else if w = lit ''DegF'' then Some ([], lit ''dF'', lit ''TE'')
      else if w = lit ''dBm'' then Some ([], lit ''dBm'', lit ''AC'')
      else if w = lit ''dBV'' then Some ([], lit ''dBV'', lit ''AC'')
      else if w = lit ''nS'' then Some (lit ''n'', lit ''S'', lit ''OH'')
      else if w = lit ''%'' then Some ([], lit ''%'', lit ''FR'')
      else if w = lit ''mS'' \<or> w = lit ''ms'' then Some (lit ''m'', lit ''s'', lit ''FR'')
      else if q_ends (lit ''Hz'') w then
        (let s = q_chop 2 w in if length s > 1 then None else Some (s, lit ''Hz'', lit ''FR''))
      else (case fluke_coupling w (lit ''V'') of Some x \<Rightarrow> Some x | None \<Rightarrow> fluke_coupling w (lit ''A'')))"

definition out_of_range :: "qstring \<Rightarrow> bool" where
  "out_of_range s \<longleftrightarrow> map up_char (take 12 s) = lit ''OUT OF RANGE''"

definition decode18x :: "(qstring \<Rightarrow> dbl option) \<Rightarrow> qstring \<Rightarrow> dmm_response \<Rightarrow> dmm_response option" where
  "decode18x to_double reading r =
     (let overload = out_of_range reading;
          parts = (if overload then Some ([], drop 12 reading)
                   else map_option (\<lambda>b. (take b reading, drop b reading)) (q_index 32 reading))
      in case parts of
           None \<Rightarrow> None
         | Some (number, rest) \<Rightarrow>
             (case unit18x (filter (\<lambda>c. c \<noteq> 32) rest) of
                None \<Rightarrow> None
              | Some (prefix, unit, special) \<Rightarrow>
                  (let r1 = upd_main (\<lambda>c. c\<lparr>ch_unit := prefix @ unit, ch_special := special\<rparr>) r
                   in if overload then Some (upd_main (\<lambda>c. c\<lparr>ch_val := lit ''OL'', ch_dval := d_zero\<rparr>) r1)
                      else (case to_double number of
                              None \<Rightarrow> None
                            | Some v \<Rightarrow>
                                Some (upd_main (\<lambda>c. c\<lparr>ch_val := (if q_starts (lit ''+'') number then tl number else number),
                                  ch_dval := d_mul v (si_factor prefix)\<rparr>) r1)))))"

definition units28x :: "(qstring \<times> qstring \<times> qstring) list" where
  "units28x = map (\<lambda>(t, u, s). (lit t, lit u, lit s))
    [(''VDC'', ''V'', ''DC''), (''VAC'', ''V'', ''AC''), (''VAC_PLUS_DC'', ''V'', ''ACDC''), (''V'', ''V'', ''''),
     (''ADC'', ''A'', ''DC''), (''AAC'', ''A'', ''AC''), (''AAC_PLUS_DC'', ''A'', ''ACDC''), (''A'', ''A'', ''''),
     (''OHM'', ''Ohm'', ''OH''), (''SIE'', ''S'', ''OH''), (''Hz'', ''Hz'', ''FR''), (''S'', ''s'', ''FR''),
     (''F'', ''F'', ''CA''), (''CEL'', ''C'', ''TE''), (''FAR'', ''dF'', ''TE''), (''PCT'', ''%'', ''FR''),
     (''dBm'', ''dBm'', ''AC''), (''dBV'', ''dBV'', ''AC''), (''dB'', ''dB'', ''AC''), (''CREST_FACTOR'', '''', ''AC'')]"

definition decode28x :: "(qstring \<Rightarrow> dbl option) \<Rightarrow> (dbl \<Rightarrow> qstring \<times> qstring) \<Rightarrow> qstring list \<Rightarrow> dmm_response \<Rightarrow> dmm_response option" where
  "decode28x to_double si_format fs r =
     (let number = q_trim (fs ! 0); unitToken = q_trim (fs ! 1); state = q_trim (fs ! 2); attribute = q_trim (fs ! 3)
      in case map_of units28x unitToken of
           None \<Rightarrow> None
         | Some (unit, special) \<Rightarrow>
             (let special' =
                    (if unitToken = lit ''OHM'' \<and> (attribute = lit ''OPEN_CIRCUIT'' \<or> attribute = lit ''SHORT_CIRCUIT'') then lit ''BUZ''
                     else if unitToken = lit ''VDC'' \<and> attribute = lit ''GOOD_DIODE'' then lit ''DI'' else special);
                  shown = (\<lambda>v. Some (upd_main (\<lambda>c. c\<lparr>ch_special := special', ch_val := v, ch_unit := unit, ch_dval := d_zero\<rparr>) r))
              in if state = lit ''OL'' then shown (lit ''OL'')
                 else if state = lit ''OL_MINUS'' then shown (lit ''-OL'')
                 else if state = lit ''OPEN_TC'' then shown (lit ''OPEN'')
                 else if state \<noteq> lit ''NORMAL'' then None
                 else (case to_double number of
                         None \<Rightarrow> None
                       | Some v \<Rightarrow>
                           if \<not> d_isfinite v then None
                           else Some (setFromENotation si_format number v unit (- 12)
                                  (upd_main (\<lambda>c. c\<lparr>ch_special := special', ch_dval := v\<rparr>) r)))))"

text \<open>The last line that is not empty; \<open>QString::fromLatin1\<close> widens the bytes.\<close>

definition fluke_line :: "bytes \<Rightarrow> qstring" where
  "fluke_line data =
     (case find (\<lambda>l. l \<noteq> []) (rev (map (\<lambda>l. q_trim (map ucast l)) (split_bytes 0x0D data))) of Some l \<Rightarrow> l | None \<Rightarrow> [])"

definition fluke_decode :: "(qstring \<Rightarrow> dbl option) \<Rightarrow> (dbl \<Rightarrow> qstring \<times> qstring) \<Rightarrow> bytes \<Rightarrow> int \<Rightarrow> dmm_response option" where
  "fluke_decode to_double si_format data i =
     (let r = upd_main (\<lambda>c. c\<lparr>ch_id := i\<rparr>) (response0\<lparr>re_showBar := True, re_range := lit ''AUTO''\<rparr>);
          line = fluke_line data
      in if line = [] then None
         else if q_starts (lit ''QM,'') line then decode18x to_double (q_trim (drop 3 line)) r
         else if length (q_split 44 line) = 4 then decode28x to_double si_format (q_split 44 line) r
         else None)"

subsection \<open>Answers in the stream\<close>

definition fluke_answer :: "bytes \<Rightarrow> bool" where
  "fluke_answer l \<longleftrightarrow> length l \<ge> 3 \<and> last l = 0x0D"

interpretation fl: line_code fluke_checkFormat fluke_answer
proof
  show "fluke_checkFormat ring i \<longleftrightarrow> fluke_answer (take (Suc i) ring)" if "length ring = FIFO_LENGTH" "i < FIFO_LENGTH" for ring i
  proof -
    have "last (take (Suc i) ring) = ring ! i" using that by (simp add: take_Suc_conv_app_nth)
    then show ?thesis using that by (auto simp: fluke_checkFormat_def fluke_answer_def)
  qed
qed

text \<open>
  C28: the reader of a Fluke meter refines its line protocol: the frames are the lines of the bytes it took from the port,
  an acknowledgement joined to the line behind it and a line of 100 bytes dropped, whatever the ring holds from
  before, and what is left waiting is shorter than the last frame.
\<close>

theorem fluke_reader_refines_lines:
  assumes "reader_ok r" and "fr_decoder r = Some fluke_decoder" and "fr_port r \<noteq> None" and "fr_length r = 0" and "as \<noteq> []"
  shows "\<exists>used. waiting r @ concat (map fst as) = used @ waiting (fst (arrivals as r)) \<and>
    map ev_data (snd (arrivals as r)) = snd (lines_of fluke_answer [] used) \<and>
    take (fr_length (fst (arrivals as r))) (fr_fifo (fst (arrivals as r))) = fst (lines_of fluke_answer [] used) \<and>
    (waiting (fst (arrivals as r)) \<noteq> [] \<longrightarrow>
       length (waiting (fst (arrivals as r))) < length (last (map ev_data (snd (arrivals as r)))))"
proof -
  have rd: "fl.reads r"
    using assms(1,2) by (simp add: fl.reads_def packetLength_def complete_at_def fluke_decoder_def)
  obtain used x where u: "waiting r @ concat (map fst as) = used @ waiting (fst (arrivals as r))"
      "fst (arrivals as r) = (fst (feed_bytes used r))\<lparr>fr_port := Some x\<rparr>"
      "map ev_data (snd (arrivals as r)) = snd (feed_bytes used r)" "stop_ok r used (waiting (fst (arrivals as r)))"
    using arrivals_feed[OF assms(3), of as] assms(5) by blast
  have l: "lines_of fluke_answer [] used = (fl.line_so_far (fst (feed_bytes used r)), snd (feed_bytes used r))"
    using fl.feed_lines[OF rd, of used] assms(4) by (simp add: fl.line_so_far_def)
  show ?thesis
  proof (intro exI[of _ used] conjI impI)
    show "take (fr_length (fst (arrivals as r))) (fr_fifo (fst (arrivals as r))) = fst (lines_of fluke_answer [] used)"
      unfolding u(2) l by (simp add: fl.line_so_far_def)
    show "length (waiting (fst (arrivals as r))) < length (last (map ev_data (snd (arrivals as r))))"
      if "waiting (fst (arrivals as r)) \<noteq> []"
      using u(4) that unfolding u(3) by (simp add: stop_ok_def)
  qed (use u l in simp_all)
qed

definition fluke_reader :: "unit reader" where
  "fluke_reader = (reader0 (replicate 100 0) ())\<lparr>fr_decoder := Some fluke_decoder, fr_port := Some \<lparr>po_in = [], po_out = []\<rparr>\<rparr>"

lemma fluke_reader_ok:
  "reader_ok fluke_reader" "fr_decoder fluke_reader = Some fluke_decoder" "fr_port fluke_reader \<noteq> None"
  "fr_length fluke_reader = 0" "waiting fluke_reader = []"
  by (simp_all add: reader_ok_def fluke_reader_def reader0_def FIFO_LENGTH_def waiting_def)

theorem fluke_reader_refines_lines_witness:
  "\<exists>used. asc ''0'' @ [0x0D] @ asc ''QM,+4.7 V DC'' @ [0x0D] =
      used @ waiting (fst (arrivals [(asc ''0'' @ [0x0D], 1, 1), (asc ''QM,+4.7 V DC'' @ [0x0D], 2, 2)] fluke_reader)) \<and>
    map ev_data (snd (arrivals [(asc ''0'' @ [0x0D], 1, 1), (asc ''QM,+4.7 V DC'' @ [0x0D], 2, 2)] fluke_reader)) =
      snd (lines_of fluke_answer [] used)"
  using fluke_reader_refines_lines[OF fluke_reader_ok(1-4), of "[(asc ''0'' @ [0x0D], 1, 1), (asc ''QM,+4.7 V DC'' @ [0x0D], 2, 2)]"]
  by (auto simp: fluke_reader_ok(5))

text \<open>
  A polled answer that comes alone is emitted whole. Two lines in one read are not: when the second is shorter it is
  left in the port until the meter sends more, as if it were the start of a longer one.
\<close>

lemma fluke_answer_delivered:
  assumes "reader_ok r" and "fr_decoder r = Some fluke_decoder" and "fr_port r \<noteq> None" and "fr_length r = 0" and "waiting r = []"
    and "as \<noteq> []" and "concat (map fst as) = l @ [0x0D]" and "0x0D \<notin> set (drop 2 l)" and "2 \<le> length l" and "length l < FIFO_LENGTH"
  shows "map ev_data (snd (arrivals as r)) = [l @ [0x0D]]"
proof -
  have rd: "fl.reads r"
    using assms(1,2) by (simp add: fl.reads_def packetLength_def complete_at_def fluke_decoder_def)
  have first: "\<not> fluke_answer (take n (l @ [0x0D]))" if "0 < n" "n < length (l @ [0x0D])" for n
  proof
    assume a: "fluke_answer (take n (l @ [0x0D]))"
    then have n: "3 \<le> n" "n \<le> length l" using that by (auto simp: fluke_answer_def)
    then have "last (take n l) = l ! (n - 1)" by (subst last_conv_nth) auto
    then have "l ! (n - 1) = 0x0D" using a n by (simp add: fluke_answer_def)
    moreover have "l ! (n - 1) \<in> set (drop 2 l)"
    proof -
      have e: "2 + (n - 3) = n - 1" and two: "2 \<le> length l" using n by simp_all
      have "l ! (n - 1) = drop 2 l ! (n - 3)" by (simp only: nth_drop[OF two] e)
      moreover have "n - 3 < length (drop 2 l)" using n by simp
      ultimately show ?thesis by (metis nth_mem)
    qed
    ultimately show False using assms(8) by simp
  qed
  show ?thesis
    by (rule fl.one_line(1)[OF rd assms(3-7)])
      (use assms first in \<open>auto simp: fluke_answer_def\<close>)
qed

lemma fluke_shorter_answer_waits:
  "map ev_data (snd (arrive (asc ''QM,+4.72 V DC'' @ [0x0D] @ asc ''QM,+5 V DC'' @ [0x0D], 1, 1) fluke_reader)) =
     [asc ''QM,+4.72 V DC'' @ [0x0D]] \<and>
   waiting (fst (arrive (asc ''QM,+4.72 V DC'' @ [0x0D] @ asc ''QM,+5 V DC'' @ [0x0D], 1, 1) fluke_reader)) =
     asc ''QM,+5 V DC'' @ [0x0D]"
  by code_simp

end
