(* ===== verification/Reading_Adapter.thy ===== *)
theory Reading_Adapter
  imports Scpi_Device Dmm_Decoder
begin

text \<open>
  \<open>src/src/core/readingadapter.h\<close> and \<open>readingadapter.cpp\<close>, with \<open>Sample\<close>, \<open>Range\<close> and \<open>Quality\<close> of \<open>core/sampletypes.h\<close> and \<open>Reading\<close> of
  \<open>core/reading.h\<close>: what a decoder says of a value, in words, becomes the typed value the program works with. The upper case
  of a text, the comparison without case and the reading of a double are those of \<open>qt\<close>; \<open>to_float\<close> is the conversion to
  \<open>float\<close>, \<open>now\<close> the core clock.
\<close>

subsection \<open>Samples and readings\<close>

datatype quality = Valid | Stale | Overload | Inactive | NoValue | Fault

record range =
  ra_autorange :: bool
  ra_full :: dbl

record sample =
  sa_t :: int
  sa_wall :: int
  sa_value :: dbl
  sa_quality :: quality
  sa_flags :: u32
  sa_text :: qstring
  sa_displayPrefix :: qstring
  sa_range :: range
  sa_bar :: dbl

definition sample0 :: sample where
  "sample0 = \<lparr>sa_t = 0, sa_wall = 0, sa_value = d_zero, sa_quality = Valid, sa_flags = 0, sa_text = [],
     sa_displayPrefix = [], sa_range = \<lparr>ra_autorange = False, ra_full = DNan False\<rparr>, sa_bar = DNan False\<rparr>"

record port_sample =
  ps_id :: int
  ps_port :: port_key
  ps_unit :: qstring
  ps_sample :: sample
  ps_decoderUnit :: qstring
  ps_decoderBaseUnit :: qstring
  ps_rangeText :: qstring
  ps_showBar :: bool
  ps_name :: qstring

record view_reading =
  vr_value :: dbl
  vr_text :: qstring
  vr_unit :: qstring
  vr_prefix :: qstring
  vr_baseUnit :: qstring
  vr_range :: qstring
  vr_hold :: bool
  vr_showBar :: bool
  vr_overload :: bool
  vr_id :: int
  vr_msecs :: int
  vr_t :: int
  vr_port :: port_key
  vr_portUnit :: qstring
  vr_flags :: u32
  vr_quality :: quality
  vr_measuringRange :: range
  vr_name :: qstring
  vr_source :: qstring

definition noNumber :: "view_reading \<Rightarrow> bool" where
  "noNumber r \<longleftrightarrow> vr_quality r = NoValue \<or> vr_quality r = Fault"

record adapter =
  ad_format :: frame_format
  ad_counts :: int
  ad_mainKey :: port_key

definition adapter0 :: "frame_format \<Rightarrow> adapter" where
  "adapter0 f = \<lparr>ad_format = f, ad_counts = 0, ad_mainKey = port0\<rparr>"

subsection \<open>What a value measures\<close>

definition modeCode :: "qt \<Rightarrow> qstring \<Rightarrow> qstring" where
  "modeCode q special = (let s = qt_upper q (q_trim special) in if s = lit ''DIODE'' then lit ''DI'' else s)"

definition kRows :: "(qstring \<times> quantity \<times> qstring) list" where
  "kRows =
     [(lit ''V'', Voltage, lit ''V''), (lit ''A'', Current, lit ''A''), (lit ''Ohm'', Resistance, [0x3A9]),
      ([0x3A9], Resistance, [0x3A9]), (lit ''F'', Capacitance, lit ''F''), (lit ''Hz'', Frequency, lit ''Hz''),
      (lit ''RPM'', Frequency, lit ''rpm''), (lit ''%'', DutyCycle, lit ''%''), (lit ''S'', Conductance, lit ''S''),
      (lit ''W'', Power, lit ''W''), (lit ''VA'', ApparentPower, lit ''VA''), (lit ''dBm'', Power, lit ''dBm''),
      (lit ''dBV'', Voltage, lit ''dBV''), (lit ''dB'', Gain, lit ''dB''), (lit ''s'', Time, lit ''s''),
      (lit ''min'', Time, lit ''min''), (lit ''h'', Time, lit ''h''), (lit ''Ah'', ElectricCharge, lit ''Ah''),
      (lit ''Wh'', Energy, lit ''Wh''), (lit ''cosphi'', PowerFactor, []), (lit ''D'', DissipationFactor, []),
      (lit ''ppm'', Unknown, lit ''ppm''), (lit ''lx'', Illuminance, lit ''lx''), (lit ''fc'', Illuminance, lit ''fc''),
      (lit ''%RH'', RelativeHumidity, lit ''%''), (lit ''m/s'', WindSpeed, lit ''m/s''),
      (lit ''dBA'', SoundPressureLevel, lit ''dBA''), (lit ''dBC'', SoundPressureLevel, lit ''dBC'')]"

text \<open>The unit decides; the mode where the unit is ambiguous or missing.\<close>

definition meaning_row :: "frame_format \<Rightarrow> quantity \<times> qstring \<Rightarrow> quantity \<times> qstring" where
  "meaning_row format m =
     (let victron = (format = VictronBLE); tfa = (format = TfaAirControl);
          q1 = (if victron \<and> fst m = DutyCycle then StateOfCharge else fst m);
          q2 = (if victron \<and> q1 = Time then TimeToGo else q1);
          q3 = (if tfa \<and> snd m = lit ''ppm'' then CarbonDioxide else q2)
      in (q3, snd m))"

definition meaning :: "qt \<Rightarrow> qstring \<Rightarrow> qstring \<Rightarrow> frame_format \<Rightarrow> quantity \<times> qstring" where
  "meaning q base mode format =
     (if mode = lit ''DI'' then (Voltage, lit ''V'')
      else if mode = lit ''BUZ'' then (Continuity, if base = lit ''Ohm'' then [0x3A9] else base)
      else if base = lit ''C'' \<or> base = 0xB0 # lit ''C'' then (Temperature, 0xB0 # lit ''C'')
      else if base = lit ''dF'' \<or> base = 0xB0 # lit ''F'' \<or> (mode = lit ''TE'' \<and> base = lit ''F'') then (Temperature, 0xB0 # lit ''F'')
      else if mode = lit ''TE'' \<and> base = lit ''K'' then (Temperature, lit ''K'')
      else if mode = lit ''HFE'' \<or> qt_ci_eq q base (lit ''hFE'') then (Gain, [])
      else if base = lit ''s'' \<and> (mode = lit ''FR'' \<or> mode = lit ''HZ'') then (PulseWidth, lit ''s'')
      else (case find (\<lambda>r. base = fst r) kRows of
              Some r \<Rightarrow> meaning_row format (snd r)
            | None \<Rightarrow> (Unknown, base)))"

definition definingFlags :: "quantity \<Rightarrow> u32 \<Rightarrow> u32" where
  "definingFlags q flags =
     flags AND
     (case q of
        Voltage \<Rightarrow> AC OR DC OR RMS OR Diode
      | Current \<Rightarrow> AC OR DC OR RMS
      | Power \<Rightarrow> AC OR DC OR RMS
      | ApparentPower \<Rightarrow> AC OR DC OR RMS
      | Resistance \<Rightarrow> FourWire
      | _ \<Rightarrow> 0)"

definition hasRange :: "quantity \<Rightarrow> bool" where
  "hasRange q \<longleftrightarrow> q \<notin> {Unknown, Temperature, RelativeHumidity, WindSpeed, SoundPressureLevel, CarbonDioxide,
     DutyCycle, StateOfCharge, TimeToGo, Continuity}"

subsection \<open>The text of a value\<close>

definition re_blank :: "u16 \<Rightarrow> bool" where
  "re_blank c \<longleftrightarrow> c = 32 \<or> (9 \<le> c \<and> c \<le> 13)"

text \<open>
  \<open>^\s*([-+]?)\s*(?=\.?\d)(\d*)(?:\.(\d*))?\s*$\<close>: the digits before and behind the point of a number, \<open>None\<close> for
  everything else.
\<close>

definition number_match :: "qstring \<Rightarrow> (qstring \<times> qstring) option" where
  "number_match text =
     (let a = dropWhile re_blank text;
          b = (if a \<noteq> [] \<and> (hd a = 45 \<or> hd a = 43) then tl a else a);
          c = dropWhile re_blank b;
          ds = takeWhile q_digit c; r = dropWhile q_digit c;
          fs = (if r \<noteq> [] \<and> hd r = 46 then takeWhile q_digit (tl r) else []);
          e = (if r \<noteq> [] \<and> hd r = 46 then dropWhile q_digit (tl r) else r)
      in if (ds \<noteq> [] \<or> fs \<noteq> []) \<and> list_all re_blank e then Some (ds, fs) else None)"

definition has_letters :: "qstring \<Rightarrow> bool" where
  "has_letters text \<longleftrightarrow> list_ex q_letter text"

subsection \<open>A value\<close>

definition mode_flags :: "qstring \<Rightarrow> u32" where
  "mode_flags mode =
     (if mode = lit ''AC'' then AC else if mode = lit ''DC'' then DC else if mode = lit ''ACDC'' then AC OR DC
      else if mode = lit ''DI'' then Diode else 0)"

definition slot_of :: "int \<Rightarrow> slot" where
  "slot_of i = (let k = max 1 (min i (kMaxValues - 1)) in if k = 1 then Sub else if k = 2 then Sub2 else Sub3)"

definition value_quality :: "quality \<Rightarrow> qstring \<Rightarrow> quality" where
  "value_quality shown text =
     (if shown \<noteq> Valid then shown
      else if has_letters text then Overload
      else if text = [] \<or> number_match text \<noteq> None then Valid
      else NoValue)"

definition value_number :: "quality \<Rightarrow> dbl \<Rightarrow> qstring \<Rightarrow> dbl" where
  "value_number quality dval text =
     (let v = (if quality = NoValue \<or> quality = Fault then DNan False else dval)
      in if quality = Overload then DNan (q_starts (lit ''-'') (q_trim text)) else v)"

text \<open>Full scale and bar, from the display count and the decimals shown. \<open>pow(10, n)\<close> is exact for the decimals a display has.\<close>

definition measuring_range :: "qt \<Rightarrow> (dbl \<Rightarrow> dbl) \<Rightarrow> int \<Rightarrow> quantity \<Rightarrow> qstring \<Rightarrow> qstring \<Rightarrow> bool \<Rightarrow> sample \<Rightarrow> sample" where
  "measuring_range q to_float counts quantity prefix text showBar s =
     (case number_match text of
        None \<Rightarrow> s
      | Some (ds, fs) \<Rightarrow>
          if counts > 0 \<and> hasRange quantity then
            (let full = d_mul (d_div (dlit (of_int counts)) (dlit (10 ^ length fs))) (si_factor prefix);
                 digits = double_or_0 (qt_to_double q (ds @ fs));
                 bar = to_float (d_qmax d_zero (d_qmin (dlit 1) (d_div digits (dlit (of_int counts)))));
                 s1 = s\<lparr>sa_range := (sa_range s)\<lparr>ra_full := full\<rparr>\<rparr>
             in if showBar then s1\<lparr>sa_bar := bar\<rparr> else s1)
          else s)"

definition adaptValue :: "qt \<Rightarrow> (dbl \<Rightarrow> dbl) \<Rightarrow> int \<Rightarrow> dbl \<Rightarrow> qstring \<Rightarrow> qstring \<Rightarrow> qstring \<Rightarrow> qstring \<Rightarrow> bool \<Rightarrow> bool \<Rightarrow> bool \<Rightarrow> int \<Rightarrow> int
    \<Rightarrow> quality \<Rightarrow> adapter \<Rightarrow> adapter \<times> port_sample" where
  "adaptValue q to_float now dval text unit special rng hold showBar lowBattery i wall shown a =
     (let (prefix0, base0) = si_split unit;
          prefix = (if prefix0 = lit ''u'' then micro else prefix0);
          base = (if ad_format a = VictronBLE \<and> base0 = lit ''h'' then lit ''min'' else base0);
          mode = modeCode q special;
          m = meaning q base mode (ad_format a);
          flags = mode_flags mode OR (if hold then HoldFlag else 0) OR (if rng = lit ''AUTO'' then Autorange else 0)
            OR (if lowBattery then LowBattery else 0);
          bar = (showBar \<and> fst m \<noteq> Temperature);
          port = port0\<lparr>pk_quantity := fst m, pk_defining := definingFlags (fst m) flags\<rparr>;
          port' = (if i \<noteq> 0 \<and> port = ad_mainKey a then port\<lparr>pk_slot := slot_of i\<rparr> else port);
          quality = value_quality shown text;
          s = sample0\<lparr>sa_t := now, sa_wall := wall, sa_value := value_number quality dval text, sa_text := text,
                sa_displayPrefix := prefix, sa_flags := flags, sa_quality := quality,
                sa_range := \<lparr>ra_autorange = (rng = lit ''AUTO''), ra_full = DNan False\<rparr>\<rparr>
      in ((if i = 0 then a\<lparr>ad_mainKey := port\<rparr> else a),
          \<lparr>ps_id = i, ps_port = port', ps_unit = snd m,
           ps_sample = measuring_range q to_float (ad_counts a) (fst m) prefix text bar s,
           ps_decoderUnit = unit, ps_decoderBaseUnit = base, ps_rangeText = rng, ps_showBar = bar, ps_name = []\<rparr>))"

definition vr_of :: "port_sample \<Rightarrow> view_reading" where
  "vr_of ps =
     (let s = ps_sample ps in
      \<lparr>vr_value = sa_value s, vr_text = sa_text s, vr_unit = ps_decoderUnit ps, vr_prefix = sa_displayPrefix s,
       vr_baseUnit = ps_decoderBaseUnit ps, vr_range = ps_rangeText ps, vr_hold = has_flag (sa_flags s) HoldFlag,
       vr_showBar = ps_showBar ps, vr_overload = (sa_quality s = Overload), vr_id = ps_id ps, vr_msecs = sa_wall s,
       vr_t = sa_t s, vr_port = ps_port ps, vr_portUnit = ps_unit ps, vr_flags = sa_flags s, vr_quality = sa_quality s,
       vr_measuringRange = sa_range s, vr_name = ps_name ps, vr_source = []\<rparr>)"

subsection \<open>A frame\<close>

definition channel_shown :: "dmm_channel \<Rightarrow> quality" where
  "channel_shown c = (if ch_fault c \<noteq> [] then Fault else if ch_noValue c then NoValue else Valid)"

definition adapt_channel :: "qt \<Rightarrow> (dbl \<Rightarrow> dbl) \<Rightarrow> int \<Rightarrow> dmm_response \<Rightarrow> int \<Rightarrow> dmm_channel \<Rightarrow> adapter \<Rightarrow> adapter \<times> port_sample" where
  "adapt_channel q to_float now r wall c a =
     (case adaptValue q to_float now (ch_dval c) (ch_val c) (ch_unit c) (ch_special c) (re_range r) (re_hold r) (re_showBar r)
             (re_lowBat r) (ch_id c) (if re_receivedWall r \<noteq> 0 then re_receivedWall r else wall) (channel_shown c) a of
        (a', ps) \<Rightarrow>
          (let s = ps_sample ps;
               s1 = (if re_received r \<noteq> 0 then s\<lparr>sa_t := re_received r\<rparr> else s)
           in (a', ps\<lparr>ps_sample := s1\<lparr>sa_flags := sa_flags s1 OR (ch_states c AND (MaxFlag OR MinFlag OR Avg OR Relative OR Peak))\<rparr>,
                 ps_name := ch_name c\<rparr>)))"

fun adapt_channels :: "qt \<Rightarrow> (dbl \<Rightarrow> dbl) \<Rightarrow> int \<Rightarrow> dmm_response \<Rightarrow> int \<Rightarrow> dmm_channel list \<Rightarrow> adapter \<Rightarrow> adapter \<times> port_sample list" where
  "adapt_channels q to_float now r wall [] a = (a, [])"
| "adapt_channels q to_float now r wall (c # cs) a =
     (case adapt_channel q to_float now r wall c a of
        (a', ps) \<Rightarrow> (case adapt_channels q to_float now r wall cs a' of (a'', pss) \<Rightarrow> (a'', ps # pss)))"

definition adapt :: "qt \<Rightarrow> (dbl \<Rightarrow> dbl) \<Rightarrow> int \<Rightarrow> dmm_response \<Rightarrow> int \<Rightarrow> adapter \<Rightarrow> adapter \<times> port_sample list" where
  "adapt q to_float now r wall a = adapt_channels q to_float now r wall (re_channels r) a"


subsection \<open>What a sample says\<close>

text \<open>The quality and the number of a sample, from the channel it was made of.\<close>

definition sample_of_channel :: "dmm_channel \<Rightarrow> sample \<Rightarrow> bool" where
  "sample_of_channel c s \<longleftrightarrow>
     sa_text s = ch_val c \<and>
     (case sa_quality s of
        Valid \<Rightarrow> sa_value s = ch_dval c \<and> ch_fault c = [] \<and> \<not> ch_noValue c \<and> \<not> has_letters (ch_val c) \<and>
          (ch_val c = [] \<or> number_match (ch_val c) \<noteq> None)
      | Overload \<Rightarrow> sa_value s = DNan (q_starts (lit ''-'') (q_trim (ch_val c))) \<and> has_letters (ch_val c) \<and>
          ch_fault c = [] \<and> \<not> ch_noValue c
      | NoValue \<Rightarrow> sa_value s = DNan False \<and> ch_fault c = [] \<and>
          (ch_noValue c \<or> (\<not> has_letters (ch_val c) \<and> ch_val c \<noteq> [] \<and> number_match (ch_val c) = None))
      | Fault \<Rightarrow> sa_value s = DNan False \<and> ch_fault c \<noteq> []
      | _ \<Rightarrow> False)"

text \<open>The texts of numbers.\<close>

lemma decimal_text_number:
  assumes "set ws \<subseteq> {32}" "ds \<noteq> []" "list_all q_digit (ds @ fs)"
  shows "number_match (decimal_text ws neg ds fs) = Some (ds, fs)" "\<not> has_letters (decimal_text ws neg ds fs)"
proof -
  have blank: "dropWhile re_blank (ws @ x) = dropWhile re_blank x" for x
    using assms(1) by (induction ws) (auto simp: re_blank_def)
  have digit: "q_digit c \<Longrightarrow> \<not> re_blank c \<and> c \<noteq> 45 \<and> c \<noteq> 43 \<and> c \<noteq> 46 \<and> \<not> q_letter c" for c
    by (auto simp: q_class_defs re_blank_def word_le_nat_alt)
  define u where "u = ds @ (if fs = [] then [] else 46 # fs)"
  have hd_u: "u \<noteq> []" "q_digit (hd u)" using assms(2,3) by (auto simp: u_def list_all_iff neq_Nil_conv)
  then have drop_u: "dropWhile re_blank u = u" using digit by (cases u) auto
  have b: "(if v \<noteq> [] \<and> (hd v = 45 \<or> hd v = 43) then tl v else v) = u"
    if "v = dropWhile re_blank (decimal_text ws neg ds fs)" for v
    using that digit[OF hd_u(2)] hd_u(1) drop_u by (auto simp: decimal_text_def blank u_def[symmetric] re_blank_def)
  have tk: "takeWhile q_digit u = ds" "dropWhile q_digit u = (if fs = [] then [] else 46 # fs)"
    "takeWhile q_digit fs = fs" "dropWhile q_digit fs = []"
    using assms(3) by (auto simp: u_def list_all_iff q_class_defs takeWhile_eq_all_conv takeWhile_append2 dropWhile_append2)
  show "number_match (decimal_text ws neg ds fs) = Some (ds, fs)"
    using assms(2) unfolding number_match_def Let_def b[OF refl] drop_u tk(1,2) by (auto simp: tk)
  have "\<forall>c \<in> set (decimal_text ws neg ds fs). \<not> q_letter c"
    using assms(1,3) digit by (auto simp: decimal_text_def list_all_iff q_class_defs)
  then show "\<not> has_letters (decimal_text ws neg ds fs)" by (simp add: has_letters_def list_ex_iff)
qed

lemma measuring_range_keeps [simp]:
  "sa_value (measuring_range q to_float counts qu prefix text bar s) = sa_value s"
  "sa_quality (measuring_range q to_float counts qu prefix text bar s) = sa_quality s"
  "sa_text (measuring_range q to_float counts qu prefix text bar s) = sa_text s"
  "sa_flags (measuring_range q to_float counts qu prefix text bar s) = sa_flags s"
  "sa_wall (measuring_range q to_float counts qu prefix text bar s) = sa_wall s"
  "sa_t (measuring_range q to_float counts qu prefix text bar s) = sa_t s"
  "sa_displayPrefix (measuring_range q to_float counts qu prefix text bar s) = sa_displayPrefix s"
  by (simp_all add: measuring_range_def Let_def split: option.split)

text \<open>A number has no letter: the two readings of a text exclude each other.\<close>

lemma adaptValue_fields:
  assumes "adaptValue q to_float now dval text unit special rng hold bar low i wall shown a = (a', ps)"
  shows "ps_id ps = i" "sa_text (ps_sample ps) = text" "sa_quality (ps_sample ps) = value_quality shown text"
    "sa_value (ps_sample ps) = value_number (value_quality shown text) dval text" "sa_wall (ps_sample ps) = wall"
    "sa_t (ps_sample ps) = now"
    "ps_decoderUnit ps = unit" "ad_format a' = ad_format a" "ad_counts a' = ad_counts a"
  using assms by (auto simp: adaptValue_def Let_def split: prod.splits)

lemma adapt_channel_fields:
  assumes "adapt_channel q to_float now r wall c a = (a', ps)"
  shows "ps_id ps = ch_id c" "sample_of_channel c (ps_sample ps)" "ps_name ps = ch_name c" "ps_decoderUnit ps = ch_unit c"
    "sa_t (ps_sample ps) = (if re_received r \<noteq> 0 then re_received r else now)"
    "sa_wall (ps_sample ps) = (if re_receivedWall r \<noteq> 0 then re_receivedWall r else wall)"
proof -
  obtain ps0 where ps0: "adaptValue q to_float now (ch_dval c) (ch_val c) (ch_unit c) (ch_special c) (re_range r) (re_hold r)
      (re_showBar r) (re_lowBat r) (ch_id c) (if re_receivedWall r \<noteq> 0 then re_receivedWall r else wall) (channel_shown c) a
      = (a', ps0)"
    and ps: "ps = ps0\<lparr>ps_sample := (if re_received r \<noteq> 0 then (ps_sample ps0)\<lparr>sa_t := re_received r\<rparr> else ps_sample ps0)
        \<lparr>sa_flags := sa_flags (if re_received r \<noteq> 0 then (ps_sample ps0)\<lparr>sa_t := re_received r\<rparr> else ps_sample ps0)
           OR (ch_states c AND (MaxFlag OR MinFlag OR Avg OR Relative OR Peak))\<rparr>, ps_name := ch_name c\<rparr>"
    using assms unfolding adapt_channel_def Let_def
    by (auto split: prod.splits)
  note f = adaptValue_fields[OF ps0]
  show "ps_id ps = ch_id c" "ps_name ps = ch_name c" "ps_decoderUnit ps = ch_unit c"
    "sa_t (ps_sample ps) = (if re_received r \<noteq> 0 then re_received r else now)"
    "sa_wall (ps_sample ps) = (if re_receivedWall r \<noteq> 0 then re_receivedWall r else wall)"
    using f by (simp_all add: ps)
  show "sample_of_channel c (ps_sample ps)"
    using f by (cases "number_match (ch_val c)")
      (auto simp: ps sample_of_channel_def value_quality_def value_number_def channel_shown_def split: if_splits)
qed

lemma adapt_channels_all:
  "adapt_channels q to_float now r wall cs a = (a', pss) \<Longrightarrow>
   list_all2 (\<lambda>c ps. ps_id ps = ch_id c \<and> ps_name ps = ch_name c \<and> ps_decoderUnit ps = ch_unit c \<and>
     sample_of_channel c (ps_sample ps) \<and> sa_t (ps_sample ps) = (if re_received r \<noteq> 0 then re_received r else now) \<and>
     sa_wall (ps_sample ps) = (if re_receivedWall r \<noteq> 0 then re_receivedWall r else wall)) cs pss"
proof (induction cs arbitrary: a pss)
  case (Cons c cs)
  obtain a1 ps where c: "adapt_channel q to_float now r wall c a = (a1, ps)" by fastforce
  obtain pss' where rest: "adapt_channels q to_float now r wall cs a1 = (a', pss')" and pss: "pss = ps # pss'"
    using Cons.prems c by (auto split: prod.splits)
  show ?case
    using adapt_channel_fields[OF c] Cons.IH[OF rest] by (simp add: pss)
qed simp

lemma adapt_length: "adapt q to_float now r wall a = (a', pss) \<Longrightarrow> length pss = length (re_channels r)"
  unfolding adapt_def by (drule adapt_channels_all, drule list_all2_lengthD) simp

text \<open>
  A frame gives one sample for every value it has, in order, with its number, name and unit: valid with the decoder's number
  only when the text is empty or a number, an overload, signed, when the text has a letter, no value for anything else, and
  stamped with the time the frame was received.
\<close>

theorem adapt_samples:
  "list_all2 (\<lambda>c ps. ps_id ps = ch_id c \<and> ps_name ps = ch_name c \<and> ps_decoderUnit ps = ch_unit c \<and>
     sample_of_channel c (ps_sample ps) \<and> sa_t (ps_sample ps) = (if re_received r \<noteq> 0 then re_received r else now) \<and>
     sa_wall (ps_sample ps) = (if re_receivedWall r \<noteq> 0 then re_receivedWall r else wall))
   (re_channels r) (snd (adapt q to_float now r wall a))"
  by (rule adapt_channels_all[where a = a and a' = "fst (adapt q to_float now r wall a)"]) (simp add: adapt_def)

subsection \<open>Ports\<close>

text \<open>The port of a secondary value, against the port of the main value.\<close>

definition side_port :: "port_key \<Rightarrow> int \<Rightarrow> port_key \<Rightarrow> bool" where
  "side_port main i p \<longleftrightarrow> pk_channel p = 1 \<and> (if pk_slot p = Main then p \<noteq> main else p = main\<lparr>pk_slot := slot_of i\<rparr>)"

lemma slot_of_main: "slot_of i \<noteq> Main"
  by (simp add: slot_of_def Let_def)

lemma slot_of_distinct: "\<lbrakk>i \<in> {1, 2, 3}; j \<in> {1, 2, 3}; slot_of i = slot_of j\<rbrakk> \<Longrightarrow> i = j"
  by (auto simp: slot_of_def kMaxValues_def)

definition value_port :: "qt \<Rightarrow> frame_format \<Rightarrow> qstring \<Rightarrow> qstring \<Rightarrow> qstring \<Rightarrow> bool \<Rightarrow> bool \<Rightarrow> port_key" where
  "value_port q format unit special rng hold low =
     (let base0 = snd (si_split unit);
          m = meaning q (if format = VictronBLE \<and> base0 = lit ''h'' then lit ''min'' else base0) (modeCode q special) format;
          flags = mode_flags (modeCode q special) OR (if hold then HoldFlag else 0)
            OR (if rng = lit ''AUTO'' then Autorange else 0) OR (if low then LowBattery else 0)
      in port0\<lparr>pk_quantity := fst m, pk_defining := definingFlags (fst m) flags\<rparr>)"

lemma adaptValue_port_cases:
  assumes "adaptValue q to_float now dval text unit special rng hold bar low i wall shown a = (a', ps)"
    and "port = value_port q (ad_format a) unit special rng hold low"
  shows "pk_slot port = Main" "pk_channel port = 1" "a' = (if i = 0 then a\<lparr>ad_mainKey := port\<rparr> else a)"
    "ps_port ps = (if i \<noteq> 0 \<and> port = ad_mainKey a then port\<lparr>pk_slot := slot_of i\<rparr> else port)"
proof -
  obtain prefix base0 where u: "si_split unit = (prefix, base0)" by fastforce
  define m where "m = meaning q (if ad_format a = VictronBLE \<and> base0 = lit ''h'' then lit ''min'' else base0)
    (modeCode q special) (ad_format a)"
  define flags where "flags = mode_flags (modeCode q special) OR (if hold then HoldFlag else 0)
    OR (if rng = lit ''AUTO'' then Autorange else 0) OR (if low then LowBattery else 0)"
  have p: "port = port0\<lparr>pk_quantity := fst m, pk_defining := definingFlags (fst m) flags\<rparr>"
    unfolding assms(2) value_port_def Let_def u snd_conv m_def flags_def ..
  then show "pk_slot port = Main" "pk_channel port = 1" by (simp_all add: port0_def)
  show "a' = (if i = 0 then a\<lparr>ad_mainKey := port\<rparr> else a)"
    "ps_port ps = (if i \<noteq> 0 \<and> port = ad_mainKey a then port\<lparr>pk_slot := slot_of i\<rparr> else port)"
    using assms(1) unfolding adaptValue_def Let_def u prod.case m_def[symmetric] flags_def[symmetric] p[symmetric]
    by (simp_all only: prod.inject, (elim conjE, hypsubst, simp)+)
qed

lemma adaptValue_port:
  assumes "adaptValue q to_float now dval text unit special rng hold bar low i wall shown a = (a', ps)"
  shows "i = 0 \<Longrightarrow> ps_port ps = ad_mainKey a' \<and> pk_slot (ps_port ps) = Main \<and> pk_channel (ps_port ps) = 1"
    "\<lbrakk>i \<noteq> 0; pk_slot (ad_mainKey a) = Main; pk_channel (ad_mainKey a) = 1\<rbrakk> \<Longrightarrow> a' = a \<and> side_port (ad_mainKey a) i (ps_port ps)"
  using adaptValue_port_cases[OF assms refl] by (simp_all add: side_port_def slot_of_main)

lemma adapt_channel_port:
  assumes "adapt_channel q to_float now r wall c a = (a', ps)"
  shows "ch_id c = 0 \<Longrightarrow> ps_port ps = ad_mainKey a' \<and> pk_slot (ps_port ps) = Main \<and> pk_channel (ps_port ps) = 1"
    "\<lbrakk>ch_id c \<noteq> 0; pk_slot (ad_mainKey a) = Main; pk_channel (ad_mainKey a) = 1\<rbrakk> \<Longrightarrow>
       a' = a \<and> side_port (ad_mainKey a) (ch_id c) (ps_port ps)"
proof -
  obtain ps0 where ps0: "adaptValue q to_float now (ch_dval c) (ch_val c) (ch_unit c) (ch_special c) (re_range r) (re_hold r)
      (re_showBar r) (re_lowBat r) (ch_id c) (if re_receivedWall r \<noteq> 0 then re_receivedWall r else wall) (channel_shown c) a
      = (a', ps0)" and ps: "ps_port ps = ps_port ps0"
    using assms unfolding adapt_channel_def Let_def by (auto split: prod.splits)
  show "ch_id c = 0 \<Longrightarrow> ps_port ps = ad_mainKey a' \<and> pk_slot (ps_port ps) = Main \<and> pk_channel (ps_port ps) = 1"
    unfolding ps by (rule adaptValue_port(1)[OF ps0])
  show "\<lbrakk>ch_id c \<noteq> 0; pk_slot (ad_mainKey a) = Main; pk_channel (ad_mainKey a) = 1\<rbrakk> \<Longrightarrow>
       a' = a \<and> side_port (ad_mainKey a) (ch_id c) (ps_port ps)"
    unfolding ps by (rule adaptValue_port(2)[OF ps0])
qed

lemma adapt_channels_ports:
  "\<lbrakk>adapt_channels q to_float now r wall cs a = (a', pss); 0 \<notin> ch_id ` set cs; pk_slot (ad_mainKey a) = Main;
    pk_channel (ad_mainKey a) = 1\<rbrakk> \<Longrightarrow>
   list_all2 (\<lambda>c ps. side_port (ad_mainKey a) (ch_id c) (ps_port ps)) cs pss"
proof (induction cs arbitrary: pss)
  case (Cons c cs)
  obtain a1 ps where c: "adapt_channel q to_float now r wall c a = (a1, ps)" by fastforce
  obtain pss' where rest: "adapt_channels q to_float now r wall cs a1 = (a', pss')" and pss: "pss = ps # pss'"
    using Cons.prems(1) c by (auto split: prod.splits)
  have "a1 = a" "side_port (ad_mainKey a) (ch_id c) (ps_port ps)"
    using adapt_channel_port(2)[OF c] Cons.prems(2-4) by auto
  then show ?case using Cons.IH[of pss'] rest Cons.prems(2-4) by (simp add: pss)
qed simp

lemma side_port_not_main: "side_port main i p \<Longrightarrow> pk_slot main = Main \<Longrightarrow> p \<noteq> main"
  using slot_of_main[of i] by (cases "pk_slot p = Main") (auto simp: side_port_def dest: arg_cong[of _ _ pk_slot])

lemma side_ports_distinct:
  assumes "side_port main i p" "side_port main j p'" "pk_slot p \<noteq> Main" "i \<noteq> j" "i \<in> {1, 2, 3}" "j \<in> {1, 2, 3}"
    "pk_slot main = Main"
  shows "p \<noteq> p'"
proof
  assume "p = p'"
  then have "main\<lparr>pk_slot := slot_of i\<rparr> = main\<lparr>pk_slot := slot_of j\<rparr>"
    using assms(1-3) by (simp add: side_port_def)
  then have "slot_of i = slot_of j" by (metis port_key.select_convs(4) port_key.surjective port_key.update_convs(4))
  then show False using slot_of_distinct assms(4-6) by blast
qed


text \<open>Two values of the main one's quantity, both in volts, and the ports they get.\<close>

definition two_volts :: dmm_response where
  "two_volts = response0\<lparr>re_channels := [channel0, channel0\<lparr>ch_id := 1\<rparr>]\<rparr>"

lemma two_volts_adapted: "\<exists>a' p0 p1. adapt qt_plain (\<lambda>d. d) 0 two_volts 0 (adapter0 VC820Continuous) = (a', [p0, p1])"
proof -
  obtain a' pss where r: "adapt qt_plain (\<lambda>d. d) 0 two_volts 0 (adapter0 VC820Continuous) = (a', pss)" by fastforce
  then have "length pss = 2" by (simp add: adapt_length two_volts_def)
  then show ?thesis using r by (auto simp: numeral_2_eq_2 length_Suc_conv)
qed



text \<open>Two further values of one unit that is not the main one's: both get the port of that quantity.\<close>

lemma adapt_channel_value_port:
  assumes "adapt_channel q to_float now r wall c a = (a', ps)"
    and "p = value_port q (ad_format a) (ch_unit c) (ch_special c) (re_range r) (re_hold r) (re_lowBat r)"
  shows "a' = (if ch_id c = 0 then a\<lparr>ad_mainKey := p\<rparr> else a)"
    "ps_port ps = (if ch_id c \<noteq> 0 \<and> p = ad_mainKey a then p\<lparr>pk_slot := slot_of (ch_id c)\<rparr> else p)"
proof -
  obtain ps0 where ps0: "adaptValue q to_float now (ch_dval c) (ch_val c) (ch_unit c) (ch_special c) (re_range r) (re_hold r)
      (re_showBar r) (re_lowBat r) (ch_id c) (if re_receivedWall r \<noteq> 0 then re_receivedWall r else wall) (channel_shown c) a
      = (a', ps0)" and ps: "ps_port ps = ps_port ps0"
    using assms(1) unfolding adapt_channel_def Let_def by (auto split: prod.splits)
  show "a' = (if ch_id c = 0 then a\<lparr>ad_mainKey := p\<rparr> else a)"
    "ps_port ps = (if ch_id c \<noteq> 0 \<and> p = ad_mainKey a then p\<lparr>pk_slot := slot_of (ch_id c)\<rparr> else p)"
    unfolding ps by (rule adaptValue_port_cases(3,4)[OF ps0 assms(2)])+
qed

lemma side_values_share_port:
  assumes "adapt q to_float now r wall a = (a', [p0, p1, p2])" "re_channels r = [c0, c1, c2]"
    and "ch_id c0 = 0" "ch_id c1 \<noteq> 0" "ch_id c2 \<noteq> 0" "ch_unit c1 = ch_unit c2" "ch_special c1 = ch_special c2"
    and "value_port q (ad_format a) (ch_unit c1) (ch_special c1) (re_range r) (re_hold r) (re_lowBat r) \<noteq>
      value_port q (ad_format a) (ch_unit c0) (ch_special c0) (re_range r) (re_hold r) (re_lowBat r)"
  shows "ps_port p1 = ps_port p2"
proof -
  let ?p = "\<lambda>c. value_port q (ad_format a) (ch_unit c) (ch_special c) (re_range r) (re_hold r) (re_lowBat r)"
  obtain a0 where a0: "adapt_channel q to_float now r wall c0 a = (a0, p0)"
    and r0: "adapt_channels q to_float now r wall [c1, c2] a0 = (a', [p1, p2])"
    using assms(1,2) by (auto simp: adapt_def split: prod.splits)
  then obtain a1 a2 where a1: "adapt_channel q to_float now r wall c1 a0 = (a1, p1)"
    and a2: "adapt_channel q to_float now r wall c2 a1 = (a2, p2)"
    by (auto split: prod.splits)
  have 0: "a0 = a\<lparr>ad_mainKey := ?p c0\<rparr>" using adapt_channel_value_port(1)[OF a0 refl] assms(3) by simp
  have 1: "a1 = a0" "ps_port p1 = ?p c1"
    using adapt_channel_value_port[OF a1 refl] assms(4,8) by (simp_all add: 0)
  have 2: "ps_port p2 = ?p c2"
    using adapt_channel_value_port[OF a2 refl] assms(5-8) by (simp add: 0 1)
  show ?thesis using 1 2 assms(6,7) by simp
qed

end
