(* ===== verification/Victron_Ble.thy ===== *)
theory Victron_Ble
  imports Reading_Adapter Scpi_Endpoint
begin

text \<open>
  \<open>src/src/device/victronble.h\<close>, \<open>victronble.cpp\<close> and \<open>device/decoders/victron_ble.cpp\<close>: the advertisements of Victron devices
  over Bluetooth, the line the port makes of one, and its decoder. The cipher (vendored) is the parameter \<open>ctr\<close> (key,
  counter block, data), \<open>QString::number(d, 'f', n)\<close> is \<open>fixed\<close>, the translation of a label \<open>tr\<close>. Not modelled: the table of the
  product names.
\<close>

subsection \<open>Hexadecimal bytes\<close>

definition hex_digit :: "byte \<Rightarrow> byte" where
  "hex_digit n = (if n < 10 then 48 + n else 87 + n)"

definition to_hex :: "bytes \<Rightarrow> bytes" where
  "to_hex bs = concat (map (\<lambda>b. [hex_digit (drop_bit 4 b), hex_digit (take_bit 4 b)]) bs)"

definition hex_val :: "byte \<Rightarrow> byte option" where
  "hex_val c = (if 48 \<le> c \<and> c \<le> 57 then Some (c - 48) else if 97 \<le> c \<and> c \<le> 102 then Some (c - 87)
     else if 65 \<le> c \<and> c \<le> 70 then Some (c - 55) else None)"

fun hex_pairs :: "bytes \<Rightarrow> bytes" where
  "hex_pairs (h # l # ds) = (push_bit 4 h OR l) # hex_pairs ds"
| "hex_pairs ds = []"

text \<open>\<open>QByteArray::fromHex\<close>: what is no digit is skipped; of an odd number of digits the first stands alone.\<close>

definition from_hex :: "bytes \<Rightarrow> bytes" where
  "from_hex s = (let ds = List.map_filter hex_val s in hex_pairs (if odd (length ds) then 0 # ds else ds))"

definition latin1 :: "bytes \<Rightarrow> qstring" where "latin1 = map ucast"
definition to_latin1 :: "qstring \<Rightarrow> bytes" where "to_latin1 = map (\<lambda>c. if c < 256 then ucast c else 63)"
definition bytes_trimmed :: "bytes \<Rightarrow> bytes" where
  "bytes_trimmed s = rev (dropWhile byte_space (rev (dropWhile byte_space s)))"

subsection \<open>Advertisements\<close>

record advertisement =
  va_model :: u16
  va_readoutType :: byte
  va_iv :: u16
  va_encrypted :: bytes

definition le16 :: "byte \<Rightarrow> byte \<Rightarrow> u16" where
  "le16 lo hi = ucast lo OR push_bit 8 (ucast hi)"

definition victron_parse :: "bytes \<Rightarrow> advertisement option" where
  "victron_parse d =
     (if length d < 9 \<or> d ! 0 \<noteq> 0x10 then None
      else Some \<lparr>va_model = le16 (d ! 2) (d ! 3), va_readoutType = d ! 4, va_iv = le16 (d ! 5) (d ! 6),
             va_encrypted = drop 7 d\<rparr>)"

definition victron_decrypt :: "(bytes \<Rightarrow> bytes \<Rightarrow> bytes \<Rightarrow> bytes) \<Rightarrow> advertisement \<Rightarrow> bytes \<Rightarrow> bytes option" where
  "victron_decrypt ctr adv key =
     (if length key \<noteq> 16 \<or> va_encrypted adv = [] \<or> hd (va_encrypted adv) \<noteq> hd key then None
      else Some (ctr key (ucast (va_iv adv) # ucast (drop_bit 8 (va_iv adv)) # replicate 14 0) (tl (va_encrypted adv))))"

definition keyFromHex :: "qstring \<Rightarrow> bytes" where
  "keyFromHex hex =
     (let clean = filter (\<lambda>c. \<not> re_blank c \<and> c \<noteq> of_char CHR '':'') hex
      in if length clean \<noteq> 32 \<or> \<not> list_all (\<lambda>c. c < 256 \<and> hex_val (ucast c) \<noteq> None) clean then []
         else from_hex (to_latin1 clean))"

definition SolarCharger :: byte where "SolarCharger = 1"
definition BatteryMonitor :: byte where "BatteryMonitor = 2"
definition Inverter :: byte where "Inverter = 3"

definition victron_fields :: "byte \<Rightarrow> (qstring \<times> qstring) list" where
  "victron_fields t =
     (if t = BatteryMonitor then
        [(lit ''V'', lit ''Battery voltage''), (lit ''I'', lit ''Battery current''), (lit ''P'', lit ''Battery power''),
         (lit ''SOC'', lit ''State of charge''), (lit ''AH'', lit ''Consumed Ah''), (lit ''TTG'', lit ''Time to go''),
         (lit ''AUX'', lit ''Aux input (starter voltage, midpoint or temperature)'')]
      else if t = SolarCharger then
        [(lit ''PV'', lit ''PV power''), (lit ''V'', lit ''Battery voltage''), (lit ''I'', lit ''Battery charging current''),
         (lit ''YIELD'', lit ''Yield today''), (lit ''LOAD'', lit ''Load current'')]
      else if t = Inverter then
        [(lit ''VA'', lit ''AC apparent power''), (lit ''V'', lit ''Battery voltage''), (lit ''VAC'', lit ''AC voltage''),
         (lit ''IAC'', lit ''AC current'')]
      else [])"

fun q_contains :: "qstring \<Rightarrow> qstring \<Rightarrow> bool" where
  "q_contains p [] \<longleftrightarrow> p = []"
| "q_contains p (c # s) \<longleftrightarrow> take (length p) (c # s) = p \<or> q_contains p s"

definition readoutTypeForModel :: "qt \<Rightarrow> qstring \<Rightarrow> byte" where
  "readoutTypeForModel q model =
     (let m = qt_lower q model in
      if q_contains (lit ''shunt'') m \<or> q_contains (lit ''bmv'') m then BatteryMonitor
      else if q_contains (lit ''mppt'') m \<or> q_contains (lit ''solar'') m then SolarCharger
      else if q_contains (lit ''inverter'') m then Inverter else 0)"

text \<open>\<open>VictronBle::frame\<close>: the line the port gives to the reader.\<close>

definition frame_field :: "qstring list \<Rightarrow> nat \<Rightarrow> bytes" where
  "frame_field fs i = (if i < length fs \<and> fs ! i \<noteq> [] then to_latin1 (fs ! i) else [45])"

definition victron_frame :: "byte \<Rightarrow> bytes \<Rightarrow> qstring list \<Rightarrow> bytes" where
  "victron_frame t plain fs =
     to_hex [t] @ to_hex plain @
     (if fs \<noteq> [] \<and> fs ! 0 \<noteq> [] then concat (map (\<lambda>i. 32 # frame_field fs i) [0..<max 2 (length fs)]) else []) @ [10]"

subsection \<open>\<open>BitReader\<close>\<close>

record bit_reader =
  br_data :: bytes
  br_pos :: nat
  br_ok :: bool

definition bit_reader_of :: "bytes \<Rightarrow> bit_reader" where
  "bit_reader_of d = \<lparr>br_data = d, br_pos = 0, br_ok = True\<rparr>"

fun unsigned_loop :: "nat \<Rightarrow> nat \<Rightarrow> u32 \<Rightarrow> bit_reader \<Rightarrow> u32 \<times> bit_reader" where
  "unsigned_loop i 0 v r = (v, r)"
| "unsigned_loop i (Suc n) v r =
     (let k = br_pos r div 8;
          b = (if k < length (br_data r) then bit (br_data r ! k) (br_pos r mod 8) else True)
      in unsigned_loop (Suc i) n (if b then v OR push_bit i 1 else v)
           (r\<lparr>br_pos := Suc (br_pos r), br_ok := (br_ok r \<and> k < length (br_data r))\<rparr>))"

definition unsignedBits :: "nat \<Rightarrow> bit_reader \<Rightarrow> u32 \<times> bit_reader" where
  "unsignedBits bits r = unsigned_loop 0 bits 0 r"

definition signedBits :: "nat \<Rightarrow> bit_reader \<Rightarrow> int \<times> bit_reader" where
  "signedBits bits r =
     (let (raw, r') = unsignedBits bits r in
      (if bits > 0 \<and> bits < 32 \<and> raw AND push_bit (bits - 1) 1 \<noteq> 0 then sint raw - sint (push_bit bits 1 :: u32) else sint raw, r'))"

subsection \<open>The values of a record\<close>

record vvalue =
  vv_id :: qstring
  vv_dval :: dbl
  vv_val :: qstring
  vv_unit :: qstring
  vv_special :: qstring
  vv_valid :: bool

definition vval :: "(dbl \<Rightarrow> nat \<Rightarrow> qstring) \<Rightarrow> string \<Rightarrow> dbl \<Rightarrow> nat \<Rightarrow> string \<Rightarrow> string \<Rightarrow> vvalue" where
  "vval fixed name d decimals unit special =
     \<lparr>vv_id = lit name, vv_dval = d, vv_val = fixed d decimals, vv_unit = lit unit, vv_special = lit special, vv_valid = True\<rparr>"

definition vinvalid :: "(dbl \<Rightarrow> nat \<Rightarrow> qstring) \<Rightarrow> string \<Rightarrow> string \<Rightarrow> string \<Rightarrow> vvalue" where
  "vinvalid fixed name unit special = (vval fixed name d_zero 0 unit special)\<lparr>vv_valid := False\<rparr>"

definition timeToGo :: "(dbl \<Rightarrow> nat \<Rightarrow> qstring) \<Rightarrow> u32 \<Rightarrow> vvalue" where
  "timeToGo fixed minutes =
     (if minutes = 0xFFFF then (vval fixed ''TTG'' d_zero 0 ''h'' ''DC'')\<lparr>vv_dval := DNan False, vv_val := lit ''--''\<rparr>
      else (let d = dlit (of_nat (unat minutes)); v = vval fixed ''TTG'' d 0 ''min'' ''DC''
            in if minutes \<ge> 60 then v\<lparr>vv_val := fixed (d_div d (dlit 60)) 1, vv_unit := lit ''h''\<rparr> else v))"

abbreviation d_int :: "int \<Rightarrow> dbl" where "d_int i \<equiv> dlit (of_int i)"
abbreviation d_u32 :: "u32 \<Rightarrow> dbl" where "d_u32 w \<equiv> dlit (of_nat (unat w))"

definition aux_value :: "(dbl \<Rightarrow> nat \<Rightarrow> qstring) \<Rightarrow> u32 \<Rightarrow> u32 \<Rightarrow> vvalue" where
  "aux_value fixed aux mode =
     (if mode = 0 then vval fixed ''AUX'' (d_div (d_int (sint (ucast aux :: u16))) (dlit 100)) 2 ''V'' ''DC''
      else if mode = 1 then vval fixed ''AUX'' (d_div (d_u32 aux) (dlit 100)) 2 ''V'' ''DC''
      else if mode = 2 then
        (if aux \<noteq> 0xFFFF then vval fixed ''AUX'' (d_sub (d_div (d_u32 aux) (dlit 100)) (dlit (27315 / 100))) 1 ''C'' ''TE''
         else vinvalid fixed ''AUX'' ''C'' ''TE'')
      else vinvalid fixed ''AUX'' '''' ''DC'')"

definition batteryMonitor :: "(dbl \<Rightarrow> nat \<Rightarrow> qstring) \<Rightarrow> bytes \<Rightarrow> vvalue list" where
  "batteryMonitor fixed plain =
     (let (ttg, r1) = unsignedBits 16 (bit_reader_of plain);
          (voltage, r2) = signedBits 16 r1;
          voltageComplete = br_ok r2;
          (alarm, r3) = unsignedBits 16 r2;
          (aux, r4) = unsignedBits 16 r3;
          (auxMode, r5) = unsignedBits 2 r4;
          (current, r6) = signedBits 22 r5;
          currentComplete = br_ok r6;
          (consumed, r7) = unsignedBits 20 r6;
          (soc, r8) = unsignedBits 10 r7;
          vOk = (voltage \<noteq> 0x7FFF \<and> voltageComplete);
          iOk = (current \<noteq> 0x1FFFFF \<and> currentComplete);
          volt = d_div (d_int voltage) (dlit 100)
      in [if vOk then vval fixed ''V'' volt 2 ''V'' ''DC'' else vinvalid fixed ''V'' ''V'' ''DC'',
          if iOk then vval fixed ''I'' (d_div (d_int current) (dlit 1000)) 3 ''A'' ''DC'' else vinvalid fixed ''I'' ''A'' ''DC'',
          if vOk \<and> iOk then vval fixed ''P'' (d_div (d_mul volt (d_int current)) (dlit 1000)) 1 ''W'' ''DC''
            else vinvalid fixed ''P'' ''W'' ''DC'',
          if soc \<noteq> 0x3FF then vval fixed ''SOC'' (d_div (d_u32 soc) (dlit 10)) 1 ''%'' ''DC'' else vinvalid fixed ''SOC'' ''%'' ''DC'',
          if consumed \<noteq> 0xFFFFF then vval fixed ''AH'' (d_neg (d_div (d_u32 consumed) (dlit 10))) 1 ''Ah'' ''DC''
            else vinvalid fixed ''AH'' ''Ah'' ''DC'',
          timeToGo fixed ttg, aux_value fixed aux auxMode])"

definition solarCharger :: "(dbl \<Rightarrow> nat \<Rightarrow> qstring) \<Rightarrow> bytes \<Rightarrow> vvalue list" where
  "solarCharger fixed plain =
     (let (state, r1) = unsignedBits 8 (bit_reader_of plain);
          (error, r2) = unsignedBits 8 r1;
          (voltage, r3) = signedBits 16 r2;
          voltageComplete = br_ok r3;
          (current, r4) = signedBits 16 r3;
          currentComplete = br_ok r4;
          (yield, r5) = unsignedBits 16 r4;
          (power, r6) = unsignedBits 16 r5;
          (load, r7) = unsignedBits 9 r6
      in [if power \<noteq> 0xFFFF then vval fixed ''PV'' (d_u32 power) 0 ''W'' ''DC'' else vinvalid fixed ''PV'' ''W'' ''DC'',
          if voltage \<noteq> 0x7FFF \<and> voltageComplete then vval fixed ''V'' (d_div (d_int voltage) (dlit 100)) 2 ''V'' ''DC''
            else vinvalid fixed ''V'' ''V'' ''DC'',
          if current \<noteq> 0x7FFF \<and> currentComplete then vval fixed ''I'' (d_div (d_int current) (dlit 10)) 1 ''A'' ''DC''
            else vinvalid fixed ''I'' ''A'' ''DC'',
          if yield \<noteq> 0xFFFF then vval fixed ''YIELD'' (d_mul (d_u32 yield) (dlit 10)) 0 ''Wh'' ''DC''
            else vinvalid fixed ''YIELD'' ''Wh'' ''DC'',
          if load \<noteq> 0x1FF then vval fixed ''LOAD'' (d_div (d_u32 load) (dlit 10)) 1 ''A'' ''DC'' else vinvalid fixed ''LOAD'' ''A'' ''DC''])"

definition inverter :: "(dbl \<Rightarrow> nat \<Rightarrow> qstring) \<Rightarrow> bytes \<Rightarrow> vvalue list" where
  "inverter fixed plain =
     (let (state, r1) = unsignedBits 8 (bit_reader_of plain);
          (alarm, r2) = unsignedBits 16 r1;
          (battery, r3) = signedBits 16 r2;
          batteryComplete = br_ok r3;
          (apparent, r4) = unsignedBits 16 r3;
          (acVoltage, r5) = unsignedBits 15 r4;
          (acCurrent, r6) = unsignedBits 11 r5
      in [if apparent \<noteq> 0xFFFF then vval fixed ''VA'' (d_u32 apparent) 0 ''VA'' ''AC'' else vinvalid fixed ''VA'' ''VA'' ''AC'',
          if battery \<noteq> 0x7FFF \<and> batteryComplete then vval fixed ''V'' (d_div (d_int battery) (dlit 100)) 2 ''V'' ''DC''
            else vinvalid fixed ''V'' ''V'' ''DC'',
          if acVoltage \<noteq> 0x7FFF then vval fixed ''VAC'' (d_div (d_u32 acVoltage) (dlit 100)) 2 ''V'' ''AC''
            else vinvalid fixed ''VAC'' ''V'' ''AC'',
          if acCurrent \<noteq> 0x7FF then vval fixed ''IAC'' (d_div (d_u32 acCurrent) (dlit 10)) 1 ''A'' ''AC''
            else vinvalid fixed ''IAC'' ''A'' ''AC''])"

definition victron_values :: "(dbl \<Rightarrow> nat \<Rightarrow> qstring) \<Rightarrow> byte \<Rightarrow> bytes \<Rightarrow> vvalue list" where
  "victron_values fixed t plain =
     (if t = BatteryMonitor then batteryMonitor fixed plain
      else if t = SolarCharger then solarCharger fixed plain
      else if t = Inverter then inverter fixed plain else [])"

subsection \<open>The decoder\<close>

definition victron_pick :: "vvalue list \<Rightarrow> qstring \<Rightarrow> int \<Rightarrow> vvalue option" where
  "victron_pick vs wanted fallback =
     (case find (\<lambda>v. wanted \<noteq> [] \<and> vv_id v = wanted) vs of
        Some v \<Rightarrow> Some v
      | None \<Rightarrow> if wanted = [] \<and> fallback \<ge> 0 \<and> fallback < int (length vs) then Some (vs ! nat fallback) else None)"

definition victron_name :: "(qstring \<Rightarrow> qstring) \<Rightarrow> byte \<Rightarrow> vvalue \<Rightarrow> qstring" where
  "victron_name tr t v = (case find (\<lambda>f. vv_id v = fst f) (victron_fields t) of None \<Rightarrow> [] | Some f \<Rightarrow> tr (snd f))"

definition victron_main :: "(qstring \<Rightarrow> qstring) \<Rightarrow> byte \<Rightarrow> vvalue \<Rightarrow> dmm_channel" where
  "victron_main tr t v = channel0\<lparr>ch_name := victron_name tr t v, ch_dval := vv_dval v, ch_val := vv_val v, ch_unit := vv_unit v,
     ch_special := vv_special v, ch_noValue := d_isnan (vv_dval v)\<rparr>"

definition victron_fill :: "(qstring \<Rightarrow> qstring) \<Rightarrow> byte \<Rightarrow> int \<Rightarrow> vvalue option \<Rightarrow> dmm_channel" where
  "victron_fill tr t i v =
     (let c = channel0\<lparr>ch_id := i\<rparr> in
      case v of
        None \<Rightarrow> c
      | Some v \<Rightarrow>
          (let c1 = c\<lparr>ch_name := victron_name tr t v\<rparr> in
           if \<not> vv_valid v then c1
           else c1\<lparr>ch_dval := vv_dval v, ch_val := vv_val v, ch_unit := vv_unit v, ch_noValue := d_isnan (vv_dval v)\<rparr>))"

definition part :: "bytes list \<Rightarrow> nat \<Rightarrow> bytes" where
  "part ps i = (if i < length ps then ps ! i else [])"

definition victron_decode :: "(dbl \<Rightarrow> nat \<Rightarrow> qstring) \<Rightarrow> (qstring \<Rightarrow> qstring) \<Rightarrow> bytes \<Rightarrow> int \<Rightarrow> dmm_response option" where
  "victron_decode fixed tr data i =
     (let parts = split_bytes 32 (bytes_trimmed data); bs = from_hex (part parts 0) in
      if length bs < 2 then None
      else
        (let t = hd bs; vs = victron_values fixed t (tl bs) in
         if vs = [] then None
         else
           (let secondId = latin1 (part parts 2); thirdId = latin1 (part parts 3); fourthId = latin1 (part parts 4);
                second = (if secondId = lit ''-'' then None else victron_pick vs secondId 1);
                chosen = (\<lambda>s. s \<noteq> [] \<and> s \<noteq> lit ''-'')
            in case victron_pick vs (latin1 (part parts 1)) 0 of
                 None \<Rightarrow> None
               | Some main \<Rightarrow>
                   if \<not> vv_valid main then None
                   else Some (response0\<lparr>re_showBar := True,
                     re_channels := [victron_main tr t main, victron_fill tr t 1 second] @
                       (if chosen thirdId \<or> chosen fourthId
                        then [victron_fill tr t 2 (if chosen thirdId then victron_pick vs thirdId (- 1) else None)] else []) @
                       (if chosen fourthId then [victron_fill tr t 3 (victron_pick vs fourthId (- 1))] else [])\<rparr>))))"


subsection \<open>What the bit reader reads\<close>

text \<open>A record as one little-endian number, and the bits the reader sees: ones behind its end.\<close>

definition le_num :: "bytes \<Rightarrow> nat" where
  "le_num bs = foldr (\<lambda>b n. unat b + 256 * n) bs 0"

definition rec_bit :: "bytes \<Rightarrow> nat \<Rightarrow> bool" where
  "rec_bit d k = (k div 8 < length d \<longrightarrow> bit (d ! (k div 8)) (k mod 8))"

lemma bit_le_num: "bit (le_num bs) k \<longleftrightarrow> k div 8 < length bs \<and> bit (bs ! (k div 8)) (k mod 8)"
proof (induction bs arbitrary: k)
  case (Cons b bs)
  have n: "le_num (b # bs) = unat b + 256 * le_num bs" by (simp add: le_num_def)
  have t: "take_bit 8 (le_num (b # bs)) = unat b"
    using unsigned_less[of b, where 'a = nat] unfolding n by (simp add: take_bit_eq_mod)
  have d: "drop_bit 8 (le_num (b # bs)) = le_num bs"
    using unsigned_less[of b, where 'a = nat] unfolding n by (simp add: drop_bit_eq_div)
  show ?case
  proof (cases "k < 8")
    case True
    have "bit (le_num (b # bs)) k = bit (take_bit 8 (le_num (b # bs))) k" using True by (simp add: bit_take_bit_iff)
    then show ?thesis using True by (simp add: t bit_unsigned_iff)
  next
    case False
    then obtain j where k: "k = 8 + j" using le_iff_add by (metis not_less)
    have "bit (le_num (b # bs)) k = bit (drop_bit 8 (le_num (b # bs))) j" by (simp add: k bit_drop_bit_eq)
    also have "\<dots> \<longleftrightarrow> j div 8 < length bs \<and> bit (bs ! (j div 8)) (j mod 8)" unfolding d by (rule Cons.IH)
    finally show ?thesis by (simp add: k)
  qed
qed (simp add: le_num_def)

lemma unsigned_loop_reads:
  assumes "i + n \<le> 32"
  shows "bit (fst (unsigned_loop i n v r)) j \<longleftrightarrow> bit v j \<or> (i \<le> j \<and> j < i + n \<and> rec_bit (br_data r) (br_pos r + (j - i)))"
    and "snd (unsigned_loop i n v r) = r\<lparr>br_pos := br_pos r + n, br_ok := (br_ok r \<and> (n = 0 \<or> br_pos r + n \<le> 8 * length (br_data r)))\<rparr>"
proof -
  have "(bit (fst (unsigned_loop i n v r)) j \<longleftrightarrow> bit v j \<or> (i \<le> j \<and> j < i + n \<and> rec_bit (br_data r) (br_pos r + (j - i)))) \<and>
    snd (unsigned_loop i n v r) = r\<lparr>br_pos := br_pos r + n, br_ok := (br_ok r \<and> (n = 0 \<or> br_pos r + n \<le> 8 * length (br_data r)))\<rparr>"
    using assms
  proof (induction n arbitrary: i v r)
    case (Suc n)
    let ?k = "br_pos r div 8"
    let ?b = "?k < length (br_data r) \<longrightarrow> bit (br_data r ! ?k) (br_pos r mod 8)"
    let ?r = "r\<lparr>br_pos := Suc (br_pos r), br_ok := (br_ok r \<and> ?k < length (br_data r))\<rparr>"
    let ?v = "if ?b then v OR push_bit i 1 else v"
    have step: "unsigned_loop i (Suc n) v r = unsigned_loop (Suc i) n ?v ?r"
      by (simp add: Let_def)
    have bv: "bit ?v j \<longleftrightarrow> bit v j \<or> (j = i \<and> ?b)"
      using Suc.prems by (auto simp: bit_or_iff bit_exp_iff)
    have ok: "(?k < length (br_data r) \<and> (n = 0 \<or> Suc (br_pos r) + n \<le> 8 * length (br_data r))) \<longleftrightarrow>
      br_pos r + Suc n \<le> 8 * length (br_data r)"
      by auto
    have "i \<le> j \<and> j < i + Suc n \<and> rec_bit (br_data r) (br_pos r + (j - i)) \<longleftrightarrow>
      (j = i \<and> ?b) \<or> (Suc i \<le> j \<and> j < Suc i + n \<and> rec_bit (br_data ?r) (br_pos ?r + (j - Suc i)))"
      by (cases "j = i") (auto simp: rec_bit_def Suc_diff_Suc le_Suc_eq)
    then show ?case using Suc.IH[of "Suc i" ?v ?r] Suc.prems bv ok unfolding step by auto
  qed auto
  then show "bit (fst (unsigned_loop i n v r)) j \<longleftrightarrow> bit v j \<or> (i \<le> j \<and> j < i + n \<and> rec_bit (br_data r) (br_pos r + (j - i)))"
    "snd (unsigned_loop i n v r) = r\<lparr>br_pos := br_pos r + n, br_ok := (br_ok r \<and> (n = 0 \<or> br_pos r + n \<le> 8 * length (br_data r)))\<rparr>"
    by blast+
qed

lemma unsignedBits_bit: "n \<le> 32 \<Longrightarrow> bit (fst (unsignedBits n r)) j \<longleftrightarrow> j < n \<and> rec_bit (br_data r) (br_pos r + j)"
  by (simp add: unsignedBits_def unsigned_loop_reads)

lemma unsignedBits_reader:
  "n \<le> 32 \<Longrightarrow> snd (unsignedBits n r) =
     r\<lparr>br_pos := br_pos r + n, br_ok := (br_ok r \<and> (n = 0 \<or> br_pos r + n \<le> 8 * length (br_data r)))\<rparr>"
  by (simp add: unsignedBits_def unsigned_loop_reads)

lemma unsignedBits_take: "n \<le> 32 \<Longrightarrow> take_bit n (fst (unsignedBits n r)) = fst (unsignedBits n r)"
  by (rule bit_eqI) (auto simp: bit_take_bit_iff unsignedBits_bit)

lemma unsignedBits_value:
  assumes "n \<le> 32" "br_pos r + n \<le> 8 * length (br_data r)"
  shows "unat (fst (unsignedBits n r)) = take_bit n (drop_bit (br_pos r) (le_num (br_data r)))"
proof (rule bit_eqI)
  fix j
  have "(br_pos r + j) div 8 < length (br_data r)" if "j < n" using that assms(2) by (simp add: less_mult_imp_div_less)
  then show "bit (unat (fst (unsignedBits n r))) j = bit (take_bit n (drop_bit (br_pos r) (le_num (br_data r)))) j"
    using assms(1) by (auto simp: bit_unsigned_iff unsignedBits_bit bit_take_bit_iff bit_drop_bit_eq bit_le_num rec_bit_def)
qed

text \<open>Two's complement of \<open>n\<close> bits.\<close>

lemma sint_small: "unat w < 2 ^ 31 \<Longrightarrow> sint (w :: u32) = int (unat w)"
proof -
  assume *: "unat w < 2 ^ 31"
  have "uint w < 2 ^ 31" using * by (metis of_nat_less_iff of_nat_numeral of_nat_power uint_nat)
  moreover have "- (2 ^ 31) \<le> uint w" by (rule order_trans[of _ 0]) simp_all
  ultimately have "signed_take_bit 31 (uint w) = uint w" by (rule signed_take_bit_int_eq_self[rotated])
  then show ?thesis by (simp add: sint_uint)
qed

lemma signedBits_value:
  assumes "0 < n" "n < 31" "br_pos r + n \<le> 8 * length (br_data r)"
  shows "fst (signedBits n r) = signed_take_bit (n - 1) (int (drop_bit (br_pos r) (le_num (br_data r))))"
proof -
  let ?raw = "fst (unsignedBits n r)" and ?x = "drop_bit (br_pos r) (le_num (br_data r))"
  have u: "unat ?raw = take_bit n ?x" using unsignedBits_value assms by simp
  have small: "(2::nat) ^ n < 2 ^ 31" using assms(2) by (intro power_strict_increasing) auto
  have "unat ?raw < 2 ^ n" unfolding u by (simp add: take_bit_eq_mod)
  then have s: "sint ?raw = int (unat ?raw)" using small by (intro sint_small) simp
  have pu: "unat (push_bit n 1 :: u32) = 2 ^ n"
  proof -
    have "unat (push_bit n 1 :: u32) = take_bit 32 (2 ^ n)"
      by (simp add: unsigned_push_bit_eq push_bit_eq_mult[of n "1 :: nat"] del: push_bit_of_1)
    then show ?thesis using assms(2) by (simp add: take_bit_of_exp)
  qed
  have p: "sint (push_bit n 1 :: u32) = 2 ^ n" using sint_small[of "push_bit n 1"] small unfolding pu by simp
  have b: "?raw AND push_bit (n - 1) 1 \<noteq> 0 \<longleftrightarrow> bit ?x (n - 1)"
  proof -
    have "?raw AND push_bit (n - 1) 1 \<noteq> 0 \<longleftrightarrow> bit ?raw (n - 1)"
      using assms by (simp add: push_bit_eq_mult and_exp_eq_0_iff_not_bit)
    also have "\<dots> \<longleftrightarrow> bit (unat ?raw) (n - 1)" using assms by (simp add: bit_unsigned_iff)
    also have "\<dots> \<longleftrightarrow> bit ?x (n - 1)" unfolding u using assms by (simp add: bit_take_bit_iff)
    finally show ?thesis .
  qed
  have "signed_take_bit (n - 1) (int ?x) = int (take_bit n ?x) - (if bit ?x (n - 1) then 2 ^ n else 0)"
    using assms(1) by (simp add: signed_take_bit_eq_take_bit_minus of_nat_take_bit bit_of_nat_iff_bit)
  then show ?thesis
    using assms b by (simp add: signedBits_def Let_def case_prod_unfold s p[simplified] u)
qed


theorem victron_bits:
  assumes "0 < n" "n < 31" "p + n \<le> 8 * length d"
  shows "unat (fst (unsignedBits n \<lparr>br_data = d, br_pos = p, br_ok = True\<rparr>)) = take_bit n (drop_bit p (le_num d)) \<and>
    fst (signedBits n \<lparr>br_data = d, br_pos = p, br_ok = True\<rparr>) = signed_take_bit (n - 1) (int (drop_bit p (le_num d))) \<and>
    snd (signedBits n \<lparr>br_data = d, br_pos = p, br_ok = True\<rparr>) = \<lparr>br_data = d, br_pos = p + n, br_ok = True\<rparr>"
proof -
  have n: "n \<le> 32" using assms(2) by simp
  show ?thesis
    using assms unsignedBits_value[OF n, of "\<lparr>br_data = d, br_pos = p, br_ok = True\<rparr>"]
      signedBits_value[OF assms(1,2), of "\<lparr>br_data = d, br_pos = p, br_ok = True\<rparr>"]
      unsignedBits_reader[OF n, of "\<lparr>br_data = d, br_pos = p, br_ok = True\<rparr>"]
    by (simp add: signedBits_def case_prod_unfold Let_def)
qed

theorem victron_bits_witness:
  "fst (signedBits 16 \<lparr>br_data = [0, 0, 0xFE, 0xFF], br_pos = 16, br_ok = True\<rparr>) = - 2"
proof -
  have "fst (signedBits 16 \<lparr>br_data = [0, 0, 0xFE, 0xFF], br_pos = 16, br_ok = True\<rparr>) =
    signed_take_bit (16 - 1) (int (drop_bit 16 (le_num [0, 0, 0xFE, 0xFF])))"
    using victron_bits[of 16 16 "[0, 0, 0xFE, 0xFF]"] by simp
  also have "\<dots> = - 2" by (simp add: le_num_def drop_bit_eq_div signed_take_bit_eq_take_bit_shift take_bit_eq_mod)
  finally show ?thesis .
qed

subsection \<open>The layouts, and records cut short\<close>

text \<open>The reader at a bit of a record, and the bits of a field.\<close>

definition rd_at :: "bytes \<Rightarrow> nat \<Rightarrow> bit_reader" where
  "rd_at d p = \<lparr>br_data = d, br_pos = p, br_ok = (p \<le> 8 * length d)\<rparr>"

definition ubits :: "bytes \<Rightarrow> nat \<Rightarrow> nat \<Rightarrow> u32" where "ubits d p n = fst (unsignedBits n (rd_at d p))"
definition sbits :: "bytes \<Rightarrow> nat \<Rightarrow> nat \<Rightarrow> int" where "sbits d p n = fst (signedBits n (rd_at d p))"

lemma reads_at:
  "n \<le> 32 \<Longrightarrow> unsignedBits n (rd_at d p) = (ubits d p n, rd_at d (p + n))"
  "n \<le> 32 \<Longrightarrow> signedBits n (rd_at d p) = (sbits d p n, rd_at d (p + n))"
  "bit_reader_of d = rd_at d 0"
  "br_ok (rd_at d p) \<longleftrightarrow> p \<le> 8 * length d"
proof -
  show "n \<le> 32 \<Longrightarrow> unsignedBits n (rd_at d p) = (ubits d p n, rd_at d (p + n))"
    using unsignedBits_reader[of n "rd_at d p"] by (simp add: ubits_def prod_eq_iff) (auto simp: rd_at_def)
  then show "n \<le> 32 \<Longrightarrow> signedBits n (rd_at d p) = (sbits d p n, rd_at d (p + n))"
    by (simp add: sbits_def signedBits_def)
qed (simp_all add: rd_at_def bit_reader_of_def)

lemma ubits_behind: "\<lbrakk>8 * length d \<le> p; n \<le> 32\<rbrakk> \<Longrightarrow> ubits d p n = mask n"
  by (rule bit_word_eqI) (auto simp: ubits_def unsignedBits_bit rd_at_def rec_bit_def bit_mask_iff)

lemma layouts:
  "batteryMonitor fixed d =
     (let vOk = (sbits d 16 16 \<noteq> 0x7FFF \<and> 32 \<le> 8 * length d); iOk = (sbits d 66 22 \<noteq> 0x1FFFFF \<and> 88 \<le> 8 * length d);
          volt = d_div (d_int (sbits d 16 16)) (dlit 100)
      in [if vOk then vval fixed ''V'' volt 2 ''V'' ''DC'' else vinvalid fixed ''V'' ''V'' ''DC'',
          if iOk then vval fixed ''I'' (d_div (d_int (sbits d 66 22)) (dlit 1000)) 3 ''A'' ''DC'' else vinvalid fixed ''I'' ''A'' ''DC'',
          if vOk \<and> iOk then vval fixed ''P'' (d_div (d_mul volt (d_int (sbits d 66 22))) (dlit 1000)) 1 ''W'' ''DC''
            else vinvalid fixed ''P'' ''W'' ''DC'',
          if ubits d 108 10 \<noteq> 0x3FF then vval fixed ''SOC'' (d_div (d_u32 (ubits d 108 10)) (dlit 10)) 1 ''%'' ''DC''
            else vinvalid fixed ''SOC'' ''%'' ''DC'',
          if ubits d 88 20 \<noteq> 0xFFFFF then vval fixed ''AH'' (d_neg (d_div (d_u32 (ubits d 88 20)) (dlit 10))) 1 ''Ah'' ''DC''
            else vinvalid fixed ''AH'' ''Ah'' ''DC'',
          timeToGo fixed (ubits d 0 16), aux_value fixed (ubits d 48 16) (ubits d 64 2)])"
  "solarCharger fixed d =
     [if ubits d 64 16 \<noteq> 0xFFFF then vval fixed ''PV'' (d_u32 (ubits d 64 16)) 0 ''W'' ''DC'' else vinvalid fixed ''PV'' ''W'' ''DC'',
      if sbits d 16 16 \<noteq> 0x7FFF \<and> 32 \<le> 8 * length d then vval fixed ''V'' (d_div (d_int (sbits d 16 16)) (dlit 100)) 2 ''V'' ''DC''
        else vinvalid fixed ''V'' ''V'' ''DC'',
      if sbits d 32 16 \<noteq> 0x7FFF \<and> 48 \<le> 8 * length d then vval fixed ''I'' (d_div (d_int (sbits d 32 16)) (dlit 10)) 1 ''A'' ''DC''
        else vinvalid fixed ''I'' ''A'' ''DC'',
      if ubits d 48 16 \<noteq> 0xFFFF then vval fixed ''YIELD'' (d_mul (d_u32 (ubits d 48 16)) (dlit 10)) 0 ''Wh'' ''DC''
        else vinvalid fixed ''YIELD'' ''Wh'' ''DC'',
      if ubits d 80 9 \<noteq> 0x1FF then vval fixed ''LOAD'' (d_div (d_u32 (ubits d 80 9)) (dlit 10)) 1 ''A'' ''DC''
        else vinvalid fixed ''LOAD'' ''A'' ''DC'']"
  "inverter fixed d =
     [if ubits d 40 16 \<noteq> 0xFFFF then vval fixed ''VA'' (d_u32 (ubits d 40 16)) 0 ''VA'' ''AC'' else vinvalid fixed ''VA'' ''VA'' ''AC'',
      if sbits d 24 16 \<noteq> 0x7FFF \<and> 40 \<le> 8 * length d then vval fixed ''V'' (d_div (d_int (sbits d 24 16)) (dlit 100)) 2 ''V'' ''DC''
        else vinvalid fixed ''V'' ''V'' ''DC'',
      if ubits d 56 15 \<noteq> 0x7FFF then vval fixed ''VAC'' (d_div (d_u32 (ubits d 56 15)) (dlit 100)) 2 ''V'' ''AC''
        else vinvalid fixed ''VAC'' ''V'' ''AC'',
      if ubits d 71 11 \<noteq> 0x7FF then vval fixed ''IAC'' (d_div (d_u32 (ubits d 71 11)) (dlit 10)) 1 ''A'' ''AC''
        else vinvalid fixed ''IAC'' ''A'' ''AC'']"
  by (simp_all add: batteryMonitor_def solarCharger_def inverter_def reads_at Let_def)

text \<open>
  Where a field lies, and whether it is a value only when the whole field was received; the others are told by the
  pattern of ones, which a field received in part does not have.
\<close>

definition field_spans :: "byte \<Rightarrow> (qstring \<times> nat \<times> nat \<times> bool) list" where
  "field_spans t =
     (if t = BatteryMonitor then
        [(lit ''V'', 16, 32, True), (lit ''I'', 66, 88, True), (lit ''P'', 66, 88, True), (lit ''SOC'', 108, 118, False),
         (lit ''AH'', 88, 108, False), (lit ''AUX'', 48, 66, True)]
      else if t = SolarCharger then
        [(lit ''PV'', 64, 80, False), (lit ''V'', 16, 32, True), (lit ''I'', 32, 48, True), (lit ''YIELD'', 48, 64, False),
         (lit ''LOAD'', 80, 89, False)]
      else
        [(lit ''VA'', 40, 56, False), (lit ''V'', 24, 40, True), (lit ''VAC'', 56, 71, False), (lit ''IAC'', 71, 82, False)])"

lemma vval_simps [simp]:
  "vv_valid (vval fixed name x k unit special)" "vv_id (vval fixed name x k unit special) = lit name"
  "\<not> vv_valid (vinvalid fixed name unit special)" "vv_id (vinvalid fixed name unit special) = lit name"
  by (simp_all add: vval_def vinvalid_def)

lemma missing_mask: "ubits d p n \<noteq> mask n \<Longrightarrow> n \<le> 32 \<Longrightarrow> p < 8 * length d"
  by (rule ccontr) (use ubits_behind in auto)

lemma missing_unsigned:
  "ubits d 108 10 \<noteq> 0x3FF \<Longrightarrow> 108 < 8 * length d" "ubits d 88 20 \<noteq> 0xFFFFF \<Longrightarrow> 88 < 8 * length d"
  "ubits d 64 16 \<noteq> 0xFFFF \<Longrightarrow> 64 < 8 * length d" "ubits d 48 16 \<noteq> 0xFFFF \<Longrightarrow> 48 < 8 * length d"
  "ubits d 80 9 \<noteq> 0x1FF \<Longrightarrow> 80 < 8 * length d" "ubits d 40 16 \<noteq> 0xFFFF \<Longrightarrow> 40 < 8 * length d"
  "ubits d 56 15 \<noteq> 0x7FFF \<Longrightarrow> 56 < 8 * length d" "ubits d 71 11 \<noteq> 0x7FF \<Longrightarrow> 71 < 8 * length d"
  "ubits d 64 2 \<noteq> 3 \<Longrightarrow> 64 < 8 * length d"
  using missing_mask[of d 108 10] missing_mask[of d 88 20] missing_mask[of d 64 16] missing_mask[of d 48 16]
    missing_mask[of d 80 9] missing_mask[of d 40 16] missing_mask[of d 56 15] missing_mask[of d 71 11] missing_mask[of d 64 2]
  by (simp_all add: mask_eq_exp_minus_1)

lemma aux_valid: "vv_valid (aux_value fixed aux mode) \<Longrightarrow> mode \<noteq> 3" "vv_id (aux_value fixed aux mode) = lit ''AUX''"
  by (auto simp: aux_value_def split: if_splits)

lemma timeToGo_id: "vv_id (timeToGo fixed m) = lit ''TTG''"
  by (simp add: timeToGo_def Let_def)

definition field_received :: "byte \<Rightarrow> bytes \<Rightarrow> qstring \<Rightarrow> bool" where
  "field_received t d name =
     (case map_of (field_spans t) name of
        None \<Rightarrow> False
      | Some (a, b, whole) \<Rightarrow> if whole then b \<le> 8 * length d else a < 8 * length d)"

lemma vvalues_received:
  "\<forall>v \<in> set (batteryMonitor fixed d). vv_valid v \<longrightarrow> vv_id v \<noteq> lit ''TTG'' \<longrightarrow> field_received BatteryMonitor d (vv_id v)"
  "\<forall>v \<in> set (solarCharger fixed d). vv_valid v \<longrightarrow> field_received SolarCharger d (vv_id v)"
  "\<forall>v \<in> set (inverter fixed d). vv_valid v \<longrightarrow> field_received Inverter d (vv_id v)"
proof -
  have aux: "33 \<le> 4 * length d \<and> 4 \<le> length d \<and> 11 * 3 \<le> 4 * length d" if "vv_valid (aux_value fixed (ubits d 48 16) (ubits d 64 2))"
    using missing_unsigned(9)[OF aux_valid(1)[OF that]] by simp
  show "\<forall>v \<in> set (batteryMonitor fixed d). vv_valid v \<longrightarrow> vv_id v \<noteq> lit ''TTG'' \<longrightarrow> field_received BatteryMonitor d (vv_id v)"
    using missing_unsigned(1,2)[of d] aux aux_valid(2)[of fixed "ubits d 48 16" "ubits d 64 2"]
    by (simp add: layouts Let_def field_received_def field_spans_def timeToGo_id lit_inj del: list.map)
  show "\<forall>v \<in> set (solarCharger fixed d). vv_valid v \<longrightarrow> field_received SolarCharger d (vv_id v)"
    using missing_unsigned[of d]
    by (simp add: layouts field_received_def field_spans_def SolarCharger_def BatteryMonitor_def lit_inj del: list.map)
  show "\<forall>v \<in> set (inverter fixed d). vv_valid v \<longrightarrow> field_received Inverter d (vv_id v)"
    using missing_unsigned[of d]
    by (simp add: layouts field_received_def field_spans_def Inverter_def SolarCharger_def BatteryMonitor_def lit_inj del: list.map)
qed

text \<open>
  A value shown from a record (the time to go apart, which says so itself) has at least its first bit in the record; a signed
  value, and the auxiliary input, has all of them: a record cut short shows nothing in place of what it lost.
\<close>

theorem victron_missing:
  assumes "v \<in> set (victron_values fixed t d)" "vv_valid v" "vv_id v \<noteq> lit ''TTG''"
  shows "field_received t d (vv_id v)"
  using assms vvalues_received[of fixed d] by (auto simp: victron_values_def split: if_splits)


theorem victron_missing_witness:
  "\<exists>v \<in> set (victron_values (\<lambda>x n. []) Inverter [0, 0, 0, 0x10, 0x05]). vv_valid v \<and> vv_id v = lit ''V'' \<and>
     field_received Inverter [0, 0, 0, 0x10, 0x05] (vv_id v)"
proof -
  let ?d = "[0, 0, 0, 0x10, 0x05] :: bytes" and ?v = "vval (\<lambda>x n. []) ''V'' (d_div (d_int (sbits [0, 0, 0, 0x10, 0x05] 24 16)) (dlit 100)) 2 ''V'' ''DC''"
  have "sbits ?d 24 16 \<noteq> 0x7FFF" by code_simp
  then have v: "?v \<in> set (victron_values (\<lambda>x n. []) Inverter ?d)"
    by (simp add: victron_values_def layouts BatteryMonitor_def SolarCharger_def Inverter_def)
  have "field_received Inverter ?d (vv_id ?v)" by (rule victron_missing[OF v]) simp_all
  then show ?thesis using v by (intro bexI[of _ ?v]) simp_all
qed

text \<open>
  A solar charger's record that ends within the PV power: the bits that are missing read as ones, the pattern of a
  missing value is not complete, and 52 W (\<open>34 00\<close>) are shown as 65332 W.
\<close>

lemma victron_cut_field:
  "vval fixed ''PV'' (dlit 65332) 0 ''W'' ''DC'' \<in> set (victron_values fixed SolarCharger [0, 0, 0, 0, 0, 0, 0, 0, 0x34])"
proof -
  have "ubits [0, 0, 0, 0, 0, 0, 0, 0, 0x34] 64 16 = 0xFF34" by code_simp
  then show ?thesis by (simp add: victron_values_def layouts BatteryMonitor_def SolarCharger_def)
qed

subsection \<open>The line\<close>

lemma hex_digit_val: "n < 16 \<Longrightarrow> hex_val (hex_digit n) = Some n"
  and hex_digit_plain: "n < 16 \<Longrightarrow> hex_digit n \<noteq> 32 \<and> \<not> byte_space (hex_digit n)"
proof -
  assume "n < 16"
  then have "unat n < 16" by (simp add: word_less_nat_alt)
  then have "unat n \<in> set [0..<16]" by simp
  then have "n \<in> of_nat ` set [0..<16]" by (intro image_eqI[of _ _ "unat n"]) simp_all
  moreover have "\<forall>n \<in> of_nat ` set [0..<16]. hex_val (hex_digit n) = Some n \<and> hex_digit n \<noteq> 32 \<and> \<not> byte_space (hex_digit n)"
    by code_simp
  ultimately show "hex_val (hex_digit n) = Some n" "hex_digit n \<noteq> 32 \<and> \<not> byte_space (hex_digit n)" by blast+
qed

lemma nibbles: "drop_bit 4 (b :: byte) < 16" "take_bit 4 (b :: byte) < 16"
proof -
  have "unat (drop_bit 4 b) = unat b div 16" by (simp only: unsigned_drop_bit_eq) (use unsigned_less[of b, where 'a = nat] in \<open>simp add: drop_bit_eq_div take_bit_nat_eq_self\<close>)
  then show "drop_bit 4 b < 16" using unsigned_less[of b, where 'a = nat] by (simp add: word_less_nat_alt)
  have "unat (take_bit 4 b) = unat b mod 16" by (simp only: unsigned_take_bit_eq) (simp add: take_bit_eq_mod)
  then show "take_bit 4 b < 16" by (simp add: word_less_nat_alt)
qed

lemma nibbles_join: "push_bit 4 (drop_bit 4 b) OR take_bit 4 b = (b :: byte)"
  by (rule bit_word_eqI) (auto simp: bit_or_iff bit_push_bit_iff bit_drop_bit_eq bit_take_bit_iff)

lemma to_hex_simps [simp]:
  "to_hex [] = []" "to_hex (b # bs) = hex_digit (drop_bit 4 b) # hex_digit (take_bit 4 b) # to_hex bs"
  "to_hex (as @ bs) = to_hex as @ to_hex bs"
  by (simp_all add: to_hex_def)

lemma hex_roundtrip: "from_hex (to_hex bs) = bs"
proof -
  have ds: "List.map_filter hex_val (to_hex bs) = concat (map (\<lambda>b. [drop_bit 4 b, take_bit 4 b]) bs)" for bs
    by (induction bs) (simp_all add: List.map_filter_simps hex_digit_val nibbles)
  have ev: "even (length (concat (map (\<lambda>b. [drop_bit 4 b, take_bit 4 b]) bs)))" for bs :: bytes
    by (induction bs) auto
  have "hex_pairs (concat (map (\<lambda>b. [drop_bit 4 b, take_bit 4 b]) bs)) = bs" for bs
    by (induction bs) (simp_all add: nibbles_join)
  then show ?thesis using ev[of bs] by (simp only: from_hex_def ds Let_def) simp
qed

lemma to_hex_plain: "c \<in> set (to_hex bs) \<Longrightarrow> c \<noteq> 32 \<and> \<not> byte_space c"
  by (induction bs) (auto simp: hex_digit_plain nibbles)

text \<open>The ids of fields: printable, without a blank, and not the dash.\<close>

definition field_id :: "qstring \<Rightarrow> bool" where
  "field_id f \<longleftrightarrow> list_all (\<lambda>c. 32 < c \<and> c < 127) f \<and> f \<noteq> lit ''-''"

lemma latin1_roundtrip: "list_all (\<lambda>c. 32 < c \<and> c < 127) f \<Longrightarrow> latin1 (to_latin1 f) = f"
proof (induction f)
  case (Cons c f)
  have "ucast (ucast c :: byte) = c" if "c < 256"
    using that by (simp add: word_unat_eq_iff unsigned_ucast_eq unsigned_take_bit_eq word_less_nat_alt take_bit_nat_eq_self_iff)
  moreover have "c < 256" using Cons.prems order_less_trans[of c 127 256] by simp
  ultimately show ?case using Cons by (simp add: latin1_def to_latin1_def)
qed (simp add: latin1_def to_latin1_def)

lemma to_latin1_plain:
  assumes "list_all (\<lambda>c. 32 < c \<and> c < 127) f" "b \<in> set (to_latin1 f)"
  shows "b \<noteq> 32 \<and> \<not> byte_space b"
proof -
  obtain c where c: "c \<in> set f" "b = (if c < 256 then ucast c else 63)" using assms(2) by (auto simp: to_latin1_def)
  then have l: "32 < c" "c < 127" using assms(1) by (auto simp: list_all_iff)
  then have "c < 256" using order_less_trans[of c 127 256] by simp
  then have "unat b = unat c"
    using l c(2) by (simp add: unsigned_ucast_eq unsigned_take_bit_eq word_less_nat_alt take_bit_nat_eq_self_iff)
  then have "32 < unat b" using l by (simp add: word_less_nat_alt)
  then show ?thesis by (auto simp: byte_space_def word_le_nat_alt)
qed


text \<open>The fields of the line, one by one, as the decoder splits them off.\<close>

definition line_fields :: "byte \<Rightarrow> bytes \<Rightarrow> qstring list \<Rightarrow> bytes list" where
  "line_fields t plain fs =
     to_hex (t # plain) # (if fs \<noteq> [] \<and> fs ! 0 \<noteq> [] then map (frame_field fs) [0..<max 2 (length fs)] else [])"

lemma split_fields: "\<forall>p \<in> set (p # ps). 32 \<notin> set p \<Longrightarrow> split_bytes 32 (p @ concat (map (\<lambda>q. 32 # q) ps)) = p # ps"
proof (induction ps arbitrary: p)
  case Nil
  then show ?case by (simp add: split_bytes_no_sep_id)
next
  case (Cons q ps)
  then show ?case
    using split_bytes_append[of 32 p "q @ concat (map (\<lambda>q. 32 # q) ps)"] by (simp add: split_bytes_no_sep_id)
qed

lemma frame_line:
  "victron_frame t plain fs = hd (line_fields t plain fs) @ concat (map (\<lambda>q. 32 # q) (tl (line_fields t plain fs))) @ [10]"
  by (simp add: victron_frame_def line_fields_def comp_def)

lemma frame_field_plain:
  assumes "\<forall>f \<in> set fs. field_id f"
  shows "frame_field fs i \<noteq> []" "b \<in> set (frame_field fs i) \<Longrightarrow> b \<noteq> 32 \<and> \<not> byte_space b"
    "latin1 (frame_field fs i) = (if i < length fs \<and> fs ! i \<noteq> [] then fs ! i else lit ''-'')"
proof -
  have f: "list_all (\<lambda>c. 32 < c \<and> c < 127) (fs ! i)" if "i < length fs" using assms that by (auto simp: field_id_def)
  show "frame_field fs i \<noteq> []" by (simp add: frame_field_def to_latin1_def)
  show "b \<noteq> 32 \<and> \<not> byte_space b" if "b \<in> set (frame_field fs i)"
    using that f to_latin1_plain[of "fs ! i" b] by (auto simp: frame_field_def byte_space_def split: if_splits)
  show "latin1 (frame_field fs i) = (if i < length fs \<and> fs ! i \<noteq> [] then fs ! i else lit ''-'')"
    using f by (auto simp: frame_field_def latin1_roundtrip) (simp_all add: latin1_def)
qed

lemma frame_fields:
  assumes "\<forall>f \<in> set fs. field_id f"
  shows "split_bytes 32 (bytes_trimmed (victron_frame t plain fs)) = line_fields t plain fs"
proof -
  let ?ps = "line_fields t plain fs"
  have plain: "p \<noteq> [] \<and> (\<forall>b \<in> set p. b \<noteq> 32 \<and> \<not> byte_space b)" if p: "p \<in> set ?ps" for p
  proof -
    consider "p = to_hex (t # plain)" | i where "p = frame_field fs i"
      using p by (auto simp del: to_hex_simps simp: line_fields_def split: if_splits)
    then show ?thesis
    proof cases
      case 1
      then show ?thesis using to_hex_plain[of _ "t # plain"] by (metis list.distinct(1) to_hex_simps(2))
    next
      case 2
      then show ?thesis using frame_field_plain(1,2)[OF assms, where i = i] by auto
    qed
  qed
  have ps: "?ps = hd ?ps # tl ?ps" by (simp add: line_fields_def)
  define l where "l = hd ?ps @ concat (map (\<lambda>q. 32 # q) (tl ?ps))"
  have ne: "l \<noteq> []" by (simp add: l_def line_fields_def)
  have first: "\<not> byte_space (hd l)" using plain[of "hd ?ps"] by (simp add: l_def line_fields_def hex_digit_plain nibbles)
  have "last l = last (last ?ps)"
  proof (cases "tl ?ps = []")
    case False
    then obtain qs q where q: "tl ?ps = qs @ [q]" by (metis rev_exhaust)
    then have "q \<noteq> []" using plain[of q] by (metis in_set_conv_decomp list.set_sel(2) ps list.distinct(1))
    then show ?thesis by (subst ps) (simp add: l_def q)
  next
    case True
    then show ?thesis by (subst ps) (simp add: l_def)
  qed
  moreover have "\<not> byte_space (last (last ?ps))"
    using plain[of "last ?ps"] ps by (metis last_in_set list.distinct(1))
  ultimately have last: "\<not> byte_space (last l)" by simp
  have dw: "dropWhile byte_space xs = xs" if "xs = [] \<or> \<not> byte_space (hd xs)" for xs
    using that by (cases xs) auto
  have "dropWhile byte_space (l @ [10]) = l @ [10]" using first ne by (intro dw) simp
  moreover have "dropWhile byte_space (rev (l @ [10])) = rev l"
  proof -
    have "dropWhile byte_space (rev (l @ [10])) = dropWhile byte_space (rev l)" by (simp add: byte_space_def)
    then show ?thesis using dw[of "rev l"] last ne by (simp only: hd_rev) simp
  qed
  ultimately have "bytes_trimmed (victron_frame t plain fs) = l"
    unfolding bytes_trimmed_def frame_line append_assoc[symmetric] l_def[symmetric] by simp
  moreover have "split_bytes 32 l = ?ps"
    using split_fields[of "hd ?ps" "tl ?ps"] plain ps by (auto simp: l_def)
  ultimately show ?thesis by simp
qed


text \<open>What the settings ask for: the fields by their ids; without any, the first two of the record.\<close>

definition chosen_value :: "vvalue list \<Rightarrow> qstring list \<Rightarrow> nat \<Rightarrow> vvalue option" where
  "chosen_value vs fs i =
     (if fs = [] \<or> fs ! 0 = [] then (if i < 2 then Some (vs ! i) else None)
      else if i < length fs \<and> fs ! i \<noteq> [] then find (\<lambda>v. vv_id v = fs ! i) vs else None)"

definition field_chosen :: "qstring list \<Rightarrow> nat \<Rightarrow> bool" where
  "field_chosen fs i \<longleftrightarrow> fs \<noteq> [] \<and> fs ! 0 \<noteq> [] \<and> i < length fs \<and> fs ! i \<noteq> []"

definition victron_shown :: "(dbl \<Rightarrow> nat \<Rightarrow> qstring) \<Rightarrow> (qstring \<Rightarrow> qstring) \<Rightarrow> byte \<Rightarrow> bytes \<Rightarrow> qstring list \<Rightarrow> dmm_response option" where
  "victron_shown fixed tr t plain fs =
     (let vs = victron_values fixed t plain in
      if vs = [] then None
      else (case chosen_value vs fs 0 of
              None \<Rightarrow> None
            | Some main \<Rightarrow>
                if \<not> vv_valid main then None
                else Some (response0\<lparr>re_showBar := True, re_channels :=
                  [victron_main tr t main, victron_fill tr t 1 (chosen_value vs fs 1)] @
                  (if field_chosen fs 2 \<or> field_chosen fs 3 then [victron_fill tr t 2 (chosen_value vs fs 2)] else []) @
                  (if field_chosen fs 3 then [victron_fill tr t 3 (chosen_value vs fs 3)] else [])\<rparr>)))"

lemma victron_values_length: "victron_values fixed t d \<noteq> [] \<Longrightarrow> 2 \<le> length (victron_values fixed t d)"
  by (cases "t = BatteryMonitor"; cases "t = SolarCharger"; cases "t = Inverter") (simp_all add: victron_values_def layouts Let_def)

lemma part_fields:
  assumes "\<forall>f \<in> set fs. field_id f"
  shows "latin1 (part (line_fields t plain fs) (Suc i)) =
     (if fs = [] \<or> fs ! 0 = [] \<or> max 2 (length fs) \<le> i then []
      else if i < length fs \<and> fs ! i \<noteq> [] then fs ! i else lit ''-'')"
proof (cases "fs = [] \<or> fs ! 0 = [] \<or> max 2 (length fs) \<le> i")
  case True
  then show ?thesis by (auto simp: part_def line_fields_def latin1_def)
next
  case False
  then have f: "fs \<noteq> []" "fs ! 0 \<noteq> []" "i < max 2 (length fs)" by (simp_all only: not_le de_Morgan_disj simp_thms)
  then have "part (line_fields t plain fs) (Suc i) = frame_field fs i" by (simp add: part_def line_fields_def del: max_less_iff_conj less_max_iff_disj)
  then show ?thesis unfolding if_not_P[OF False] using frame_field_plain(3)[OF assms] by simp
qed

lemma pick_chosen:
  assumes "2 \<le> length vs"
  shows "w \<noteq> [] \<Longrightarrow> victron_pick vs w k = find (\<lambda>v. vv_id v = w) vs"
    "victron_pick vs [] 0 = Some (vs ! 0)" "victron_pick vs [] 1 = Some (vs ! 1)"
proof -
  have "find (\<lambda>v. False) vs = None" by (induction vs) auto
  then show "w \<noteq> [] \<Longrightarrow> victron_pick vs w k = find (\<lambda>v. vv_id v = w) vs"
    "victron_pick vs [] 0 = Some (vs ! 0)" "victron_pick vs [] 1 = Some (vs ! 1)"
    using assms by (auto simp: victron_pick_def split: option.splits)
qed

lemma victron_decode_parts:
  assumes "split_bytes 32 (bytes_trimmed data) = ps" "from_hex (part ps 0) = t # plain" "plain \<noteq> []"
    and "victron_values fixed t plain = vs" "victron_pick vs (latin1 (part ps 1)) 0 = m"
    and "(if latin1 (part ps 2) = lit ''-'' then None else victron_pick vs (latin1 (part ps 2)) 1) = s2"
    and "latin1 (part ps 3) \<noteq> [] \<and> latin1 (part ps 3) \<noteq> lit ''-'' \<longleftrightarrow> c3"
    and "latin1 (part ps 4) \<noteq> [] \<and> latin1 (part ps 4) \<noteq> lit ''-'' \<longleftrightarrow> c4"
    and "(if c3 then victron_pick vs (latin1 (part ps 3)) (- 1) else None) = s3"
    and "c4 \<Longrightarrow> victron_pick vs (latin1 (part ps 4)) (- 1) = s4"
  shows "victron_decode fixed tr data i =
    (if vs = [] then None
     else (case m of
             None \<Rightarrow> None
           | Some main \<Rightarrow>
               if \<not> vv_valid main then None
               else Some (response0\<lparr>re_showBar := True, re_channels :=
                 [victron_main tr t main, victron_fill tr t 1 s2] @ (if c3 \<or> c4 then [victron_fill tr t 2 s3] else []) @
                 (if c4 then [victron_fill tr t 3 s4] else [])\<rparr>)))"
proof -
  have "\<not> length (t # plain) < 2" using assms(3) by (cases plain) auto
  then show ?thesis
    unfolding victron_decode_def Let_def assms(1,2) list.sel assms(4-9) if_not_P[OF \<open>\<not> length (t # plain) < 2\<close>]
    using assms(10) by (cases c4) (simp_all only: if_True if_False)
qed

lemma victron_decode_frame:
  assumes "plain \<noteq> []" "\<forall>f \<in> set fs. field_id f"
  shows "victron_decode fixed tr (victron_frame t plain fs) i = victron_shown fixed tr t plain fs"
proof (cases "victron_values fixed t plain = []")
  case True
  have "from_hex (part (line_fields t plain fs) 0) = t # plain"
    by (simp add: part_def line_fields_def hex_roundtrip del: to_hex_simps)
  then show ?thesis
    using True by (simp add: victron_decode_def victron_shown_def frame_fields[OF assms(2)] Let_def)
next
  case False
  let ?vs = "victron_values fixed t plain" and ?l = "line_fields t plain fs"
  note len = victron_values_length[OF False]
  have hex: "from_hex (part ?l 0) = t # plain"
    by (simp add: part_def line_fields_def hex_roundtrip del: to_hex_simps)
  have dash: "fs ! k \<noteq> lit ''-''" if "k < length fs" for k
    using assms(2) that by (auto simp: field_id_def)
  note p = part_fields[OF assms(2), of t plain]
  have n: "Suc 0 = 1" "Suc 1 = 2" "Suc 2 = 3" "Suc 3 = 4" by simp_all
  have main: "victron_pick ?vs (latin1 (part ?l 1)) 0 = chosen_value ?vs fs 0"
    using p[of 0] pick_chosen[OF len] unfolding n by (cases "fs = [] \<or> fs ! 0 = []") (auto simp: chosen_value_def)
  have second: "(if latin1 (part ?l 2) = lit ''-'' then None else victron_pick ?vs (latin1 (part ?l 2)) 1) = chosen_value ?vs fs 1"
  proof (cases "fs = [] \<or> fs ! 0 = []")
    case True
    then have "latin1 (part ?l 2) = []" using p[of 1] unfolding n by auto
    then show ?thesis using True pick_chosen(3)[OF len] by (auto simp: chosen_value_def)
  next
    case False
    then have "latin1 (part ?l 2) = (if 1 < length fs \<and> fs ! 1 \<noteq> [] then fs ! 1 else lit ''-'')"
      using p[of 1] unfolding n by auto
    then show ?thesis using False dash[of 1] pick_chosen(1)[OF len] by (auto simp: chosen_value_def)
  qed
  have ch: "latin1 (part ?l (Suc k)) \<noteq> [] \<and> latin1 (part ?l (Suc k)) \<noteq> lit ''-'' \<longleftrightarrow> field_chosen fs k" for k
    using p[of k] dash[of k] by (auto simp: field_chosen_def)
  have pick: "victron_pick ?vs (latin1 (part ?l (Suc k))) (- 1) = chosen_value ?vs fs k" if c: "field_chosen fs k" for k
    using p[of k] pick_chosen(1)[OF len] c by (auto simp: field_chosen_def chosen_value_def)
  have third: "(if field_chosen fs 2 then victron_pick ?vs (latin1 (part ?l 3)) (- 1) else None) = chosen_value ?vs fs 2"
    using pick[of 2] unfolding n by (auto simp: field_chosen_def chosen_value_def)
  show ?thesis
    unfolding victron_shown_def Let_def
    by (rule victron_decode_parts[OF frame_fields[OF assms(2)] hex assms(1) refl main second ch[of 2, unfolded n] ch[of 3, unfolded n]
        third pick[of 3, unfolded n]])
qed

text \<open>
  C26: the line made of a record and the ids of the chosen fields is decoded to the values of these fields, by their ids; without
  a choice to the first two of the record. Nothing is decoded when the main value is not there.
\<close>

theorem victron_frame_roundtrip:
  assumes "plain \<noteq> []" "\<forall>f \<in> set fs. field_id f"
  shows "victron_decode fixed tr (victron_frame t plain fs) i = victron_shown fixed tr t plain fs"
  using assms by (rule victron_decode_frame)

text \<open>An inverter, its battery voltage asked for as the main value, its apparent power as the second.\<close>

definition inverter_record :: bytes where "inverter_record = [0, 0, 0, 0x10, 0x05, 0x64, 0]"

theorem victron_frame_roundtrip_witness:
  "\<exists>r. victron_decode (\<lambda>x n. []) (\<lambda>s. s) (victron_frame Inverter inverter_record [lit ''V'', lit ''VA'']) 0 = Some r \<and>
     map ch_unit (re_channels r) = [lit ''V'', lit ''VA'']"
proof -
  let ?vs = "victron_values (\<lambda>x n. []) Inverter inverter_record"
  have "sbits inverter_record 24 16 \<noteq> 0x7FFF" "ubits inverter_record 40 16 \<noteq> 0xFFFF" by code_simp+
  then have vs: "\<exists>va v rest. ?vs = va # v # rest \<and> va = vval (\<lambda>x n. []) ''VA'' (d_u32 (ubits inverter_record 40 16)) 0 ''VA'' ''AC'' \<and>
      v = vval (\<lambda>x n. []) ''V'' (d_div (d_int (sbits inverter_record 24 16)) (dlit 100)) 2 ''V'' ''DC''"
    by (simp add: victron_values_def layouts BatteryMonitor_def SolarCharger_def Inverter_def inverter_record_def)
  have "\<forall>f \<in> set [lit ''V'', lit ''VA'']. field_id f" by code_simp
  then have "victron_decode (\<lambda>x n. []) (\<lambda>s. s) (victron_frame Inverter inverter_record [lit ''V'', lit ''VA'']) 0 =
      victron_shown (\<lambda>x n. []) (\<lambda>s. s) Inverter inverter_record [lit ''V'', lit ''VA'']"
    by (intro victron_frame_roundtrip) (simp_all add: inverter_record_def)
  then show ?thesis
    using vs by (auto simp: victron_shown_def chosen_value_def field_chosen_def Let_def victron_main_def victron_fill_def
        vval_def vinvalid_def)
qed


subsection \<open>Two currents of a solar charger\<close>

text \<open>
  A solar charger shown as PV power, battery current and load current, a choice the settings offer: the two currents are
  different values of the meter and get the same port.
\<close>

definition solar_record :: bytes where "solar_record = [0, 0, 0x10, 0x05, 0x20, 0, 0, 0, 0x40, 0, 0x08, 0]"

lemma solar_ports:
  "value_port qt_plain VictronBLE (lit ''A'') [] [] False False \<noteq> value_port qt_plain VictronBLE (lit ''W'') (lit ''DC'') [] False False"
proof -
  have s: "si_split (lit ''A'') = ([], lit ''A'')" "si_split (lit ''W'') = ([], lit ''W'')"
    by (simp_all add: si_split_def wholeUnits_def)
  have m: "modeCode qt_plain [] = []" "modeCode qt_plain (lit ''DC'') = lit ''DC''"
    by (simp_all add: modeCode_def qt_plain_def q_trim_def) code_simp+
  have "fst (meaning qt_plain (lit ''A'') [] VictronBLE) = Current"
    "fst (meaning qt_plain (lit ''W'') (lit ''DC'') VictronBLE) = Power"
    by code_simp+
  moreover have "lit ''A'' \<noteq> lit ''h''" "lit ''W'' \<noteq> lit ''h''" by simp_all
  ultimately have "pk_quantity (value_port qt_plain VictronBLE (lit ''A'') [] [] False False) = Current"
    "pk_quantity (value_port qt_plain VictronBLE (lit ''W'') (lit ''DC'') [] False False) = Power"
    unfolding value_port_def Let_def s m snd_conv by (simp_all only: if_False simp_thms) simp_all
  then show ?thesis by (metis quantity.distinct)
qed

lemma victron_currents_share_port:
  "\<exists>r a' p0 p1 p2. victron_decode (\<lambda>x n. []) (\<lambda>s. s) (victron_frame SolarCharger solar_record [lit ''PV'', lit ''I'', lit ''LOAD'']) 0 = Some r \<and>
     adapt qt_plain (\<lambda>x. x) 0 r 0 (adapter0 VictronBLE) = (a', [p0, p1, p2]) \<and>
     map ch_name (re_channels r) = [lit ''PV power'', lit ''Battery charging current'', lit ''Load current''] \<and>
     ps_port p1 = ps_port p2"
proof -
  let ?fs = "[lit ''PV'', lit ''I'', lit ''LOAD'']" and ?vs = "victron_values (\<lambda>x n. []) SolarCharger solar_record"
  have "sbits solar_record 16 16 \<noteq> 0x7FFF" "sbits solar_record 32 16 \<noteq> 0x7FFF" "ubits solar_record 64 16 \<noteq> 0xFFFF"
    "ubits solar_record 48 16 \<noteq> 0xFFFF" "ubits solar_record 80 9 \<noteq> 0x1FF" by code_simp+
  then obtain pv v i y l where vs: "?vs = [vval (\<lambda>x n. []) ''PV'' pv 0 ''W'' ''DC'', vval (\<lambda>x n. []) ''V'' v 2 ''V'' ''DC'',
      vval (\<lambda>x n. []) ''I'' i 1 ''A'' ''DC'', vval (\<lambda>x n. []) ''YIELD'' y 0 ''Wh'' ''DC'', vval (\<lambda>x n. []) ''LOAD'' l 1 ''A'' ''DC'']"
    by (simp add: victron_values_def layouts BatteryMonitor_def SolarCharger_def solar_record_def)
  have "\<forall>f \<in> set ?fs. field_id f" by code_simp
  then have "victron_decode (\<lambda>x n. []) (\<lambda>s. s) (victron_frame SolarCharger solar_record ?fs) 0 =
      victron_shown (\<lambda>x n. []) (\<lambda>s. s) SolarCharger solar_record ?fs"
    by (intro victron_decode_frame) (simp_all add: solar_record_def)
  moreover have "\<exists>r. victron_shown (\<lambda>x n. []) (\<lambda>s. s) SolarCharger solar_record ?fs = Some r \<and>
      map ch_id (re_channels r) = [0, 1, 2] \<and> map ch_unit (re_channels r) = [lit ''W'', lit ''A'', lit ''A''] \<and>
      map ch_special (re_channels r) = [lit ''DC'', [], []] \<and>
      map ch_name (re_channels r) = [lit ''PV power'', lit ''Battery charging current'', lit ''Load current''] \<and>
      re_range r = [] \<and> \<not> re_hold r \<and> \<not> re_lowBat r"
    unfolding victron_shown_def vs Let_def
    by (simp add: chosen_value_def field_chosen_def Let_def victron_main_def victron_fill_def
        victron_name_def victron_fields_def vval_def SolarCharger_def BatteryMonitor_def channel0_def response0_def)
  ultimately obtain r where r: "victron_decode (\<lambda>x n. []) (\<lambda>s. s) (victron_frame SolarCharger solar_record ?fs) 0 = Some r"
    and c: "map ch_id (re_channels r) = [0, 1, 2]" "map ch_unit (re_channels r) = [lit ''W'', lit ''A'', lit ''A'']"
      "map ch_special (re_channels r) = [lit ''DC'', [], []]"
      "map ch_name (re_channels r) = [lit ''PV power'', lit ''Battery charging current'', lit ''Load current'']"
    and f: "re_range r = []" "\<not> re_hold r" "\<not> re_lowBat r" by metis
  obtain c0 c1 c2 where cs: "re_channels r = [c0, c1, c2]" using c(1) by (auto simp: map_eq_Cons_conv)
  obtain a' pss where ad: "adapt qt_plain (\<lambda>x. x) 0 r 0 (adapter0 VictronBLE) = (a', pss)" by fastforce
  then have "length pss = 3" using adapt_length cs by fastforce
  then obtain p0 p1 p2 where pss: "pss = [p0, p1, p2]" by (auto simp: numeral_3_eq_3 length_Suc_conv)
  have same: "ps_port p1 = ps_port p2"
    using side_values_share_port[OF ad[unfolded pss] cs] c f solar_ports by (simp add: cs adapter0_def)
  show ?thesis by (intro exI conjI, rule r, rule ad[unfolded pss], rule c(4), rule same)
qed

end
