(* ===== verification/Recording_Series.thy ===== *)
theory Recording_Series
  imports Reading_Adapter
begin

text \<open>
  \<open>src/src/recording/recordingseries.h\<close>: the readings of one port in time order. The storage has dropped points at its
  head until they are half of it; \<open>se_view\<close> is what is left. A lookup halves an interval of indices.
\<close>

record raw_point =
  rp_t :: int
  rp_value :: dbl
  rp_integral :: dbl
  rp_quality :: quality
  rp_flags :: u32

definition raw_point0 :: raw_point where
  "raw_point0 = \<lparr>rp_t = 0, rp_value = d_zero, rp_integral = d_zero, rp_quality = Valid, rp_flags = 0\<rparr>"

definition rp_gap :: "raw_point \<Rightarrow> bool" where
  "rp_gap p = d_isnan (rp_value p)"

record series =
  se_port :: port_key
  se_unit :: qstring
  se_id :: int
  se_name :: qstring
  se_running :: dbl
  se_points :: "raw_point list"
  se_head :: nat

definition series0 :: series where
  "series0 = \<lparr>se_port = port0, se_unit = [], se_id = 0, se_name = [], se_running = d_zero, se_points = [], se_head = 0\<rparr>"

definition se_count :: "series \<Rightarrow> nat" where
  "se_count s = length (se_points s) - se_head s"

definition se_isEmpty :: "series \<Rightarrow> bool" where
  "se_isEmpty s = (se_count s = 0)"

definition se_at :: "series \<Rightarrow> nat \<Rightarrow> raw_point" where
  "se_at s i = se_points s ! (se_head s + i)"

definition se_first :: "series \<Rightarrow> raw_point" where
  "se_first s = se_at s 0"

definition se_last :: "series \<Rightarrow> raw_point" where
  "se_last s = last (se_points s)"

function se_search :: "series \<Rightarrow> int \<Rightarrow> nat \<Rightarrow> nat \<Rightarrow> nat" where
  "se_search s t lo hi =
     (if lo < hi then
        (let mid = (lo + hi) div 2 in
         if rp_t (se_at s mid) < t then se_search s t (mid + 1) hi else se_search s t lo mid)
      else lo)"
  by auto
termination by (relation "measure (\<lambda>(s, t, lo, hi). hi - lo)") auto

declare se_search.simps [simp del]

definition lowerBound :: "series \<Rightarrow> int \<Rightarrow> nat" where
  "lowerBound s t = se_search s t 0 (se_count s)"

definition holding :: "series \<Rightarrow> int \<Rightarrow> int" where
  "holding s t = int (lowerBound s (t + 1)) - 1"

definition se_append :: "raw_point \<Rightarrow> series \<Rightarrow> series" where
  "se_append p s = s\<lparr>se_points := se_points s @ [p]\<rparr>"

definition se_removeFirst :: "int \<Rightarrow> series \<Rightarrow> series" where
  "se_removeFirst n s =
     (let h = se_head s + nat (max 0 (min n (int (se_count s)))) in
      if h > 4096 \<and> h * 2 > length (se_points s) then s\<lparr>se_points := drop h (se_points s), se_head := 0\<rparr>
      else s\<lparr>se_head := h\<rparr>)"

definition se_clear :: "series \<Rightarrow> series" where
  "se_clear s = s\<lparr>se_points := [], se_head := 0\<rparr>"

subsection \<open>What is left of the points\<close>

definition se_view :: "series \<Rightarrow> raw_point list" where
  "se_view s = drop (se_head s) (se_points s)"

definition se_wf :: "series \<Rightarrow> bool" where
  "se_wf s \<longleftrightarrow> se_head s \<le> length (se_points s)"

lemma se_count_view: "se_count s = length (se_view s)"
  by (simp add: se_count_def se_view_def)

lemma se_isEmpty_view [simp]: "se_isEmpty s \<longleftrightarrow> se_view s = []"
  by (simp add: se_isEmpty_def se_count_view)

lemma se_at_view: "se_wf s \<Longrightarrow> se_at s i = se_view s ! i"
  by (simp add: se_at_def se_view_def se_wf_def)

lemma se_last_view: "se_view s \<noteq> [] \<Longrightarrow> se_last s = last (se_view s)"
  by (simp add: se_last_def se_view_def)

lemma se_view_append [simp]: "se_wf s \<Longrightarrow> se_view (se_append p s) = se_view s @ [p]" "se_wf s \<Longrightarrow> se_wf (se_append p s)"
  by (simp_all add: se_view_def se_append_def se_wf_def)

lemma se_view_removeFirst [simp]:
  "se_view (se_removeFirst n s) = drop (nat n) (se_view s)" "se_wf s \<Longrightarrow> se_wf (se_removeFirst n s)"
proof -
  have "drop (se_head s + nat (max 0 (min n (int (se_count s))))) (se_points s) = drop (nat n) (se_view s)"
    by (cases "nat n \<le> se_count s")
      (auto simp: se_view_def se_count_def add.commute max_def min_def not_le intro: arg_cong2[where f = drop])
  then show "se_view (se_removeFirst n s) = drop (nat n) (se_view s)"
    by (simp add: se_removeFirst_def Let_def se_view_def)
  show "se_wf s \<Longrightarrow> se_wf (se_removeFirst n s)"
    by (auto simp: se_removeFirst_def Let_def se_wf_def se_count_def)
qed

lemma se_view_clear [simp]: "se_view (se_clear s) = []" "se_wf (se_clear s)"
  by (simp_all add: se_view_def se_clear_def se_wf_def)

lemma se_view_fresh [simp]: "se_points s = [] \<Longrightarrow> se_view s = []"
  by (simp add: se_view_def)

lemma se_keeps [simp]:
  "se_port (se_append p s) = se_port s" "se_unit (se_append p s) = se_unit s" "se_id (se_append p s) = se_id s"
  "se_port (se_removeFirst n s) = se_port s" "se_unit (se_removeFirst n s) = se_unit s" "se_id (se_removeFirst n s) = se_id s"
  "se_port (se_clear s) = se_port s" "se_unit (se_clear s) = se_unit s" "se_id (se_clear s) = se_id s"
  by (simp_all add: se_append_def se_removeFirst_def se_clear_def Let_def)

subsection \<open>Looking up a time\<close>

definition in_time :: "raw_point list \<Rightarrow> bool" where
  "in_time ps \<longleftrightarrow> sorted (map rp_t ps)"

lemma in_time_Nil [simp]: "in_time []"
  by (simp add: in_time_def)

lemma in_time_nth: "in_time ps \<Longrightarrow> i \<le> j \<Longrightarrow> j < length ps \<Longrightarrow> rp_t (ps ! i) \<le> rp_t (ps ! j)"
  using sorted_nth_mono[of "map rp_t ps" i j] by (simp add: in_time_def)

lemma in_time_snoc: "in_time (ps @ [p]) \<longleftrightarrow> in_time ps \<and> (ps = [] \<or> rp_t (last ps) \<le> rp_t p)"
proof (cases "ps = []")
  case False
  have "sorted (map rp_t ps) \<Longrightarrow> (\<forall>x\<in>set ps. rp_t x \<le> rp_t p) \<longleftrightarrow> rp_t (last ps) \<le> rp_t p"
    using False by (induction ps rule: rev_induct) (auto simp: sorted_append)
  then show ?thesis using False by (auto simp: in_time_def sorted_append)
qed (simp add: in_time_def)

lemma in_time_drop [simp]: "in_time ps \<Longrightarrow> in_time (drop n ps)"
  by (simp add: in_time_def drop_map[symmetric] sorted_wrt_drop)

text \<open>The points before a time: what the search by halves finds.\<close>

definition points_before :: "int \<Rightarrow> raw_point list \<Rightarrow> nat" where
  "points_before t ps = length (takeWhile (\<lambda>p. rp_t p < t) ps)"

lemma points_before_le: "points_before t ps \<le> length ps"
  by (simp add: points_before_def length_takeWhile_le)

lemma points_before_unique:
  assumes "r \<le> length ps" "\<And>i. i < r \<Longrightarrow> rp_t (ps ! i) < t" "r < length ps \<Longrightarrow> t \<le> rp_t (ps ! r)"
  shows "points_before t ps = r"
proof -
  have "takeWhile (\<lambda>p. rp_t p < t) ps = take r ps"
    using assms by (intro takeWhile_eq_take_P_nth) (auto simp: not_less)
  then show ?thesis using assms(1) by (simp add: points_before_def)
qed

lemma points_before_nth:
  shows "i < points_before t ps \<Longrightarrow> rp_t (ps ! i) < t"
    and "points_before t ps < length ps \<Longrightarrow> t \<le> rp_t (ps ! points_before t ps)"
proof -
  show "i < points_before t ps \<Longrightarrow> rp_t (ps ! i) < t"
    unfolding points_before_def by (metis (mono_tags, lifting) nth_mem set_takeWhileD takeWhile_nth)
  show "points_before t ps < length ps \<Longrightarrow> t \<le> rp_t (ps ! points_before t ps)"
    unfolding points_before_def using nth_length_takeWhile[of "\<lambda>p. rp_t p < t" ps] by (simp add: not_less)
qed

lemma se_search_finds:
  assumes "in_time (se_view s)" "se_wf s" "lo \<le> hi" "hi \<le> length (se_view s)"
    and "\<And>i. i < lo \<Longrightarrow> rp_t (se_view s ! i) < t" and "hi < length (se_view s) \<Longrightarrow> t \<le> rp_t (se_view s ! hi)"
  shows "se_search s t lo hi = points_before t (se_view s)"
  using assms
proof (induction s t lo hi rule: se_search.induct)
  case (1 s t lo hi)
  show ?case
  proof (cases "lo < hi")
    case False
    then show ?thesis using 1(3-) by (subst se_search.simps) (auto intro!: points_before_unique[symmetric])
  next
    case True
    define mid where "mid = (lo + hi) div 2"
    have mid: "mid < hi" "lo \<le> mid" using True by (auto simp: mid_def)
    have le: "rp_t (se_view s ! i) \<le> rp_t (se_view s ! mid)" if "i < mid + 1" for i
      using in_time_nth[OF 1(3), of i mid] that mid 1(6) by simp
    show ?thesis
    proof (cases "rp_t (se_at s mid) < t")
      case up: True
      have "se_search s t (mid + 1) hi = points_before t (se_view s)"
      proof (rule 1(1)[OF True mid_def up])
        fix i assume "i < mid + 1"
        then show "rp_t (se_view s ! i) < t" using le[of i] up 1(4) by (simp add: se_at_view)
      qed (use 1(3-) mid in auto)
      then show ?thesis using True up by (subst se_search.simps) (simp add: mid_def[symmetric] Let_def)
    next
      case down: False
      have "se_search s t lo mid = points_before t (se_view s)"
        by (rule 1(2)[OF True mid_def down]) (use 1(3-) mid down in \<open>auto simp: se_at_view\<close>)
      then show ?thesis using True down by (subst se_search.simps) (simp add: mid_def[symmetric] Let_def)
    qed
  qed
qed

theorem lowerBound_finds:
  assumes "in_time (se_view s)" and "se_wf s"
  shows "lowerBound s t = points_before t (se_view s)"
  using assms by (auto simp: lowerBound_def se_count_view intro!: se_search_finds)

lemma holding_finds:
  assumes "in_time (se_view s)" and "se_wf s"
  shows "holding s t = int (points_before (t + 1) (se_view s)) - 1"
  using lowerBound_finds[OF assms] by (simp add: holding_def)

end
