(* ===== verification/Recording_Store.thy ===== *)
theory Recording_Store
  imports Recording_Series Si_Prefix "HOL-Library.Signed_Division"
begin

text \<open>
  \<open>src/src/recording/recordingstore.h\<close> and \<open>recordingstore.cpp\<close>: the recorder. One call reads its clocks once (\<open>clocks\<close>);
  the signals a call emits are appended to \<open>rs_log\<close>, in order. A time is a number of milliseconds, a wall clock time
  one since the epoch, a time of day one since midnight (\<open>None\<close>: not valid).
\<close>

subsection \<open>The state\<close>

datatype rec_state = View | Live | Record

datatype start_mode = Manual | AtTime | Raising | Falling

record mark =
  mk_t :: int
  mk_color :: u32
  mk_name :: qstring

record logged_reading =
  lr_when :: int
  lr_value :: dbl
  lr_quality :: quality
  lr_flags :: u32
  lr_text :: qstring
  lr_unit :: qstring
  lr_port :: port_key
  lr_range :: qstring
  lr_id :: int
  lr_alarmArgb :: u32
  lr_alarmName :: qstring
  lr_source :: qstring

datatype rec_signal =
  Appended bool | Cleared | Loaded | ExtraAppended int | ExtrasChanged | RunningChanged bool
  | StateChanged rec_state | ProgressChanged | MarksChanged | Alert | FunctionChanged qstring qstring
  | ReadingsAboutToInsert int int | ReadingsInserted | ReadingsAboutToRemove int int | ReadingsRemoved
  | ReadingsAboutToClear | ReadingsCleared | ReadingMarked int

record clocks =
  ck_mono :: int
  ck_wall :: int
  ck_time :: int

definition kMaxPoints :: int where "kMaxPoints = 2000000"
definition kLiveMaxMs :: int where "kLiveMaxMs = 3600 * 1000"
definition kTriggerColor :: u32 where "kTriggerColor = 0xff2e9b3a"

record rec_store =
  rs_series :: series
  rs_extra :: "series list"
  rs_extraReading :: "(int \<times> view_reading) list"
  rs_t0 :: int
  rs_stopT :: int
  rs_liveWidthMs :: int
  rs_floorMs :: int
  rs_maxPoints :: int
  rs_fromFile :: bool
  rs_loadedGrid :: int
  rs_marks :: "mark list"
  rs_sampleTime :: int
  rs_sampleLength :: int
  rs_preMs :: int
  rs_holdOrigin :: bool
  rs_preUsed :: int
  rs_integral :: dbl
  rs_state :: rec_state
  rs_dirty :: bool
  rs_start :: int
  rs_unit :: qstring
  rs_mode :: start_mode
  rs_startTime :: "int option"
  rs_raising :: dbl
  rs_falling :: dbl
  rs_trigger :: value_ref
  rs_lastVal :: dbl
  rs_lastValValid :: bool
  rs_threshold :: dbl
  rs_reading :: "view_reading option"
  rs_nextUnit :: qstring
  rs_unitPending :: bool
  rs_recordPort :: port_key
  rs_recordBaseUnit :: qstring
  rs_staleMs :: int
  rs_readings :: "logged_reading list"
  rs_readingCapacity :: int
  rs_readingsPaused :: bool
  rs_log :: "rec_signal list"

definition rs_new :: "clocks \<Rightarrow> rec_store" where
  "rs_new ck = \<lparr>rs_series = series0, rs_extra = [], rs_extraReading = [], rs_t0 = ck_mono ck, rs_stopT = - 1,
     rs_liveWidthMs = 600 * 1000, rs_floorMs = 0, rs_maxPoints = kMaxPoints, rs_fromFile = False, rs_loadedGrid = 0,
     rs_marks = [], rs_sampleTime = 1, rs_sampleLength = 0, rs_preMs = 0, rs_holdOrigin = False, rs_preUsed = 0,
     rs_integral = d_zero, rs_state = View, rs_dirty = False, rs_start = ck_wall ck, rs_unit = [], rs_mode = Manual,
     rs_startTime = None, rs_raising = d_zero, rs_falling = d_zero, rs_trigger = vref0, rs_lastVal = d_zero,
     rs_lastValValid = False, rs_threshold = d_zero, rs_reading = None, rs_nextUnit = [], rs_unitPending = False,
     rs_recordPort = port0, rs_recordBaseUnit = [], rs_staleMs = 3000, rs_readings = [], rs_readingCapacity = 10000,
     rs_readingsPaused = False, rs_log = []\<rparr>"

definition rs_emit :: "rec_signal \<Rightarrow> rec_store \<Rightarrow> rec_store" where
  "rs_emit e s = s\<lparr>rs_log := rs_log s @ [e]\<rparr>"

text \<open>\<open>QMap::insert\<close>: the keys in order.\<close>

fun qmap_insert :: "int \<Rightarrow> 'v \<Rightarrow> (int \<times> 'v) list \<Rightarrow> (int \<times> 'v) list" where
  "qmap_insert k v [] = [(k, v)]"
| "qmap_insert k v ((k', v') # xs) =
     (if k < k' then (k, v) # (k', v') # xs else if k = k' then (k, v) # xs else (k', v') # qmap_insert k v xs)"

definition overloadValue :: "dbl \<Rightarrow> dbl" where
  "overloadValue v = DNan (d_signbit v)"

definition reading_value :: "view_reading \<Rightarrow> dbl" where
  "reading_value r = (if vr_overload r then overloadValue (vr_value r) else vr_value r)"

definition pointQuality :: "view_reading \<Rightarrow> quality" where
  "pointQuality r = (if vr_overload r then Overload else if noNumber r then vr_quality r else Valid)"

subsection \<open>Times\<close>

definition elapsed :: "clocks \<Rightarrow> rec_store \<Rightarrow> int" where
  "elapsed ck s = ck_mono ck - rs_t0 s"

definition duration :: "clocks \<Rightarrow> rec_store \<Rightarrow> int" where
  "duration ck s =
     (if rs_state s \<noteq> View then elapsed ck s
      else if rs_stopT s \<ge> 0 then rs_stopT s
      else if se_isEmpty (rs_series s) then 0 else rp_t (se_last (rs_series s)))"

definition liveWindow :: "rec_store \<Rightarrow> int" where
  "liveWindow s =
     (let len = (if rs_sampleLength s > 0 then rs_sampleLength s * 100 else min (rs_liveWidthMs s) kLiveMaxMs)
      in max len (rs_preMs s))"

definition liveKept :: "rec_store \<Rightarrow> int" where
  "liveKept s = (if rs_sampleLength s > 0 then liveWindow s else max kLiveMaxMs (liveWindow s))"

definition rec_origin :: "clocks \<Rightarrow> rec_store \<Rightarrow> int" where
  "rec_origin ck s = (if rs_state s = Live then max 0 (duration ck s - liveKept s) else rs_floorMs s)"

definition lengthLimit :: "clocks \<Rightarrow> rec_store \<Rightarrow> int" where
  "lengthLimit ck s =
     (case rs_state s of
        Live \<Rightarrow> if rs_sampleLength s > 0 then liveWindow s else max kLiveMaxMs (rs_preMs s)
      | Record \<Rightarrow> if rs_sampleLength s > 0 then rs_sampleLength s * 100 + rs_preUsed s else 0
      | View \<Rightarrow> duration ck s - rec_origin ck s)"

definition remainingLength :: "clocks \<Rightarrow> rec_store \<Rightarrow> int" where
  "remainingLength ck s =
     (if rs_state s \<noteq> Record \<or> rs_sampleLength s \<le> 0 then 0
      else max 0 (rs_sampleLength s - (duration ck s - rs_preUsed s) sdiv 100))"

subsection \<open>Points\<close>

text \<open>A point behind the last one of its series, and the integral up to it.\<close>

definition integrated :: "dbl \<Rightarrow> series \<Rightarrow> dbl \<Rightarrow> raw_point \<Rightarrow> raw_point \<times> dbl" where
  "integrated thr sr run p =
     (let prev = se_last sr;
          p1 = (if se_isEmpty sr then p else p\<lparr>rp_t := max (rp_t p) (rp_t prev)\<rparr>);
          run1 = (if se_isEmpty sr then d_zero
                  else if \<not> rp_gap prev \<and> d_lt thr (rp_value prev)
                    then d_add run (d_div (d_mul (rp_value prev) (dbl_of (of_int (rp_t p1 - rp_t prev)))) (dlit 1000))
                  else run);
          run2 = (if \<not> rp_gap p1 \<and> d_le (rp_value p1) thr then d_zero else run1)
      in (p1\<lparr>rp_integral := (if rp_gap p1 then DNan False else run2)\<rparr>, run2))"

definition appendPoint :: "raw_point \<Rightarrow> rec_store \<Rightarrow> rec_store" where
  "appendPoint p s =
     (case integrated (rs_threshold s) (rs_series s) (rs_integral s) p of
        (p', run) \<Rightarrow> s\<lparr>rs_integral := run, rs_series := se_append p' (rs_series s)\<rparr>)"

definition appendExtraPoint :: "nat \<Rightarrow> raw_point \<Rightarrow> rec_store \<Rightarrow> rec_store" where
  "appendExtraPoint i p s =
     (let sr = rs_extra s ! i in
      case integrated (rs_threshold s) sr (se_running sr) p of
        (p', run) \<Rightarrow>
          (let s1 = s\<lparr>rs_extra := (rs_extra s)[i := se_append p' (sr\<lparr>se_running := run\<rparr>)]\<rparr>
           in if rs_state s1 = Record then s1\<lparr>rs_dirty := True\<rparr> else s1))"

text \<open>The newest series of a value: the loop from the end.\<close>

fun extra_below :: "series list \<Rightarrow> int \<Rightarrow> nat \<Rightarrow> int" where
  "extra_below xs i 0 = - 1"
| "extra_below xs i (Suc n) = (if se_id (xs ! n) = i then int n else extra_below xs i n)"

definition extraIndex :: "series list \<Rightarrow> int \<Rightarrow> int" where
  "extraIndex xs i = extra_below xs i (length xs)"

subsection \<open>What is dropped\<close>

definition marks_from :: "int \<Rightarrow> rec_store \<Rightarrow> rec_store" where
  "marks_from t s =
     (let kept = filter (\<lambda>m. \<not> mk_t m < t) (rs_marks s); s1 = s\<lparr>rs_marks := kept\<rparr>
      in if length kept < length (rs_marks s) then rs_emit MarksChanged s1 else s1)"

definition trim_slack :: "rec_store \<Rightarrow> int" where
  "trim_slack s = max 1000 (liveKept s sdiv 20)"

definition trim_drop :: "clocks \<Rightarrow> rec_store \<Rightarrow> int" where
  "trim_drop ck s =
     (let sr = rs_series s; bound = rec_origin ck s;
          drop1 = (if rs_state s = Live \<and> se_count sr > 1 \<and> rp_t (se_at sr 1) < bound - trim_slack s
                   then max 0 (holding sr bound) else 0)
      in if int (se_count sr) - drop1 > rs_maxPoints s + rs_maxPoints s sdiv 100
         then int (se_count sr) - rs_maxPoints s else drop1)"

definition trimMain :: "clocks \<Rightarrow> rec_store \<Rightarrow> bool \<times> rec_store" where
  "trimMain ck s =
     (if se_isEmpty (rs_series s) then (False, s)
      else if trim_drop ck s \<le> 0 then (False, s)
      else
        (let bound = rec_origin ck s;
             s1 = s\<lparr>rs_series := se_removeFirst (trim_drop ck s) (rs_series s)\<rparr>;
             ne = \<not> se_isEmpty (rs_series s1);
             outgrown = (rs_state s1 \<noteq> Live \<and> ne);
             s2 = (if outgrown then s1\<lparr>rs_floorMs := rp_t (se_first (rs_series s1))\<rparr> else s1);
             bound2 = (if outgrown then rs_floorMs s2 else bound)
         in (True, marks_from (max bound2 (if ne then rp_t (se_first (rs_series s2)) else bound2)) s2)))"

definition trimExtra :: "int \<Rightarrow> int \<Rightarrow> nat \<Rightarrow> bool \<times> series list \<Rightarrow> bool \<times> series list" where
  "trimExtra bound slack i acc =
     (let xs = snd acc; sr = xs ! i; newest = (extraIndex xs (se_id sr) = int i);
          drop = max 0 (holding sr bound) in
      if \<not> newest \<and> \<not> se_isEmpty sr \<and> rp_t (se_last sr) < bound then (True, take i xs @ List.drop (i + 1) xs)
      else if se_count sr > 1 \<and> rp_t (se_at sr 1) < bound - slack \<and> drop > 0 then (True, xs[i := se_removeFirst drop sr])
      else acc)"

definition trimExtras :: "clocks \<Rightarrow> rec_store \<Rightarrow> bool \<times> rec_store" where
  "trimExtras ck s =
     (let bound = (if rs_state s = Live then rec_origin ck s else rs_floorMs s);
          slack = (if rs_state s = Live then trim_slack s else 0);
          (changed, xs) = foldr (trimExtra bound slack) [0 ..< length (rs_extra s)] (False, rs_extra s)
      in (changed, s\<lparr>rs_extra := xs\<rparr>))"

definition trim :: "clocks \<Rightarrow> rec_store \<Rightarrow> bool \<times> rec_store" where
  "trim ck s =
     (case trimMain ck s of (trimmed, s1) \<Rightarrow>
      case trimExtras ck s1 of (changed, s2) \<Rightarrow>
        (trimmed, if changed \<and> \<not> trimmed then rs_emit ExtrasChanged s2 else s2))"

definition trimForLimits :: "clocks \<Rightarrow> rec_store \<Rightarrow> rec_store" where
  "trimForLimits ck s = (case trim ck s of (trimmed, s1) \<Rightarrow> if trimmed then rs_emit ExtrasChanged s1 else s1)"

definition rs_append :: "clocks \<Rightarrow> raw_point \<Rightarrow> rec_store \<Rightarrow> rec_store" where
  "rs_append ck p s =
     (let s1 = appendPoint p s; s2 = (if rs_state s1 = Record then s1\<lparr>rs_dirty := True\<rparr> else s1)
      in case trim ck s2 of (trimmed, s3) \<Rightarrow> rs_emit (Appended trimmed) s3)"

subsection \<open>The settings\<close>

definition setSampleTime :: "int \<Rightarrow> rec_store \<Rightarrow> rec_store" where
  "setSampleTime tenths s = (if tenths \<ge> 1 then s\<lparr>rs_sampleTime := tenths\<rparr> else s)"

definition in_live :: "clocks \<Rightarrow> rec_store \<Rightarrow> rec_store" where
  "in_live ck s = (if rs_state s = Live then trimForLimits ck s else s)"

definition setLiveWidth :: "clocks \<Rightarrow> int \<Rightarrow> rec_store \<Rightarrow> rec_store" where
  "setLiveWidth ck seconds s = in_live ck (s\<lparr>rs_liveWidthMs := max 1 seconds * 1000\<rparr>)"

definition setMaxPoints :: "clocks \<Rightarrow> int \<Rightarrow> rec_store \<Rightarrow> rec_store" where
  "setMaxPoints ck points s = trimForLimits ck (s\<lparr>rs_maxPoints := max 2 points\<rparr>)"

definition setSampleLength :: "clocks \<Rightarrow> int \<Rightarrow> rec_store \<Rightarrow> rec_store" where
  "setSampleLength ck tenths s = in_live ck (s\<lparr>rs_sampleLength := tenths\<rparr>)"

definition setPreTrigger :: "clocks \<Rightarrow> int \<Rightarrow> rec_store \<Rightarrow> rec_store" where
  "setPreTrigger ck ms s = in_live ck (s\<lparr>rs_preMs := max 0 ms\<rparr>)"

definition setThresholds :: "dbl \<Rightarrow> dbl \<Rightarrow> rec_store \<Rightarrow> rec_store" where
  "setThresholds falling raising s = s\<lparr>rs_falling := falling, rs_raising := raising\<rparr>"

definition setTriggerValue :: "value_ref \<Rightarrow> rec_store \<Rightarrow> rec_store" where
  "setTriggerValue v s = (if v = rs_trigger s then s else s\<lparr>rs_trigger := v, rs_lastValValid := False\<rparr>)"

record rec_setup =
  su_sampleTime :: int
  su_sampleLength :: int
  su_preTrigger :: int
  su_mode :: start_mode
  su_startTime :: "int option"
  su_falling :: dbl
  su_raising :: dbl
  su_trigger :: value_ref

definition applySetup :: "clocks \<Rightarrow> rec_setup \<Rightarrow> bool \<Rightarrow> rec_store \<Rightarrow> rec_store" where
  "applySetup ck su lead s =
     (let s1 = setSampleTime (su_sampleTime su) s;
          s2 = setSampleLength ck (su_sampleLength su) s1;
          s3 = setPreTrigger ck (su_preTrigger su) s2;
          s4 = s3\<lparr>rs_mode := (if lead then su_mode su else Manual)\<rparr>;
          s5 = s4\<lparr>rs_startTime := su_startTime su\<rparr>;
          s6 = setThresholds (su_falling su) (su_raising su) s5
      in setTriggerValue (if lead then su_trigger su else \<lparr>value_ref.vr_source = [], value_ref.vr_id = - 1\<rparr>) s6)"

definition setUnit :: "qstring \<Rightarrow> rec_store \<Rightarrow> rec_store" where
  "setUnit baseUnit s =
     (if se_count (rs_series s) > 0 \<and> rs_state s \<noteq> Live
      then s\<lparr>rs_nextUnit := baseUnit, rs_unitPending := (baseUnit \<noteq> rs_unit s)\<rparr>
      else s\<lparr>rs_unit := baseUnit, rs_unitPending := False\<rparr>)"

subsection \<open>The readings series\<close>

definition removeOldestReadings :: "int \<Rightarrow> rec_store \<Rightarrow> rec_store" where
  "removeOldestReadings n s =
     (let s1 = rs_emit (ReadingsAboutToRemove 0 (n - 1)) s
      in rs_emit ReadingsRemoved (s1\<lparr>rs_readings := List.drop (nat n) (rs_readings s1)\<rparr>))"

definition logRow :: "logged_reading \<Rightarrow> rec_store \<Rightarrow> rec_store" where
  "logRow row s =
     (if rs_readingsPaused s then s
      else
        (let n = int (length (rs_readings s));
             s1 = (if n \<ge> rs_readingCapacity s then removeOldestReadings (n - rs_readingCapacity s + 1) s else s);
             row_at = int (length (rs_readings s1));
             s2 = rs_emit (ReadingsAboutToInsert row_at row_at) s1
         in rs_emit ReadingsInserted (s2\<lparr>rs_readings := rs_readings s2 @ [row]\<rparr>)))"

definition logReading :: "view_reading \<Rightarrow> rec_store \<Rightarrow> rec_store" where
  "logReading r s =
     (if rs_readingsPaused s \<or> (vr_id r > 0 \<and> vr_text r = []) then s
      else logRow \<lparr>lr_when = vr_msecs r, lr_value = vr_value r, lr_quality = pointQuality r, lr_flags = vr_flags r,
             lr_text = vr_text r, lr_unit = vr_unit r, lr_port = vr_port r, lr_range = vr_range r, lr_id = vr_id r,
             lr_alarmArgb = 0, lr_alarmName = [], lr_source = vr_source r\<rparr> s)"

definition logRows :: "logged_reading list \<Rightarrow> rec_store \<Rightarrow> rec_store" where
  "logRows rows s =
     (if rs_readingsPaused s \<or> rows = [] then s
      else
        (let kept = List.drop (nat (max 0 (int (length rows) - rs_readingCapacity s))) rows;
             over = int (length (rs_readings s)) + int (length kept) - rs_readingCapacity s;
             s1 = (if over > 0 then removeOldestReadings over s else s);
             row_at = int (length (rs_readings s1));
             s2 = rs_emit (ReadingsAboutToInsert row_at (row_at + int (length kept) - 1)) s1
         in rs_emit ReadingsInserted (s2\<lparr>rs_readings := rs_readings s2 @ kept\<rparr>)))"

definition setReadingCapacity :: "int \<Rightarrow> rec_store \<Rightarrow> rec_store" where
  "setReadingCapacity rows s =
     (let s1 = s\<lparr>rs_readingCapacity := max 1 rows\<rparr>; n = int (length (rs_readings s1))
      in if n > rs_readingCapacity s1 then removeOldestReadings (n - rs_readingCapacity s1) s1 else s1)"

definition clearReadings :: "rec_store \<Rightarrow> rec_store" where
  "clearReadings s =
     (if rs_readings s = [] then s
      else rs_emit ReadingsCleared ((rs_emit ReadingsAboutToClear s)\<lparr>rs_readings := []\<rparr>))"

definition markLastReading :: "u32 \<Rightarrow> qstring \<Rightarrow> rec_store \<Rightarrow> rec_store" where
  "markLastReading argb name s =
     (if rs_readings s = [] then s
      else
        (let row = length (rs_readings s) - 1
         in rs_emit (ReadingMarked (int row))
              (s\<lparr>rs_readings := (rs_readings s)[row := (rs_readings s ! row)\<lparr>lr_alarmArgb := argb, lr_alarmName := name\<rparr>]\<rparr>)))"

subsection \<open>Start and stop\<close>

definition rs_clear :: "clocks \<Rightarrow> rec_store \<Rightarrow> rec_store" where
  "rs_clear ck s =
     (let s1 = s\<lparr>rs_series := (se_clear (rs_series s))\<lparr>se_port := port0, se_unit := [], se_name := []\<rparr>, rs_extra := [],
             rs_floorMs := 0, rs_recordPort := port0, rs_recordBaseUnit := []\<rparr>;
          s2 = (if rs_unitPending s1 then s1\<lparr>rs_unit := rs_nextUnit s1, rs_unitPending := False\<rparr> else s1);
          hadMarks = (rs_marks s2 \<noteq> []);
          s3 = s2\<lparr>rs_marks := [], rs_t0 := ck_mono ck, rs_start := ck_wall ck,
             rs_stopT := (if rs_state s2 \<noteq> View then - 1 else 0), rs_loadedGrid := 0, rs_fromFile := False,
             rs_integral := d_zero, rs_dirty := False\<rparr>;
          s4 = rs_emit Cleared s3
      in if hadMarks then rs_emit MarksChanged s4 else s4)"

definition rs_stop :: "clocks \<Rightarrow> rec_store \<Rightarrow> rec_store" where
  "rs_stop ck s =
     (if rs_state s \<noteq> Record then s
      else
        (let s1 = s\<lparr>rs_stopT := elapsed ck s\<rparr>; s2 = s1\<lparr>rs_state := View\<rparr>
         in rs_emit (RunningChanged False) (rs_emit (StateChanged View) (rs_emit ProgressChanged s2))))"

definition lengthReached :: "clocks \<Rightarrow> int \<Rightarrow> rec_store \<Rightarrow> bool \<times> rec_store" where
  "lengthReached ck t s =
     (let limit = rs_sampleLength s * 100 + rs_preUsed s in
      if rs_state s \<noteq> Record \<or> rs_sampleLength s \<le> 0 \<or> t < limit then (False, s)
      else (True, (rs_stop ck (rs_emit Alert s))\<lparr>rs_stopT := limit\<rparr>))"

text \<open>A reading of another value (id above 0).\<close>

definition earlier_extra :: "series list \<Rightarrow> view_reading \<Rightarrow> nat option" where
  "earlier_extra xs r =
     find (\<lambda>j. se_id (xs ! j) = vr_id r \<and> se_port (xs ! j) = vr_port r \<and> se_unit (xs ! j) = vr_baseUnit r)
       (rev [0 ..< length xs])"

definition move_to_end :: "nat \<Rightarrow> 'a list \<Rightarrow> 'a list" where
  "move_to_end j xs = take j xs @ List.drop (j + 1) xs @ [xs ! j]"

definition extra_point :: "view_reading \<Rightarrow> rec_store \<Rightarrow> raw_point" where
  "extra_point r s =
     (let off = (vr_text r = []) in
      raw_point0\<lparr>rp_t := max 0 (vr_t r - rs_t0 s), rp_value := (if off then DNan False else reading_value r),
        rp_quality := (if off then Stale else pointQuality r), rp_flags := vr_flags r\<rparr>)"

definition stale_point :: "int \<Rightarrow> raw_point" where
  "stale_point t = raw_point0\<lparr>rp_t := t, rp_value := DNan False, rp_quality := Stale\<rparr>"

definition extra_says :: "view_reading \<Rightarrow> bool" where
  "extra_says r \<longleftrightarrow> vr_text r \<noteq> [] \<and> \<not> vr_overload r \<and> pk_quantity (vr_port r) \<noteq> Unknown"

definition extra_other :: "view_reading \<Rightarrow> series \<Rightarrow> bool" where
  "extra_other r sr \<longleftrightarrow> port_valid (se_port sr) \<and> (vr_port r \<noteq> se_port sr \<or> vr_baseUnit r \<noteq> se_unit sr)"

definition extra_named :: "view_reading \<Rightarrow> nat \<Rightarrow> rec_store \<Rightarrow> rec_store" where
  "extra_named r i s =
     (if extra_says r \<and> \<not> port_valid (se_port (rs_extra s ! i))
      then s\<lparr>rs_extra := (rs_extra s)[i := (rs_extra s ! i)\<lparr>se_port := vr_port r, se_unit := vr_baseUnit r, se_name := vr_name r\<rparr>]\<rparr>
      else s)"

definition extra_stored :: "view_reading \<Rightarrow> raw_point \<Rightarrow> nat \<Rightarrow> bool \<Rightarrow> rec_store \<Rightarrow> rec_store" where
  "extra_stored r p i began s =
     (if vr_text r = [] \<and> rp_gap (se_last (rs_extra s ! i)) then s
      else
        (let s1 = appendExtraPoint i p s; n = int (se_count (rs_extra s1 ! i));
             trimmed = (n > rs_maxPoints s1 + rs_maxPoints s1 sdiv 100);
             s2 = (if trimmed
                   then s1\<lparr>rs_extra := (rs_extra s1)[i := se_removeFirst (n - rs_maxPoints s1) (rs_extra s1 ! i)]\<rparr> else s1)
         in rs_emit (if began \<or> trimmed then ExtrasChanged else ExtraAppended (int i)) s2))"

text \<open>The series the reading goes into: of its value the newest, one that goes on, or a new one.\<close>

definition extra_begun :: "view_reading \<Rightarrow> rec_store \<Rightarrow> rec_store" where
  "extra_begun r s =
     (case (if extra_says r then earlier_extra (rs_extra s) r else None) of
        Some j \<Rightarrow> s\<lparr>rs_extra := move_to_end j (rs_extra s)\<rparr>
      | None \<Rightarrow> s\<lparr>rs_extra := rs_extra s @ [series0\<lparr>se_id := vr_id r\<rparr>]\<rparr>)"

definition extra_into :: "view_reading \<Rightarrow> raw_point \<Rightarrow> rec_store \<Rightarrow> rec_store" where
  "extra_into r p s =
     (let i = extraIndex (rs_extra s) (vr_id r); sr = rs_extra s ! nat i;
          other = (i \<ge> 0 \<and> extra_says r \<and> extra_other r sr);
          s1 = (if other \<and> \<not> rp_gap (se_last sr) then appendExtraPoint (nat i) (stale_point (rp_t p)) s else s)
      in if i < 0 \<or> other then
           (if vr_text r = [] then s1
            else (let s2 = extra_begun r s1; k = length (rs_extra s2) - 1
                  in extra_stored r p k True (extra_named r k s2)))
         else extra_stored r p (nat i) False (extra_named r (nat i) s1))"

definition appendExtra :: "view_reading \<Rightarrow> rec_store \<Rightarrow> rec_store" where
  "appendExtra r s =
     (let s0 = s\<lparr>rs_extraReading := qmap_insert (vr_id r) r (rs_extraReading s)\<rparr>; p = extra_point r s0 in
      if rs_state s0 = View \<or> se_isEmpty (rs_series s0) then s0
      else if rs_state s0 = Record \<and> rs_sampleLength s0 > 0 \<and> rp_t p \<ge> rs_sampleLength s0 * 100 + rs_preUsed s0 then s0
      else extra_into r p s0)"

text \<open>What the meter shows, as the first point of a recording.\<close>

definition reading_point :: "view_reading \<Rightarrow> int \<Rightarrow> raw_point" where
  "reading_point r t =
     raw_point0\<lparr>rp_t := t, rp_value := reading_value r, rp_quality := pointQuality r, rp_flags := vr_flags r\<rparr>"

definition appendCurrentExtra :: "clocks \<Rightarrow> bool \<Rightarrow> view_reading \<Rightarrow> rec_store \<Rightarrow> rec_store" where
  "appendCurrentExtra ck atItsTime r s =
     (if ck_mono ck - vr_t r \<le> rs_staleMs s \<and> vr_text r \<noteq> []
      then (let s1 = appendExtra (r\<lparr>vr_t := (if atItsTime then max (vr_t r) (rs_t0 s) else rs_t0 s)\<rparr>) s
            in s1\<lparr>rs_extraReading := qmap_insert (vr_id r) r (rs_extraReading s1)\<rparr>)
      else s)"

definition appendCurrent :: "clocks \<Rightarrow> bool \<Rightarrow> rec_store \<Rightarrow> rec_store" where
  "appendCurrent ck atItsTime s =
     (case rs_reading s of
        None \<Rightarrow> s
      | Some r \<Rightarrow>
          if ck_mono ck - vr_t r > rs_staleMs s then s
          else
            (let s1 = rs_append ck (reading_point r (if atItsTime then max 0 (vr_t r - rs_t0 s) else 0)) s
             in fold (\<lambda>kr. appendCurrentExtra ck atItsTime (snd kr)) (rs_extraReading s1) s1))"

text \<open>What Live holds from a time on.\<close>

record live_part =
  lp_main :: "raw_point list"
  lp_extra :: "series list"
  lp_t0 :: int

definition points_from :: "int \<Rightarrow> series \<Rightarrow> raw_point list" where
  "points_from t sr = map (se_at sr) [nat (max 0 (holding sr t)) ..< se_count sr]"

definition livePart :: "int \<Rightarrow> rec_store \<Rightarrow> live_part" where
  "livePart t s =
     \<lparr>lp_main = points_from t (rs_series s),
      lp_extra = map (\<lambda>sr. series0\<lparr>se_id := se_id sr, se_port := se_port sr, se_unit := se_unit sr, se_name := se_name sr,
                   se_points := points_from t sr\<rparr>)
        (filter (\<lambda>sr. \<not> (se_isEmpty sr \<or> rp_t (se_last sr) < t)) (rs_extra s)),
      lp_t0 = rs_t0 s\<rparr>"

definition part_point :: "int \<Rightarrow> rec_store \<Rightarrow> raw_point \<Rightarrow> raw_point" where
  "part_point t0 s p = p\<lparr>rp_t := max 0 (t0 + rp_t p - rs_t0 s)\<rparr>"

definition appendLiveExtra :: "int \<Rightarrow> series \<Rightarrow> rec_store \<Rightarrow> rec_store" where
  "appendLiveExtra t0 sr s =
     (let s1 = s\<lparr>rs_extra := rs_extra s @ [series0\<lparr>se_id := se_id sr, se_port := se_port sr, se_unit := se_unit sr,
             se_name := se_name sr\<rparr>]\<rparr>
      in fold (\<lambda>i st. appendExtraPoint (length (rs_extra st) - 1) (part_point t0 st (se_at sr i)) st) [0 ..< se_count sr] s1)"

definition appendLivePart :: "clocks \<Rightarrow> live_part \<Rightarrow> rec_store \<Rightarrow> rec_store" where
  "appendLivePart ck part s =
     (let s1 = fold (\<lambda>p st. rs_append ck (part_point (lp_t0 part) st p) st) (lp_main part) s;
          s2 = fold (appendLiveExtra (lp_t0 part)) (lp_extra part) s1
      in if lp_extra part \<noteq> [] then rs_emit ExtrasChanged s2 else s2)"

definition started :: "rec_state \<Rightarrow> rec_store \<Rightarrow> rec_store" where
  "started was s =
     (let s1 = rs_emit ProgressChanged s; s2 = (if was \<noteq> Record then rs_emit (StateChanged Record) s1 else s1)
      in rs_emit (RunningChanged True) s2)"

definition rs_begin :: "clocks \<Rightarrow> int \<Rightarrow> rec_store \<Rightarrow> rec_store" where
  "rs_begin ck preMs s =
     (let pre = (if preMs > 0 \<and> rs_state s = Live then livePart (elapsed ck s - preMs) s
                 else \<lparr>lp_main = [], lp_extra = [], lp_t0 = 0\<rparr>);
          s1 = (rs_clear ck (s\<lparr>rs_state := Record\<rparr>))\<lparr>rs_stopT := - 1, rs_preUsed := 0, rs_holdOrigin := False\<rparr>;
          s2 = (if lp_main pre \<noteq> [] then
                  (let back = max 0 (min (rs_t0 s1 - (lp_t0 pre + rp_t (hd (lp_main pre)))) preMs);
                       s3 = s1\<lparr>rs_t0 := rs_t0 s1 - back, rs_start := rs_start s1 - back, rs_preUsed := back\<rparr>;
                       s4 = appendLivePart ck pre s3
                   in rs_emit MarksChanged
                        (s4\<lparr>rs_marks := rs_marks s4 @ [\<lparr>mk_t = back, mk_color = kTriggerColor, mk_name = lit ''Trigger''\<rparr>]\<rparr>))
                else appendCurrent ck False s1)
      in started (rs_state s) s2)"

definition rs_start_now :: "clocks \<Rightarrow> rec_store \<Rightarrow> rec_store" where
  "rs_start_now ck s = rs_begin ck 0 s"

definition startAt :: "clocks \<Rightarrow> int \<Rightarrow> int \<Rightarrow> rec_store \<Rightarrow> rec_store" where
  "startAt ck t0 start s =
     (let since = (if rs_state s = Live then livePart (t0 - rs_t0 s) s else \<lparr>lp_main = [], lp_extra = [], lp_t0 = 0\<rparr>);
          s1 = (rs_clear ck (s\<lparr>rs_state := Record\<rparr>))\<lparr>rs_stopT := - 1, rs_preUsed := 0, rs_t0 := t0, rs_start := start,
             rs_holdOrigin := True\<rparr>;
          s2 = (if length (lp_main since) > 1 then appendLivePart ck since s1 else appendCurrent ck True s1)
      in started (rs_state s) s2)"

definition rs_live :: "clocks \<Rightarrow> rec_store \<Rightarrow> rec_store" where
  "rs_live ck s =
     (let was = rs_state s;
          s1 = (rs_clear ck (s\<lparr>rs_state := Live\<rparr>))\<lparr>rs_preUsed := 0, rs_holdOrigin := False, rs_lastValValid := False\<rparr>;
          s2 = rs_emit ProgressChanged (appendCurrent ck False s1);
          s3 = (if was \<noteq> Live then rs_emit (StateChanged Live) s2 else s2)
      in if was = Record then rs_emit (RunningChanged False) s3 else s3)"

definition forgetReading :: "rec_store \<Rightarrow> rec_store" where
  "forgetReading s = s\<lparr>rs_reading := None, rs_extraReading := []\<rparr>"

definition holdOrigin :: "rec_store \<Rightarrow> rec_store" where
  "holdOrigin s = s\<lparr>rs_holdOrigin := True\<rparr>"

definition addMark :: "clocks \<Rightarrow> u32 \<Rightarrow> qstring \<Rightarrow> rec_store \<Rightarrow> rec_store" where
  "addMark ck argb name s =
     (let t = (if rs_state s \<noteq> View then elapsed ck s
               else if se_isEmpty (rs_series s) then 0 else rp_t (se_last (rs_series s)))
      in rs_emit MarksChanged (s\<lparr>rs_marks := rs_marks s @ [\<lparr>mk_t = t, mk_color = argb, mk_name = name\<rparr>]\<rparr>))"

subsection \<open>Readings and the clock\<close>

definition crossed :: "dbl \<Rightarrow> rec_store \<Rightarrow> bool" where
  "crossed v s \<longleftrightarrow>
     (if rs_mode s = Raising then rs_lastValValid s \<and> d_lt (rs_lastVal s) (rs_raising s) \<and> d_le (rs_raising s) v
      else rs_lastValValid s \<and> d_lt (rs_falling s) (rs_lastVal s) \<and> d_le v (rs_falling s))"

definition trigger :: "clocks \<Rightarrow> dbl \<Rightarrow> rec_store \<Rightarrow> bool \<times> rec_store" where
  "trigger ck v s =
     (let begins = (rs_state s = Live \<and> (rs_mode s = Raising \<or> rs_mode s = Falling) \<and> crossed v s);
          s1 = (if begins then rs_begin ck (rs_preMs s) (rs_emit Alert s) else s)
      in (begins, if d_isfinite v then s1\<lparr>rs_lastValValid := True, rs_lastVal := v\<rparr> else s1))"

definition describe :: "port_key \<Rightarrow> qstring \<Rightarrow> qstring" where
  "describe port baseUnit =
     (let text = quantity_name (pk_quantity port);
          text1 = (if has_flag (pk_defining port) (AC OR DC) then text @ 32 # couplingText (pk_defining port) else text);
          unit = displayText baseUnit
      in if unit \<noteq> [] then text1 @ lit '' ('' @ unit @ lit '')'' else text1)"

text \<open>A gap in the other values that were not heard of for the stale limit.\<close>

definition closeSilentExtra :: "int \<Rightarrow> int \<times> view_reading \<Rightarrow> bool \<times> rec_store \<Rightarrow> bool \<times> rec_store" where
  "closeSilentExtra now kr acc =
     (let s = snd acc; i = extraIndex (rs_extra s) (fst kr); sr = rs_extra s ! nat i in
      if now - vr_t (snd kr) \<le> rs_staleMs s \<or> i < 0 \<or> se_isEmpty sr \<or> rp_gap (se_last sr) then acc
      else
        (let lst = rp_t (se_last sr)
         in (True, appendExtraPoint (nat i) (stale_point (min (lst + rs_staleMs s) (max lst (now - rs_t0 s)))) s)))"

definition closeSilentExtras :: "int \<Rightarrow> rec_store \<Rightarrow> rec_store" where
  "closeSilentExtras now s =
     (case fold (closeSilentExtra now) (rs_extraReading s) (False, s) of
        (any_closed, s1) \<Rightarrow> if any_closed then rs_emit ExtrasChanged s1 else s1)"

definition says_function :: "view_reading \<Rightarrow> bool" where
  "says_function r \<longleftrightarrow> \<not> vr_overload r \<and> \<not> noNumber r \<and> pk_quantity (vr_port r) \<noteq> Unknown"

definition take_function :: "view_reading \<Rightarrow> rec_store \<Rightarrow> rec_store" where
  "take_function r s = s\<lparr>rs_recordPort := vr_port r, rs_recordBaseUnit := vr_baseUnit r,
     rs_series := (rs_series s)\<lparr>se_port := vr_port r, se_unit := vr_baseUnit r, se_name := vr_name r\<rparr>\<rparr>"

definition function_changed :: "view_reading \<Rightarrow> rec_store \<Rightarrow> bool" where
  "function_changed r s \<longleftrightarrow> says_function r \<and> port_valid (rs_recordPort s) \<and>
     (vr_port r \<noteq> rs_recordPort s \<or> vr_baseUnit r \<noteq> rs_recordBaseUnit s)"

text \<open>The time starts with the first reading.\<close>

definition begin_time :: "view_reading \<Rightarrow> rec_store \<Rightarrow> rec_store" where
  "begin_time r s =
     (if se_isEmpty (rs_series s) \<and> rs_marks s = [] \<and> \<not> rs_holdOrigin s \<and> vr_t r > rs_t0 s
      then rs_emit ProgressChanged (s\<lparr>rs_start := rs_start s + (vr_t r - rs_t0 s), rs_t0 := vr_t r\<rparr>)
      else s)"

definition store_reading :: "clocks \<Rightarrow> view_reading \<Rightarrow> rec_store \<Rightarrow> rec_store" where
  "store_reading ck r s =
     (let s1 = begin_time r (closeSilentExtras (vr_t r) s); p = reading_point r (max 0 (vr_t r - rs_t0 s1))
      in if rs_state s1 = Live then
           (let s2 = rs_append ck p s1
            in if vref_matches (rs_trigger s2) (vr_id r) (vr_source r) then snd (trigger ck (reading_value r) s2) else s2)
         else (case lengthReached ck (rp_t p) s1 of (reached, s2) \<Rightarrow> if reached then s2 else rs_append ck p s2))"

definition setReading :: "clocks \<Rightarrow> view_reading \<Rightarrow> rec_store \<Rightarrow> rec_store" where
  "setReading ck r s =
     (let s0 = logReading r s in
      if vr_id r \<noteq> 0 then
        (let s1 = appendExtra r s0
         in if rs_state s1 = Live \<and> vref_matches (rs_trigger s1) (vr_id r) (vr_source r)
            then snd (trigger ck (if vr_text r = [] then DNan False else reading_value r) s1) else s1)
      else
        (let s1 = s0\<lparr>rs_reading := Some r\<rparr> in
         if rs_state s1 = View then s1
         else if says_function r \<and> \<not> port_valid (rs_recordPort s1) then store_reading ck r (take_function r s1)
         else if function_changed r s1 then
           (if rs_state s1 = Record then
              rs_emit (FunctionChanged (describe (rs_recordPort s1) (rs_recordBaseUnit s1)) (describe (vr_port r) (vr_baseUnit r)))
                (rs_stop ck s1)
            else store_reading ck r (take_function r ((rs_clear ck s1)\<lparr>rs_lastValValid := False\<rparr>)))
         else store_reading ck r s1))"

text \<open>The meter fell silent.\<close>

definition stale_time :: "clocks \<Rightarrow> raw_point \<Rightarrow> rec_store \<Rightarrow> int" where
  "stale_time ck lst s = min (rp_t lst + rs_staleMs s) (max (rp_t lst) (elapsed ck s))"

definition staleExtra :: "clocks \<Rightarrow> nat \<Rightarrow> bool \<times> rec_store \<Rightarrow> bool \<times> rec_store" where
  "staleExtra ck i acc =
     (let s = snd acc; sr = rs_extra s ! i in
      if se_isEmpty sr \<or> rp_gap (se_last sr) then acc
      else (True, appendExtraPoint i (stale_point (stale_time ck (se_last sr) s)) s))"

definition setStale :: "clocks \<Rightarrow> bool \<Rightarrow> rec_store \<Rightarrow> rec_store" where
  "setStale ck silent s =
     (if \<not> silent \<or> rs_state s = View then s
      else
        (case fold (staleExtra ck) [0 ..< length (rs_extra s)] (False, s) of
           (extras, s1) \<Rightarrow>
             (let s2 = (if extras then rs_emit ExtrasChanged s1 else s1) in
              if se_isEmpty (rs_series s2) \<or> rp_gap (se_last (rs_series s2)) then s2
              else rs_append ck (stale_point (stale_time ck (se_last (rs_series s2)) s2)) s2)))"

text \<open>\<open>QTime::secsTo\<close>: whole seconds, 0 when a time is not valid.\<close>

definition secsTo :: "int option \<Rightarrow> int \<Rightarrow> int" where
  "secsTo t u = (case t of None \<Rightarrow> 0 | Some v \<Rightarrow> u div 1000 - v div 1000)"

definition poll :: "clocks \<Rightarrow> rec_store \<Rightarrow> rec_store" where
  "poll ck s =
     (let diff = secsTo (rs_startTime s) (ck_time ck);
          s1 = (if rs_state s = Live \<and> rs_mode s = AtTime \<and> diff \<ge> 0 \<and> diff < 2 then rs_start_now ck (rs_emit Alert s) else s)
      in if rs_state s1 = Live then rs_emit ProgressChanged s1
         else if rs_state s1 = Record then
           (case lengthReached ck (elapsed ck s1) s1 of (reached, s2) \<Rightarrow> if reached then s2 else rs_emit ProgressChanged s2)
         else s1)"

end
