(* ===== verification/Recording_Export.thy ===== *)
theory Recording_Export
  imports Recording_Store
begin

text \<open>
  The values of a recording that go out of the store and come back: \<open>Recording\<close> of \<open>src/src/recording/recordingfile.h\<close>, and of
  \<open>recordingstore.cpp\<close> the statistics of a span, the grid, \<open>toRecording\<close> and \<open>load\<close>. Writing and reading the text of a file is not here.
\<close>

subsection \<open>A recording as a table\<close>

datatype cell_state = C_Ok | C_Overload | C_NegativeOverload | C_Gap | C_NoValue | C_Fault | C_None

record rec_column =
  co_id :: int
  co_device :: qstring
  co_unit :: qstring
  co_values :: "dbl list"
  co_states :: "cell_state list"
  co_limits :: "u32 list"

record recording =
  re_start :: int
  re_sampleTimeTenths :: int
  re_unit :: qstring
  re_device :: qstring
  re_values :: "dbl list"
  re_states :: "cell_state list"
  re_times :: "int list"
  re_limits :: "u32 list"
  re_extra :: "rec_column list"

definition timeAt :: "recording \<Rightarrow> nat \<Rightarrow> int" where
  "timeAt r i = (if re_times r = [] then int i * re_sampleTimeTenths r * 100 else re_times r ! i)"

definition stateAt :: "recording \<Rightarrow> nat \<Rightarrow> cell_state" where
  "stateAt r i =
     (if re_states r \<noteq> [] then re_states r ! i else if d_eq (re_values r ! i) (re_values r ! i) then C_Ok else C_Gap)"

definition onGrid :: "recording \<Rightarrow> bool" where
  "onGrid r \<longleftrightarrow> list_all (\<lambda>i. \<bar>re_times r ! i - int i * re_sampleTimeTenths r * 100\<bar> \<le> 1) [0 ..< length (re_times r)]"

definition value_or :: "'a \<Rightarrow> 'a list \<Rightarrow> nat \<Rightarrow> 'a" where
  "value_or d xs i = (if i < length xs then xs ! i else d)"

text \<open>The verdicts of the limit test.\<close>

definition Limit :: u32 where "Limit = LimitPass OR LimitHigh OR LimitLow"

definition cellState :: "dbl \<Rightarrow> quality \<Rightarrow> cell_state" where
  "cellState v q =
     (if d_isfinite v then C_Ok
      else if q = Overload then (if d_signbit v then C_NegativeOverload else C_Overload)
      else if q = NoValue then C_NoValue
      else if q = Fault then C_Fault
      else C_Gap)"

fun cell_quality :: "cell_state \<Rightarrow> quality" where
  "cell_quality C_Ok = Valid" | "cell_quality C_Overload = Overload" | "cell_quality C_NegativeOverload = Overload"
| "cell_quality C_NoValue = NoValue" | "cell_quality C_Fault = Fault" | "cell_quality C_Gap = Stale" | "cell_quality C_None = Stale"

subsection \<open>Statistics of a span\<close>

record span_stats =
  ss_count :: int
  ss_min :: dbl
  ss_max :: dbl
  ss_mean :: dbl
  ss_integral :: dbl
  ss_covered :: int
  ss_sum :: dbl

definition stats0 :: span_stats where
  "stats0 = \<lparr>ss_count = 0, ss_min = DNan False, ss_max = DNan False, ss_mean = DNan False, ss_integral = d_zero,
     ss_covered = 0, ss_sum = d_zero\<rparr>"

definition stats_add :: "dbl \<Rightarrow> int \<Rightarrow> span_stats \<Rightarrow> span_stats" where
  "stats_add v ms st =
     (let n = ss_count st + 1;
          st1 = st\<lparr>ss_count := n, ss_min := (if n = 1 then v else d_qmin (ss_min st) v),
             ss_max := (if n = 1 then v else d_qmax (ss_max st) v), ss_sum := d_add (ss_sum st) v\<rparr>
      in if ms > 0
         then st1\<lparr>ss_integral := d_add (ss_integral st1) (d_div (d_mul v (dbl_of (of_int ms))) (dlit 1000)),
                ss_covered := ss_covered st1 + ms\<rparr>
         else st1)"

text \<open>What a point counts for: the begin and the end of its time in the span, and whether it counts without time; \<open>None\<close>: behind the span.\<close>

definition stats_span :: "clocks \<Rightarrow> rec_store \<Rightarrow> series \<Rightarrow> int \<Rightarrow> int \<Rightarrow> nat \<Rightarrow> (int \<times> int \<times> bool) option" where
  "stats_span ck s sr a b i =
     (let n = se_count sr; p = se_at sr i;
          loaded = (rs_state s = View \<and> rs_stopT s < 0); step = (if loaded then rs_loadedGrid s * 100 else 0)
      in if step > 0 then
           (if rp_t p - step \<ge> b \<and> i > 0 then None
            else Some (max a (rp_t p - step), min b (rp_t p), i = 0 \<and> rp_t p \<ge> a \<and> rp_t p \<le> b))
         else if rp_t p \<ge> b \<and> \<not> (loaded \<and> i = n - 1 \<and> rp_t p = b) then None
         else Some (max a (rp_t p), min b (if i + 1 < n then rp_t (se_at sr (i + 1)) else duration ck s),
                    loaded \<and> i = n - 1 \<and> rp_t p \<ge> a))"

function stats_loop :: "clocks \<Rightarrow> rec_store \<Rightarrow> series \<Rightarrow> int \<Rightarrow> int \<Rightarrow> nat \<Rightarrow> span_stats \<Rightarrow> span_stats" where
  "stats_loop ck s sr a b i st =
     (if i < se_count sr then
        (case stats_span ck s sr a b i of
           None \<Rightarrow> st
         | Some (b1, e1, counts) \<Rightarrow>
             stats_loop ck s sr a b (i + 1)
               (if rp_gap (se_at sr i) \<or> (e1 \<le> b1 \<and> \<not> counts) then st else stats_add (rp_value (se_at sr i)) (e1 - b1) st))
      else st)"
  by auto
termination by (relation "measure (\<lambda>(ck, s, sr, a, b, i, st). se_count sr - i)") auto

definition statsOf :: "clocks \<Rightarrow> series \<Rightarrow> int \<Rightarrow> int \<Rightarrow> rec_store \<Rightarrow> span_stats" where
  "statsOf ck sr t u s =
     (let a = min t u; b = min (max t u) (duration ck s);
          st = stats_loop ck s sr a b (nat (max 0 (holding sr a))) stats0
      in if ss_covered st > 0
         then st\<lparr>ss_mean := d_div (d_mul (ss_integral st) (dlit 1000)) (dbl_of (of_int (ss_covered st)))\<rparr>
         else if ss_count st > 0 then st\<lparr>ss_mean := d_div (ss_sum st) (dbl_of (of_int (ss_count st)))\<rparr>
         else st)"

subsection \<open>The grid\<close>

record grid_point =
  gp_t :: int
  gp_value :: dbl
  gp_integral :: dbl
  gp_quality :: quality
  gp_limit :: u32

definition worse :: "quality \<Rightarrow> quality \<Rightarrow> quality" where
  "worse a b =
     (case find (\<lambda>q. a = q \<or> b = q) [Overload, Fault, NoValue, Stale] of Some q \<Rightarrow> q | None \<Rightarrow> Valid)"

definition grid_before :: "series \<Rightarrow> int \<Rightarrow> int" where
  "grid_before sr t =
     (let j = lowerBound sr t
      in if j > 0 then int j - 1 else if j < se_count sr \<and> rp_t (se_at sr j) = t then int j else - 1)"

definition integralAt :: "dbl \<Rightarrow> series \<Rightarrow> int \<Rightarrow> dbl" where
  "integralAt thr sr t =
     (let j = grid_before sr t; p = se_at sr (nat j) in
      if j < 0 \<or> rp_gap p then DNan False
      else if d_lt thr (rp_value p)
        then d_add (rp_integral p) (d_div (d_mul (rp_value p) (dbl_of (of_int (t - rp_t p)))) (dlit 1000))
        else rp_integral p)"

record grid_acc =
  ga_sum :: dbl
  ga_held :: dbl
  ga_quality :: quality
  ga_overload :: dbl
  ga_limit :: u32

definition grid_add :: "raw_point \<Rightarrow> int \<Rightarrow> grid_acc \<Rightarrow> grid_acc" where
  "grid_add p ms acc =
     (let a1 = acc\<lparr>ga_limit := ga_limit acc OR (rp_flags p AND Limit)\<rparr> in
      if rp_gap p then
        a1\<lparr>ga_quality := worse (ga_quality a1) (if rp_quality p = Valid then Stale else rp_quality p),
          ga_overload := (if rp_quality p = Overload then rp_value p else ga_overload a1)\<rparr>
      else a1\<lparr>ga_sum := d_add (ga_sum a1) (d_mul (rp_value p) (dbl_of (of_int ms))),
             ga_held := d_add (ga_held a1) (dbl_of (of_int ms))\<rparr>)"

text \<open>The time a point holds in the step \<open>(a, b]\<close>.\<close>

definition held_ms :: "series \<Rightarrow> int \<Rightarrow> int \<Rightarrow> int \<Rightarrow> nat \<Rightarrow> int" where
  "held_ms sr e a b j =
     (let p = se_at sr j; until = (if j + 1 < se_count sr then rp_t (se_at sr (j + 1)) else max e (rp_t p))
      in min until b - max (rp_t p) a)"

function grid_loop :: "series \<Rightarrow> int \<Rightarrow> int \<Rightarrow> int \<Rightarrow> nat \<Rightarrow> grid_acc \<Rightarrow> grid_acc" where
  "grid_loop sr e a b j acc =
     (if j < se_count sr \<and> rp_t (se_at sr j) < b then
        grid_loop sr e a b (j + 1) (if held_ms sr e a b j \<le> 0 then acc else grid_add (se_at sr j) (held_ms sr e a b j) acc)
      else acc)"
  by auto
termination by (relation "measure (\<lambda>(sr, e, a, b, j, acc). se_count sr - j)") auto

declare stats_loop.simps [simp del] grid_loop.simps [simp del]

definition grid_step :: "dbl \<Rightarrow> series \<Rightarrow> int \<Rightarrow> int \<Rightarrow> int \<Rightarrow> grid_point" where
  "grid_step thr sr step e k =
     (let t = k * step; g = \<lparr>gp_t = t, gp_value = d_zero, gp_integral = integralAt thr sr t, gp_quality = Valid, gp_limit = 0\<rparr> in
      if k = 0 then
        (let j = grid_before sr 0; p = se_at sr (nat j)
         in if j < 0 then g\<lparr>gp_value := DNan False, gp_quality := Stale, gp_limit := 0\<rparr>
            else g\<lparr>gp_value := rp_value p, gp_quality := rp_quality p, gp_limit := rp_flags p AND Limit\<rparr>)
      else
        (let j = holding sr (t - step);
             acc = grid_loop sr e (t - step) t (nat (max 0 j))
                     \<lparr>ga_sum = d_zero, ga_held = d_zero, ga_quality = (if j < 0 then Stale else Valid), ga_overload = DNan False, ga_limit = 0\<rparr>;
             any = d_lt d_zero (ga_held acc)
         in g\<lparr>gp_value := (if any then d_div (ga_sum acc) (ga_held acc)
                             else if ga_quality acc = Overload then ga_overload acc else DNan False),
              gp_quality := (if any \<or> ga_quality acc \<noteq> Valid then ga_quality acc else Stale),
              gp_limit := ga_limit acc\<rparr>))"

definition gridOf :: "clocks \<Rightarrow> series \<Rightarrow> int \<Rightarrow> rec_store \<Rightarrow> grid_point list" where
  "gridOf ck sr tenths s =
     (if rs_loadedGrid s > 0 \<and> rs_loadedGrid s = tenths then
        map (\<lambda>i. let p = se_at sr i in
               \<lparr>gp_t = rp_t p, gp_value = rp_value p, gp_integral = rp_integral p, gp_quality = rp_quality p,
                gp_limit = rp_flags p AND Limit\<rparr>) [0 ..< se_count sr]
      else
        (let step = max 1 tenths * 100; e = duration ck s;
             kFirst = (rec_origin ck s + step - 1) sdiv step; kLast = e sdiv step
         in map (grid_step (rs_threshold s) sr step e) [kFirst .. kLast]))"

subsection \<open>To a table\<close>

record foreign =
  fo_store :: "rec_store option"
  fo_id :: int
  fo_device :: qstring

definition offsetOf :: "rec_store \<Rightarrow> rec_store \<Rightarrow> int" where
  "offsetOf s other =
     (if rs_fromFile s \<or> rs_fromFile other then rs_start other - rs_start s else rs_t0 other - rs_t0 s)"

definition shifted_series :: "int \<Rightarrow> int \<Rightarrow> qstring \<Rightarrow> series \<Rightarrow> series" where
  "shifted_series offset i unit sr =
     series0\<lparr>se_id := i, se_unit := unit,
       se_points := map (\<lambda>k. (se_at sr k)\<lparr>rp_t := max 0 (rp_t (se_at sr k) + offset)\<rparr>) [0 ..< se_count sr]\<rparr>"

definition foreign_series :: "rec_store \<Rightarrow> foreign \<Rightarrow> (series \<times> qstring) list" where
  "foreign_series s f =
     (case fo_store f of
        None \<Rightarrow> []
      | Some o' \<Rightarrow>
          map (\<lambda>x. (shifted_series (offsetOf s o') (fo_id f) (snd x) (fst x), fo_device f))
            (filter (\<lambda>x. \<not> se_isEmpty (fst x))
              (if fo_id f = 0 then [(rs_series o', rs_unit o')]
               else map (\<lambda>sr. (sr, se_unit sr)) (filter (\<lambda>sr. se_id sr = fo_id f) (rs_extra o')))))"

definition other_series :: "int list \<Rightarrow> foreign list \<Rightarrow> qstring \<Rightarrow> rec_store \<Rightarrow> (series \<times> qstring) list" where
  "other_series extras fs device s =
     map (\<lambda>e. (rs_extra s ! nat e, device))
       (filter (\<lambda>e. e \<ge> 0 \<and> e < int (length (rs_extra s)) \<and> \<not> se_isEmpty (rs_extra s ! nat e)) extras) @
     concat (map (foreign_series s) fs)"

function merge_times :: "int list \<Rightarrow> int list \<Rightarrow> int list" where
  "merge_times ts us =
     (if ts = [] \<and> us = [] then []
      else (let t = (if us = [] \<or> (ts \<noteq> [] \<and> hd ts \<le> hd us) then hd ts else hd us)
            in t # merge_times (dropWhile (\<lambda>x. x = t) ts) (dropWhile (\<lambda>x. x = t) us)))"
  by auto
termination
proof (relation "measure (\<lambda>(ts, us). length ts + length us)", goal_cases)
  case (2 ts us t)
  have le: "length (dropWhile P xs) \<le> length xs" for P :: "int \<Rightarrow> bool" and xs by (simp add: length_dropWhile_le)
  have less: "xs \<noteq> [] \<Longrightarrow> length (dropWhile (\<lambda>x. x = hd xs) xs) < length xs" for xs :: "int list"
    using le by (cases xs) (auto simp: less_Suc_eq_le)
  show ?case using 2 le[of "\<lambda>x. x = t" ts] le[of "\<lambda>x. x = t" us] less[of ts] less[of us]
    by (auto split: if_splits)
qed simp

declare merge_times.simps [simp del]

definition raw_times :: "int \<Rightarrow> nat \<Rightarrow> series list \<Rightarrow> rec_store \<Rightarrow> int list" where
  "raw_times t0 first others s =
     fold (\<lambda>sr ts. merge_times ts (map (\<lambda>k. rp_t (se_at sr k)) [lowerBound sr t0 ..< se_count sr])) others
       (map (\<lambda>k. rp_t (se_at (rs_series s) k)) [first ..< se_count (rs_series s)])"

text \<open>The cell of a value at a time: what it holds then.\<close>

definition raw_cell :: "series \<Rightarrow> int \<Rightarrow> dbl \<times> cell_state \<times> u32" where
  "raw_cell sr t =
     (let j = holding sr t; p = se_at sr (nat j)
      in if j < 0 then (DNan False, C_None, 0) else (rp_value p, cellState (rp_value p) (rp_quality p), rp_flags p AND Limit))"

definition column_of :: "series \<times> qstring \<Rightarrow> (dbl \<times> cell_state \<times> u32) list \<Rightarrow> rec_column" where
  "column_of x cells =
     \<lparr>co_id = se_id (fst x), co_device = snd x, co_unit = se_unit (fst x), co_values = map fst cells,
      co_states = map (\<lambda>c. fst (snd c)) cells, co_limits = map (\<lambda>c. snd (snd c)) cells\<rparr>"

definition raw_recording :: "clocks \<Rightarrow> (series \<times> qstring) list \<Rightarrow> recording \<Rightarrow> rec_store \<Rightarrow> recording" where
  "raw_recording ck others rec s =
     (let sr = rs_series s; n = se_count sr; first = nat (max 0 (holding sr (rec_origin ck s)));
          t0 = (if first < n then rp_t (se_at sr first) else 0);
          r1 = rec\<lparr>re_start := rs_start s + t0\<rparr>
      in if n = 0 then r1\<lparr>re_extra := map (\<lambda>x. column_of x []) others\<rparr>
         else
           (let times = raw_times t0 first (map fst others) s;
                main = (\<lambda>t. se_at sr (nat (max 0 (holding sr t))))
            in r1\<lparr>re_values := map (\<lambda>t. rp_value (main t)) times,
                 re_states := map (\<lambda>t. cellState (rp_value (main t)) (rp_quality (main t))) times,
                 re_limits := map (\<lambda>t. rp_flags (main t) AND Limit) times,
                 re_times := map (\<lambda>t. t - t0) times,
                 re_extra := map (\<lambda>x. column_of x (map (raw_cell (fst x)) times)) others\<rparr>))"

text \<open>The other values on the steps of the main one: a walk through both grids.\<close>

fun grid_cells :: "bool \<Rightarrow> series \<Rightarrow> grid_point list \<Rightarrow> grid_point list \<Rightarrow> (dbl \<times> cell_state \<times> u32) list" where
  "grid_cells asLoaded sr own [] = []"
| "grid_cells asLoaded sr own (g # gs) =
     (let rest = dropWhile (\<lambda>o'. gp_t o' < gp_t g) own;
          begun = (asLoaded \<or> rp_t (se_first sr) < gp_t g \<or> rp_t (se_first sr) = 0);
          there = (begun \<and> rest \<noteq> [] \<and> gp_t (hd rest) = gp_t g)
      in (if there then (gp_value (hd rest), cellState (gp_value (hd rest)) (gp_quality (hd rest)), gp_limit (hd rest))
          else (DNan False, C_None, 0)) # grid_cells asLoaded sr rest gs)"

definition grid_recording :: "clocks \<Rightarrow> (series \<times> qstring) list \<Rightarrow> recording \<Rightarrow> rec_store \<Rightarrow> recording" where
  "grid_recording ck others rec s =
     (let steps = gridOf ck (rs_series s) (rs_sampleTime s) s;
          asLoaded = (rs_loadedGrid s > 0 \<and> rs_loadedGrid s = rs_sampleTime s)
      in rec\<lparr>re_start := rs_start s + (if steps = [] then 0 else gp_t (hd steps)),
           re_values := map gp_value steps,
           re_states := map (\<lambda>g. cellState (gp_value g) (gp_quality g)) steps,
           re_limits := map gp_limit steps,
           re_extra := map (\<lambda>x. column_of x (grid_cells asLoaded (fst x) (gridOf ck (fst x) (rs_sampleTime s) s) steps)) others\<rparr>)"

definition toRecording :: "clocks \<Rightarrow> bool \<Rightarrow> int list \<Rightarrow> foreign list \<Rightarrow> qstring \<Rightarrow> rec_store \<Rightarrow> recording" where
  "toRecording ck raw extras fs device s =
     (let rec = \<lparr>re_start = 0, re_sampleTimeTenths = rs_sampleTime s, re_unit = rs_unit s, re_device = device, re_values = [],
                 re_states = [], re_times = [], re_limits = [], re_extra = []\<rparr>;
          others = other_series extras fs device s
      in if raw then raw_recording ck others rec s else grid_recording ck others rec s)"

text \<open>\<open>write\<close>, with the answer of the file writer.\<close>

definition rs_write :: "bool \<Rightarrow> foreign list \<Rightarrow> rec_store \<Rightarrow> bool \<times> rec_store \<times> foreign list" where
  "rs_write written fs s =
     (if \<not> written then (False, s, fs)
      else (True, s\<lparr>rs_dirty := False\<rparr>, map (\<lambda>f. f\<lparr>fo_store := map_option (\<lambda>o'. o'\<lparr>rs_dirty := False\<rparr>) (fo_store f)\<rparr>) fs))"

subsection \<open>From a table\<close>

definition row_time :: "recording \<Rightarrow> nat \<Rightarrow> rec_store \<Rightarrow> int" where
  "row_time r i s = (if onGrid r then int i * rs_sampleTime s * 100 else timeAt r i)"

definition load_row :: "recording \<Rightarrow> nat \<Rightarrow> rec_store \<Rightarrow> rec_store" where
  "load_row r i s =
     (if stateAt r i = C_None then s
      else appendPoint (raw_point0\<lparr>rp_t := row_time r i s, rp_value := re_values r ! i,
             rp_quality := cell_quality (stateAt r i), rp_flags := value_or 0 (re_limits r) i\<rparr>) s)"

definition load_cell :: "recording \<Rightarrow> rec_column \<Rightarrow> nat \<Rightarrow> rec_store \<Rightarrow> rec_store" where
  "load_cell r col i s =
     (if co_states col ! i = C_None then s
      else appendExtraPoint (length (rs_extra s) - 1) (raw_point0\<lparr>rp_t := row_time r i s,
             rp_value := value_or (DNan False) (co_values col) i, rp_quality := cell_quality (co_states col ! i),
             rp_flags := value_or 0 (co_limits col) i\<rparr>) s)"

definition load_column :: "recording \<Rightarrow> nat \<times> rec_column \<Rightarrow> rec_store \<Rightarrow> rec_store" where
  "load_column r ic s =
     (let col = snd ic;
          sr = series0\<lparr>se_id := (if co_id col > 0 then co_id col else int (fst ic) + 1), se_unit := co_unit col\<rparr>;
          s1 = fold (load_cell r col) [0 ..< min (length (re_values r)) (length (co_states col))] (s\<lparr>rs_extra := rs_extra s @ [sr]\<rparr>)
      in if se_isEmpty (last (rs_extra s1)) then s1\<lparr>rs_extra := butlast (rs_extra s1)\<rparr> else s1)"

definition load_begun :: "recording \<Rightarrow> rec_store \<Rightarrow> rec_store" where
  "load_begun r s =
     s\<lparr>rs_state := View, rs_start := re_start r, rs_unit := re_unit r, rs_unitPending := False, rs_recordPort := port0,
       rs_sampleTime := max 1 (re_sampleTimeTenths r), rs_series := se_clear (rs_series s), rs_extra := [], rs_floorMs := 0,
       rs_marks := []\<rparr>"

definition load :: "recording \<Rightarrow> rec_store \<Rightarrow> rec_store" where
  "load r s =
     (let s1 = fold (load_row r) [0 ..< length (re_values r)] (load_begun r s);
          s2 = fold (load_column r) (enumerate 0 (re_extra r)) s1;
          s3 = s2\<lparr>rs_loadedGrid := (if onGrid r then rs_sampleTime s2 else 0), rs_fromFile := True, rs_stopT := - 1, rs_dirty := False\<rparr>;
          s4 = rs_emit Loaded (rs_emit MarksChanged s3)
      in if rs_state s \<noteq> View then
           (let s5 = rs_emit (StateChanged View) s4 in if rs_state s = Record then rs_emit (RunningChanged False) s5 else s5)
         else s4)"

end
