(* ===== verification/Recording_Data.thy ===== *)
theory Recording_Data
  imports Recording_Export
begin

text \<open>
  Every operation of the recorder keeps its series in time order and within their bounds, one for every value, port and
  unit, and changes nothing but the data (\<open>rs_frame\<close>).
\<close>

subsection \<open>What adding points leaves alone\<close>

definition rs_frame :: "rec_store \<Rightarrow> rec_store" where
  "rs_frame s = s\<lparr>rs_series := series0, rs_extra := [], rs_extraReading := [], rs_floorMs := 0, rs_marks := [],
     rs_integral := d_zero, rs_dirty := (rs_dirty s \<and> rs_state s \<noteq> Record), rs_log := []\<rparr>"

lemma rs_frame_sel:
  assumes "rs_frame a = rs_frame b"
  shows "rs_state a = rs_state b" "rs_t0 a = rs_t0 b" "rs_stopT a = rs_stopT b" "rs_maxPoints a = rs_maxPoints b"
    "rs_fromFile a = rs_fromFile b" "rs_loadedGrid a = rs_loadedGrid b" "rs_sampleTime a = rs_sampleTime b"
    "rs_sampleLength a = rs_sampleLength b" "rs_preMs a = rs_preMs b" "rs_holdOrigin a = rs_holdOrigin b"
    "rs_preUsed a = rs_preUsed b" "rs_start a = rs_start b" "rs_recordPort a = rs_recordPort b"
    "rs_recordBaseUnit a = rs_recordBaseUnit b" "rs_staleMs a = rs_staleMs b" "rs_readings a = rs_readings b"
    "rs_readingCapacity a = rs_readingCapacity b" "rs_threshold a = rs_threshold b" "rs_mode a = rs_mode b"
    "rs_raising a = rs_raising b" "rs_falling a = rs_falling b" "rs_trigger a = rs_trigger b" "rs_reading a = rs_reading b"
    "rs_liveWidthMs a = rs_liveWidthMs b" "rs_lastVal a = rs_lastVal b" "rs_lastValValid a = rs_lastValValid b"
  using arg_cong[OF assms, of rs_state] arg_cong[OF assms, of rs_t0] arg_cong[OF assms, of rs_stopT]
    arg_cong[OF assms, of rs_maxPoints] arg_cong[OF assms, of rs_fromFile] arg_cong[OF assms, of rs_loadedGrid]
    arg_cong[OF assms, of rs_sampleTime] arg_cong[OF assms, of rs_sampleLength] arg_cong[OF assms, of rs_preMs]
    arg_cong[OF assms, of rs_holdOrigin] arg_cong[OF assms, of rs_preUsed] arg_cong[OF assms, of rs_start]
    arg_cong[OF assms, of rs_recordPort] arg_cong[OF assms, of rs_recordBaseUnit] arg_cong[OF assms, of rs_staleMs]
    arg_cong[OF assms, of rs_readings] arg_cong[OF assms, of rs_readingCapacity] arg_cong[OF assms, of rs_threshold]
    arg_cong[OF assms, of rs_mode] arg_cong[OF assms, of rs_raising] arg_cong[OF assms, of rs_falling]
    arg_cong[OF assms, of rs_trigger] arg_cong[OF assms, of rs_reading] arg_cong[OF assms, of rs_liveWidthMs]
    arg_cong[OF assms, of rs_lastVal] arg_cong[OF assms, of rs_lastValValid]
  by (simp_all add: rs_frame_def)

lemma rs_frame_dirty:
  assumes "rs_frame a = rs_frame b" "rs_state b \<noteq> Record"
  shows "rs_dirty a = rs_dirty b"
proof -
  have d: "rs_dirty (rs_frame s) = (rs_dirty s \<and> rs_state s \<noteq> Record)" for s by (simp add: rs_frame_def)
  show ?thesis using d[of a] d[of b] rs_frame_sel(1)[OF assms(1)] assms by simp
qed

lemma frame_parts [simp]:
  "rs_frame (rs_emit e s) = rs_frame s"
  "rs_frame (appendPoint p s) = rs_frame s"
  "rs_frame (appendExtraPoint i p s) = rs_frame s"
  "rs_frame (marks_from t s) = rs_frame s"
  "rs_frame (s\<lparr>rs_extra := xs\<rparr>) = rs_frame s"
  "rs_frame (s\<lparr>rs_series := sr\<rparr>) = rs_frame s"
  "rs_frame (s\<lparr>rs_floorMs := t\<rparr>) = rs_frame s"
  "rs_frame (s\<lparr>rs_marks := ms\<rparr>) = rs_frame s"
  "rs_state s = Record \<Longrightarrow> rs_frame (s\<lparr>rs_dirty := d\<rparr>) = rs_frame s"
  "rs_frame (s\<lparr>rs_extraReading := rd\<rparr>) = rs_frame s"
  by (simp_all add: rs_frame_def rs_emit_def appendPoint_def appendExtraPoint_def marks_from_def Let_def case_prod_beta)

lemma frame_trim [simp]:
  "rs_frame (snd (trimMain ck s)) = rs_frame s" "rs_frame (snd (trimExtras ck s)) = rs_frame s"
  "rs_frame (snd (trim ck s)) = rs_frame s" "rs_frame (trimForLimits ck s) = rs_frame s"
proof -
  show main: "rs_frame (snd (trimMain ck s)) = rs_frame s" for s by (simp add: trimMain_def Let_def)
  show ex: "rs_frame (snd (trimExtras ck s)) = rs_frame s" for s by (simp add: trimExtras_def Let_def case_prod_beta)
  show tr: "rs_frame (snd (trim ck s)) = rs_frame s" for s
    using main[of s] ex[of "snd (trimMain ck s)"] by (simp add: trim_def case_prod_beta)
  show "rs_frame (trimForLimits ck s) = rs_frame s"
    using tr[of s] by (simp add: trimForLimits_def case_prod_beta)
qed

lemma frame_append [simp]: "rs_frame (rs_append ck p s) = rs_frame s"
  by (simp add: rs_append_def Let_def case_prod_beta)

lemma frame_extra [simp]:
  "rs_frame (extra_stored r p i b s) = rs_frame s" "rs_frame (extra_begun r s) = rs_frame s"
  "rs_frame (extra_named r i s) = rs_frame s" "rs_frame (extra_into r p s) = rs_frame s" "rs_frame (appendExtra r s) = rs_frame s"
proof -
  show st: "rs_frame (extra_stored r p i b s) = rs_frame s" for p i b s by (simp add: extra_stored_def Let_def)
  show be: "rs_frame (extra_begun r s) = rs_frame s" for s by (simp add: extra_begun_def split: option.split)
  show na: "rs_frame (extra_named r i s) = rs_frame s" for i s by (simp add: extra_named_def)
  show into: "rs_frame (extra_into r p s) = rs_frame s" for p s by (simp add: extra_into_def Let_def st be na)
  show "rs_frame (appendExtra r s) = rs_frame s" by (simp add: appendExtra_def Let_def into)
qed

lemma frame_fold: "(\<And>x s. rs_frame (f x s) = rs_frame s) \<Longrightarrow> rs_frame (fold f xs s) = rs_frame s"
  by (induction xs arbitrary: s) auto

lemma frame_current [simp]:
  "rs_frame (appendCurrentExtra ck b r s) = rs_frame s" "rs_frame (appendCurrent ck b s) = rs_frame s"
proof -
  show one: "rs_frame (appendCurrentExtra ck b r s) = rs_frame s" for r s
    by (simp add: appendCurrentExtra_def Let_def)
  show "rs_frame (appendCurrent ck b s) = rs_frame s"
    by (simp add: appendCurrent_def Let_def frame_fold one split: option.split)
qed

lemma frame_live_part [simp]:
  "rs_frame (appendLiveExtra t sr s) = rs_frame s" "rs_frame (appendLivePart ck part s) = rs_frame s"
proof -
  show one: "rs_frame (appendLiveExtra t sr s) = rs_frame s" for t sr s
    by (simp add: appendLiveExtra_def Let_def frame_fold)
  show "rs_frame (appendLivePart ck part s) = rs_frame s"
    by (simp add: appendLivePart_def Let_def frame_fold one)
qed

lemma frame_silent [simp]:
  "rs_frame (closeSilentExtras now s) = rs_frame s" "rs_frame (setStale ck b s) = rs_frame s"
proof -
  have one: "rs_frame (snd (closeSilentExtra now kr acc)) = rs_frame (snd acc)" for kr acc
    by (simp add: closeSilentExtra_def Let_def)
  have "rs_frame (snd (fold (closeSilentExtra now) xs acc)) = rs_frame (snd acc)" for xs acc
    by (induction xs arbitrary: acc) (simp_all add: one)
  from this[of "rs_extraReading s" "(False, s)"]
  show "rs_frame (closeSilentExtras now s) = rs_frame s" by (simp add: closeSilentExtras_def case_prod_beta)
  have two: "rs_frame (snd (staleExtra ck i acc)) = rs_frame (snd acc)" for i acc
    by (simp add: staleExtra_def Let_def)
  have "rs_frame (snd (fold (staleExtra ck) xs acc)) = rs_frame (snd acc)" for xs acc
    by (induction xs arbitrary: acc) (simp_all add: two)
  from this[of "[0 ..< length (rs_extra s)]" "(False, s)"]
  show "rs_frame (setStale ck b s) = rs_frame s" by (simp add: setStale_def Let_def case_prod_beta)
qed

subsection \<open>Series in order and within their bounds\<close>

definition series_ok :: "series \<Rightarrow> bool" where
  "series_ok sr \<longleftrightarrow> se_wf sr \<and> in_time (se_view sr)"

type_synonym series_key = "int \<times> port_key \<times> qstring"

definition se_key :: "series \<Rightarrow> series_key" where
  "se_key sr = (se_id sr, se_port sr, se_unit sr)"

text \<open>One series for a value, a port and a unit; one without a port is the only one of its value.\<close>

definition keys_ok :: "series_key list \<Rightarrow> bool" where
  "keys_ok ks \<longleftrightarrow> distinct ks \<and>
     (\<forall>k \<in> set ks. \<forall>k' \<in> set ks. fst k' = fst k \<longrightarrow> \<not> port_valid (fst (snd k)) \<longrightarrow> k' = k)"

definition points_bound :: "rec_store \<Rightarrow> int" where
  "points_bound s = rs_maxPoints s + rs_maxPoints s sdiv 100"

text \<open>The points of another value: one gap more than the bound, where it ended.\<close>

definition extra_ok :: "int \<Rightarrow> series \<Rightarrow> bool" where
  "extra_ok b sr \<longleftrightarrow> series_ok sr \<and> se_view sr \<noteq> [] \<and>
     int (se_count sr) \<le> b + (if rp_gap (se_last sr) then 1 else 0)"

definition extras_ok :: "int \<Rightarrow> series list \<Rightarrow> bool" where
  "extras_ok b xs \<longleftrightarrow> (\<forall>x \<in> set xs. extra_ok b x) \<and> keys_ok (map se_key xs)"

definition data_ok :: "rec_store \<Rightarrow> bool" where
  "data_ok s \<longleftrightarrow> rs_maxPoints s \<ge> 2 \<and> series_ok (rs_series s) \<and> int (se_count (rs_series s)) \<le> points_bound s \<and>
     extras_ok (points_bound s) (rs_extra s) \<and> (rs_extra s \<noteq> [] \<longrightarrow> se_view (rs_series s) \<noteq> [])"

lemma points_bound_ge: "rs_maxPoints s \<ge> 2 \<Longrightarrow> rs_maxPoints s \<le> points_bound s"
  by (simp add: points_bound_def signed_divide_int_def)

lemma points_bound_frame: "rs_frame a = rs_frame b \<Longrightarrow> points_bound a = points_bound b"
  using rs_frame_sel(4) by (metis points_bound_def)

lemma view_running [simp]:
  "se_view (sr\<lparr>se_running := r\<rparr>) = se_view sr" "se_wf (sr\<lparr>se_running := r\<rparr>) = se_wf sr"
  "se_view (sr\<lparr>se_port := po, se_unit := u, se_name := na\<rparr>) = se_view sr"
  "se_wf (sr\<lparr>se_port := po, se_unit := u, se_name := na\<rparr>) = se_wf sr"
  "se_view (series0\<lparr>se_id := i\<rparr>) = []" "se_wf (series0\<lparr>se_id := i\<rparr>)"
  by (simp_all add: se_view_def se_wf_def series0_def)

lemma series_ok_new [simp]: "series_ok (series0\<lparr>se_id := i\<rparr>)" "series_ok series0"
  by (simp_all add: series_ok_def series0_def se_wf_def se_view_def)

lemma series_ok_removeFirst [simp]: "series_ok sr \<Longrightarrow> series_ok (se_removeFirst n sr)"
  by (simp add: series_ok_def)

lemma integrated_point:
  "rp_value (fst (integrated thr sr run p)) = rp_value p" "rp_quality (fst (integrated thr sr run p)) = rp_quality p"
  "rp_flags (fst (integrated thr sr run p)) = rp_flags p" "rp_gap (fst (integrated thr sr run p)) = rp_gap p"
  "rp_t (fst (integrated thr sr run p)) = (if se_isEmpty sr then rp_t p else max (rp_t p) (rp_t (se_last sr)))"
  by (simp_all add: integrated_def Let_def rp_gap_def)

lemma series_ok_integrated:
  "series_ok sr \<Longrightarrow> series_ok (se_append (fst (integrated thr sr run p)) sr)"
  "series_ok sr \<Longrightarrow> series_ok (se_append (fst (integrated thr sr run p)) (sr\<lparr>se_running := r\<rparr>))"
  by (auto simp: series_ok_def in_time_snoc integrated_point se_last_view)

lemma appendPoint_series:
  "rs_series (appendPoint p s) = se_append (fst (integrated (rs_threshold s) (rs_series s) (rs_integral s) p)) (rs_series s)"
  "rs_extra (appendPoint p s) = rs_extra s"
  by (simp_all add: appendPoint_def case_prod_beta)

lemma appendExtraPoint_extra:
  "rs_extra (appendExtraPoint i p s) = (rs_extra s)[i := se_append
     (fst (integrated (rs_threshold s) (rs_extra s ! i) (se_running (rs_extra s ! i)) p))
     ((rs_extra s ! i)\<lparr>se_running := snd (integrated (rs_threshold s) (rs_extra s ! i) (se_running (rs_extra s ! i)) p)\<rparr>)]"
  "rs_series (appendExtraPoint i p s) = rs_series s"
  by (simp_all add: appendExtraPoint_def Let_def case_prod_beta)

lemma se_key_simps [simp]:
  "se_key (se_append p sr) = se_key sr" "se_key (sr\<lparr>se_running := r\<rparr>) = se_key sr"
  "se_key (se_removeFirst n sr) = se_key sr"
  by (simp_all add: se_key_def)

subsection \<open>Dropping the oldest\<close>

lemma holding_bound: "series_ok sr \<Longrightarrow> holding sr t < int (se_count sr)"
  using points_before_le[of "t + 1" "se_view sr"] by (simp add: series_ok_def holding_finds se_count_view)

lemma last_removed: "series_ok sr \<Longrightarrow> se_view (se_removeFirst d sr) \<noteq> [] \<Longrightarrow> se_last (se_removeFirst d sr) = se_last sr"
  by (cases "se_view sr = []") (auto simp: se_last_view)

lemma view_removed:
  assumes "series_ok sr" "se_view sr \<noteq> []" "d < int (se_count sr)"
  shows "se_view (se_removeFirst d sr) \<noteq> []"
proof -
  have "nat d < length (se_view sr)" using assms(2,3) by (cases "d < 0") (auto simp: se_count_view)
  then show ?thesis by simp
qed

lemma trim_drop_bounds:
  assumes "series_ok (rs_series s)" "se_view (rs_series s) \<noteq> []" "rs_maxPoints s \<ge> 2"
  shows "trim_drop ck s < int (se_count (rs_series s))"
    and "int (se_count (rs_series s)) - trim_drop ck s \<le> points_bound s"
proof -
  have pos: "0 < se_count (rs_series s)" using assms(2) by (simp add: se_count_view)
  have h: "max 0 (holding (rs_series s) t) < int (se_count (rs_series s))" for t
    using holding_bound[OF assms(1)] pos by simp
  show "trim_drop ck s < int (se_count (rs_series s))"
    using h pos assms(3) by (auto simp: trim_drop_def Let_def)
  show "int (se_count (rs_series s)) - trim_drop ck s \<le> points_bound s"
    using points_bound_ge[OF assms(3)] by (auto simp: trim_drop_def Let_def points_bound_def)
qed

lemma marks_from_data [simp]:
  "rs_series (marks_from t s) = rs_series s" "rs_extra (marks_from t s) = rs_extra s"
  by (simp_all add: marks_from_def rs_emit_def Let_def)

lemma trimMain_series:
  assumes "series_ok (rs_series s)" "rs_maxPoints s \<ge> 2"
  shows "\<exists>d. se_view (rs_series (snd (trimMain ck s))) = List.drop d (se_view (rs_series s)) \<and>
      (se_view (rs_series s) \<noteq> [] \<longrightarrow> d < length (se_view (rs_series s)))"
    and "series_ok (rs_series (snd (trimMain ck s)))" "rs_extra (snd (trimMain ck s)) = rs_extra s"
    and "int (se_count (rs_series (snd (trimMain ck s)))) \<le> points_bound s"
proof -
  have empty: "se_view (rs_series s) = [] \<Longrightarrow> trimMain ck s = (False, s)" by (simp add: trimMain_def)
  have none: "trim_drop ck s \<le> 0 \<Longrightarrow> trimMain ck s = (False, s)" by (simp add: trimMain_def)
  have some: "rs_series (snd (trimMain ck s)) = se_removeFirst (trim_drop ck s) (rs_series s)"
    if "se_view (rs_series s) \<noteq> []" "trim_drop ck s > 0"
    using that by (simp add: trimMain_def Let_def)
  note b = trim_drop_bounds[OF assms(1) _ assms(2), of ck]
  have nneg: "0 \<le> points_bound s" using points_bound_ge[OF assms(2)] assms(2) by simp
  show "\<exists>d. se_view (rs_series (snd (trimMain ck s))) = List.drop d (se_view (rs_series s)) \<and>
      (se_view (rs_series s) \<noteq> [] \<longrightarrow> d < length (se_view (rs_series s)))"
  proof (cases "se_view (rs_series s) = [] \<or> trim_drop ck s \<le> 0")
    case True
    then have "trimMain ck s = (False, s)" using empty none by blast
    then show ?thesis by (intro exI[of _ 0]) simp
  next
    case False
    then show ?thesis using some b(1) by (intro exI[of _ "nat (trim_drop ck s)"]) (auto simp: se_count_view)
  qed
  show "series_ok (rs_series (snd (trimMain ck s)))"
    using assms(1) empty none some by (cases "se_view (rs_series s) = [] \<or> trim_drop ck s \<le> 0") auto
  show "rs_extra (snd (trimMain ck s)) = rs_extra s"
    by (simp add: trimMain_def Let_def)
  show "int (se_count (rs_series (snd (trimMain ck s)))) \<le> points_bound s"
  proof (cases "se_view (rs_series s) = [] \<or> trim_drop ck s \<le> 0")
    case True
    then show ?thesis using empty none nneg b(2) by (cases "se_view (rs_series s) = []") (simp_all add: se_count_view)
  next
    case False
    then show ?thesis using some b by (simp add: se_count_view)
  qed
qed

lemma keys_ok_subset: "keys_ok ks \<Longrightarrow> distinct ls \<Longrightarrow> set ls \<subseteq> set ks \<Longrightarrow> keys_ok ls"
  by (auto simp: keys_ok_def)

lemma extras_ok_update:
  assumes "extras_ok b xs" "extra_ok b x" "se_key x = se_key (xs ! i)"
  shows "extras_ok b (xs[i := x])"
proof -
  have "map se_key (xs[i := x]) = map se_key xs"
    using assms(3) by (cases "i < length xs") (auto simp: map_update list_update_same_conv list_update_beyond not_less)
  then show ?thesis using assms(1,2) set_update_subset_insert[of xs i x] by (auto simp: extras_ok_def)
qed

lemma extra_below_last:
  "extra_below xs i n < int n" "extra_below xs i n \<ge> - 1"
  "extra_below xs i n \<ge> 0 \<Longrightarrow> se_id (xs ! nat (extra_below xs i n)) = i"
  "extra_below xs i n < 0 \<Longrightarrow> k < n \<Longrightarrow> se_id (xs ! k) \<noteq> i"
  by (induction n) (auto simp: less_Suc_eq split: if_splits)

lemma extraIndex_found:
  assumes "extraIndex xs i \<ge> 0"
  shows "nat (extraIndex xs i) < length xs" "se_id (xs ! nat (extraIndex xs i)) = i"
  using assms extra_below_last(1)[of xs i "length xs"] extra_below_last(3)[of xs i "length xs"]
  by (auto simp: extraIndex_def)

lemma extraIndex_none: "extraIndex xs i < 0 \<Longrightarrow> x \<in> set xs \<Longrightarrow> se_id x \<noteq> i"
  using extra_below_last(4)[of xs i "length xs"] by (auto simp: extraIndex_def in_set_conv_nth)

lemma trimExtra_ok:
  assumes "extras_ok b (snd acc)" "i < length (snd acc)"
  shows "extras_ok b (snd (trimExtra bound slack i acc))" "i \<le> length (snd (trimExtra bound slack i acc))"
proof -
  let ?xs = "snd acc" and ?sr = "snd acc ! i"
  have sr: "extra_ok b ?sr" using assms by (auto simp: extras_ok_def)
  have gone: "extras_ok b (take i ?xs @ List.drop (i + 1) ?xs)"
  proof -
    have sub: "set (take i ?xs @ List.drop (i + 1) ?xs) \<subseteq> set ?xs" by (auto dest: in_set_takeD in_set_dropD)
    have "distinct (map se_key (take i ?xs @ List.drop (i + 1) ?xs))"
    proof -
      have "distinct (map se_key (take i ?xs @ ?xs ! i # List.drop (Suc i) ?xs))"
        using assms by (simp only: id_take_nth_drop[symmetric] extras_ok_def keys_ok_def)
      then show ?thesis by (simp del: take_map drop_map)
    qed
    then show ?thesis using assms(1) sub keys_ok_subset[of "map se_key ?xs" "map se_key (take i ?xs @ List.drop (i + 1) ?xs)"]
      by (auto simp: extras_ok_def image_subset_iff)
  qed
  have cut: "extra_ok b (se_removeFirst (max 0 (holding ?sr bound)) ?sr)"
    using sr holding_bound[of ?sr bound] view_removed[of ?sr "max 0 (holding ?sr bound)"]
      last_removed[of ?sr "max 0 (holding ?sr bound)"] by (auto simp: extra_ok_def se_count_view)
  show "extras_ok b (snd (trimExtra bound slack i acc))"
    using gone extras_ok_update[OF assms(1) cut] assms(1) by (auto simp: trimExtra_def Let_def)
  show "i \<le> length (snd (trimExtra bound slack i acc))"
    using assms(2) by (auto simp: trimExtra_def Let_def)
qed

lemma trimExtras_ok:
  assumes "extras_ok b (rs_extra s)"
  shows "extras_ok b (rs_extra (snd (trimExtras ck s)))" "rs_series (snd (trimExtras ck s)) = rs_series s"
    "rs_extra s = [] \<Longrightarrow> rs_extra (snd (trimExtras ck s)) = []"
proof -
  have "extras_ok b (snd (foldr (trimExtra bound slack) [0 ..< n] acc))"
    if "extras_ok b (snd acc)" "n \<le> length (snd acc)" for n acc bound slack
    using that
  proof (induction n arbitrary: acc)
    case (Suc n)
    then show ?case using trimExtra_ok[of b acc n bound slack] by simp
  qed simp
  then show "extras_ok b (rs_extra (snd (trimExtras ck s)))"
    using assms by (simp add: trimExtras_def Let_def case_prod_beta)
  show "rs_series (snd (trimExtras ck s)) = rs_series s" "rs_extra s = [] \<Longrightarrow> rs_extra (snd (trimExtras ck s)) = []"
    by (simp_all add: trimExtras_def Let_def case_prod_beta)
qed

lemma rs_emit_data [simp]:
  "rs_series (rs_emit e s) = rs_series s" "rs_extra (rs_emit e s) = rs_extra s" "rs_marks (rs_emit e s) = rs_marks s"
  "rs_extraReading (rs_emit e s) = rs_extraReading s" "rs_dirty (rs_emit e s) = rs_dirty s"
  by (simp_all add: rs_emit_def)

text \<open>After a point and the dropping of the oldest.\<close>

definition all_but_bound :: "rec_store \<Rightarrow> bool" where
  "all_but_bound s \<longleftrightarrow> rs_maxPoints s \<ge> 2 \<and> series_ok (rs_series s) \<and> extras_ok (points_bound s) (rs_extra s) \<and>
     (rs_extra s \<noteq> [] \<longrightarrow> se_view (rs_series s) \<noteq> [])"

lemma trim_ok:
  assumes "all_but_bound s"
  shows "data_ok (snd (trim ck s))"
    and "\<exists>d. se_view (rs_series (snd (trim ck s))) = List.drop d (se_view (rs_series s)) \<and>
      (se_view (rs_series s) \<noteq> [] \<longrightarrow> d < length (se_view (rs_series s)))"
proof -
  note a = assms[unfolded all_but_bound_def]
  let ?m = "snd (trimMain ck s)"
  have main: "series_ok (rs_series ?m)" "rs_extra ?m = rs_extra s" "int (se_count (rs_series ?m)) \<le> points_bound s"
    using trimMain_series[of s ck] a by auto
  obtain d where d: "se_view (rs_series ?m) = List.drop d (se_view (rs_series s))"
    "se_view (rs_series s) \<noteq> [] \<longrightarrow> d < length (se_view (rs_series s))"
    using trimMain_series(1)[of s ck] a by blast
  have ex: "extras_ok (points_bound s) (rs_extra (snd (trimExtras ck ?m)))"
    "rs_series (snd (trimExtras ck ?m)) = rs_series ?m" "rs_extra s = [] \<Longrightarrow> rs_extra (snd (trimExtras ck ?m)) = []"
    using trimExtras_ok[of "points_bound s" ?m ck] a main by auto
  have res: "rs_series (snd (trim ck s)) = rs_series ?m" "rs_extra (snd (trim ck s)) = rs_extra (snd (trimExtras ck ?m))"
    using ex(2) by (simp_all add: trim_def case_prod_beta)
  have fr: "points_bound (snd (trim ck s)) = points_bound s" "rs_maxPoints (snd (trim ck s)) = rs_maxPoints s"
    using points_bound_frame[OF frame_trim(3)] rs_frame_sel(4)[OF frame_trim(3)] by blast+
  show "data_ok (snd (trim ck s))"
    using a main ex d unfolding data_ok_def res fr by auto
  show "\<exists>d. se_view (rs_series (snd (trim ck s))) = List.drop d (se_view (rs_series s)) \<and>
      (se_view (rs_series s) \<noteq> [] \<longrightarrow> d < length (se_view (rs_series s)))"
    using d unfolding res by blast
qed

lemma append_ok:
  assumes "all_but_bound s"
  shows "data_ok (rs_append ck p s)" "se_view (rs_series (rs_append ck p s)) \<noteq> []"
proof -
  let ?s = "if rs_state (appendPoint p s) = Record then (appendPoint p s)\<lparr>rs_dirty := True\<rparr> else appendPoint p s"
  have ser: "rs_series ?s = se_append (fst (integrated (rs_threshold s) (rs_series s) (rs_integral s) p)) (rs_series s)"
    "rs_extra ?s = rs_extra s" by (simp_all add: appendPoint_series)
  have fr: "rs_frame ?s = rs_frame s" by simp
  have ne: "se_view (rs_series ?s) \<noteq> []" using assms unfolding ser by (simp add: all_but_bound_def series_ok_def)
  have ok: "all_but_bound ?s"
    using assms ne unfolding all_but_bound_def points_bound_frame[OF fr] rs_frame_sel(4)[OF fr] ser
    by (simp add: series_ok_integrated)
  obtain d where d: "se_view (rs_series (snd (trim ck ?s))) = List.drop d (se_view (rs_series ?s))"
    "d < length (se_view (rs_series ?s))" using trim_ok(2)[OF ok, of ck] ne by blast
  have res: "rs_series (rs_append ck p s) = rs_series (snd (trim ck ?s))" "rs_extra (rs_append ck p s) = rs_extra (snd (trim ck ?s))"
    by (simp_all add: rs_append_def Let_def case_prod_beta)
  have fr2: "rs_frame (rs_append ck p s) = rs_frame (snd (trim ck ?s))" using fr by simp
  show "data_ok (rs_append ck p s)"
    using trim_ok(1)[OF ok, of ck] unfolding data_ok_def points_bound_frame[OF fr2] rs_frame_sel(4)[OF fr2] res .
  show "se_view (rs_series (rs_append ck p s)) \<noteq> []" using d unfolding res by simp
qed

lemma data_all: "data_ok s \<Longrightarrow> all_but_bound s"
  by (simp add: data_ok_def all_but_bound_def)

subsection \<open>The other values\<close>

definition with_point :: "dbl \<Rightarrow> raw_point \<Rightarrow> series \<Rightarrow> series" where
  "with_point thr p sr =
     se_append (fst (integrated thr sr (se_running sr) p)) (sr\<lparr>se_running := snd (integrated thr sr (se_running sr) p)\<rparr>)"

lemma appendExtraPoint_with:
  "rs_extra (appendExtraPoint i p s) = (rs_extra s)[i := with_point (rs_threshold s) p (rs_extra s ! i)]"
  "rs_series (appendExtraPoint i p s) = rs_series s"
  by (simp_all add: appendExtraPoint_extra with_point_def)

lemma with_point_sel:
  assumes "series_ok sr"
  shows "series_ok (with_point thr p sr)" "se_view (with_point thr p sr) = se_view sr @ [fst (integrated thr sr (se_running sr) p)]"
    "se_count (with_point thr p sr) = Suc (se_count sr)" "rp_gap (se_last (with_point thr p sr)) = rp_gap p"
proof -
  show ok: "series_ok (with_point thr p sr)" using assms by (simp add: with_point_def series_ok_integrated)
  show v: "se_view (with_point thr p sr) = se_view sr @ [fst (integrated thr sr (se_running sr) p)]"
    using assms by (simp add: with_point_def series_ok_def)
  show "se_count (with_point thr p sr) = Suc (se_count sr)" by (simp add: se_count_view v)
  show "rp_gap (se_last (with_point thr p sr)) = rp_gap p" by (simp add: se_last_view v integrated_point)
qed

lemma with_point_key [simp]: "se_key (with_point thr p sr) = se_key sr"
  by (simp add: with_point_def)

lemma extra_ended:
  assumes "extra_ok b sr" "\<not> rp_gap (se_last sr)" "rp_gap p"
  shows "extra_ok b (with_point thr p sr)"
  using assms with_point_sel[of sr thr p] by (simp add: extra_ok_def)

lemma stale_point_gap [simp]: "rp_gap (stale_point t)"
  by (simp add: stale_point_def rp_gap_def)

text \<open>Everything in order but series \<open>i\<close>, which may be empty still.\<close>

definition extras_but :: "int \<Rightarrow> nat \<Rightarrow> series list \<Rightarrow> bool" where
  "extras_but b i xs \<longleftrightarrow> i < length xs \<and> keys_ok (map se_key xs) \<and> series_ok (xs ! i) \<and>
     (\<forall>j < length xs. j \<noteq> i \<or> se_view (xs ! i) \<noteq> [] \<longrightarrow> extra_ok b (xs ! j))"

lemma extras_ok_nth: "extras_ok b xs \<longleftrightarrow> keys_ok (map se_key xs) \<and> (\<forall>j < length xs. extra_ok b (xs ! j))"
  by (auto simp: extras_ok_def all_set_conv_all_nth)

lemma extras_but_of: "extras_ok b xs \<Longrightarrow> i < length xs \<Longrightarrow> extras_but b i xs"
  by (auto simp: extras_ok_nth extras_but_def extra_ok_def)

lemma extras_but_update:
  assumes "extras_but b i xs" "extra_ok b x" "se_key x = se_key (xs ! i)"
  shows "extras_ok b (xs[i := x])"
proof -
  have "map se_key (xs[i := x]) = map se_key xs"
    using assms by (auto simp: extras_but_def map_update list_update_same_conv)
  then show ?thesis using assms(1,2) by (auto simp: extras_ok_nth extras_but_def nth_list_update)
qed

lemma extra_stored_ok:
  assumes "extras_but (points_bound s) i (rs_extra s)" "rs_maxPoints s \<ge> 2"
    and "vr_text r = [] \<Longrightarrow> se_view (rs_extra s ! i) \<noteq> []"
  shows "extras_ok (points_bound s) (rs_extra (extra_stored r p i b s))"
    "rs_series (extra_stored r p i b s) = rs_series s"
proof -
  let ?sr = "rs_extra s ! i" and ?x = "with_point (rs_threshold s) p (rs_extra s ! i)"
  have i: "i < length (rs_extra s)" "series_ok ?sr" using assms(1) by (auto simp: extras_but_def)
  note w = with_point_sel[OF i(2), of "rs_threshold s" p]
  have bound: "rs_maxPoints s \<le> points_bound s" using assms(2) by (rule points_bound_ge)
  have cut: "extra_ok (points_bound s) (se_removeFirst (int (se_count ?x) - rs_maxPoints s) ?x)"
    if "int (se_count ?x) > points_bound s"
    using that bound assms(2) w view_removed[OF w(1), of "int (se_count ?x) - rs_maxPoints s"]
    by (simp add: extra_ok_def se_count_view nat_diff_distrib)
  have whole: "extra_ok (points_bound s) ?x" if "int (se_count ?x) \<le> points_bound s"
    using that w by (simp add: extra_ok_def)
  have stay: "extras_ok (points_bound s) (rs_extra s)" if "vr_text r = []"
    using assms(1) assms(3)[OF that] by (auto simp: extras_ok_nth extras_but_def)
  have fr: "rs_maxPoints (appendExtraPoint i p s) = rs_maxPoints s" by (intro rs_frame_sel(4)) simp
  have fr2: "points_bound (appendExtraPoint i p s) = points_bound s" by (intro points_bound_frame) simp
  show "extras_ok (points_bound s) (rs_extra (extra_stored r p i b s))"
    using stay extras_but_update[OF assms(1) cut] extras_but_update[OF assms(1) whole] i(1)
    by (auto simp: extra_stored_def Let_def appendExtraPoint_with fr fr2 points_bound_def[symmetric])
  show "rs_series (extra_stored r p i b s) = rs_series s"
    by (simp add: extra_stored_def Let_def appendExtraPoint_with)
qed

lemma keys_ok_new:
  assumes "keys_ok ks" "(i, po, u) \<notin> set ks" "\<And>k. k \<in> set ks \<Longrightarrow> fst k = i \<Longrightarrow> port_valid (fst (snd k)) \<and> port_valid po"
  shows "keys_ok (ks @ [(i, po, u)])"
  using assms by (fastforce simp: keys_ok_def)

lemma keys_ok_named:
  assumes "keys_ok ks" "j < length ks" "fst (ks ! j) = i" "\<not> port_valid (fst (snd (ks ! j)))"
  shows "keys_ok (ks[j := (i, po, u)])"
proof -
  have only: "k = ks ! j" if "k \<in> set ks" "fst k = i" for k
    using assms that by (auto simp: keys_ok_def)
  have d: "distinct ks" using assms(1) by (simp add: keys_ok_def)
  have others: "set (ks[j := (i, po, u)]) = insert (i, po, u) (set ks - {ks ! j})"
    using d assms(2) by (simp add: set_update_distinct)
  have "(i, po, u) \<notin> set ks - {ks ! j}" using only by auto
  then have "distinct (ks[j := (i, po, u)])" by (intro distinct_list_update d) auto
  then show ?thesis using only assms(1) unfolding keys_ok_def others by fastforce
qed

lemma move_to_end_perm:
  fixes f :: "'a \<Rightarrow> 'b"
  assumes "j < length xs"
  shows "set (move_to_end j xs) = set xs" "distinct (map f (move_to_end j xs)) \<longleftrightarrow> distinct (map f xs)"
    "length (move_to_end j xs) = length xs" "move_to_end j xs ! (length xs - 1) = xs ! j"
proof -
  obtain as x bs where xs: "xs = as @ x # bs" "length as = j"
    using id_take_nth_drop[OF assms] assms by (metis length_take less_imp_le min.absorb2)
  show "set (move_to_end j xs) = set xs" "distinct (map f (move_to_end j xs)) \<longleftrightarrow> distinct (map f xs)"
    "length (move_to_end j xs) = length xs" "move_to_end j xs ! (length xs - 1) = xs ! j"
    using xs by (auto simp: move_to_end_def nth_append)
qed

text \<open>The series a reading begins or goes on with, and its name.\<close>

lemma earlier_extra_found:
  "earlier_extra xs r = Some j \<Longrightarrow> j < length xs \<and> se_id (xs ! j) = vr_id r \<and> se_port (xs ! j) = vr_port r \<and> se_unit (xs ! j) = vr_baseUnit r"
  by (auto simp: earlier_extra_def find_Some_iff rev_nth)

lemma earlier_extra_none:
  assumes "earlier_extra xs r = None"
  shows "(vr_id r, vr_port r, vr_baseUnit r) \<notin> set (map se_key xs)"
proof
  assume "(vr_id r, vr_port r, vr_baseUnit r) \<in> set (map se_key xs)"
  then obtain j where "j < length xs" "se_key (xs ! j) = (vr_id r, vr_port r, vr_baseUnit r)"
    by (auto simp: in_set_conv_nth)
  moreover have "\<forall>j \<in> set (rev [0 ..< length xs]).
      \<not> (se_id (xs ! j) = vr_id r \<and> se_port (xs ! j) = vr_port r \<and> se_unit (xs ! j) = vr_baseUnit r)"
    using assms unfolding earlier_extra_def find_None_iff by blast
  ultimately show False by (simp add: se_key_def)
qed

lemma says_valid: "extra_says r \<Longrightarrow> port_valid (vr_port r)"
  by (simp add: extra_says_def port_valid_def)

lemma port0_invalid [simp]: "\<not> port_valid port0"
  by (simp add: port_valid_def port0_def)

lemma extra_begun_ok:
  assumes ok: "extras_ok b (rs_extra s)"
    and new: "(\<forall>x \<in> set (rs_extra s). se_id x \<noteq> vr_id r) \<or>
      (extra_says r \<and> (\<forall>x \<in> set (rs_extra s). se_id x = vr_id r \<longrightarrow> port_valid (se_port x)))"
  defines "t \<equiv> extra_named r (length (rs_extra (extra_begun r s)) - 1) (extra_begun r s)"
  shows "extras_but b (length (rs_extra (extra_begun r s)) - 1) (rs_extra t)" "rs_series t = rs_series s"
proof -
  let ?xs = "rs_extra s"
  show "rs_series t = rs_series s"
    by (simp add: t_def extra_named_def extra_begun_def split: option.split)
  show "extras_but b (length (rs_extra (extra_begun r s)) - 1) (rs_extra t)"
  proof (cases "if extra_says r then earlier_extra ?xs r else None")
    case (Some j)
    then have says: "extra_says r" and e: "earlier_extra ?xs r = Some j" by (auto split: if_splits)
    note f = earlier_extra_found[OF e]
    have j: "j < length ?xs" using f by simp
    have xs: "rs_extra (extra_begun r s) = move_to_end j ?xs" using Some by (simp add: extra_begun_def)
    have same: "rs_extra t = move_to_end j ?xs"
      using says_valid[OF says] f move_to_end_perm(3,4)[OF j] by (simp add: t_def extra_named_def xs)
    have "extras_ok b (move_to_end j ?xs)"
      using ok move_to_end_perm(1)[OF j] move_to_end_perm(2)[OF j, of se_key] by (simp add: extras_ok_def keys_ok_def)
    then show ?thesis using j unfolding same xs by (intro extras_but_of) (auto simp: move_to_end_perm)
  next
    case None
    have xs: "rs_extra (extra_begun r s) = ?xs @ [series0\<lparr>se_id := vr_id r\<rparr>]" using None by (simp add: extra_begun_def)
    define key where "key = (vr_id r, if extra_says r then (vr_port r, vr_baseUnit r) else (port0, []))"
    have notin: "key \<notin> set (map se_key ?xs)"
      using None new earlier_extra_none[of ?xs r] by (auto simp: key_def se_key_def split: if_splits)
    have keys: "map se_key (rs_extra t) = map se_key ?xs @ [key]"
      by (auto simp: t_def extra_named_def xs key_def se_key_def series0_def list_update_append)
    have "keys_ok (map se_key ?xs @ [(vr_id r, fst (snd key), snd (snd key))])"
      using ok notin new says_valid by (intro keys_ok_new) (auto simp: extras_ok_def key_def se_key_def)
    then have ks: "keys_ok (map se_key (rs_extra t))" unfolding keys by (simp add: key_def)
    have len: "length (rs_extra t) = Suc (length ?xs)" using arg_cong[OF keys, of length] by simp
    have old: "rs_extra t ! k = ?xs ! k" if "k < length ?xs" for k
      using that by (auto simp: t_def extra_named_def xs nth_append list_update_append)
    have fresh: "se_view (rs_extra t ! length ?xs) = []" "series_ok (rs_extra t ! length ?xs)"
      by (auto simp: t_def extra_named_def xs nth_append list_update_append series_ok_def)
    show ?thesis
      using ok ks old fresh unfolding xs by (auto simp: extras_but_def extras_ok_nth len less_Suc_eq)
  qed
qed

lemma newest_named:
  assumes "keys_ok (map se_key xs)" "extraIndex xs i \<ge> 0" "port_valid (se_port (xs ! nat (extraIndex xs i)))"
    and "x \<in> set xs" "se_id x = i"
  shows "port_valid (se_port x)"
proof (rule ccontr)
  assume inv: "\<not> port_valid (se_port x)"
  let ?y = "xs ! nat (extraIndex xs i)"
  have y: "?y \<in> set xs" "se_id ?y = i" using extraIndex_found[OF assms(2)] by auto
  have "se_key x \<in> set (map se_key xs)" "se_key ?y \<in> set (map se_key xs)" using assms(4) y by simp_all
  then have "se_key ?y = se_key x"
    using assms(1,5) y(2) inv unfolding keys_ok_def by (metis fst_conv se_key_def snd_conv)
  then show False using assms(3) inv by (simp add: se_key_def)
qed

lemma extra_named_ok:
  assumes ok: "extras_ok b (rs_extra s)" and i: "i < length (rs_extra s)" "se_id (rs_extra s ! i) = vr_id r"
  shows "extras_ok b (rs_extra (extra_named r i s))" "rs_series (extra_named r i s) = rs_series s"
    "length (rs_extra (extra_named r i s)) = length (rs_extra s)"
proof -
  let ?sr = "(rs_extra s ! i)\<lparr>se_port := vr_port r, se_unit := vr_baseUnit r, se_name := vr_name r\<rparr>"
  have view: "extra_ok b ?sr" if "extra_ok b (rs_extra s ! i)"
    using that by (simp add: extra_ok_def series_ok_def se_count_view se_last_def)
  have keys: "map se_key ((rs_extra s)[i := ?sr]) = (map se_key (rs_extra s))[i := (vr_id r, vr_port r, vr_baseUnit r)]"
    using i by (simp add: map_update se_key_def)
  have "keys_ok (map se_key ((rs_extra s)[i := ?sr]))" if "\<not> port_valid (se_port (rs_extra s ! i))"
    unfolding keys using ok i that by (intro keys_ok_named) (auto simp: extras_ok_def se_key_def)
  then show "extras_ok b (rs_extra (extra_named r i s))"
    using ok view i by (auto simp: extra_named_def extras_ok_nth nth_list_update)
  show "rs_series (extra_named r i s) = rs_series s" "length (rs_extra (extra_named r i s)) = length (rs_extra s)"
    by (simp_all add: extra_named_def)
qed

lemma extra_into_ok:
  assumes ok: "extras_ok (points_bound s) (rs_extra s)" and m: "rs_maxPoints s \<ge> 2"
  shows "extras_ok (points_bound s) (rs_extra (extra_into r p s))" "rs_series (extra_into r p s) = rs_series s"
proof -
  let ?b = "points_bound s" and ?i = "extraIndex (rs_extra s) (vr_id r)"
  let ?sr = "rs_extra s ! nat ?i"
  define other where "other \<longleftrightarrow> ?i \<ge> 0 \<and> extra_says r \<and> extra_other r ?sr"
  define s1 where "s1 = (if other \<and> \<not> rp_gap (se_last ?sr) then appendExtraPoint (nat ?i) (stale_point (rp_t p)) s else s)"
  have fr: "rs_frame s1 = rs_frame s" by (simp add: s1_def)
  note b1 = points_bound_frame[OF fr] and m1 = rs_frame_sel(4)[OF fr]
  have ser1: "rs_series s1 = rs_series s" by (simp add: s1_def appendExtraPoint_with)
  have keys1: "map se_key (rs_extra s1) = map se_key (rs_extra s)"
  proof (cases "other \<and> \<not> rp_gap (se_last ?sr)")
    case True
    then have "nat ?i < length (rs_extra s)" using extraIndex_found by (simp add: other_def)
    then show ?thesis using True by (simp add: s1_def appendExtraPoint_with map_update list_update_same_conv)
  qed (auto simp: s1_def)
  have ok1: "extras_ok ?b (rs_extra s1)"
    using ok extraIndex_found(1)[of "rs_extra s" "vr_id r"]
    by (auto simp: s1_def appendExtraPoint_with other_def intro!: extras_ok_update extra_ended) (simp add: extras_ok_nth)
  have unfold: "extra_into r p s = (if ?i < 0 \<or> other then
      (if vr_text r = [] then s1 else extra_stored r p (length (rs_extra (extra_begun r s1)) - 1) True
         (extra_named r (length (rs_extra (extra_begun r s1)) - 1) (extra_begun r s1)))
      else extra_stored r p (nat ?i) False (extra_named r (nat ?i) s1))"
    by (simp only: extra_into_def Let_def s1_def other_def)
  consider (none) "?i < 0 \<or> other" "vr_text r = []" | (new) "?i < 0 \<or> other" "vr_text r \<noteq> []"
    | (goes_on) "?i \<ge> 0" "\<not> other" by linarith
  then have "extras_ok ?b (rs_extra (extra_into r p s)) \<and> rs_series (extra_into r p s) = rs_series s"
  proof cases
    case none
    then show ?thesis using ok1 ser1 unfolding unfold by simp
  next
    case new
    have ids: "(\<forall>x \<in> set (rs_extra s1). se_id x \<noteq> vr_id r) \<or>
      (extra_says r \<and> (\<forall>x \<in> set (rs_extra s1). se_id x = vr_id r \<longrightarrow> port_valid (se_port x)))"
    proof (cases "?i < 0")
      case True
      then show ?thesis using extraIndex_none by (simp add: s1_def other_def)
    next
      case False
      then have o: "other" using new(1) by simp
      have "port_valid (se_port x)" if "x \<in> set (rs_extra s1)" "se_id x = vr_id r" for x
      proof -
        have "se_key x \<in> se_key ` set (rs_extra s)" using that(1) arg_cong[OF keys1, of set] by auto
        then obtain y where "y \<in> set (rs_extra s)" "se_key y = se_key x" by auto
        then show ?thesis using newest_named[of "rs_extra s" "vr_id r" y] ok o that(2)
          by (auto simp: other_def extra_other_def extras_ok_def se_key_def)
      qed
      then show ?thesis using o by (simp add: other_def)
    qed
    define k where "k = length (rs_extra (extra_begun r s1)) - 1"
    define s2 where "s2 = extra_named r k (extra_begun r s1)"
    have s2: "extras_but ?b k (rs_extra s2)" "rs_series s2 = rs_series s1"
      using extra_begun_ok[OF ok1 ids] by (simp_all add: s2_def k_def)
    have fr2: "rs_frame s2 = rs_frame s" by (simp add: s2_def fr)
    have "extras_ok ?b (rs_extra (extra_stored r p k True s2)) \<and> rs_series (extra_stored r p k True s2) = rs_series s2"
      using extra_stored_ok[of s2 k r p True] s2 m new(2) points_bound_frame[OF fr2] rs_frame_sel(4)[OF fr2] by simp
    then show ?thesis using new s2(2) ser1 unfolding unfold s2_def k_def by simp
  next
    case goes_on
    have s1: "s1 = s" using goes_on by (simp add: s1_def)
    note i = extraIndex_found[OF goes_on(1)]
    note n = extra_named_ok[OF ok i]
    have fr2: "rs_frame (extra_named r (nat ?i) s) = rs_frame s" by simp
    have but: "extras_but ?b (nat ?i) (rs_extra (extra_named r (nat ?i) s))"
      using n i by (intro extras_but_of) auto
    have ne: "se_view (rs_extra (extra_named r (nat ?i) s) ! nat ?i) \<noteq> []"
      using n(1,3) i(1) by (auto simp: extras_ok_nth extra_ok_def)
    have "extras_ok ?b (rs_extra (extra_stored r p (nat ?i) False (extra_named r (nat ?i) s)))"
      "rs_series (extra_stored r p (nat ?i) False (extra_named r (nat ?i) s)) = rs_series s"
      using extra_stored_ok[of "extra_named r (nat ?i) s" "nat ?i" r p False] but ne n(2) m
        points_bound_frame[OF fr2] rs_frame_sel(4)[OF fr2] by simp_all
    then show ?thesis using goes_on unfolding unfold s1 by simp
  qed
  then show "extras_ok (points_bound s) (rs_extra (extra_into r p s))" "rs_series (extra_into r p s) = rs_series s" by simp_all
qed

subsection \<open>Every operation keeps the data in order\<close>

lemma data_frame:
  assumes "rs_frame t = rs_frame s" "rs_series t = rs_series s" "extras_ok (points_bound s) (rs_extra t)" "data_ok s"
    and "rs_extra t \<noteq> [] \<Longrightarrow> se_view (rs_series s) \<noteq> []"
  shows "data_ok t"
  using assms(2-) unfolding data_ok_def points_bound_frame[OF assms(1)] rs_frame_sel(4)[OF assms(1)] by auto

lemma data_emit [simp]: "data_ok (rs_emit e s) = data_ok s"
  by (simp add: data_ok_def points_bound_def) (simp add: rs_emit_def)

lemma appendExtra_ok:
  assumes "data_ok s"
  shows "data_ok (appendExtra r s)" "rs_series (appendExtra r s) = rs_series s"
proof -
  let ?s0 = "s\<lparr>rs_extraReading := qmap_insert (vr_id r) r (rs_extraReading s)\<rparr>"
  have s0: "data_ok ?s0" using assms by (simp add: data_ok_def points_bound_def)
  note into = extra_into_ok[of ?s0 r "extra_point r ?s0"]
  have "data_ok (extra_into r (extra_point r ?s0) ?s0)" if "se_view (rs_series s) \<noteq> []"
    using into s0 that by (intro data_frame[OF _ _ _ s0]) (auto simp: data_ok_def)
  then show "data_ok (appendExtra r s)" using s0 by (simp add: appendExtra_def Let_def)
  show "rs_series (appendExtra r s) = rs_series s"
    using into s0 by (auto simp: appendExtra_def Let_def data_ok_def)
qed

lemma append_data: "data_ok s \<Longrightarrow> data_ok (rs_append ck p s)"
  by (intro append_ok data_all)

lemma data_extraReading [simp]: "data_ok (s\<lparr>rs_extraReading := m\<rparr>) = data_ok s"
  by (simp add: data_ok_def points_bound_def)

lemma appendCurrent_data: "data_ok s \<Longrightarrow> data_ok (appendCurrent ck b s)"
proof -
  have one: "data_ok s \<Longrightarrow> data_ok (appendCurrentExtra ck b r s)" for r s
    by (simp add: appendCurrentExtra_def Let_def appendExtra_ok)
  have "data_ok s \<Longrightarrow> data_ok (fold (\<lambda>kr. appendCurrentExtra ck b (snd kr)) xs s)" for xs s
    by (induction xs arbitrary: s) (auto simp: one)
  note all = this
  assume s: "data_ok s"
  show "data_ok (appendCurrent ck b s)"
  proof (cases "rs_reading s")
    case (Some r)
    show ?thesis unfolding appendCurrent_def Some option.case Let_def using s by (simp add: all append_data)
  qed (simp add: appendCurrent_def s)
qed

lemma extra_gap_data:
  assumes "data_ok s" "i < length (rs_extra s)" "\<not> rp_gap (se_last (rs_extra s ! i))"
  shows "data_ok (appendExtraPoint i (stale_point t) s)"
proof (rule data_frame[OF _ _ _ assms(1)])
  have "extra_ok (points_bound s) (rs_extra s ! i)" using assms(1,2) by (simp add: data_ok_def extras_ok_nth)
  then show "extras_ok (points_bound s) (rs_extra (appendExtraPoint i (stale_point t) s))"
    using assms by (auto simp: appendExtraPoint_with data_ok_def intro!: extras_ok_update extra_ended)
qed (use assms in \<open>auto simp: appendExtraPoint_with data_ok_def\<close>)

lemma closeSilentExtras_data: "data_ok s \<Longrightarrow> data_ok (closeSilentExtras now s)"
proof -
  have one: "data_ok (snd acc) \<Longrightarrow> data_ok (snd (closeSilentExtra now kr acc))" for kr acc
    using extraIndex_found(1)[of "rs_extra (snd acc)" "fst kr"]
    by (auto simp: closeSilentExtra_def Let_def intro!: extra_gap_data)
  have "data_ok (snd acc) \<Longrightarrow> data_ok (snd (fold (closeSilentExtra now) xs acc))" for xs acc
    by (induction xs arbitrary: acc) (simp_all add: one)
  from this[of "(False, s)" "rs_extraReading s"]
  show "data_ok s \<Longrightarrow> data_ok (closeSilentExtras now s)" by (simp add: closeSilentExtras_def case_prod_beta)
qed

lemma setStale_data: "data_ok s \<Longrightarrow> data_ok (setStale ck silent s)"
proof -
  assume s: "data_ok s"
  have one: "data_ok (snd acc) \<Longrightarrow> i < length (rs_extra (snd acc)) \<Longrightarrow> data_ok (snd (staleExtra ck i acc))"
    "length (rs_extra (snd (staleExtra ck i acc))) = length (rs_extra (snd acc))" for i acc
    by (auto simp: staleExtra_def Let_def appendExtraPoint_with intro!: extra_gap_data)
  have "data_ok (snd acc) \<Longrightarrow> \<forall>i \<in> set xs. i < length (rs_extra (snd acc)) \<Longrightarrow> data_ok (snd (fold (staleExtra ck) xs acc))" for xs acc
    by (induction xs arbitrary: acc) (simp_all add: one)
  from this[of "(False, s)" "[0 ..< length (rs_extra s)]"] s
  show "data_ok (setStale ck silent s)" by (simp add: setStale_def Let_def case_prod_beta append_data)
qed

lemma clear_data: "rs_maxPoints s \<ge> 2 \<Longrightarrow> data_ok (rs_clear ck s)" "rs_maxPoints (rs_clear ck s) = rs_maxPoints s"
  by (simp_all add: rs_clear_def Let_def rs_emit_def data_ok_def points_bound_def series_ok_def se_count_view extras_ok_def
      keys_ok_def signed_divide_int_def se_view_def se_wf_def se_clear_def)

subsection \<open>What Live hands to a recording\<close>

definition part_ok :: "int \<Rightarrow> live_part \<Rightarrow> bool" where
  "part_ok b part \<longleftrightarrow> keys_ok (map se_key (lp_extra part)) \<and>
     (\<forall>sr \<in> set (lp_extra part). 0 < se_count sr \<and>
        int (se_count sr) \<le> b + (if rp_gap (se_at sr (se_count sr - 1)) then 1 else 0))"

lemma points_from_facts:
  assumes "series_ok sr" "se_view sr \<noteq> []"
  shows "points_from t sr = List.drop (nat (max 0 (holding sr t))) (se_view sr)" "points_from t sr \<noteq> []"
    "last (points_from t sr) = se_last sr"
proof -
  let ?h = "nat (max 0 (holding sr t))"
  have h: "?h < length (se_view sr)"
    using holding_bound[OF assms(1), of t] assms(2) by (cases "holding sr t < 0") (auto simp: se_count_view)
  have "points_from t sr = map ((!) (se_view sr)) [?h ..< length (se_view sr)]"
    using assms(1) by (simp add: points_from_def se_count_view se_at_view series_ok_def)
  also have "\<dots> = List.drop ?h (se_view sr)" by (intro nth_equalityI) auto
  finally show p: "points_from t sr = List.drop ?h (se_view sr)" .
  show "points_from t sr \<noteq> []" "last (points_from t sr) = se_last sr"
    using h assms(2) by (simp_all add: p se_last_view)
qed

lemma livePart_ok:
  assumes "extras_ok b (rs_extra s)"
  shows "part_ok b (livePart t s)"
proof -
  let ?f = "\<lambda>sr. series0\<lparr>se_id := se_id sr, se_port := se_port sr, se_unit := se_unit sr, se_name := se_name sr, se_points := points_from t sr\<rparr>"
  let ?xs = "filter (\<lambda>sr. \<not> (se_isEmpty sr \<or> rp_t (se_last sr) < t)) (rs_extra s)"
  have "map se_key (map ?f ?xs) = map se_key ?xs" by (simp add: se_key_def)
  moreover have "distinct (map se_key ?xs)" using assms by (auto simp: extras_ok_def keys_ok_def distinct_map_filter)
  then have "keys_ok (map se_key ?xs)"
  proof (rule keys_ok_subset[rotated])
    show "keys_ok (map se_key (rs_extra s))" using assms by (simp add: extras_ok_def)
    show "set (map se_key ?xs) \<subseteq> set (map se_key (rs_extra s))" by auto
  qed
  ultimately have keys: "keys_ok (map se_key (map ?f ?xs))" by (simp only:)
  have one: "0 < se_count (?f sr) \<and> int (se_count (?f sr)) \<le> b + (if rp_gap (se_at (?f sr) (se_count (?f sr) - 1)) then 1 else 0)"
    if "sr \<in> set (rs_extra s)" for sr
  proof -
    have sr: "extra_ok b sr" using assms that by (simp add: extras_ok_def)
    then have ok: "series_ok sr" "se_view sr \<noteq> []" by (auto simp: extra_ok_def)
    note p = points_from_facts[OF ok, of t]
    have pts: "se_points (?f sr) = points_from t sr" "se_head (?f sr) = 0" by (simp_all add: series0_def)
    have "se_at (?f sr) (se_count (?f sr) - 1) = se_last sr"
      using p(2,3) unfolding se_at_def se_count_def pts by (simp add: last_conv_nth)
    moreover have "se_count (?f sr) \<le> se_count sr" unfolding se_count_def pts p(1) by (simp add: se_count_view[symmetric] se_count_def)
    moreover have "0 < se_count (?f sr)" unfolding se_count_def pts using p(2) by simp
    ultimately show ?thesis using sr by (simp add: extra_ok_def split: if_splits)
  qed
  show ?thesis unfolding part_ok_def livePart_def using keys one by auto
qed

lemma live_points_fold:
  fixes t0 :: int and sr :: series
  assumes "rs_extra s = xs @ [y]" "series_ok y"
  defines "F \<equiv> \<lambda>i st. appendExtraPoint (length (rs_extra st) - 1) (part_point t0 st (se_at sr i)) st"
  shows "\<exists>y'. rs_extra (fold F is s) = xs @ [y'] \<and> series_ok y' \<and> se_key y' = se_key y \<and>
      se_count y' = se_count y + length is \<and> (is \<noteq> [] \<longrightarrow> rp_gap (se_last y') = rp_gap (se_at sr (last is)))"
    and "rs_series (fold F is s) = rs_series s"
proof -
  show "\<exists>y'. rs_extra (fold F is s) = xs @ [y'] \<and> series_ok y' \<and> se_key y' = se_key y \<and>
      se_count y' = se_count y + length is \<and> (is \<noteq> [] \<longrightarrow> rp_gap (se_last y') = rp_gap (se_at sr (last is)))"
  proof (induction "is" rule: rev_induct)
    case Nil
    then show ?case using assms(1,2) by simp
  next
    case (snoc i js)
    then obtain y' where y': "rs_extra (fold F js s) = xs @ [y']" "series_ok y'" "se_key y' = se_key y"
      "se_count y' = se_count y + length js" by blast
    let ?st = "fold F js s" and ?p = "part_point t0 (fold F js s) (se_at sr i)"
    have ex: "rs_extra (fold F (js @ [i]) s) = xs @ [with_point (rs_threshold ?st) ?p y']"
      using y'(1) by (simp add: F_def appendExtraPoint_with list_update_append)
    have gap: "rp_gap ?p = rp_gap (se_at sr i)" by (simp add: part_point_def rp_gap_def)
    show ?case unfolding ex using y' with_point_sel[OF y'(2), of "rs_threshold ?st" ?p] gap by auto
  qed
  show "rs_series (fold F is s) = rs_series s"
    by (induction "is" arbitrary: s) (auto simp: F_def appendExtraPoint_with)
qed

lemma appendLiveExtra_ok:
  assumes s: "data_ok s" "se_view (rs_series s) \<noteq> []" and keys: "keys_ok (map se_key (rs_extra s) @ [se_key sr])"
    and sr: "0 < se_count sr" "int (se_count sr) \<le> points_bound s + (if rp_gap (se_at sr (se_count sr - 1)) then 1 else 0)"
  shows "data_ok (appendLiveExtra t0 sr s)" "rs_series (appendLiveExtra t0 sr s) = rs_series s"
    "map se_key (rs_extra (appendLiveExtra t0 sr s)) = map se_key (rs_extra s) @ [se_key sr]"
proof -
  let ?y = "series0\<lparr>se_id := se_id sr, se_port := se_port sr, se_unit := se_unit sr, se_name := se_name sr\<rparr>"
  let ?s1 = "s\<lparr>rs_extra := rs_extra s @ [?y]\<rparr>"
  have y: "series_ok ?y" "se_count ?y = 0" "se_key ?y = se_key sr"
    by (simp_all add: series_ok_def series0_def se_wf_def se_view_def se_count_def se_key_def)
  have e1: "rs_extra ?s1 = rs_extra s @ [?y]" by simp
  note fold = live_points_fold[OF e1 y(1), of t0 sr "[0 ..< se_count sr]"]
  obtain y' where y': "rs_extra (appendLiveExtra t0 sr s) = rs_extra s @ [y']" "series_ok y'" "se_key y' = se_key sr"
    "se_count y' = se_count sr" "rp_gap (se_last y') = rp_gap (se_at sr (se_count sr - 1))"
    using fold(1) y sr(1) unfolding appendLiveExtra_def Let_def by auto
  show ser: "rs_series (appendLiveExtra t0 sr s) = rs_series s"
    using fold(2) unfolding appendLiveExtra_def Let_def by simp
  show map: "map se_key (rs_extra (appendLiveExtra t0 sr s)) = map se_key (rs_extra s) @ [se_key sr]"
    by (simp add: y')
  have "extra_ok (points_bound s) y'" using y' sr by (auto simp: extra_ok_def se_count_view)
  then have "extras_ok (points_bound s) (rs_extra (appendLiveExtra t0 sr s))"
    using s(1) keys unfolding extras_ok_def map by (auto simp: y' data_ok_def extras_ok_def)
  then show "data_ok (appendLiveExtra t0 sr s)" using s by (intro data_frame[OF _ ser _ s(1)]) auto
qed

lemma appendLivePart_data:
  assumes "data_ok s" "part_ok (points_bound s) part" "rs_extra s = []" "lp_main part \<noteq> []"
  shows "data_ok (appendLivePart ck part s)"
proof -
  let ?F = "\<lambda>p st. rs_append ck (part_point (lp_t0 part) st p) st"
  have main: "data_ok (fold ?F ps s)" "ps \<noteq> [] \<Longrightarrow> se_view (rs_series (fold ?F ps s)) \<noteq> []" "rs_extra (fold ?F ps s) = []"
    "rs_frame (fold ?F ps s) = rs_frame s" for ps
  proof (induction ps rule: rev_induct)
    case (snoc p ps)
    have "rs_extra (rs_append ck q st) = []" if "rs_extra st = []" "data_ok st" for q st
      using that trimExtras_ok(3) trimMain_series(3)
      by (simp add: rs_append_def Let_def case_prod_beta trim_def appendPoint_series)
        (simp add: trimExtras_def trimMain_def Let_def appendPoint_series)
    then show "data_ok (fold ?F (ps @ [p]) s)" "se_view (rs_series (fold ?F (ps @ [p]) s)) \<noteq> []"
      "rs_extra (fold ?F (ps @ [p]) s) = []" "rs_frame (fold ?F (ps @ [p]) s) = rs_frame s"
      using snoc by (simp_all add: append_data append_ok(2) data_all)
  qed (use assms in auto)
  let ?m = "fold ?F (lp_main part) s"
  have extras: "data_ok (fold (appendLiveExtra (lp_t0 part)) srs st)"
    if "data_ok st" "se_view (rs_series st) \<noteq> []" "keys_ok (map se_key (rs_extra st) @ map se_key srs)"
      "\<forall>sr \<in> set srs. 0 < se_count sr \<and> int (se_count sr) \<le> points_bound st + (if rp_gap (se_at sr (se_count sr - 1)) then 1 else 0)"
    for srs st
    using that
  proof (induction srs arbitrary: st)
    case (Cons sr srs)
    have "keys_ok (map se_key (rs_extra st) @ [se_key sr])"
      using Cons.prems(3) by (rule keys_ok_subset) (use Cons.prems(3) in \<open>auto simp: keys_ok_def\<close>)
    note a = appendLiveExtra_ok[OF Cons.prems(1,2) this, of "lp_t0 part"]
    have b: "points_bound (appendLiveExtra (lp_t0 part) sr st) = points_bound st" by (intro points_bound_frame) simp
    show ?case using Cons.prems a by (simp, intro Cons.IH) (auto simp: b)
  qed simp
  have "data_ok (fold (appendLiveExtra (lp_t0 part)) (lp_extra part) ?m)"
    using assms main[of "lp_main part"] points_bound_frame[OF main(4)] by (intro extras) (auto simp: part_ok_def)
  then show ?thesis by (cases "lp_extra part = []") (simp_all add: appendLivePart_def Let_def)
qed

end
