(* ===== verification/Recording_Facts.thy ===== *)
theory Recording_Facts
  imports Recording_Data
begin

text \<open>
  The recorder as a state machine: the calls of its interface, what holds in every state they reach, what stands in View,
  what a reading does in Live and in a recording, and where a recording begins that a threshold started.
\<close>

subsection \<open>The calls\<close>

datatype rec_call =
  CReading view_reading | CStale bool | CPoll | CStart | CStartAt int int | CStop | CLive | CClear | CForget | CHoldOrigin
  | CMark u32 qstring | CLoad recording | CWritten bool | CSetup rec_setup bool | CSampleTime int | CSampleLength int
  | CPreTrigger int | CLiveWidth int | CMode start_mode | CStartTime "int option" | CThresholds dbl dbl
  | CTriggerValue value_ref | CIntegration dbl | CUnit qstring | CStaleAfter int
  | CLog view_reading | CLogRow logged_reading | CLogRows "logged_reading list" | CClearReadings | CCapacity int
  | CPaused bool | CMarkLast u32 qstring

fun rec_step :: "clocks \<Rightarrow> rec_call \<Rightarrow> rec_store \<Rightarrow> rec_store" where
  "rec_step ck (CReading r) s = setReading ck r s"
| "rec_step ck (CStale b) s = setStale ck b s"
| "rec_step ck CPoll s = poll ck s"
| "rec_step ck CStart s = rs_start_now ck s"
| "rec_step ck (CStartAt t0 w) s = startAt ck t0 w s"
| "rec_step ck CStop s = rs_stop ck s"
| "rec_step ck CLive s = rs_live ck s"
| "rec_step ck CClear s = rs_clear ck s"
| "rec_step ck CForget s = forgetReading s"
| "rec_step ck CHoldOrigin s = holdOrigin s"
| "rec_step ck (CMark c n) s = addMark ck c n s"
| "rec_step ck (CLoad r) s = load r s"
| "rec_step ck (CWritten b) s = fst (snd (rs_write b [] s))"
| "rec_step ck (CSetup su lead) s = applySetup ck su lead s"
| "rec_step ck (CSampleTime n) s = setSampleTime n s"
| "rec_step ck (CSampleLength n) s = setSampleLength ck n s"
| "rec_step ck (CPreTrigger n) s = setPreTrigger ck n s"
| "rec_step ck (CLiveWidth n) s = setLiveWidth ck n s"
| "rec_step ck (CMode m) s = s\<lparr>rs_mode := m\<rparr>"
| "rec_step ck (CStartTime t) s = s\<lparr>rs_startTime := t\<rparr>"
| "rec_step ck (CThresholds f r) s = setThresholds f r s"
| "rec_step ck (CTriggerValue v) s = setTriggerValue v s"
| "rec_step ck (CIntegration v) s = s\<lparr>rs_threshold := v\<rparr>"
| "rec_step ck (CUnit u) s = setUnit u s"
| "rec_step ck (CStaleAfter n) s = s\<lparr>rs_staleMs := n\<rparr>"
| "rec_step ck (CLog r) s = logReading r s"
| "rec_step ck (CLogRow r) s = logRow r s"
| "rec_step ck (CLogRows r) s = logRows r s"
| "rec_step ck CClearReadings s = clearReadings s"
| "rec_step ck (CCapacity n) s = setReadingCapacity n s"
| "rec_step ck (CPaused b) s = s\<lparr>rs_readingsPaused := b\<rparr>"
| "rec_step ck (CMarkLast c n) s = markLastReading c n s"

inductive rec_reach :: "rec_store \<Rightarrow> bool" where
  fresh: "rec_reach (setMaxPoints ck n (rs_new ck))"
| call: "rec_reach s \<Longrightarrow> rec_reach (rec_step ck c s)"

text \<open>What \<open>load\<close> leaves: as many points as the file has.\<close>

definition file_ok :: "rec_store \<Rightarrow> bool" where
  "file_ok s \<longleftrightarrow> rs_fromFile s \<and> rs_state s = View \<and> rs_maxPoints s \<ge> 2 \<and> series_ok (rs_series s) \<and>
     (\<forall>x \<in> set (rs_extra s). series_ok x \<and> se_view x \<noteq> [])"

definition state_ok :: "rec_store \<Rightarrow> bool" where
  "state_ok s \<longleftrightarrow> (rs_state s \<noteq> View \<longrightarrow> rs_stopT s = - 1) \<and> (rs_dirty s \<longrightarrow> rs_state s \<noteq> Live) \<and>
     (rs_fromFile s \<longrightarrow> rs_state s = View) \<and> 0 \<le> rs_preUsed s \<and> 1 \<le> rs_sampleTime s \<and> 0 \<le> rs_preMs s"

definition log_ok :: "rec_store \<Rightarrow> bool" where
  "log_ok s \<longleftrightarrow> 1 \<le> rs_readingCapacity s \<and> int (length (rs_readings s)) \<le> rs_readingCapacity s"

definition rec_inv :: "rec_store \<Rightarrow> bool" where
  "rec_inv s \<longleftrightarrow> (file_ok s \<or> data_ok s) \<and> state_ok s \<and> log_ok s"

subsection \<open>The invariant\<close>

text \<open>Operations that touch the readings series only, or settings.\<close>

lemma rec_inv_cong:
  assumes "rs_series t = rs_series s" "rs_extra t = rs_extra s" "rs_maxPoints t = rs_maxPoints s" "rs_state t = rs_state s"
    "rs_fromFile t = rs_fromFile s"
  shows "file_ok t = file_ok s" "data_ok t = data_ok s"
  using assms by (simp_all add: file_ok_def data_ok_def points_bound_def)

lemma log_keeps:
  "rs_series (logRow row s) = rs_series s" "rs_extra (logRow row s) = rs_extra s" "rs_maxPoints (logRow row s) = rs_maxPoints s"
  "rs_state (logRow row s) = rs_state s" "rs_fromFile (logRow row s) = rs_fromFile s" "state_ok (logRow row s) = state_ok s"
  "log_ok s \<Longrightarrow> log_ok (logRow row s)"
  by (auto simp: logRow_def removeOldestReadings_def rs_emit_def state_ok_def log_ok_def Let_def)

lemma logReading_row: "logReading r s = s \<or> (\<exists>row. logReading r s = logRow row s)"
  by (auto simp: logReading_def)

lemma inv_logRow: "rec_inv s \<Longrightarrow> rec_inv (logRow row s)"
  using rec_inv_cong[of "logRow row s" s] by (simp add: rec_inv_def log_keeps)

lemma inv_logReading: "rec_inv s \<Longrightarrow> rec_inv (logReading r s)"
  using logReading_row[of r s] inv_logRow by metis

lemma inv_log_only:
  assumes "rec_inv s" "log_ok t" "rs_series t = rs_series s" "rs_extra t = rs_extra s" "rs_maxPoints t = rs_maxPoints s"
    "rs_state t = rs_state s" "rs_fromFile t = rs_fromFile s" "rs_stopT t = rs_stopT s" "rs_dirty t = rs_dirty s"
    "rs_preUsed t = rs_preUsed s" "rs_sampleTime t = rs_sampleTime s" "rs_preMs t = rs_preMs s"
  shows "rec_inv t"
  using assms(1,2) rec_inv_cong[OF assms(3-7)] unfolding rec_inv_def state_ok_def assms(3-12) by blast

lemma inv_readings:
  assumes "rec_inv s"
  shows "rec_inv (logRows rows s)" "rec_inv (setReadingCapacity n s)" "rec_inv (clearReadings s)" "rec_inv (markLastReading c nm s)"
proof -
  have l: "log_ok s" using assms by (simp add: rec_inv_def)
  have old: "log_ok t" if "rs_readingCapacity t = rs_readingCapacity s" "length (rs_readings t) \<le> length (rs_readings s)" for t
    using l that by (simp add: log_ok_def)
  have logs: "log_ok (logRows rows s)" "log_ok (setReadingCapacity n s)" "log_ok (clearReadings s)" "log_ok (markLastReading c nm s)"
  proof -
    show "log_ok (logRows rows s)"
      using l unfolding log_ok_def logRows_def Let_def
      by (simp add: removeOldestReadings_def rs_emit_def) linarith
    show "log_ok (setReadingCapacity n s)"
      unfolding log_ok_def setReadingCapacity_def Let_def
      by (cases "int (length (rs_readings s)) > max 1 n") (auto simp: removeOldestReadings_def rs_emit_def)
    show "log_ok (clearReadings s)" "log_ok (markLastReading c nm s)"
      by (rule old; simp add: clearReadings_def markLastReading_def rs_emit_def Let_def)+
  qed
  show "rec_inv (logRows rows s)"
    by (rule inv_log_only[OF assms logs(1)]) (simp_all add: logRows_def removeOldestReadings_def rs_emit_def Let_def)
  show "rec_inv (setReadingCapacity n s)"
    by (rule inv_log_only[OF assms logs(2)]) (simp_all add: setReadingCapacity_def removeOldestReadings_def rs_emit_def Let_def)
  show "rec_inv (clearReadings s)"
    by (rule inv_log_only[OF assms logs(3)]) (simp_all add: clearReadings_def rs_emit_def)
  show "rec_inv (markLastReading c nm s)"
    by (rule inv_log_only[OF assms logs(4)]) (simp_all add: markLastReading_def rs_emit_def Let_def)
qed

subsection \<open>The invariant: start and stop\<close>

lemma rec_invI_data: "data_ok s \<Longrightarrow> state_ok s \<Longrightarrow> log_ok s \<Longrightarrow> rec_inv s"
  by (simp add: rec_inv_def)

lemma state_ok_frame:
  assumes "rs_frame t = rs_frame s" "state_ok s"
  shows "state_ok t"
  using assms(2) rs_frame_dirty[OF assms(1)] rs_frame_sel[OF assms(1)] unfolding state_ok_def by auto

lemma log_ok_frame: "rs_frame t = rs_frame s \<Longrightarrow> log_ok s \<Longrightarrow> log_ok t"
  by (simp add: log_ok_def rs_frame_sel(16,17)[of t s])

lemma inv_frame: "rs_frame t = rs_frame s \<Longrightarrow> data_ok t \<Longrightarrow> rec_inv s \<Longrightarrow> rec_inv t"
  using state_ok_frame log_ok_frame by (auto simp: rec_inv_def)

lemma maxPoints_inv: "rec_inv s \<Longrightarrow> rs_maxPoints s \<ge> 2"
  by (auto simp: rec_inv_def file_ok_def data_ok_def)

lemma data_inv: "rec_inv s \<Longrightarrow> rs_state s \<noteq> View \<Longrightarrow> data_ok s"
  by (auto simp: rec_inv_def file_ok_def)

lemma data_settings [simp]:
  "data_ok (s\<lparr>rs_stopT := a\<rparr>) = data_ok s" "data_ok (s\<lparr>rs_preUsed := a\<rparr>) = data_ok s"
  "data_ok (s\<lparr>rs_holdOrigin := b\<rparr>) = data_ok s" "data_ok (s\<lparr>rs_t0 := a\<rparr>) = data_ok s" "data_ok (s\<lparr>rs_start := a\<rparr>) = data_ok s"
  "data_ok (s\<lparr>rs_marks := ms\<rparr>) = data_ok s" "data_ok (s\<lparr>rs_lastValValid := b\<rparr>) = data_ok s"
  "data_ok (s\<lparr>rs_lastVal := v\<rparr>) = data_ok s" "data_ok (s\<lparr>rs_reading := rd\<rparr>) = data_ok s" "data_ok (s\<lparr>rs_state := st\<rparr>) = data_ok s"
  by (simp_all add: data_ok_def points_bound_def)

lemma clear_state:
  "rs_state (rs_clear ck s) = rs_state s" "rs_dirty (rs_clear ck s) = False" "rs_fromFile (rs_clear ck s) = False"
  "rs_stopT (rs_clear ck s) = (if rs_state s \<noteq> View then - 1 else 0)" "rs_preUsed (rs_clear ck s) = rs_preUsed s"
  "rs_sampleTime (rs_clear ck s) = rs_sampleTime s" "rs_preMs (rs_clear ck s) = rs_preMs s"
  "rs_readings (rs_clear ck s) = rs_readings s" "rs_readingCapacity (rs_clear ck s) = rs_readingCapacity s"
  "rs_extra (rs_clear ck s) = []" "se_view (rs_series (rs_clear ck s)) = []" "rs_t0 (rs_clear ck s) = ck_mono ck"
  "rs_start (rs_clear ck s) = ck_wall ck" "rs_recordPort (rs_clear ck s) = port0" "rs_marks (rs_clear ck s) = []"
  "rs_sampleLength (rs_clear ck s) = rs_sampleLength s" "rs_threshold (rs_clear ck s) = rs_threshold s"
  "rs_reading (rs_clear ck s) = rs_reading s" "rs_staleMs (rs_clear ck s) = rs_staleMs s"
  by (simp_all add: rs_clear_def Let_def rs_emit_def se_view_def se_clear_def)

lemma inv_clear: "rec_inv s \<Longrightarrow> rec_inv (rs_clear ck s)"
  using clear_data(1)[OF maxPoints_inv] by (auto simp: rec_inv_def state_ok_def log_ok_def clear_state)

lemma inv_emit [simp]: "rec_inv (rs_emit e s) = rec_inv s"
  by (simp add: rec_inv_def file_ok_def state_ok_def log_ok_def data_ok_def points_bound_def rs_emit_def)

lemma inv_stop: "rec_inv s \<Longrightarrow> rec_inv (rs_stop ck s)"
  by (auto simp: rs_stop_def rec_inv_def file_ok_def state_ok_def log_ok_def data_ok_def points_bound_def rs_emit_def Let_def)

lemma stop_stopT: "rec_inv s \<Longrightarrow> rs_state s = Record \<Longrightarrow> rec_inv ((rs_stop ck s)\<lparr>rs_stopT := t\<rparr>)"
  by (auto simp: rs_stop_def rec_inv_def file_ok_def state_ok_def log_ok_def data_ok_def points_bound_def rs_emit_def Let_def)

lemma inv_lengthReached: "rec_inv s \<Longrightarrow> rec_inv (snd (lengthReached ck t s))"
proof -
  assume s: "rec_inv s"
  have "rs_state (rs_emit Alert s) = rs_state s" by (simp add: rs_emit_def)
  then show ?thesis using s stop_stopT[of "rs_emit Alert s"] by (simp add: lengthReached_def Let_def)
qed

lemma data_cleared: "rec_inv s \<Longrightarrow> data_ok (rs_clear ck (s\<lparr>rs_state := st\<rparr>))"
  using maxPoints_inv[of s] by (intro clear_data) simp

lemma inv_started: "rec_inv s \<Longrightarrow> rec_inv (started was s)"
  by (simp add: started_def Let_def)

lemma bound_cleared: "points_bound (rs_clear ck s) = points_bound s"
  by (simp add: points_bound_def clear_data rs_clear_def Let_def rs_emit_def)

lemma part_of_live: "rec_inv s \<Longrightarrow> rs_state s = Live \<Longrightarrow> part_ok (points_bound s) (livePart t s)"
  using data_inv[of s] by (intro livePart_ok) (simp add: data_ok_def)

lemma inv_begin:
  assumes "rec_inv s"
  shows "rec_inv (rs_begin ck preMs s)"
proof -
  define pre where "pre = (if preMs > 0 \<and> rs_state s = Live then livePart (elapsed ck s - preMs) s
                 else \<lparr>lp_main = [], lp_extra = [], lp_t0 = 0\<rparr>)"
  define s1 where "s1 = (rs_clear ck (s\<lparr>rs_state := Record\<rparr>))\<lparr>rs_stopT := - 1, rs_preUsed := 0, rs_holdOrigin := False\<rparr>"
  define reach_back where "reach_back = max 0 (min (rs_t0 s1 - (lp_t0 pre + rp_t (hd (lp_main pre)))) preMs)"
  define s3 where "s3 = s1\<lparr>rs_t0 := rs_t0 s1 - reach_back, rs_start := rs_start s1 - reach_back, rs_preUsed := reach_back\<rparr>"
  have unfold: "rs_begin ck preMs s = started (rs_state s)
      (if lp_main pre \<noteq> [] then rs_emit MarksChanged ((appendLivePart ck pre s3)
          \<lparr>rs_marks := rs_marks (appendLivePart ck pre s3) @ [\<lparr>mk_t = reach_back, mk_color = kTriggerColor, mk_name = lit ''Trigger''\<rparr>]\<rparr>)
       else appendCurrent ck False s1)"
    by (simp only: rs_begin_def Let_def pre_def s1_def s3_def reach_back_def)
  have ok: "state_ok s" "log_ok s" using assms by (simp_all add: rec_inv_def)
  have s1: "rec_inv s1" "data_ok s1" "rs_extra s1 = []"
  proof -
    show d: "data_ok s1" "rs_extra s1 = []" using data_cleared[OF assms, of ck Record] by (simp_all add: s1_def clear_state)
    have "state_ok s1" "log_ok s1" using ok by (simp_all add: s1_def state_ok_def log_ok_def clear_state)
    then show "rec_inv s1" using d(1) by (simp add: rec_inv_def)
  qed
  have s3: "rec_inv s3" "data_ok s3" "rs_extra s3 = []"
  proof -
    show "data_ok s3" "rs_extra s3 = []" using s1 by (simp_all add: s3_def)
    show "rec_inv s3" using s1 \<open>data_ok s3\<close> by (intro rec_invI_data) (auto simp: s3_def rec_inv_def state_ok_def log_ok_def reach_back_def)
  qed
  have "rec_inv (appendCurrent ck False s1)"
    by (rule inv_frame[OF _ _ s1(1)]) (simp_all add: appendCurrent_data s1)
  moreover have "rec_inv ((appendLivePart ck pre s3)\<lparr>rs_marks := ms\<rparr>)" if "lp_main pre \<noteq> []" for ms
  proof -
    have "part_ok (points_bound s3) pre"
      using that part_of_live[OF assms] bound_cleared[of ck "s\<lparr>rs_state := Record\<rparr>"]
      by (auto simp: pre_def s3_def s1_def points_bound_def split: if_splits)
    then have "data_ok (appendLivePart ck pre s3)" using s3 that by (intro appendLivePart_data)
    then show ?thesis by (intro inv_frame[OF _ _ s3(1)]) simp_all
  qed
  ultimately show ?thesis unfolding unfold by (auto intro: inv_started)
qed

lemma inv_startAt:
  assumes "rec_inv s"
  shows "rec_inv (startAt ck t0 w s)"
proof -
  define since where "since = (if rs_state s = Live then livePart (t0 - rs_t0 s) s else \<lparr>lp_main = [], lp_extra = [], lp_t0 = 0\<rparr>)"
  define s1 where "s1 = (rs_clear ck (s\<lparr>rs_state := Record\<rparr>))\<lparr>rs_stopT := - 1, rs_preUsed := 0, rs_t0 := t0, rs_start := w, rs_holdOrigin := True\<rparr>"
  have unfold: "startAt ck t0 w s = started (rs_state s)
      (if length (lp_main since) > 1 then appendLivePart ck since s1 else appendCurrent ck True s1)"
    by (simp only: startAt_def Let_def since_def s1_def)
  have ok: "state_ok s" "log_ok s" using assms by (simp_all add: rec_inv_def)
  have s1: "rec_inv s1" "data_ok s1" "rs_extra s1 = []"
  proof -
    show d: "data_ok s1" "rs_extra s1 = []" using data_cleared[OF assms, of ck Record] by (simp_all add: s1_def clear_state)
    have "state_ok s1" "log_ok s1" using ok by (simp_all add: s1_def state_ok_def log_ok_def clear_state)
    then show "rec_inv s1" using d(1) by (simp add: rec_inv_def)
  qed
  have "rec_inv (appendCurrent ck True s1)"
    by (rule inv_frame[OF _ _ s1(1)]) (simp_all add: appendCurrent_data s1)
  moreover have "rec_inv (appendLivePart ck since s1)" if "length (lp_main since) > 1"
  proof -
    have "part_ok (points_bound s1) since"
      using that part_of_live[OF assms] bound_cleared[of ck "s\<lparr>rs_state := Record\<rparr>"]
      by (auto simp: since_def s1_def points_bound_def split: if_splits)
    moreover have "lp_main since \<noteq> []" using that by auto
    ultimately have "data_ok (appendLivePart ck since s1)" using s1 by (intro appendLivePart_data)
    then show ?thesis by (intro inv_frame[OF _ _ s1(1)]) simp_all
  qed
  ultimately show ?thesis unfolding unfold by (auto intro: inv_started)
qed

lemma inv_live:
  assumes "rec_inv s"
  shows "rec_inv (rs_live ck s)"
proof -
  let ?s1 = "(rs_clear ck (s\<lparr>rs_state := Live\<rparr>))\<lparr>rs_preUsed := 0, rs_holdOrigin := False, rs_lastValValid := False\<rparr>"
  have ok: "state_ok s" "log_ok s" using assms by (simp_all add: rec_inv_def)
  have d: "data_ok ?s1" using data_cleared[OF assms, of ck Live] by simp
  have "state_ok ?s1" "log_ok ?s1" using ok by (simp_all add: state_ok_def log_ok_def clear_state)
  then have "rec_inv ?s1" using d by (simp only: rec_inv_def) blast
  from inv_frame[OF _ appendCurrent_data[OF d] this] have "rec_inv (appendCurrent ck False ?s1)" by simp
  then show ?thesis by (simp add: rs_live_def Let_def)
qed

subsection \<open>The invariant: readings, the clock and the settings\<close>

lemma rec_inv_settings [simp]:
  "rec_inv (s\<lparr>rs_reading := a1\<rparr>) = rec_inv s" "rec_inv (s\<lparr>rs_t0 := a2\<rparr>) = rec_inv s" "rec_inv (s\<lparr>rs_start := a2\<rparr>) = rec_inv s"
  "rec_inv (s\<lparr>rs_lastVal := a3\<rparr>) = rec_inv s" "rec_inv (s\<lparr>rs_lastValValid := a4\<rparr>) = rec_inv s"
  "rec_inv (s\<lparr>rs_mode := a5\<rparr>) = rec_inv s" "rec_inv (s\<lparr>rs_startTime := a6\<rparr>) = rec_inv s"
  "rec_inv (s\<lparr>rs_raising := a3\<rparr>) = rec_inv s" "rec_inv (s\<lparr>rs_falling := a3\<rparr>) = rec_inv s"
  "rec_inv (s\<lparr>rs_trigger := a7\<rparr>) = rec_inv s" "rec_inv (s\<lparr>rs_threshold := a3\<rparr>) = rec_inv s"
  "rec_inv (s\<lparr>rs_unit := a8\<rparr>) = rec_inv s" "rec_inv (s\<lparr>rs_nextUnit := a8\<rparr>) = rec_inv s"
  "rec_inv (s\<lparr>rs_unitPending := a4\<rparr>) = rec_inv s" "rec_inv (s\<lparr>rs_staleMs := a2\<rparr>) = rec_inv s"
  "rec_inv (s\<lparr>rs_readingsPaused := a4\<rparr>) = rec_inv s" "rec_inv (s\<lparr>rs_recordPort := a9\<rparr>) = rec_inv s"
  "rec_inv (s\<lparr>rs_recordBaseUnit := a8\<rparr>) = rec_inv s" "rec_inv (s\<lparr>rs_holdOrigin := a4\<rparr>) = rec_inv s"
  "rec_inv (s\<lparr>rs_marks := b1\<rparr>) = rec_inv s" "rec_inv (s\<lparr>rs_extraReading := b2\<rparr>) = rec_inv s"
  "rec_inv (s\<lparr>rs_sampleLength := a2\<rparr>) = rec_inv s" "rec_inv (s\<lparr>rs_liveWidthMs := a2\<rparr>) = rec_inv s"
  by (simp_all add: rec_inv_def file_ok_def data_ok_def points_bound_def state_ok_def log_ok_def)

lemma inv_trigger: "rec_inv s \<Longrightarrow> rec_inv (snd (trigger ck v s))"
  by (simp add: trigger_def Let_def inv_begin)

lemma state_closed: "rs_state (closeSilentExtras now s) = rs_state s"
  by (rule rs_frame_sel(1)) simp

lemma inv_begin_time: "rec_inv s \<Longrightarrow> rec_inv (begin_time r s)" "rs_state (begin_time r s) = rs_state s"
  by (simp_all add: begin_time_def) (simp add: rs_emit_def)

lemma inv_append: "rec_inv s \<Longrightarrow> rs_state s \<noteq> View \<Longrightarrow> rec_inv (rs_append ck p s)"
  by (rule inv_frame[OF frame_append append_data]) (auto intro: data_inv)

lemma lengthReached_no: "\<not> fst (lengthReached ck t s) \<Longrightarrow> snd (lengthReached ck t s) = s"
  by (auto simp: lengthReached_def Let_def)

lemma inv_store_reading:
  assumes "rec_inv s" "rs_state s \<noteq> View"
  shows "rec_inv (store_reading ck r s)"
proof -
  define s1 where "s1 = begin_time r (closeSilentExtras (vr_t r) s)"
  have "rec_inv (closeSilentExtras (vr_t r) s)"
    by (rule inv_frame[OF frame_silent(1) closeSilentExtras_data[OF data_inv[OF assms]] assms(1)])
  then have s1: "rec_inv s1" "rs_state s1 \<noteq> View" using assms(2) by (simp_all add: s1_def inv_begin_time state_closed)
  show ?thesis
    using inv_append[OF s1] inv_trigger inv_lengthReached[OF s1(1)] lengthReached_no[of ck _ s1]
    by (auto simp: store_reading_def Let_def s1_def[symmetric] case_prod_beta)
qed

lemma inv_take_function: "rec_inv s \<Longrightarrow> rec_inv (take_function r s)" "rs_state (take_function r s) = rs_state s"
proof -
  have "se_view (sr\<lparr>se_port := p, se_unit := u, se_name := n\<rparr>) = se_view sr" for sr p u n by simp
  then show "rec_inv s \<Longrightarrow> rec_inv (take_function r s)"
    by (auto simp: take_function_def rec_inv_def file_ok_def data_ok_def points_bound_def state_ok_def log_ok_def series_ok_def
        se_count_view)
  show "rs_state (take_function r s) = rs_state s" by (simp add: take_function_def)
qed

lemma inv_appendExtra: "rec_inv s \<Longrightarrow> rec_inv (appendExtra r s)"
proof (cases "rs_state s = View")
  case True
  then show "rec_inv s \<Longrightarrow> rec_inv (appendExtra r s)" by (simp add: appendExtra_def Let_def)
next
  case False
  assume s: "rec_inv s"
  show "rec_inv (appendExtra r s)"
    by (rule inv_frame[OF frame_extra(5) appendExtra_ok(1)[OF data_inv[OF s False]] s])
qed

lemma inv_setReading:
  assumes "rec_inv s"
  shows "rec_inv (setReading ck r s)"
proof -
  define s0 where "s0 = logReading r s"
  have s0: "rec_inv s0" using inv_logReading[OF assms] by (simp add: s0_def)
  define s1 where "s1 = s0\<lparr>rs_reading := Some r\<rparr>"
  have s1: "rec_inv s1" using s0 by (simp add: s1_def)
  have "rec_inv (take_function r ((rs_clear ck s1)\<lparr>rs_lastValValid := False\<rparr>))"
    using inv_clear[OF s1, of ck] by (simp add: inv_take_function)
  then have "rec_inv (store_reading ck r (take_function r ((rs_clear ck s1)\<lparr>rs_lastValValid := False\<rparr>)))" if "rs_state s1 \<noteq> View"
    using that by (intro inv_store_reading) (simp_all add: inv_take_function clear_state)
  moreover have "rec_inv (store_reading ck r (take_function r s1))" if "rs_state s1 \<noteq> View"
    using that s1 by (intro inv_store_reading) (simp_all add: inv_take_function)
  ultimately show ?thesis
    using s0 s1 by (simp add: setReading_def Let_def s0_def[symmetric] s1_def[symmetric] inv_appendExtra inv_trigger inv_stop inv_store_reading)
qed

lemma inv_setStale: "rec_inv s \<Longrightarrow> rec_inv (setStale ck b s)"
proof (cases "rs_state s = View")
  case True
  then show "rec_inv s \<Longrightarrow> rec_inv (setStale ck b s)" by (simp add: setStale_def)
next
  case False
  assume s: "rec_inv s"
  show "rec_inv (setStale ck b s)"
    by (rule inv_frame[OF frame_silent(2) setStale_data[OF data_inv[OF s False]] s])
qed

lemma inv_poll: "rec_inv s \<Longrightarrow> rec_inv (poll ck s)"
  using inv_lengthReached by (auto simp: poll_def Let_def rs_start_now_def inv_begin case_prod_beta)

lemma inv_in_live: "rec_inv s \<Longrightarrow> rec_inv (in_live ck s)"
proof -
  assume s: "rec_inv s"
  have "rec_inv (trimForLimits ck s)" if "rs_state s = Live"
  proof (rule inv_frame[OF frame_trim(4) _ s])
    show "data_ok (trimForLimits ck s)"
      using trim_ok(1)[OF data_all[OF data_inv[OF s]], of ck] that by (simp add: trimForLimits_def case_prod_beta)
  qed
  then show ?thesis using s by (simp add: in_live_def)
qed

lemma inv_sampleTime: "rec_inv s \<Longrightarrow> rec_inv (setSampleTime n s)"
  by (simp add: setSampleTime_def rec_inv_def file_ok_def data_ok_def points_bound_def state_ok_def log_ok_def)

lemma inv_preMs: "rec_inv s \<Longrightarrow> rec_inv (s\<lparr>rs_preMs := max 0 n\<rparr>)"
  by (simp add: rec_inv_def file_ok_def data_ok_def points_bound_def state_ok_def log_ok_def)

lemma inv_applySetup: "rec_inv s \<Longrightarrow> rec_inv (applySetup ck su lead s)"
  by (simp add: applySetup_def Let_def setTriggerValue_def setThresholds_def setPreTrigger_def setSampleLength_def
      inv_sampleTime inv_in_live inv_preMs)

subsection \<open>The invariant: a file\<close>

definition rows_ok :: "rec_store \<Rightarrow> bool" where
  "rows_ok s \<longleftrightarrow> series_ok (rs_series s) \<and> (\<forall>x \<in> set (rs_extra s). series_ok x \<and> se_view x \<noteq> [])"

lemma frame_load [simp]:
  "rs_frame (load_row r i s) = rs_frame s" "rs_frame (load_cell r col i s) = rs_frame s" "rs_frame (load_column r ic s) = rs_frame s"
proof -
  show one: "rs_frame (load_cell r col i s) = rs_frame s" for r col i s by (simp add: load_cell_def)
  show "rs_frame (load_row r i s) = rs_frame s" by (simp add: load_row_def)
  show "rs_frame (load_column r ic s) = rs_frame s" by (simp add: load_column_def Let_def frame_fold one)
qed

lemma load_cells_last:
  assumes "rs_extra s = xs @ [y]" "series_ok y"
  shows "\<exists>y'. rs_extra (fold (load_cell r col) is s) = xs @ [y'] \<and> series_ok y'" "rs_series (fold (load_cell r col) is s) = rs_series s"
proof -
  show "\<exists>y'. rs_extra (fold (load_cell r col) is s) = xs @ [y'] \<and> series_ok y'"
    using assms
  proof (induction "is" arbitrary: s y)
    case (Cons i js)
    have "\<exists>z. rs_extra (load_cell r col i s) = xs @ [z] \<and> series_ok z"
      using Cons.prems by (auto simp: load_cell_def appendExtraPoint_with with_point_sel(1))
    then show ?case using Cons.IH by auto
  qed simp
  show "rs_series (fold (load_cell r col) is s) = rs_series s"
    by (induction "is" arbitrary: s) (simp_all add: load_cell_def appendExtraPoint_with)
qed

lemma rows_load:
  "rows_ok s \<Longrightarrow> rows_ok (load_row r i s)" "rows_ok s \<Longrightarrow> rows_ok (load_column r ic s)"
proof -
  show "rows_ok s \<Longrightarrow> rows_ok (load_row r i s)"
    by (simp add: rows_ok_def load_row_def appendPoint_series series_ok_integrated)
  assume s: "rows_ok s"
  define sr where "sr = series0\<lparr>se_id := (if co_id (snd ic) > 0 then co_id (snd ic) else int (fst ic) + 1), se_unit := co_unit (snd ic)\<rparr>"
  define s1 where "s1 = fold (load_cell r (snd ic)) [0 ..< min (length (re_values r)) (length (co_states (snd ic)))]
    (s\<lparr>rs_extra := rs_extra s @ [sr]\<rparr>)"
  have sr: "series_ok sr" by (simp add: sr_def series_ok_def series0_def se_wf_def se_view_def)
  obtain y' where y: "rs_extra s1 = rs_extra s @ [y']" "series_ok y'" "rs_series s1 = rs_series s"
    using load_cells_last[of "s\<lparr>rs_extra := rs_extra s @ [sr]\<rparr>" "rs_extra s" sr r "snd ic"
        "[0 ..< min (length (re_values r)) (length (co_states (snd ic)))]"] sr by (auto simp: s1_def)
  have "load_column r ic s = (if se_isEmpty (last (rs_extra s1)) then s1\<lparr>rs_extra := butlast (rs_extra s1)\<rparr> else s1)"
    by (simp only: load_column_def Let_def s1_def sr_def)
  then show "rows_ok (load_column r ic s)" using s y by (auto simp: rows_ok_def)
qed

lemma inv_load:
  assumes "rec_inv s"
  shows "rec_inv (load r s)"
proof -
  define s2 where "s2 = fold (load_column r) (enumerate 0 (re_extra r)) (fold (load_row r) [0 ..< length (re_values r)] (load_begun r s))"
  have begun: "rows_ok (load_begun r s)" by (simp add: rows_ok_def load_begun_def series_ok_def)
  have rows: "rows_ok t \<Longrightarrow> rows_ok (fold (load_row r) is t)" for "is" t
    by (induction "is" arbitrary: t) (simp_all add: rows_load)
  have cols: "rows_ok t \<Longrightarrow> rows_ok (fold (load_column r) cs t)" for cs t
    by (induction cs arbitrary: t) (simp_all add: rows_load)
  have s2: "rows_ok s2" unfolding s2_def by (intro rows cols begun)
  have fr: "rs_frame s2 = rs_frame (load_begun r s)" by (simp add: s2_def frame_fold)
  note sel = rs_frame_sel[OF fr]
  have bg: "rs_state (load_begun r s) = View" "rs_maxPoints (load_begun r s) = rs_maxPoints s" "1 \<le> rs_sampleTime (load_begun r s)"
    "rs_preMs (load_begun r s) = rs_preMs s" "rs_preUsed (load_begun r s) = rs_preUsed s"
    "rs_readings (load_begun r s) = rs_readings s" "rs_readingCapacity (load_begun r s) = rs_readingCapacity s"
    by (simp_all add: load_begun_def)
  define s3 where "s3 = s2\<lparr>rs_loadedGrid := (if onGrid r then rs_sampleTime s2 else 0), rs_fromFile := True, rs_stopT := - 1, rs_dirty := False\<rparr>"
  have "file_ok s3" using s2 maxPoints_inv[OF assms] by (simp add: s3_def file_ok_def rows_ok_def sel bg)
  moreover have "state_ok s3" "log_ok s3"
    using assms by (simp_all add: s3_def state_ok_def log_ok_def rec_inv_def sel bg)
  ultimately have "rec_inv s3" by (simp add: rec_inv_def)
  moreover have "load r s = (let s4 = rs_emit Loaded (rs_emit MarksChanged s3)
      in if rs_state s \<noteq> View then
           (let s5 = rs_emit (StateChanged View) s4 in if rs_state s = Record then rs_emit (RunningChanged False) s5 else s5)
         else s4)"
    by (simp only: load_def Let_def s2_def s3_def)
  ultimately show ?thesis by (simp add: Let_def)
qed

lemma inv_setUnit: "rec_inv s \<Longrightarrow> rec_inv (setUnit u s)"
  by (simp add: setUnit_def)

lemma rec_step_inv: "rec_inv s \<Longrightarrow> rec_inv (rec_step ck c s)"
proof (cases c)
  case (CWritten b)
  then show "rec_inv s \<Longrightarrow> ?thesis"
    by (simp add: rs_write_def rec_inv_def file_ok_def data_ok_def points_bound_def state_ok_def log_ok_def)
qed (simp_all add: inv_setReading inv_setStale inv_poll rs_start_now_def inv_begin inv_startAt inv_stop inv_live inv_clear
    forgetReading_def holdOrigin_def addMark_def Let_def inv_load inv_applySetup inv_sampleTime setSampleLength_def
    setPreTrigger_def setLiveWidth_def inv_in_live inv_preMs setThresholds_def setTriggerValue_def inv_setUnit
    inv_logReading inv_logRow inv_readings)

lemma inv_fresh: "rec_inv (setMaxPoints ck n (rs_new ck))"
  by (simp add: setMaxPoints_def trimForLimits_def trim_def trimMain_def trimExtras_def rs_new_def rec_inv_def data_ok_def
      points_bound_def state_ok_def log_ok_def series0_def series_ok_def se_wf_def se_view_def se_isEmpty_def se_count_def
      extras_ok_def keys_ok_def signed_divide_int_def Let_def)

lemma rec_reach_inv: "rec_reach s \<Longrightarrow> rec_inv s"
  by (induction rule: rec_reach.induct) (simp_all add: inv_fresh rec_step_inv)

end
