(* ===== verification/Recording_Runs.thy ===== *)
theory Recording_Runs
  imports Recording_Facts
begin

text \<open>
  What the recorder does with readings: what stands in View, what a reading does in a recording, and what a recording
  holds that a threshold started.
\<close>

subsection \<open>What stands in View\<close>

definition recorded :: "rec_store \<Rightarrow> series \<times> series list \<times> int \<times> int \<times> int \<times> int \<times> bool \<times> int \<times> rec_state" where
  "recorded s = (rs_series s, rs_extra s, rs_t0 s, rs_start s, rs_stopT s, rs_floorMs s, rs_fromFile s, rs_loadedGrid s, rs_state s)"

definition replaces :: "rec_call \<Rightarrow> bool" where
  "replaces c \<longleftrightarrow> (case c of CStart \<Rightarrow> True | CStartAt t w \<Rightarrow> True | CLive \<Rightarrow> True | CClear \<Rightarrow> True | CLoad r \<Rightarrow> True | _ \<Rightarrow> False)"

lemma recorded_log:
  "recorded (logRow row s) = recorded s" "recorded (logReading r s) = recorded s" "recorded (logRows rows s) = recorded s"
  "recorded (setReadingCapacity n s) = recorded s" "recorded (clearReadings s) = recorded s"
  "recorded (markLastReading c nm s) = recorded s" "recorded (rs_emit e s) = recorded s"
proof -
  show row: "recorded (logRow row s) = recorded s" for row
    by (simp add: recorded_def logRow_def removeOldestReadings_def rs_emit_def Let_def)
  show "recorded (logReading r s) = recorded s" using logReading_row[of r s] row by metis
  show "recorded (logRows rows s) = recorded s" "recorded (setReadingCapacity n s) = recorded s"
    "recorded (clearReadings s) = recorded s" "recorded (markLastReading c nm s) = recorded s" "recorded (rs_emit e s) = recorded s"
    by (simp_all add: recorded_def logRows_def setReadingCapacity_def clearReadings_def markLastReading_def
        removeOldestReadings_def rs_emit_def Let_def)
qed

lemma recorded_state: "recorded t = recorded s \<Longrightarrow> rs_state t = rs_state s"
  by (simp add: recorded_def)

lemma recorded_settings [simp]:
  "recorded (s\<lparr>rs_reading := a1\<rparr>) = recorded s" "recorded (s\<lparr>rs_mode := a2\<rparr>) = recorded s"
  "recorded (s\<lparr>rs_startTime := a3\<rparr>) = recorded s" "recorded (s\<lparr>rs_threshold := a4\<rparr>) = recorded s"
  "recorded (s\<lparr>rs_staleMs := a5\<rparr>) = recorded s" "recorded (s\<lparr>rs_readingsPaused := a6\<rparr>) = recorded s"
  "recorded (s\<lparr>rs_extraReading := a7\<rparr>) = recorded s" "recorded (s\<lparr>rs_lastVal := a4\<rparr>) = recorded s"
  "recorded (s\<lparr>rs_lastValValid := a6\<rparr>) = recorded s" "recorded (s\<lparr>rs_marks := a8\<rparr>) = recorded s"
  "recorded (s\<lparr>rs_holdOrigin := a6\<rparr>) = recorded s" "recorded (s\<lparr>rs_dirty := a6\<rparr>) = recorded s"
  "recorded (s\<lparr>rs_sampleLength := a5\<rparr>) = recorded s" "recorded (s\<lparr>rs_preMs := a5\<rparr>) = recorded s"
  "recorded (s\<lparr>rs_liveWidthMs := a5\<rparr>) = recorded s" "recorded (s\<lparr>rs_sampleTime := a5\<rparr>) = recorded s"
  "recorded (s\<lparr>rs_falling := a4\<rparr>) = recorded s" "recorded (s\<lparr>rs_raising := a4\<rparr>) = recorded s"
  "recorded (s\<lparr>rs_trigger := a9\<rparr>) = recorded s" "recorded (s\<lparr>rs_unit := b1\<rparr>) = recorded s"
  "recorded (s\<lparr>rs_nextUnit := b1\<rparr>) = recorded s" "recorded (s\<lparr>rs_unitPending := a6\<rparr>) = recorded s"
  by (simp_all add: recorded_def)

lemma recorded_setup: "rs_state s = View \<Longrightarrow> recorded (applySetup ck su lead s) = recorded s"
  by (simp add: applySetup_def Let_def setTriggerValue_def setThresholds_def setPreTrigger_def setSampleLength_def
      setSampleTime_def in_live_def)

lemma recorded_reading:
  assumes "rs_state s = View"
  shows "recorded (setReading ck r s) = recorded s"
proof -
  have l: "recorded (logReading r s) = recorded s" "rs_state (logReading r s) = View"
    using recorded_log(2)[of r s] assms by (auto dest: recorded_state)
  then have "appendExtra r (logReading r s) = (logReading r s)\<lparr>rs_extraReading := qmap_insert (vr_id r) r (rs_extraReading (logReading r s))\<rparr>"
    by (simp add: appendExtra_def Let_def)
  then show ?thesis using l by (simp add: setReading_def Let_def)
qed


subsection \<open>A point in a recording\<close>

lemma trimExtras_rest [simp]:
  "rs_series (snd (trimExtras ck s)) = rs_series s" "rs_marks (snd (trimExtras ck s)) = rs_marks s"
  by (simp_all add: trimExtras_def Let_def case_prod_beta)

lemma trim_full:
  assumes "rs_state s \<noteq> Live" "series_ok (rs_series s)" "rs_maxPoints s \<ge> 2"
  shows "se_view (rs_series (snd (trim ck s))) = List.drop
      (if int (se_count (rs_series s)) \<le> points_bound s then 0 else se_count (rs_series s) - nat (rs_maxPoints s)) (se_view (rs_series s))"
    and "int (se_count (rs_series s)) \<le> points_bound s \<Longrightarrow> rs_series (snd (trim ck s)) = rs_series s \<and> rs_marks (snd (trim ck s)) = rs_marks s"
proof -
  have drop: "trim_drop ck s = (if int (se_count (rs_series s)) \<le> points_bound s then 0 else int (se_count (rs_series s)) - rs_maxPoints s)"
    using assms(1) by (simp add: trim_drop_def Let_def points_bound_def)
  have ser: "rs_series (snd (trim ck s)) = rs_series (snd (trimMain ck s))" "rs_marks (snd (trim ck s)) = rs_marks (snd (trimMain ck s))"
    by (simp_all add: trim_def case_prod_beta)
  show "int (se_count (rs_series s)) \<le> points_bound s \<Longrightarrow> rs_series (snd (trim ck s)) = rs_series s \<and> rs_marks (snd (trim ck s)) = rs_marks s"
    by (simp add: ser trimMain_def drop)
  show "se_view (rs_series (snd (trim ck s))) = List.drop
      (if int (se_count (rs_series s)) \<le> points_bound s then 0 else se_count (rs_series s) - nat (rs_maxPoints s)) (se_view (rs_series s))"
    using assms(3) by (simp add: ser trimMain_def drop Let_def nat_diff_distrib')
qed

definition content :: "raw_point \<Rightarrow> dbl \<times> quality \<times> u32" where
  "content p = (rp_value p, rp_quality p, rp_flags p)"

lemma append_point:
  assumes "rs_state s = Record" "series_ok (rs_series s)" "rs_maxPoints s \<ge> 2"
  defines "full \<equiv> int (se_count (rs_series s)) + 1 > points_bound s"
  shows "\<exists>p'. content p' = content p \<and> rp_t p' = (if se_view (rs_series s) = [] then rp_t p else max (rp_t p) (rp_t (last (se_view (rs_series s))))) \<and>
      se_view (rs_series (rs_append ck p s)) =
        List.drop (if full then se_count (rs_series s) + 1 - nat (rs_maxPoints s) else 0) (se_view (rs_series s) @ [p'])"
    and "\<not> full \<Longrightarrow> rs_marks (rs_append ck p s) = rs_marks s" "series_ok (rs_series (rs_append ck p s))"
proof -
  let ?p = "fst (integrated (rs_threshold s) (rs_series s) (rs_integral s) p)"
  define s2 where "s2 = (appendPoint p s)\<lparr>rs_dirty := True\<rparr>"
  have st: "rs_state (appendPoint p s) = Record" using rs_frame_sel(1)[OF frame_parts(2)] assms(1) by metis
  have ap: "rs_series (rs_append ck p s) = rs_series (snd (trim ck s2))" "rs_marks (rs_append ck p s) = rs_marks (snd (trim ck s2))"
    by (simp_all add: rs_append_def Let_def case_prod_beta st s2_def)
  have s2: "rs_series s2 = se_append ?p (rs_series s)" "rs_state s2 = Record" "rs_marks s2 = rs_marks s"
    using st by (simp_all add: s2_def appendPoint_series) (simp add: appendPoint_def case_prod_beta)
  have fr: "rs_frame s2 = rs_frame s" by (simp add: s2_def st)
  have ok: "series_ok (rs_series s2)" using assms(2) by (simp add: s2 series_ok_integrated)
  have view: "se_view (rs_series s2) = se_view (rs_series s) @ [?p]" using assms(2) by (simp add: s2 series_ok_def)
  then have count: "se_count (rs_series s2) = se_count (rs_series s) + 1" by (simp add: se_count_view)
  have bd: "points_bound s2 = points_bound s" "rs_maxPoints s2 = rs_maxPoints s"
    using points_bound_frame[OF fr] rs_frame_sel(4)[OF fr] by simp_all
  note t = trim_full[of s2 ck, unfolded count bd view]
  show "\<exists>p'. content p' = content p \<and> rp_t p' = (if se_view (rs_series s) = [] then rp_t p else max (rp_t p) (rp_t (last (se_view (rs_series s))))) \<and>
      se_view (rs_series (rs_append ck p s)) =
        List.drop (if full then se_count (rs_series s) + 1 - nat (rs_maxPoints s) else 0) (se_view (rs_series s) @ [p'])"
    using t(1) s2(2) ok assms(3) by (intro exI[of _ ?p]) (auto simp: content_def integrated_point se_last_view ap full_def)
  show "\<not> full \<Longrightarrow> rs_marks (rs_append ck p s) = rs_marks s"
    using t(2) s2(2,3) ok assms(3) by (simp add: ap full_def)
  show "series_ok (rs_series (rs_append ck p s))"
    using trimMain_series(2)[OF ok, of ck] assms(3) bd by (simp add: ap trim_def case_prod_beta)
qed

subsection \<open>A reading in a recording\<close>

lemma extra_point_rest [simp]:
  "rs_series (appendExtraPoint i p s) = rs_series s" "rs_marks (appendExtraPoint i p s) = rs_marks s"
  by (simp_all add: appendExtraPoint_def Let_def case_prod_beta)

lemma closed_rest [simp]:
  "rs_series (closeSilentExtras now s) = rs_series s" "rs_marks (closeSilentExtras now s) = rs_marks s"
proof -
  have one: "rs_series (snd (closeSilentExtra now kr acc)) = rs_series (snd acc)"
    "rs_marks (snd (closeSilentExtra now kr acc)) = rs_marks (snd acc)" for kr acc
    by (simp_all add: closeSilentExtra_def Let_def)
  have "rs_series (snd (fold (closeSilentExtra now) xs acc)) = rs_series (snd acc) \<and>
      rs_marks (snd (fold (closeSilentExtra now) xs acc)) = rs_marks (snd acc)" for xs acc
    by (induction xs arbitrary: acc) (simp_all add: one)
  from this[of "rs_extraReading s" "(False, s)"]
  show "rs_series (closeSilentExtras now s) = rs_series s" "rs_marks (closeSilentExtras now s) = rs_marks s"
    by (simp_all add: closeSilentExtras_def case_prod_beta)
qed

definition rec_limit :: "rec_store \<Rightarrow> int" where
  "rec_limit s = rs_sampleLength s * 100 + rs_preUsed s"

definition at_length :: "int \<Rightarrow> rec_store \<Rightarrow> bool" where
  "at_length t s \<longleftrightarrow> rs_sampleLength s > 0 \<and> rec_limit s \<le> t"

definition kept_of :: "rec_store \<Rightarrow> raw_point list \<Rightarrow> raw_point list" where
  "kept_of s ps = List.drop (if int (length ps) > points_bound s then length ps - nat (rs_maxPoints s) else 0) ps"

lemma store_in_record:
  fixes r :: view_reading and ck :: clocks
  assumes "data_ok s" "rs_state s = Record" "se_view (rs_series s) \<noteq> []"
  defines "t \<equiv> store_reading ck r s" and "at_ms \<equiv> max 0 (vr_t r - rs_t0 s)"
  shows "if at_length at_ms s then rs_state t = View \<and> rs_series t = rs_series s \<and> rs_stopT t = rec_limit s
    else rs_state t = Record \<and> (\<exists>p. content p = (reading_value r, pointQuality r, vr_flags r) \<and>
      rp_t p = max at_ms (rp_t (last (se_view (rs_series s)))) \<and> se_view (rs_series t) = kept_of s (se_view (rs_series s) @ [p]))"
proof -
  define s1 where "s1 = closeSilentExtras (vr_t r) s"
  have fr: "rs_frame s1 = rs_frame s" by (simp add: s1_def)
  note sel = rs_frame_sel[OF fr]
  have ser: "rs_series s1 = rs_series s" by (simp add: s1_def)
  have begins: "begin_time r s1 = s1" using assms(3) by (simp add: begin_time_def ser)
  have t: "t = (case lengthReached ck at_ms s1 of (reached, s2) \<Rightarrow> if reached then s2
      else rs_append ck (reading_point r at_ms) s2)"
    using assms(2) by (simp add: t_def store_reading_def Let_def s1_def[symmetric] begins sel at_ms_def case_prod_beta reading_point_def)
  show ?thesis
  proof (cases "at_length at_ms s")
    case True
    then have "lengthReached ck at_ms s1 = (True, (rs_stop ck (rs_emit Alert s1))\<lparr>rs_stopT := rec_limit s\<rparr>)"
      using assms(2) by (simp add: lengthReached_def Let_def sel at_length_def rec_limit_def)
    then show ?thesis using True assms(2) by (simp add: t rs_stop_def rs_emit_def Let_def sel ser)
  next
    case False
    then have "lengthReached ck at_ms s1 = (False, s1)"
      by (auto simp: lengthReached_def Let_def sel at_length_def rec_limit_def)
    then have t': "t = rs_append ck (reading_point r at_ms) s1" by (simp add: t)
    have st: "rs_state t = Record" using rs_frame_sel(1)[OF frame_append, of ck "reading_point r at_ms" s1] assms(2) by (simp add: t' sel)
    obtain p where p: "content p = content (reading_point r at_ms)"
      "rp_t p = max (rp_t (reading_point r at_ms)) (rp_t (last (se_view (rs_series s))))"
      "se_view (rs_series t) = List.drop (if int (se_count (rs_series s)) + 1 > points_bound s
         then se_count (rs_series s) + 1 - nat (rs_maxPoints s) else 0) (se_view (rs_series s) @ [p])"
      using append_point(1)[of s1 "reading_point r at_ms" ck] assms(1-3) points_bound_frame[OF fr]
      by (auto simp: sel ser t' data_ok_def)
    then show ?thesis using False st
      by (auto simp: content_def reading_point_def kept_of_def se_count_view add.commute)
  qed
qed

lemma logged_reading:
  "rs_series (logReading r s) = rs_series s" "rs_state (logReading r s) = rs_state s" "rs_t0 (logReading r s) = rs_t0 s"
  "rs_recordPort (logReading r s) = rs_recordPort s" "rs_recordBaseUnit (logReading r s) = rs_recordBaseUnit s"
  "rs_sampleLength (logReading r s) = rs_sampleLength s" "rs_preUsed (logReading r s) = rs_preUsed s"
  "rs_maxPoints (logReading r s) = rs_maxPoints s" "rs_extra (logReading r s) = rs_extra s"
  by (simp_all add: logReading_def logRow_def removeOldestReadings_def rs_emit_def Let_def)

lemma takes_reading:
  assumes "rec_inv s" "rs_state s = Record" "vr_id r = 0" "se_view (rs_series s) \<noteq> []"
  shows "let t = setReading ck r s; at_ms = max 0 (vr_t r - rs_t0 s) in
    if function_changed r s then rs_state t = View \<and> rs_series t = rs_series s \<and> rs_stopT t = elapsed ck s
    else if at_length at_ms s then rs_state t = View \<and> se_view (rs_series t) = se_view (rs_series s) \<and> rs_stopT t = rec_limit s
    else rs_state t = Record \<and> (\<exists>p. content p = (reading_value r, pointQuality r, vr_flags r) \<and>
      rp_t p = max at_ms (rp_t (last (se_view (rs_series s)))) \<and> se_view (rs_series t) = kept_of s (se_view (rs_series s) @ [p]))"
proof -
  define s1 where "s1 = (logReading r s)\<lparr>rs_reading := Some r\<rparr>"
  have same: "rs_series s1 = rs_series s" "rs_state s1 = Record" "rs_t0 s1 = rs_t0 s" "rs_maxPoints s1 = rs_maxPoints s"
    "function_changed r s1 = function_changed r s" "rs_recordPort s1 = rs_recordPort s" "rs_recordBaseUnit s1 = rs_recordBaseUnit s" "elapsed ck s1 = elapsed ck s"
    "points_bound s1 = points_bound s" "at_length = at_length" "rec_limit s1 = rec_limit s" "rs_sampleLength s1 = rs_sampleLength s"
    using assms(2) by (simp_all add: s1_def logged_reading function_changed_def elapsed_def points_bound_def rec_limit_def)
  have d1: "data_ok s1"
    using data_inv[OF assms(1)] assms(2)
    by (simp add: s1_def data_ok_def points_bound_def logged_reading)
  define u where "u = (if says_function r \<and> \<not> port_valid (rs_recordPort s1) then take_function r s1 else s1)"
  have u: "data_ok u" "rs_state u = Record" "se_view (rs_series u) = se_view (rs_series s)" "rs_t0 u = rs_t0 s"
    "at_length x u = at_length x s" "rec_limit u = rec_limit s" "kept_of u = kept_of s" for x
    using d1 same by (auto simp: u_def take_function_def data_ok_def points_bound_def series_ok_def se_count_view kept_of_def
        at_length_def rec_limit_def fun_eq_iff)
  have step: "setReading ck r s = (if function_changed r s
      then rs_emit (FunctionChanged (describe (rs_recordPort s1) (rs_recordBaseUnit s1)) (describe (vr_port r) (vr_baseUnit r))) (rs_stop ck s1)
      else store_reading ck r u)"
    using assms(3) same(2,6,7) unfolding setReading_def Let_def s1_def[symmetric] u_def by (auto simp: function_changed_def)
  show ?thesis
  proof (cases "function_changed r s")
    case True
    then show ?thesis using same by (simp add: step Let_def rs_stop_def rs_emit_def elapsed_def)
  next
    case False
    have ne: "se_view (rs_series u) \<noteq> []" using assms(4) u(3) by simp
    note st = store_in_record[OF u(1,2) ne, of r ck, unfolded u(3-7)]
    show ?thesis
    proof (cases "at_length (max 0 (vr_t r - rs_t0 s)) s")
      case True
      then show ?thesis using st False u(3) by (simp add: step Let_def)
    next
      case short: False
      then show ?thesis using st False by (simp add: step Let_def)
    qed
  qed
qed

text \<open>
  C30: A reading of the main value in a recording: another function of the meter (another port or unit) ends the recording as
  it is; a reading at or behind the recording length ends it at the length; every other reading becomes its last point, with
  its value, quality and flags, at its time but never before the point before it, and the oldest points go only beyond the
  most points.
\<close>

theorem recording_takes_reading:
  assumes "rec_reach s" "rs_state s = Record" "vr_id r = 0" "se_view (rs_series s) \<noteq> []"
  shows "let t = setReading ck r s; at_ms = max 0 (vr_t r - rs_t0 s) in
    if function_changed r s then rs_state t = View \<and> rs_series t = rs_series s \<and> rs_stopT t = elapsed ck s
    else if at_length at_ms s then rs_state t = View \<and> se_view (rs_series t) = se_view (rs_series s) \<and> rs_stopT t = rec_limit s
    else rs_state t = Record \<and> (\<exists>p. content p = (reading_value r, pointQuality r, vr_flags r) \<and>
      rp_t p = max at_ms (rp_t (last (se_view (rs_series s)))) \<and> se_view (rs_series t) = kept_of s (se_view (rs_series s) @ [p]))"
  by (rule takes_reading[OF rec_reach_inv[OF assms(1)] assms(2-4)])

subsection \<open>A recording a threshold started\<close>

lemma live_extra_rest: "rs_series (appendLiveExtra t sr s) = rs_series s \<and> rs_marks (appendLiveExtra t sr s) = rs_marks s"
proof -
  have "rs_series (fold (\<lambda>i st. appendExtraPoint (f st) (g st i) st) xs s) = rs_series s \<and>
      rs_marks (fold (\<lambda>i st. appendExtraPoint (f st) (g st i) st) xs s) = rs_marks s" for f g and xs :: "nat list" and s
    by (induction xs arbitrary: s) simp_all
  then show ?thesis by (simp add: appendLiveExtra_def Let_def)
qed

lemma live_extras_rest:
  "rs_series (fold (appendLiveExtra t) srs s) = rs_series s \<and> rs_marks (fold (appendLiveExtra t) srs s) = rs_marks s"
  by (induction srs arbitrary: s) (simp_all add: live_extra_rest)

definition rebased :: "int \<Rightarrow> rec_store \<Rightarrow> raw_point \<Rightarrow> int" where
  "rebased t0 s p = max 0 (t0 + rp_t p - rs_t0 s)"

lemma live_points_appended:
  fixes t0 :: int and ck :: clocks
  assumes s: "rs_state s = Record" "rs_maxPoints s \<ge> 2" "series_ok (rs_series s)" "se_view (rs_series s) = []"
    and ps: "in_time ps" "int (length ps) \<le> points_bound s"
  defines "F \<equiv> \<lambda>p st. rs_append ck (part_point t0 st p) st"
  shows "map content (se_view (rs_series (fold F ps s))) = map content ps"
    "map rp_t (se_view (rs_series (fold F ps s))) = map (rebased t0 s) ps"
    "rs_marks (fold F ps s) = rs_marks s"
proof -
  have "map content (se_view (rs_series (fold F ps s))) = map content ps \<and>
      map rp_t (se_view (rs_series (fold F ps s))) = map (rebased t0 s) ps \<and> rs_marks (fold F ps s) = rs_marks s \<and>
      series_ok (rs_series (fold F ps s)) \<and> rs_frame (fold F ps s) = rs_frame s"
    using ps
  proof (induction ps rule: rev_induct)
    case (snoc p ps)
    let ?t = "fold F ps s"
    have IH: "map content (se_view (rs_series ?t)) = map content ps" "map rp_t (se_view (rs_series ?t)) = map (rebased t0 s) ps"
      "rs_marks ?t = rs_marks s" "series_ok (rs_series ?t)" "rs_frame ?t = rs_frame s"
      using snoc by (auto simp: in_time_snoc)
    note fr = rs_frame_sel[OF IH(5)] and bd = points_bound_frame[OF IH(5)]
    have len: "length (se_view (rs_series ?t)) = length ps" using arg_cong[OF IH(1), of length] by simp
    have notfull: "\<not> int (se_count (rs_series ?t)) + 1 > points_bound ?t" using snoc.prems(2) by (simp add: se_count_view len bd)
    have pp: "content (part_point t0 ?t p) = content p" "rp_t (part_point t0 ?t p) = rebased t0 s p"
      by (simp_all add: part_point_def content_def rebased_def fr)
    have st: "rs_state ?t = Record" "rs_maxPoints ?t \<ge> 2" using s(1,2) fr by simp_all
    note ap = append_point[OF st(1) IH(4) st(2), where p = "part_point t0 ?t p" and ck = ck]
    have "\<exists>p'. content p' = content p \<and> rp_t p' = (if se_view (rs_series ?t) = [] then rebased t0 s p
        else max (rebased t0 s p) (rp_t (last (se_view (rs_series ?t))))) \<and> se_view (rs_series (F p ?t)) = se_view (rs_series ?t) @ [p']"
      using ap(1) unfolding if_not_P[OF notfull] pp drop_0 unfolding F_def .
    then obtain p' where p': "content p' = content p"
      "rp_t p' = (if se_view (rs_series ?t) = [] then rebased t0 s p else max (rebased t0 s p) (rp_t (last (se_view (rs_series ?t)))))"
      "se_view (rs_series (F p ?t)) = se_view (rs_series ?t) @ [p']" by blast
    have rest: "rs_marks (F p ?t) = rs_marks ?t" "series_ok (rs_series (F p ?t))"
      using ap(2)[OF notfull] ap(3) by (simp_all add: F_def)
    have "rp_t p' = rebased t0 s p"
    proof (cases "ps = []")
      case False
      then have ne: "se_view (rs_series ?t) \<noteq> []" using len by auto
      have "rp_t (last (se_view (rs_series ?t))) = rebased t0 s (last ps)"
        using arg_cong[OF IH(2), of last] ne False by (simp add: last_map)
      moreover have "rp_t (last ps) \<le> rp_t p" using snoc.prems(1) False by (simp add: in_time_snoc)
      ultimately show ?thesis using p'(2) ne by (simp add: rebased_def)
    qed (use len p'(2) in simp)
    moreover have "rs_frame (F p ?t) = rs_frame s" using IH(5) by (simp add: F_def)
    ultimately show ?case using p'(1,3) rest IH by simp
  qed (use s in auto)
  then show "map content (se_view (rs_series (fold F ps s))) = map content ps"
    "map rp_t (se_view (rs_series (fold F ps s))) = map (rebased t0 s) ps" "rs_marks (fold F ps s) = rs_marks s" by blast+
qed


subsection \<open>Into Live and into a recording\<close>

lemma live_takes_reading:
  fixes ck :: clocks
  assumes "rec_inv s" "rs_state s = Live" "vr_id r = 0" "rs_mode s = Manual"
  defines "t \<equiv> setReading ck r s"
  shows "rs_state t = Live" "se_view (rs_series t) \<noteq> []" "rs_reading t = Some r" "rs_staleMs t = rs_staleMs s"
proof -
  define s1 where "s1 = (logReading r s)\<lparr>rs_reading := Some r\<rparr>"
  have log: "rs_mode (logReading r s) = rs_mode s" "rs_staleMs (logReading r s) = rs_staleMs s"
    by (simp_all add: logReading_def logRow_def removeOldestReadings_def rs_emit_def Let_def)
  have s1: "rec_inv s1" "rs_state s1 = Live" "rs_mode s1 = Manual" "rs_reading s1 = Some r" "rs_staleMs s1 = rs_staleMs s"
    using assms inv_logReading[of s r] by (simp_all add: s1_def logged_reading log)
  have store: "rs_state (store_reading ck r u) = Live \<and> se_view (rs_series (store_reading ck r u)) \<noteq> [] \<and>
      rs_reading (store_reading ck r u) = rs_reading u \<and> rs_staleMs (store_reading ck r u) = rs_staleMs u"
    if u: "rec_inv u" "rs_state u = Live" "rs_mode u = Manual" for u
  proof -
    define v where "v = begin_time r (closeSilentExtras (vr_t r) u)"
    define p where "p = reading_point r (max 0 (vr_t r - rs_t0 v))"
    note fr = rs_frame_sel[OF frame_silent(1)[of "vr_t r" u]]
    have "data_ok (closeSilentExtras (vr_t r) u)" using u by (intro closeSilentExtras_data data_inv) simp_all
    then have v: "data_ok v" "rs_state v = Live" "rs_mode v = Manual" "rs_reading v = rs_reading u" "rs_staleMs v = rs_staleMs u"
      using u by (simp_all add: v_def begin_time_def fr) (simp_all add: rs_emit_def fr)
    note fa = rs_frame_sel[OF frame_append[of ck p v]]
    have st: "store_reading ck r u = (if vref_matches (rs_trigger (rs_append ck p v)) (vr_id r) (vr_source r)
        then snd (trigger ck (reading_value r) (rs_append ck p v)) else rs_append ck p v)"
      using v(2) by (simp add: store_reading_def Let_def v_def[symmetric] p_def)
    show ?thesis using append_ok(2)[OF data_all[OF v(1)], of ck p] v by (simp add: st trigger_def Let_def fa)
  qed
  have tf: "rs_state (take_function r u) = rs_state u" "rs_mode (take_function r u) = rs_mode u"
    "rs_reading (take_function r u) = rs_reading u" "rs_staleMs (take_function r u) = rs_staleMs u" for u
    by (simp_all add: take_function_def)
  have cleared: "rs_mode (rs_clear ck s1) = Manual" "rs_reading (rs_clear ck s1) = Some r" "rs_staleMs (rs_clear ck s1) = rs_staleMs s"
    using s1 by (simp_all add: rs_clear_def Let_def rs_emit_def)
  have "rs_state t = Live \<and> se_view (rs_series t) \<noteq> [] \<and> rs_reading t = Some r \<and> rs_staleMs t = rs_staleMs s"
    using store[of s1] store[of "take_function r s1"] store[of "take_function r ((rs_clear ck s1)\<lparr>rs_lastValValid := False\<rparr>)"]
      s1 inv_clear[OF s1(1), of ck] cleared assms(3)
    by (simp add: t_def setReading_def Let_def s1_def[symmetric] tf inv_take_function(1) clear_state logged_reading(2) assms(2))
  then show "rs_state t = Live" "se_view (rs_series t) \<noteq> []" "rs_reading t = Some r" "rs_staleMs t = rs_staleMs s" by simp_all
qed

lemma current_taken:
  assumes "data_ok s" "rs_reading s = Some r" "ck_mono ck - vr_t r \<le> rs_staleMs s"
  shows "se_view (rs_series (appendCurrent ck b s)) \<noteq> []"
proof -
  have one: "data_ok u \<Longrightarrow> data_ok (appendCurrentExtra ck b x u) \<and> rs_series (appendCurrentExtra ck b x u) = rs_series u" for x u
    by (simp add: appendCurrentExtra_def Let_def appendExtra_ok)
  have all: "data_ok u \<Longrightarrow> rs_series (fold (\<lambda>kr. appendCurrentExtra ck b (snd kr)) xs u) = rs_series u"
    for xs :: "(int \<times> view_reading) list" and u
    by (induction xs arbitrary: u) (simp_all add: one)
  show ?thesis using assms all[OF append_data[OF assms(1)]] append_ok(2)[OF data_all[OF assms(1)]]
    by (cases b) (simp_all add: appendCurrent_def Let_def)
qed

lemma start_takes_current:
  fixes ck :: clocks
  assumes "rec_inv s" "rs_reading s = Some r" "ck_mono ck - vr_t r \<le> rs_staleMs s"
  defines "t \<equiv> rs_start_now ck s"
  shows "rs_state t = Record" "se_view (rs_series t) \<noteq> []" "rs_t0 t = ck_mono ck" "rs_preUsed t = 0"
    "rs_sampleLength t = rs_sampleLength s" "rs_recordPort t = port0"
proof -
  define s1 where "s1 = (rs_clear ck (s\<lparr>rs_state := Record\<rparr>))\<lparr>rs_stopT := - 1, rs_preUsed := 0, rs_holdOrigin := False\<rparr>"
  have t: "t = started (rs_state s) (appendCurrent ck False s1)"
    by (simp add: t_def rs_start_now_def rs_begin_def Let_def s1_def)
  have d: "data_ok s1" using data_cleared[OF assms(1), of ck Record] by (simp add: s1_def)
  have f: "rs_reading s1 = Some r" "rs_staleMs s1 = rs_staleMs s" using assms(2) by (simp_all add: s1_def clear_state)
  have s1: "rs_state s1 = Record" "rs_t0 s1 = ck_mono ck" "rs_preUsed s1 = 0" "rs_sampleLength s1 = rs_sampleLength s"
    "rs_recordPort s1 = port0" by (simp_all add: s1_def clear_state)
  note fr = rs_frame_sel[OF frame_current(2)[of ck False s1]]
  show "rs_state t = Record" "rs_t0 t = ck_mono ck" "rs_preUsed t = 0" "rs_sampleLength t = rs_sampleLength s" "rs_recordPort t = port0"
    using s1 by (simp_all add: t started_def Let_def rs_emit_def fr)
  show "se_view (rs_series t) \<noteq> []"
    using current_taken[OF d f(1), of ck False] assms(3) f(2) by (simp add: t started_def Let_def)
qed

subsection \<open>At a concrete recorder\<close>

definition bench_clocks :: "int \<Rightarrow> clocks" where
  "bench_clocks ms = \<lparr>ck_mono = ms, ck_wall = 1000000 + ms, ck_time = 0\<rparr>"

definition bench_volts :: "int \<Rightarrow> dbl \<Rightarrow> view_reading" where
  "bench_volts t v = \<lparr>vr_value = v, vr_text = lit ''5.00'', vr_unit = lit ''V'', vr_prefix = [], vr_baseUnit = lit ''V'',
     vr_range = [], vr_hold = False, vr_showBar = False, vr_overload = False, vr_id = 0, vr_msecs = t, vr_t = t,
     vr_port = port0\<lparr>pk_quantity := Voltage, pk_defining := DC\<rparr>, vr_portUnit = lit ''V'', vr_flags = DC, vr_quality = Valid,
     vr_measuringRange = \<lparr>ra_autorange = False, ra_full = DNan False\<rparr>, vr_name = [], vr_source = []\<rparr>"

text \<open>Live, a reading of 3 V, then a recording of half a second.\<close>

definition bench_live :: rec_store where
  "bench_live = setReading (bench_clocks 100) (bench_volts 100 (DFin False 3))
     (rs_live (bench_clocks 0) (setMaxPoints (bench_clocks 0) 10 (rs_new (bench_clocks 0))))"

definition bench_recording :: rec_store where
  "bench_recording = rs_start_now (bench_clocks 300) (setSampleLength (bench_clocks 300) 5 bench_live)"

definition bench_ended :: rec_store where
  "bench_ended = rs_stop (bench_clocks 400) bench_recording"

lemma bench_reach: "rec_reach bench_live" "rec_reach bench_recording" "rec_reach bench_ended"
proof -
  show live: "rec_reach bench_live"
    unfolding bench_live_def
    by (subst rec_step.simps(1)[symmetric], subst rec_step.simps(7)[symmetric]) (intro rec_reach.intros)
  show r: "rec_reach bench_recording"
    unfolding bench_recording_def
    by (subst rec_step.simps(4)[symmetric], subst rec_step.simps(16)[symmetric]) (intro rec_reach.intros live)
  show "rec_reach bench_ended"
    unfolding bench_ended_def by (subst rec_step.simps(6)[symmetric]) (intro rec_reach.intros r)
qed

lemma bench_live_facts:
  "rs_state bench_live = Live" "se_view (rs_series bench_live) \<noteq> []"
  "rs_reading bench_live = Some (bench_volts 100 (DFin False 3))" "rs_staleMs bench_live = 3000"
proof -
  let ?s = "rs_live (bench_clocks 0) (setMaxPoints (bench_clocks 0) 10 (rs_new (bench_clocks 0)))"
  have fresh: "rs_reading (setMaxPoints (bench_clocks 0) 10 (rs_new (bench_clocks 0))) = None"
    "rs_mode (setMaxPoints (bench_clocks 0) 10 (rs_new (bench_clocks 0))) = Manual"
    "rs_staleMs (setMaxPoints (bench_clocks 0) 10 (rs_new (bench_clocks 0))) = 3000"
    using rs_frame_sel(15,19,23)[OF frame_trim(4)[of "bench_clocks 0" "(rs_new (bench_clocks 0))\<lparr>rs_maxPoints := max 2 10\<rparr>"]]
    by (simp_all add: setMaxPoints_def rs_new_def)
  have s: "rec_inv ?s" "rs_state ?s = Live" "rs_mode ?s = Manual" "rs_staleMs ?s = 3000"
    using inv_live[OF inv_fresh] fresh by (simp_all add: rs_live_def Let_def appendCurrent_def clear_state rs_emit_def rs_clear_def)
  show "rs_state bench_live = Live" "se_view (rs_series bench_live) \<noteq> []"
    "rs_reading bench_live = Some (bench_volts 100 (DFin False 3))" "rs_staleMs bench_live = 3000"
    using live_takes_reading[OF s(1,2) _ s(3), of "bench_volts 100 (DFin False 3)" "bench_clocks 100"] s(4)
    by (simp_all add: bench_live_def bench_volts_def)
qed

lemma bench_recording_facts:
  "rs_state bench_recording = Record" "se_view (rs_series bench_recording) \<noteq> []" "rs_t0 bench_recording = 300"
  "rs_preUsed bench_recording = 0" "rs_sampleLength bench_recording = 5" "rs_recordPort bench_recording = port0"
proof -
  let ?s = "setSampleLength (bench_clocks 300) 5 bench_live"
  have i: "rec_inv ?s" using rec_reach_inv[OF rec_reach.call[OF bench_reach(1), of "bench_clocks 300" "CSampleLength 5"]] by simp
  have "rs_frame ?s = rs_frame (bench_live\<lparr>rs_sampleLength := 5\<rparr>)" by (simp add: setSampleLength_def in_live_def)
  note fr = rs_frame_sel[OF this]
  show "rs_state bench_recording = Record" "se_view (rs_series bench_recording) \<noteq> []" "rs_t0 bench_recording = 300"
    "rs_preUsed bench_recording = 0" "rs_sampleLength bench_recording = 5" "rs_recordPort bench_recording = port0"
    using start_takes_current[OF i, of "bench_volts 100 (DFin False 3)" "bench_clocks 300"] fr bench_live_facts
    by (simp_all add: bench_recording_def) (simp_all add: bench_clocks_def bench_volts_def)
qed

subsection \<open>Every reachable recorder\<close>




theorem recording_takes_reading_witness:
  "rs_state (setReading (bench_clocks 900) (bench_volts 900 (DFin False 7)) bench_recording) = View \<and>
   rs_stopT (setReading (bench_clocks 900) (bench_volts 900 (DFin False 7)) bench_recording) = 500"
proof -
  have c: "function_changed (bench_volts 900 (DFin False 7)) bench_recording = False"
    "at_length (max 0 (vr_t (bench_volts 900 (DFin False 7)) - rs_t0 bench_recording)) bench_recording = True"
    "rec_limit bench_recording = 500"
    by (simp_all add: function_changed_def bench_recording_facts at_length_def rec_limit_def bench_volts_def)
  have i: "view_reading.vr_id (bench_volts 900 (DFin False 7)) = 0" by (simp add: bench_volts_def)
  show ?thesis
    using recording_takes_reading[OF bench_reach(2) bench_recording_facts(1) i bench_recording_facts(2), of "bench_clocks 900"]
    by (simp add: Let_def c)
qed


end
