(* ===== verification/Recording_Listeners.thy ===== *)
theory Recording_Listeners
  imports Recording_Runs
begin

text \<open>
  What follows the recorder by its signals alone: the views and the controller (\<open>stateChanged\<close>, \<open>runningChanged\<close>), and the
  table of the readings (\<open>src/src/recording/readingsmodel.cpp\<close>), which turns the pairs around every change into the begin and
  end calls of its item model.
\<close>

subsection \<open>A listener\<close>

record listener =
  li_state :: rec_state
  li_running :: bool
  li_rows :: int
  li_pending :: "int option"

definition listener0 :: listener where
  "listener0 = \<lparr>li_state = View, li_running = False, li_rows = 0, li_pending = None\<rparr>"

text \<open>
  A signal that an item model could not follow is \<open>None\<close>: rows that come anywhere but at the end or go anywhere but at the
  begin, an end without its begin, a mark on a row that is not there; and a state that is said to change and does not.
\<close>

definition ends :: "(int \<Rightarrow> bool) \<Rightarrow> listener \<Rightarrow> listener option" where
  "ends P l = (case li_pending l of
     Some n \<Rightarrow> if P n then Some (l\<lparr>li_rows := n, li_pending := None\<rparr>) else None
   | None \<Rightarrow> None)"

definition begins :: "bool \<Rightarrow> int \<Rightarrow> listener \<Rightarrow> listener option" where
  "begins ok n l = (if ok \<and> li_pending l = None then Some (l\<lparr>li_pending := Some n\<rparr>) else None)"

fun heard :: "rec_signal \<Rightarrow> listener \<Rightarrow> listener option" where
  "heard (StateChanged st) l = (if st \<noteq> li_state l then Some (l\<lparr>li_state := st\<rparr>) else None)"
| "heard (RunningChanged b) l = Some (l\<lparr>li_running := b\<rparr>)"
| "heard (ReadingsAboutToInsert a b) l = begins (a = li_rows l \<and> a \<le> b) (b + 1) l"
| "heard ReadingsInserted l = ends (\<lambda>n. li_rows l < n) l"
| "heard (ReadingsAboutToRemove a b) l = begins (a = 0 \<and> 0 \<le> b \<and> b < li_rows l) (li_rows l - (b + 1)) l"
| "heard ReadingsRemoved l = ends (\<lambda>n. n < li_rows l) l"
| "heard ReadingsAboutToClear l = begins (0 < li_rows l) 0 l"
| "heard ReadingsCleared l = ends (\<lambda>n. n = 0) l"
| "heard (ReadingMarked i) l = (if 0 \<le> i \<and> i < li_rows l \<and> li_pending l = None then Some l else None)"
| "heard _ l = Some l"

fun hears :: "rec_signal list \<Rightarrow> listener \<Rightarrow> listener option" where
  "hears [] l = Some l"
| "hears (e # es) l = Option.bind (heard e l) (hears es)"

definition listener_of :: "rec_store \<Rightarrow> listener" where
  "listener_of s = \<lparr>li_state = rs_state s, li_running = (rs_state s = Record), li_rows = int (length (rs_readings s)),
     li_pending = None\<rparr>"

definition followed :: "rec_store \<Rightarrow> bool" where
  "followed s \<longleftrightarrow> hears (rs_log s) listener0 = Some (listener_of s)"

lemma hears_append: "hears (a @ b) l = Option.bind (hears a l) (hears b)"
  by (induction a arbitrary: l) (simp_all split: Option.bind_split)

lemma followed_by:
  assumes "followed s" "rs_log t = rs_log s @ es" "hears es (listener_of s) = Some (listener_of t)"
  shows "followed t"
  using assms by (simp add: followed_def hears_append)

subsection \<open>What says nothing to it\<close>

fun aside :: "rec_signal \<Rightarrow> bool" where
  "aside (Appended b) = True" | "aside Cleared = True" | "aside Loaded = True" | "aside (ExtraAppended i) = True"
| "aside ExtrasChanged = True" | "aside ProgressChanged = True" | "aside MarksChanged = True" | "aside Alert = True"
| "aside (FunctionChanged a b) = True" | "aside _ = False"

lemma hears_aside: "list_all aside es \<Longrightarrow> hears es l = Some l"
proof (induction es)
  case (Cons e es)
  then show ?case by (cases e) simp_all
qed simp

definition quiet :: "rec_store \<Rightarrow> rec_store \<Rightarrow> bool" where
  "quiet s t \<longleftrightarrow> rs_state t = rs_state s \<and> rs_readings t = rs_readings s \<and>
     (\<exists>es. rs_log t = rs_log s @ es \<and> list_all aside es)"

lemma quiet_refl [simp]: "quiet s s"
  by (simp add: quiet_def)

lemma quiet_trans: "quiet s t \<Longrightarrow> quiet t u \<Longrightarrow> quiet s u"
  by (force simp: quiet_def)

lemma quiet_emit: "quiet s t \<Longrightarrow> aside e \<Longrightarrow> quiet s (rs_emit e t)"
  by (auto simp: quiet_def rs_emit_def)

lemma quiet_if: "quiet s t \<Longrightarrow> quiet s u \<Longrightarrow> quiet s (if b then t else u)"
  by simp

lemma quiet_same:
  "rs_state t = rs_state u \<Longrightarrow> rs_readings t = rs_readings u \<Longrightarrow> rs_log t = rs_log u \<Longrightarrow> quiet s u \<Longrightarrow> quiet s t"
  by (simp add: quiet_def)

lemma quiet_fold: "(\<And>x s. quiet s (f x s)) \<Longrightarrow> quiet s (fold f xs s)"
  by (induction xs arbitrary: s) (auto intro: quiet_trans)

lemma quiet_fold_snd:
  assumes "\<And>x acc. quiet (snd acc) (snd (f x acc))"
  shows "quiet (snd acc) (snd (fold f xs acc))"
proof (induction xs arbitrary: acc)
  case (Cons x xs)
  show ?case using quiet_trans[OF assms Cons.IH] by simp
qed simp

lemma followed_quiet:
  assumes "followed s" "quiet s t"
  shows "followed t"
proof -
  obtain es where "rs_log t = rs_log s @ es" "list_all aside es" using assms(2) by (auto simp: quiet_def)
  moreover have "listener_of t = listener_of s" using assms(2) by (simp add: quiet_def listener_of_def)
  ultimately show ?thesis using followed_by[OF assms(1)] hears_aside by simp
qed

lemma quiet_trim [simp]:
  "quiet s (marks_from t s)" "quiet s (snd (trimMain ck s))" "quiet s (snd (trimExtras ck s))" "quiet s (snd (trim ck s))"
  "quiet s (trimForLimits ck s)" "quiet s (in_live ck s)"
proof -
  show marks: "quiet s (marks_from t s)" for t s
    by (auto simp: quiet_def marks_from_def Let_def rs_emit_def)
  have two: "quiet s t \<Longrightarrow> quiet s (marks_from a t)" for a s t by (rule quiet_trans[OF _ marks])
  show main: "quiet s (snd (trimMain ck s))" for s
    unfolding trimMain_def Let_def
    by (simp, intro impI conjI two; simp add: quiet_def)
  show extras: "quiet s (snd (trimExtras ck s))" for s
    by (simp add: trimExtras_def Let_def case_prod_beta quiet_def)
  show all: "quiet s (snd (trim ck s))" for s
    using quiet_trans[OF main[of s] extras] by (simp add: trim_def case_prod_beta quiet_emit)
  show lim: "quiet s (trimForLimits ck s)" for s
    using all[of s] by (simp add: trimForLimits_def case_prod_beta quiet_emit)
  show "quiet s (in_live ck s)" using lim[of s] by (simp add: in_live_def)
qed

lemma quiet_points [simp]:
  "quiet s (appendPoint p s)" "quiet s (appendExtraPoint i p s)" "quiet s (rs_append ck p s)"
proof -
  show one: "quiet s (appendPoint p s)" for s by (simp add: quiet_def appendPoint_def case_prod_beta)
  show "quiet s (appendExtraPoint i p s)" by (simp add: quiet_def appendExtraPoint_def Let_def case_prod_beta)
  define t where "t = (if rs_state (appendPoint p s) = Record then (appendPoint p s)\<lparr>rs_dirty := True\<rparr> else appendPoint p s)"
  have "quiet s t" using one[of s] by (simp add: t_def quiet_def)
  then have "quiet s (snd (trim ck t))" by (rule quiet_trans) simp
  then show "quiet s (rs_append ck p s)" by (simp add: rs_append_def Let_def case_prod_beta t_def[symmetric] quiet_emit)
qed

lemma quiet_extra [simp]:
  "quiet s (extra_stored r p i b s)" "quiet s (extra_begun r s)" "quiet s (extra_named r i s)" "quiet s (extra_into r p s)"
  "quiet s (appendExtra r s)"
proof -
  show st: "quiet s (extra_stored r p i b s)" for p i b s
    using quiet_points(2)[of s i p] unfolding extra_stored_def Let_def
    by (intro quiet_if quiet_refl quiet_emit) (auto simp: quiet_def)
  show be: "quiet s (extra_begun r s)" for s by (simp add: extra_begun_def quiet_def split: option.split)
  show na: "quiet s (extra_named r i s)" for i s by (simp add: extra_named_def quiet_def)
  show into: "quiet s (extra_into r p s)" for p s
  proof -
    define s1 where "s1 = (if 0 \<le> extraIndex (rs_extra s) (vr_id r) \<and> extra_says r \<and>
        extra_other r (rs_extra s ! nat (extraIndex (rs_extra s) (vr_id r))) \<and>
        \<not> rp_gap (se_last (rs_extra s ! nat (extraIndex (rs_extra s) (vr_id r))))
      then appendExtraPoint (nat (extraIndex (rs_extra s) (vr_id r))) (stale_point (rp_t p)) s else s)"
    have 1: "quiet s s1" by (simp add: s1_def)
    have 2: "quiet s (extra_stored r p k b (extra_named r k (extra_begun r s1)))"
      "quiet s (extra_stored r p k b (extra_named r k s1))" for k b
      by (rule quiet_trans[OF quiet_trans[OF quiet_trans[OF 1 be] na] st], rule quiet_trans[OF quiet_trans[OF 1 na] st])
    show ?thesis using 1 2 unfolding extra_into_def Let_def by (auto simp: s1_def)
  qed
  have "quiet s (s\<lparr>rs_extraReading := x\<rparr>)" for x by (simp add: quiet_def)
  then show "quiet s (appendExtra r s)"
    using quiet_trans[OF _ into] by (simp add: appendExtra_def Let_def)
qed

lemma quiet_current [simp]: "quiet s (appendCurrent ck b s)"
proof -
  have one: "quiet s (appendCurrentExtra ck b r s)" for r s
  proof -
    have "quiet s (appendExtra q s)" for q by simp
    then show ?thesis by (simp add: appendCurrentExtra_def Let_def quiet_def)
  qed
  have "quiet s (fold (\<lambda>kr. appendCurrentExtra ck b (snd kr)) xs (rs_append ck p s))" for xs :: "(int \<times> view_reading) list" and p
    by (rule quiet_trans[of _ "rs_append ck p s"]) (simp_all add: quiet_fold one)
  then show ?thesis by (cases "rs_reading s") (simp_all add: appendCurrent_def Let_def)
qed

lemma quiet_live_part [simp]: "quiet s (appendLivePart ck part s)"
proof -
  have one: "quiet s (appendLiveExtra t sr s)" for t sr s
  proof -
    have "quiet s (s\<lparr>rs_extra := x\<rparr>)" for x by (simp add: quiet_def)
    moreover have "quiet u (fold (\<lambda>i st. appendExtraPoint (length (rs_extra st) - 1) (part_point t st (se_at sr i)) st) xs u)"
      for xs u by (rule quiet_fold) simp
    ultimately show ?thesis unfolding appendLiveExtra_def Let_def by (rule quiet_trans)
  qed
  have "quiet s (fold (\<lambda>p st. rs_append ck (part_point (lp_t0 part) st p) st) (lp_main part) s)"
    by (rule quiet_fold) simp
  then have "quiet s (fold (appendLiveExtra (lp_t0 part)) (lp_extra part)
      (fold (\<lambda>p st. rs_append ck (part_point (lp_t0 part) st p) st) (lp_main part) s))"
    by (rule quiet_trans) (simp add: quiet_fold one)
  then show ?thesis unfolding appendLivePart_def Let_def by (intro quiet_if quiet_emit) simp_all
qed

lemma quiet_gaps [simp]: "quiet s (closeSilentExtras now s)" "quiet s (setStale ck b s)"
proof -
  have one: "quiet (snd acc) (snd (closeSilentExtra now kr acc))" for kr acc
    by (simp add: closeSilentExtra_def Let_def)
  have "quiet s (snd (fold (closeSilentExtra now) (rs_extraReading s) (False, s)))"
    using quiet_fold_snd[of "closeSilentExtra now" "(False, s)"] one by simp
  then show "quiet s (closeSilentExtras now s)" by (simp add: closeSilentExtras_def case_prod_beta quiet_emit)
  have two: "quiet (snd acc) (snd (staleExtra ck i acc))" for i acc
    by (simp add: staleExtra_def Let_def)
  define t where "t = (case fold (staleExtra ck) [0 ..< length (rs_extra s)] (False, s) of
      (extras, s1) \<Rightarrow> if extras then rs_emit ExtrasChanged s1 else s1)"
  have "quiet s (snd (fold (staleExtra ck) [0 ..< length (rs_extra s)] (False, s)))"
    using quiet_fold_snd[of "staleExtra ck" "(False, s)"] two by simp
  then have t: "quiet s t" by (simp add: t_def case_prod_beta quiet_emit)
  have "setStale ck b s = (if \<not> b \<or> rs_state s = View then s
      else if se_isEmpty (rs_series t) \<or> rp_gap (se_last (rs_series t)) then t
      else rs_append ck (stale_point (stale_time ck (se_last (rs_series t)) t)) t)"
    by (simp add: setStale_def t_def Let_def case_prod_beta)
  then show "quiet s (setStale ck b s)" using t by (auto intro: quiet_trans)
qed

lemma quiet_clear [simp]: "quiet s (rs_clear ck s)"
  by (simp add: rs_clear_def Let_def quiet_emit quiet_def rs_emit_def)

subsection \<open>What it hears of\<close>

text \<open>A change of the state, with the signals that say so.\<close>

lemma followed_state:
  assumes "followed s" "quiet (s\<lparr>rs_state := st\<rparr>) t" "rs_log u = rs_log t @ es" "rs_state u = st" "rs_readings u = rs_readings t"
    and "hears es (listener_of s) = Some ((listener_of s)\<lparr>li_state := st, li_running := (st = Record)\<rparr>)"
  shows "followed u"
proof -
  obtain qs where q: "rs_log t = rs_log s @ qs" "list_all aside qs" "rs_readings t = rs_readings s"
    using assms(2) by (auto simp: quiet_def)
  have "listener_of u = (listener_of s)\<lparr>li_state := st, li_running := (st = Record)\<rparr>"
    using assms(4,5) q(3) by (simp add: listener_of_def)
  then show ?thesis
    using followed_by[OF assms(1), of u "qs @ es"] assms(3,6) q hears_aside by (simp add: hears_append)
qed

lemma started_sel:
  "rs_log (started was t) = rs_log t @ ProgressChanged # (if was \<noteq> Record then [StateChanged Record] else []) @ [RunningChanged True]"
  "rs_state (started was t) = rs_state t" "rs_readings (started was t) = rs_readings t"
  by (simp_all add: started_def Let_def rs_emit_def)

lemma followed_started:
  assumes "followed s" "quiet (s\<lparr>rs_state := Record\<rparr>) t"
  shows "followed (started (rs_state s) t)"
  using assms(2) by (intro followed_state[OF assms]) (auto simp: started_sel quiet_def listener_of_def)

lemma quiet_begun:
  "quiet (s\<lparr>rs_state := Record\<rparr>) ((rs_clear ck (s\<lparr>rs_state := Record\<rparr>))\<lparr>rs_stopT := a, rs_preUsed := b, rs_holdOrigin := d\<rparr>)"
  "quiet (s\<lparr>rs_state := Record\<rparr>) ((rs_clear ck (s\<lparr>rs_state := Record\<rparr>))\<lparr>rs_stopT := a, rs_preUsed := b, rs_t0 := t0, rs_start := st, rs_holdOrigin := d\<rparr>)"
  using quiet_clear[of "s\<lparr>rs_state := Record\<rparr>" ck] by (simp_all add: quiet_def)

text \<open>What a start does before it says so.\<close>

lemma begin_quiet: "\<exists>t. quiet (s\<lparr>rs_state := Record\<rparr>) t \<and> rs_begin ck ms s = started (rs_state s) t"
proof -
  define pre where "pre = (if ms > 0 \<and> rs_state s = Live then livePart (elapsed ck s - ms) s
    else \<lparr>lp_main = [], lp_extra = [], lp_t0 = 0\<rparr>)"
  define s1 where "s1 = (rs_clear ck (s\<lparr>rs_state := Record\<rparr>))\<lparr>rs_stopT := - 1, rs_preUsed := 0, rs_holdOrigin := False\<rparr>"
  have s1: "quiet (s\<lparr>rs_state := Record\<rparr>) s1" by (simp add: s1_def quiet_begun)
  define behind where "behind = max 0 (min (rs_t0 s1 - (lp_t0 pre + rp_t (hd (lp_main pre)))) ms)"
  define s4 where "s4 = appendLivePart ck pre (s1\<lparr>rs_t0 := rs_t0 s1 - behind, rs_start := rs_start s1 - behind, rs_preUsed := behind\<rparr>)"
  define s5 where "s5 = rs_emit MarksChanged
    (s4\<lparr>rs_marks := rs_marks s4 @ [\<lparr>mk_t = behind, mk_color = kTriggerColor, mk_name = lit ''Trigger''\<rparr>]\<rparr>)"
  have "quiet (s\<lparr>rs_state := Record\<rparr>) (s1\<lparr>rs_t0 := rs_t0 s1 - behind, rs_start := rs_start s1 - behind, rs_preUsed := behind\<rparr>)"
    using s1 by (simp add: quiet_def)
  then have "quiet (s\<lparr>rs_state := Record\<rparr>) s4" unfolding s4_def by (rule quiet_trans) simp
  then have "quiet (s\<lparr>rs_state := Record\<rparr>) (s4\<lparr>rs_marks := x\<rparr>)" for x by (simp add: quiet_def)
  then have live: "quiet (s\<lparr>rs_state := Record\<rparr>) s5" by (simp add: s5_def quiet_emit)
  have current: "quiet (s\<lparr>rs_state := Record\<rparr>) (appendCurrent ck False s1)" using quiet_trans[OF s1] by simp
  have "rs_begin ck ms s = started (rs_state s) (if lp_main pre \<noteq> [] then s5 else appendCurrent ck False s1)"
    by (simp only: rs_begin_def Let_def pre_def[symmetric] s1_def[symmetric] behind_def[symmetric] s4_def[symmetric] s5_def[symmetric])
  then show ?thesis using quiet_if[OF live current] by blast
qed

lemma followed_begin: "followed s \<Longrightarrow> followed (rs_begin ck ms s)"
  using begin_quiet[of s ck ms] followed_started by auto

lemma startAt_quiet: "\<exists>t. quiet (s\<lparr>rs_state := Record\<rparr>) t \<and> startAt ck t0 st s = started (rs_state s) t"
proof -
  define since where "since = (if rs_state s = Live then livePart (t0 - rs_t0 s) s else \<lparr>lp_main = [], lp_extra = [], lp_t0 = 0\<rparr>)"
  define s1 where "s1 = (rs_clear ck (s\<lparr>rs_state := Record\<rparr>))\<lparr>rs_stopT := - 1, rs_preUsed := 0, rs_t0 := t0, rs_start := st,
    rs_holdOrigin := True\<rparr>"
  have s1: "quiet (s\<lparr>rs_state := Record\<rparr>) s1" by (simp add: s1_def quiet_begun)
  have "startAt ck t0 st s = started (rs_state s) (if length (lp_main since) > 1 then appendLivePart ck since s1 else appendCurrent ck True s1)"
    by (simp add: startAt_def Let_def since_def s1_def)
  then show ?thesis
    using quiet_if[OF quiet_trans[OF s1 quiet_live_part] quiet_trans[OF s1 quiet_current]] by blast
qed

lemma followed_startAt: "followed s \<Longrightarrow> followed (startAt ck t0 st s)"
  using startAt_quiet[of s ck t0 st] followed_started by auto

lemma followed_stop: "followed s \<Longrightarrow> followed ((rs_stop ck s)\<lparr>rs_stopT := t\<rparr>)" "followed s \<Longrightarrow> followed (rs_stop ck s)"
proof -
  assume s: "followed s"
  have "followed u" if "rs_log u = rs_log (rs_stop ck s)" "rs_state u = rs_state (rs_stop ck s)" "rs_readings u = rs_readings s" for u
  proof (cases "rs_state s = Record")
    case True
    show ?thesis
      by (rule followed_state[OF s, of View "s\<lparr>rs_state := View\<rparr>" _ "[ProgressChanged, StateChanged View, RunningChanged False]"])
        (use True that in \<open>simp_all add: rs_stop_def Let_def rs_emit_def listener_of_def\<close>)
  next
    case False
    then show ?thesis using s that by (simp add: followed_def listener_of_def rs_stop_def)
  qed
  then show "followed ((rs_stop ck s)\<lparr>rs_stopT := t\<rparr>)" "followed (rs_stop ck s)"
    by (simp_all add: rs_stop_def Let_def rs_emit_def)
qed

text \<open>What Live and a file say when they come.\<close>

definition live_signals :: "rec_state \<Rightarrow> rec_signal list" where
  "live_signals was = ProgressChanged # (if was \<noteq> Live then [StateChanged Live] else []) @
     (if was = Record then [RunningChanged False] else [])"

definition load_signals :: "rec_state \<Rightarrow> rec_signal list" where
  "load_signals was = [MarksChanged, Loaded] @ (if was \<noteq> View then [StateChanged View] else []) @
     (if was = Record then [RunningChanged False] else [])"

lemma live_quiet:
  "\<exists>t. quiet (s\<lparr>rs_state := Live\<rparr>) t \<and> rs_log (rs_live ck s) = rs_log t @ live_signals (rs_state s) \<and>
     rs_state (rs_live ck s) = Live \<and> rs_readings (rs_live ck s) = rs_readings t"
proof -
  define s1 where "s1 = (rs_clear ck (s\<lparr>rs_state := Live\<rparr>))\<lparr>rs_preUsed := 0, rs_holdOrigin := False, rs_lastValValid := False\<rparr>"
  have "quiet (s\<lparr>rs_state := Live\<rparr>) s1" using quiet_clear[of "s\<lparr>rs_state := Live\<rparr>" ck] by (simp add: quiet_def s1_def)
  then have q: "quiet (s\<lparr>rs_state := Live\<rparr>) (appendCurrent ck False s1)" by (rule quiet_trans) simp
  have l: "rs_live ck s = (let s2 = rs_emit ProgressChanged (appendCurrent ck False s1);
      s3 = (if rs_state s \<noteq> Live then rs_emit (StateChanged Live) s2 else s2)
    in if rs_state s = Record then rs_emit (RunningChanged False) s3 else s3)"
    by (simp add: rs_live_def Let_def s1_def)
  show ?thesis
    by (rule exI[of _ "appendCurrent ck False s1"])
      (use q in \<open>auto simp: l Let_def rs_emit_def quiet_def live_signals_def\<close>)
qed

lemma followed_live:
  assumes "followed s"
  shows "followed (rs_live ck s)"
proof -
  obtain t where t: "quiet (s\<lparr>rs_state := Live\<rparr>) t" "rs_log (rs_live ck s) = rs_log t @ live_signals (rs_state s)"
    "rs_state (rs_live ck s) = Live" "rs_readings (rs_live ck s) = rs_readings t"
    using live_quiet by blast
  show ?thesis by (rule followed_state[OF assms t]) (auto simp: live_signals_def listener_of_def)
qed

subsection \<open>Every call\<close>

lemma followed_rows:
  assumes "followed s" "log_ok s"
  shows "followed (logRow row s)" "followed (logReading r s)" "followed (logRows rows s)" "followed (setReadingCapacity n s)"
    "followed (clearReadings s)" "followed (markLastReading c nm s)"
proof -
  have l: "1 \<le> rs_readingCapacity s" "int (length (rs_readings s)) \<le> rs_readingCapacity s"
    using assms(2) by (simp_all add: log_ok_def)
  show row: "followed (logRow row s)" for row
  proof (cases "rs_readingsPaused s")
    case False
    let ?n = "int (length (rs_readings s))"
    show ?thesis
    proof (cases "?n \<ge> rs_readingCapacity s")
      case True
      then have n: "?n = rs_readingCapacity s" using l by simp
      show ?thesis
        by (rule followed_by[OF assms(1), of _ "[ReadingsAboutToRemove 0 0, ReadingsRemoved,
              ReadingsAboutToInsert (?n - 1) (?n - 1), ReadingsInserted]"])
          (use False n l in \<open>simp_all add: logRow_def removeOldestReadings_def rs_emit_def Let_def listener_of_def begins_def ends_def\<close>)
    next
      case False
      show ?thesis
        by (rule followed_by[OF assms(1), of _ "[ReadingsAboutToInsert ?n ?n, ReadingsInserted]"])
          (use False \<open>\<not> rs_readingsPaused s\<close> in \<open>simp_all add: logRow_def rs_emit_def Let_def listener_of_def begins_def ends_def\<close>)
    qed
  qed (simp add: logRow_def assms(1))
  show "followed (logReading r s)" using logReading_row[of r s] row assms(1) by metis
  show "followed (logRows rows s)"
  proof (cases "rs_readingsPaused s \<or> rows = []")
    case False
    let ?n = "int (length (rs_readings s))"
    define kept where "kept = List.drop (nat (max 0 (int (length rows) - rs_readingCapacity s))) rows"
    have k: "0 < length kept" "int (length kept) \<le> rs_readingCapacity s"
      using False l(1) by (auto simp: kept_def max_def)
    define over where "over = ?n + int (length kept) - rs_readingCapacity s"
    have o: "over \<le> ?n" "rs_readingCapacity s < ?n + int (length kept) \<longleftrightarrow> over > 0" using k l by (auto simp: over_def)
    let ?m = "if over > 0 then ?n - over else ?n"
    have "rs_log (logRows rows s) = rs_log s @ ((if over > 0 then [ReadingsAboutToRemove 0 (over - 1), ReadingsRemoved] else []) @
        [ReadingsAboutToInsert ?m (?m + int (length kept) - 1), ReadingsInserted])"
      using False o by (simp add: logRows_def Let_def kept_def[symmetric] over_def[symmetric] removeOldestReadings_def rs_emit_def of_nat_diff)
    moreover have "rs_readings (logRows rows s) = (if over > 0 then List.drop (nat over) (rs_readings s) else rs_readings s) @ kept"
      "rs_state (logRows rows s) = rs_state s"
      using False o(2) by (simp_all add: logRows_def Let_def kept_def[symmetric] over_def[symmetric] removeOldestReadings_def rs_emit_def)
    ultimately show ?thesis
      using k o by (intro followed_by[OF assms(1)]) (auto simp: listener_of_def begins_def ends_def of_nat_diff)
  qed (auto simp: logRows_def assms(1))
  show "followed (setReadingCapacity n s)"
  proof (cases "int (length (rs_readings s)) > max 1 n")
    case True
    then show ?thesis
      by (intro followed_by[OF assms(1), of _ "[ReadingsAboutToRemove 0 (int (length (rs_readings s)) - max 1 n - 1), ReadingsRemoved]"])
        (auto simp: setReadingCapacity_def removeOldestReadings_def rs_emit_def Let_def listener_of_def begins_def ends_def)
  next
    case False
    then have "setReadingCapacity n s = s\<lparr>rs_readingCapacity := max 1 n\<rparr>" by (auto simp: setReadingCapacity_def Let_def)
    then show ?thesis using assms(1) by (simp add: followed_def listener_of_def)
  qed
  show "followed (clearReadings s)"
    using assms(1) by (intro followed_by[OF assms(1), of _ "if rs_readings s = [] then [] else [ReadingsAboutToClear, ReadingsCleared]"])
      (auto simp: clearReadings_def rs_emit_def listener_of_def begins_def ends_def)
  show "followed (markLastReading c nm s)"
    using assms(1) by (intro followed_by[OF assms(1), of _ "if rs_readings s = [] then [] else [ReadingMarked (int (length (rs_readings s) - 1))]"])
      (auto simp: markLastReading_def rs_emit_def listener_of_def Let_def Suc_leI)
qed

lemma followed_same: "followed s \<Longrightarrow> rs_log t = rs_log s \<Longrightarrow> rs_state t = rs_state s \<Longrightarrow> rs_readings t = rs_readings s \<Longrightarrow> followed t"
  by (simp add: followed_def listener_of_def)

lemma followed_length: "followed s \<Longrightarrow> followed (snd (lengthReached ck t s))"
  using followed_stop(1)[of "rs_emit Alert s"] followed_quiet[of s "rs_emit Alert s"] quiet_emit[OF quiet_refl]
  by (simp add: lengthReached_def Let_def)

lemma followed_trigger: "followed s \<Longrightarrow> followed (snd (trigger ck v s))"
proof -
  assume s: "followed s"
  have "followed (rs_emit Alert s)" using followed_quiet[OF s] quiet_emit[OF quiet_refl] by simp
  then have "followed (if b then rs_begin ck (rs_preMs s) (rs_emit Alert s) else s)" for b using s followed_begin by simp
  moreover have "followed t \<Longrightarrow> followed (t\<lparr>rs_lastValValid := True, rs_lastVal := v\<rparr>)" for t by (rule followed_same) simp_all
  ultimately show ?thesis by (simp only: trigger_def Let_def snd_conv split: if_split) simp
qed

lemma followed_reading:
  assumes "followed s" "log_ok s"
  shows "followed (setReading ck r s)"
proof -
  have store: "followed (store_reading ck r t)" if "followed t" for t
  proof -
    define u where "u = begin_time r (closeSilentExtras (vr_t r) t)"
    have "quiet t (closeSilentExtras (vr_t r) t)" by simp
    moreover have "quiet v (begin_time r v)" for v by (simp add: begin_time_def quiet_emit) (simp add: quiet_def rs_emit_def)
    ultimately have u: "followed u" unfolding u_def using followed_quiet[OF that] quiet_trans by blast
    have a: "followed (rs_append ck p w)" if "followed w" for p w using followed_quiet[OF that] by simp
    show ?thesis
      by (auto simp: store_reading_def Let_def u_def[symmetric] case_prod_beta a u followed_length intro: followed_trigger)
  qed
  have l: "followed (logReading r s)" by (rule followed_rows(2)[OF assms])
  have tf: "followed t \<Longrightarrow> followed (take_function r t)" for t by (rule followed_same[of t]) (simp_all add: take_function_def)
  have extra: "followed (appendExtra r (logReading r s))" using followed_quiet[OF l] by simp
  define s1 where "s1 = (logReading r s)\<lparr>rs_reading := Some r\<rparr>"
  have s1: "followed s1" by (rule followed_same[OF l]) (simp_all add: s1_def)
  have c: "followed ((rs_clear ck s1)\<lparr>rs_lastValValid := False\<rparr>)"
    using followed_quiet[OF s1, of "rs_clear ck s1"] followed_same by simp
  have f: "followed (rs_emit (FunctionChanged a b) (rs_stop ck s1))" for a b
    by (rule followed_quiet[OF followed_stop(2)[OF s1] quiet_emit[OF quiet_refl]]) simp
  show ?thesis
    by (simp add: setReading_def Let_def s1_def[symmetric] s1 store tf c f extra followed_trigger)
qed

lemma load_quiet:
  "\<exists>t. quiet (s\<lparr>rs_state := View\<rparr>) t \<and> rs_log (load r s) = rs_log t @ load_signals (rs_state s) \<and>
     rs_state (load r s) = View \<and> rs_readings (load r s) = rs_readings t"
proof -
  have row: "quiet u (load_row r i u)" for i u by (simp add: load_row_def)
  have cell: "quiet u (load_cell r col i u)" for col i u by (simp add: load_cell_def)
  have column: "quiet u (load_column r ic u)" for ic u
  proof -
    have "quiet u (u\<lparr>rs_extra := x\<rparr>)" for x by (simp add: quiet_def)
    then have "quiet u (fold (load_cell r (snd ic)) xs (u\<lparr>rs_extra := x\<rparr>))" for xs x
      using quiet_trans quiet_fold[of "load_cell r (snd ic)"] cell by blast
    moreover have "quiet u v \<Longrightarrow> quiet u (v\<lparr>rs_extra := x\<rparr>)" for v x by (simp add: quiet_def)
    ultimately show ?thesis by (simp add: load_column_def Let_def)
  qed
  define s1 where "s1 = fold (load_row r) [0 ..< length (re_values r)] (load_begun r s)"
  define s2 where "s2 = fold (load_column r) (enumerate 0 (re_extra r)) s1"
  have "quiet (s\<lparr>rs_state := View\<rparr>) (load_begun r s)" by (simp add: quiet_def load_begun_def)
  then have "quiet (s\<lparr>rs_state := View\<rparr>) s1" unfolding s1_def by (rule quiet_trans) (simp add: quiet_fold row)
  then have q: "quiet (s\<lparr>rs_state := View\<rparr>) s2" unfolding s2_def by (rule quiet_trans) (simp add: quiet_fold column)
  show ?thesis
    by (rule exI[of _ s2])
      (use q in \<open>auto simp: load_def Let_def s1_def[symmetric] s2_def[symmetric] rs_emit_def quiet_def load_signals_def\<close>)
qed

lemma followed_load:
  assumes "followed s"
  shows "followed (load r s)"
proof -
  obtain t where t: "quiet (s\<lparr>rs_state := View\<rparr>) t" "rs_log (load r s) = rs_log t @ load_signals (rs_state s)"
    "rs_state (load r s) = View" "rs_readings (load r s) = rs_readings t"
    using load_quiet by blast
  show ?thesis by (rule followed_state[OF assms t]) (auto simp: load_signals_def listener_of_def)
qed

lemma followed_poll:
  assumes "followed s"
  shows "followed (poll ck s)"
proof -
  have e: "followed (rs_emit x t)" if "followed t" "aside x" for x t by (rule followed_quiet[OF that(1) quiet_emit[OF quiet_refl that(2)]])
  define s1 where "s1 = (if rs_state s = Live \<and> rs_mode s = AtTime \<and> secsTo (rs_startTime s) (ck_time ck) \<ge> 0 \<and>
    secsTo (rs_startTime s) (ck_time ck) < 2 then rs_start_now ck (rs_emit Alert s) else s)"
  have s1: "followed s1" using followed_begin[OF e[OF assms]] assms by (simp add: s1_def rs_start_now_def)
  have "poll ck s = (if rs_state s1 = Live then rs_emit ProgressChanged s1 else if rs_state s1 = Record then
      (if fst (lengthReached ck (elapsed ck s1) s1) then snd (lengthReached ck (elapsed ck s1) s1)
       else rs_emit ProgressChanged (snd (lengthReached ck (elapsed ck s1) s1))) else s1)"
    by (simp add: poll_def Let_def s1_def case_prod_beta)
  then show ?thesis using s1 followed_length[OF s1] e by simp
qed

lemma followed_setup: "followed s \<Longrightarrow> followed (applySetup ck su lead s)"
proof -
  assume s: "followed s"
  have live: "quiet u (in_live ck u)" for u by simp
  have "quiet s (applySetup ck su lead s)"
  proof -
    define s1 where "s1 = setSampleTime (su_sampleTime su) s"
    define s3 where "s3 = setPreTrigger ck (su_preTrigger su) (setSampleLength ck (su_sampleLength su) s1)"
    have 1: "quiet s s1" by (simp add: s1_def setSampleTime_def quiet_def)
    have 2: "quiet s1 (setSampleLength ck n s1)" for n
      unfolding setSampleLength_def by (rule quiet_trans[OF _ live]) (simp add: quiet_def)
    have "quiet u (setPreTrigger ck n u)" for u n
      unfolding setPreTrigger_def by (rule quiet_trans[OF _ live]) (simp add: quiet_def)
    then have "quiet s s3" unfolding s3_def by (rule quiet_trans[OF quiet_trans[OF 1 2]])
    then show ?thesis
      by (auto simp: applySetup_def Let_def s1_def[symmetric] s3_def[symmetric] setThresholds_def setTriggerValue_def
          intro: quiet_same[rotated 3])
  qed
  then show ?thesis by (rule followed_quiet[OF s])
qed

lemma followed_step:
  assumes "followed s" "rec_inv s"
  shows "followed (rec_step ck c s)"
proof -
  have l: "log_ok s" using assms(2) by (simp add: rec_inv_def)
  have same: "rs_log t = rs_log s \<Longrightarrow> rs_state t = rs_state s \<Longrightarrow> rs_readings t = rs_readings s \<Longrightarrow> followed t" for t
    by (rule followed_same[OF assms(1)])
  have live: "rs_log t = rs_log s \<Longrightarrow> rs_state t = rs_state s \<Longrightarrow> rs_readings t = rs_readings s \<Longrightarrow> followed (in_live ck t)" for t
    using followed_quiet[OF same] by simp
  have mark: "followed (rs_emit MarksChanged (s\<lparr>rs_marks := x\<rparr>))" for x
    by (rule followed_quiet[OF same quiet_emit[OF quiet_refl]]) simp_all
  show ?thesis
    using assms followed_quiet[OF assms(1)]
    by (cases c) (simp_all add: followed_reading l followed_poll rs_start_now_def followed_begin followed_startAt followed_stop
        followed_live forgetReading_def holdOrigin_def addMark_def Let_def mark followed_load rs_write_def followed_setup
        setSampleTime_def setSampleLength_def setPreTrigger_def setLiveWidth_def live setThresholds_def setTriggerValue_def
        setUnit_def followed_rows same)
qed

lemma followed_reach: "rec_reach s \<Longrightarrow> followed s \<and> rec_inv s"
proof (induction rule: rec_reach.induct)
  case (fresh ck n)
  have "quiet u (trimForLimits ck u)" for u by simp
  moreover have "followed ((rs_new ck)\<lparr>rs_maxPoints := max 2 n\<rparr>)"
    by (simp add: followed_def rs_new_def listener_of_def listener0_def)
  ultimately show ?case using followed_quiet inv_fresh by (simp add: setMaxPoints_def)
qed (simp add: followed_step rec_step_inv)



end
