(* ===== verification/Min_Max.thy ===== *)
theory Min_Max
  imports Reading_Adapter
begin

text \<open>
  \<open>src/src/core/minmaxmemory.h\<close>: the smallest and the largest of the readings of one value, afresh when the meter measures
  something else; and that it is what a memory of all these readings would say.
\<close>

record min_max =
  mm_min :: dbl
  mm_max :: dbl
  mm_sum :: dbl
  mm_count :: int
  mm_port :: port_key
  mm_baseUnit :: qstring

definition kEmptyMin :: dbl where "kEmptyMin = dlit (10 ^ 20)"
definition kEmptyMax :: dbl where "kEmptyMax = dlit (- (10 ^ 20))"

definition min_max0 :: min_max where
  "min_max0 = \<lparr>mm_min = kEmptyMin, mm_max = kEmptyMax, mm_sum = d_zero, mm_count = 0, mm_port = port0, mm_baseUnit = []\<rparr>"

record mm_result =
  mr_reset :: bool
  mr_newMin :: bool
  mr_newMax :: bool

definition mm_clear :: "min_max \<Rightarrow> min_max" where
  "mm_clear m = m\<lparr>mm_min := kEmptyMin, mm_max := kEmptyMax, mm_port := port0, mm_baseUnit := [], mm_sum := d_zero, mm_count := 0\<rparr>"

definition says_port :: "view_reading \<Rightarrow> bool" where
  "says_port r \<longleftrightarrow> \<not> vr_overload r \<and> \<not> noNumber r \<and> pk_quantity (vr_port r) \<noteq> Unknown"

definition mm_feed :: "view_reading \<Rightarrow> min_max \<Rightarrow> mm_result \<times> min_max" where
  "mm_feed r m =
     (let reset = (says_port r \<and> port_valid (mm_port m) \<and> (vr_port r \<noteq> mm_port m \<or> vr_baseUnit r \<noteq> mm_baseUnit m));
          m1 = (if reset then mm_clear m else m);
          m2 = (if says_port r then m1\<lparr>mm_port := vr_port r, mm_baseUnit := vr_baseUnit r\<rparr> else m1);
          newMax = d_lt (mm_max m2) (vr_value r);
          m3 = (if newMax then m2\<lparr>mm_max := vr_value r\<rparr> else m2);
          newMin = d_lt (vr_value r) (mm_min m3);
          m4 = (if newMin then m3\<lparr>mm_min := vr_value r\<rparr> else m3);
          m5 = (if \<not> vr_overload r \<and> \<not> d_isnan (vr_value r)
                then m4\<lparr>mm_sum := d_add (mm_sum m4) (vr_value r), mm_count := mm_count m4 + 1\<rparr> else m4)
      in (\<lparr>mr_reset = reset, mr_newMin = newMin, mr_newMax = newMax\<rparr>, m5))"

definition mm_mean :: "min_max \<Rightarrow> dbl" where
  "mm_mean m = (if mm_count m \<noteq> 0 then d_div (mm_sum m) (dbl_of (of_int (mm_count m))) else DNan False)"

definition mm_isEmpty :: "min_max \<Rightarrow> bool" where
  "mm_isEmpty m = d_lt (mm_max m) (mm_min m)"

subsection \<open>A memory of all readings\<close>

text \<open>What is measured, and the values since it was measured first.\<close>

type_synonym mm_history = "port_key \<times> qstring \<times> dbl list"

fun history_feed :: "view_reading \<Rightarrow> mm_history \<Rightarrow> mm_history" where
  "history_feed r (p, u, vs) =
     (let new = (says_port r \<and> port_valid p \<and> (vr_port r \<noteq> p \<or> vr_baseUnit r \<noteq> u));
          pu = (if says_port r then (vr_port r, vr_baseUnit r) else (p, u))
      in (fst pu, snd pu, (if new then [] else vs) @ (if d_isnan (vr_value r) then [] else [vr_value r])))"

definition plain_reading :: "view_reading \<Rightarrow> bool" where
  "plain_reading r \<longleftrightarrow> (if vr_overload r then d_isnan (vr_value r)
     else d_isnan (vr_value r) \<or> (d_lt kEmptyMax (vr_value r) \<and> d_lt (vr_value r) kEmptyMin))"

fun remembers :: "mm_history \<Rightarrow> min_max \<Rightarrow> bool" where
  "remembers (p, u, vs) m \<longleftrightarrow>
     mm_port m = p \<and> mm_baseUnit m = u \<and> mm_count m = int (length vs) \<and> mm_sum m = foldl d_add d_zero vs \<and>
     (if vs = [] then mm_min m = kEmptyMin \<and> mm_max m = kEmptyMax
      else mm_min m \<in> set vs \<and> mm_max m \<in> set vs \<and> (\<forall>v \<in> set vs. d_le (mm_min m) v \<and> d_le v (mm_max m)))"

lemma remembers_empty: "remembers (port0, [], []) min_max0"
  by (simp add: min_max0_def)

text \<open>Beyond every value of a meter.\<close>

lemma empty_beyond:
  assumes "0 \<le> q" "q < 2 ^ 52"
  shows "d_lt (DFin s q) kEmptyMin" "d_lt kEmptyMax (DFin s q)"
proof -
  have "rnd (of_int (2 ^ 52)) \<le> rnd (10 ^ 20)" by (rule rnd_mono) simp
  then have "2 ^ 52 \<le> rnd (10 ^ 20)" using rnd_int[of "2 ^ 52"] by simp
  then have m: "dbl_mag t (10 ^ 20) = DInf t \<or> (\<exists>m. dbl_mag t (10 ^ 20) = DFin t m \<and> 2 ^ 52 \<le> m)" for t
    by (simp add: dbl_mag_def Let_def)
  moreover have "kEmptyMin = dbl_mag False (10 ^ 20)" "kEmptyMax = dbl_mag True (10 ^ 20)"
    by (simp_all add: kEmptyMin_def kEmptyMax_def dbl_of_def)
  ultimately have lo: "kEmptyMin = DInf False \<or> (\<exists>m. kEmptyMin = DFin False m \<and> 2 ^ 52 \<le> m)"
    and hi: "kEmptyMax = DInf True \<or> (\<exists>m. kEmptyMax = DFin True m \<and> 2 ^ 52 \<le> m)" by metis+
  have "x = DInf False \<or> (\<exists>m. x = DFin False m \<and> 2 ^ 52 \<le> m) \<Longrightarrow> d_lt (DFin s q) x"
    "x = DInf True \<or> (\<exists>m. x = DFin True m \<and> 2 ^ 52 \<le> m) \<Longrightarrow> d_lt x (DFin s q)" for x
    using assms by auto
  then show "d_lt (DFin s q) kEmptyMin" "d_lt kEmptyMax (DFin s q)" using lo hi by blast+
qed

lemma empty_bounds: "d_lt kEmptyMax kEmptyMin"
  using d_lt_trans[OF empty_beyond(2,1)[of 0 False]] by simp

lemma extreme_added:
  assumes "\<not> d_isnan v" "vs = [] \<Longrightarrow> lo = kEmptyMin \<and> hi = kEmptyMax \<and> d_lt kEmptyMax v \<and> d_lt v kEmptyMin"
    and "vs \<noteq> [] \<Longrightarrow> lo \<in> set vs \<and> hi \<in> set vs \<and> (\<forall>w \<in> set vs. d_le lo w \<and> d_le w hi)"
  defines "lo' \<equiv> if d_lt v lo then v else lo" and "hi' \<equiv> if d_lt hi v then v else hi"
  shows "lo' \<in> set (vs @ [v])" "hi' \<in> set (vs @ [v])" "\<forall>w \<in> set (vs @ [v]). d_le lo' w \<and> d_le w hi'"
proof -
  have n: "vs \<noteq> [] \<Longrightarrow> \<not> d_isnan lo \<and> \<not> d_isnan hi" using assms(3) d_le_nan by blast
  show "lo' \<in> set (vs @ [v])" "hi' \<in> set (vs @ [v])" using assms(2,3) by (auto simp: lo'_def hi'_def)
  have lt: "d_lt a b \<Longrightarrow> d_le a b" for a b by (simp add: d_le_def)
  show "\<forall>w \<in> set (vs @ [v]). d_le lo' w \<and> d_le w hi'"
  proof (cases "vs = []")
    case True
    then show ?thesis using assms(1,2) by (auto simp: lo'_def hi'_def d_le_refl)
  next
    case False
    then have "d_le lo w" "d_le w hi" if "w \<in> set vs" for w using assms(3) that by auto
    moreover have "d_le lo' v" "d_le v hi'" "d_le lo' lo" "d_le hi hi'"
      using assms(1) n[OF False] lt d_not_lt d_le_refl by (auto simp: lo'_def hi'_def)
    ultimately show ?thesis by (auto intro: d_le_trans)
  qed
qed

lemma remembers_feed:
  assumes "remembers h m" "plain_reading r"
  shows "remembers (history_feed r h) (snd (mm_feed r m))"
proof -
  obtain p u vs where h: "h = (p, u, vs)" by (cases h) auto
  define new where "new \<longleftrightarrow> says_port r \<and> port_valid p \<and> (vr_port r \<noteq> p \<or> vr_baseUnit r \<noteq> u)"
  define m2 where "m2 = (if says_port r then (if new then mm_clear m else m)\<lparr>mm_port := vr_port r, mm_baseUnit := vr_baseUnit r\<rparr>
    else (if new then mm_clear m else m))"
  define ws where "ws = (if new then [] else vs)"
  have pu: "mm_port m = p" "mm_baseUnit m = u" using assms(1) by (simp_all add: h)
  have 2: "mm_count m2 = int (length ws)" "mm_sum m2 = foldl d_add d_zero ws"
    "ws = [] \<Longrightarrow> mm_min m2 = kEmptyMin \<and> mm_max m2 = kEmptyMax"
    "ws \<noteq> [] \<Longrightarrow> mm_min m2 \<in> set ws \<and> mm_max m2 \<in> set ws \<and> (\<forall>w \<in> set ws. d_le (mm_min m2) w \<and> d_le w (mm_max m2))"
    using assms(1) by (auto simp: h m2_def ws_def mm_clear_def)
  have port: "mm_port m2 = (if says_port r then vr_port r else p)" "mm_baseUnit m2 = (if says_port r then vr_baseUnit r else u)"
    using pu by (auto simp: m2_def mm_clear_def new_def)
  have feed: "snd (mm_feed r m) = (let v = vr_value r; lo = (if d_lt v (mm_min m2) then v else mm_min m2);
        hi = (if d_lt (mm_max m2) v then v else mm_max m2); m4 = m2\<lparr>mm_min := lo, mm_max := hi\<rparr>
      in if \<not> vr_overload r \<and> \<not> d_isnan v then m4\<lparr>mm_sum := d_add (mm_sum m2) v, mm_count := mm_count m2 + 1\<rparr> else m4)"
    by (simp only: mm_feed_def Let_def pu new_def[symmetric] m2_def[symmetric] snd_conv) simp
  have hist: "history_feed r h = (mm_port m2, mm_baseUnit m2, ws @ (if d_isnan (vr_value r) then [] else [vr_value r]))"
    by (simp only: h history_feed.simps Let_def new_def[symmetric] ws_def[symmetric] port) simp
  show ?thesis
  proof (cases "d_isnan (vr_value r)")
    case True
    then have "\<not> d_lt (vr_value r) (mm_min m2)" "\<not> d_lt (mm_max m2) (vr_value r)" using d_lt_nan by blast+
    then show ?thesis
      using True 2 by (auto simp: hist feed Let_def)
  next
    case False
    then have v: "\<not> vr_overload r" "d_lt kEmptyMax (vr_value r)" "d_lt (vr_value r) kEmptyMin"
      using assms(2) by (auto simp: plain_reading_def split: if_splits)
    note e = extreme_added[OF False, of ws "mm_min m2" "mm_max m2"]
    show ?thesis
      using False 2(1,2) e 2(3,4) v by (simp add: hist feed Let_def)
  qed
qed

lemma remembers_readings:
  assumes "list_all plain_reading rs" "remembers h m"
  shows "remembers (fold history_feed rs h) (fold (\<lambda>r m. snd (mm_feed r m)) rs m)"
  using assms by (induction rs arbitrary: h m) (simp_all add: remembers_feed)

text \<open>
  C34: The minimum and the maximum are the smallest and the largest of the values since the meter began to measure what it
  measures now, whatever overloads, faults and range changes came between; the count and the sum are those of these values,
  and the memory is empty exactly when there is none.
\<close>

theorem min_max_of_readings:
  assumes "list_all plain_reading rs"
  shows "let m = fold (\<lambda>r m. snd (mm_feed r m)) rs min_max0; vs = snd (snd (fold history_feed rs (port0, [], []))) in
    (mm_isEmpty m \<longleftrightarrow> vs = []) \<and> mm_count m = int (length vs) \<and> mm_sum m = foldl d_add d_zero vs \<and>
    (vs \<noteq> [] \<longrightarrow> mm_min m \<in> set vs \<and> mm_max m \<in> set vs \<and> (\<forall>v \<in> set vs. d_le (mm_min m) v \<and> d_le v (mm_max m)))"
proof -
  define m where "m = fold (\<lambda>r m. snd (mm_feed r m)) rs min_max0"
  obtain p u vs where h: "fold history_feed rs (port0, [], []) = (p, u, vs)" by (metis prod.collapse)
  have r: "remembers (p, u, vs) m" using remembers_readings[OF assms remembers_empty] by (simp add: m_def h)
  have "\<not> d_lt (mm_max m) (mm_min m)" if ne: "vs \<noteq> []"
  proof -
    obtain v where "v \<in> set vs" using ne by (cases vs) auto
    then have "d_le (mm_min m) v" "d_le v (mm_max m)" using r ne by auto
    then have "d_le (mm_min m) (mm_max m)" by (rule d_le_trans)
    then show ?thesis using d_le_lt_trans d_lt_irrefl by blast
  qed
  then have "mm_isEmpty m \<longleftrightarrow> vs = []" using r empty_bounds by (auto simp: mm_isEmpty_def)
  then show ?thesis using r by (simp add: m_def[symmetric] h)
qed

definition extremes_bench :: "dbl \<Rightarrow> bool \<Rightarrow> quantity \<Rightarrow> view_reading" where
  "extremes_bench v ol q = \<lparr>vr_value = v, vr_text = [], vr_unit = [], vr_prefix = [], vr_baseUnit = [], vr_range = [],
     vr_hold = False, vr_showBar = False, vr_overload = ol, vr_id = 0, vr_msecs = 1, vr_t = 1,
     vr_port = port0\<lparr>pk_quantity := q\<rparr>, vr_portUnit = [], vr_flags = 0, vr_quality = Valid,
     vr_measuringRange = \<lparr>ra_autorange = False, ra_full = DNan False\<rparr>, vr_name = [], vr_source = []\<rparr>"

text \<open>100 Ohm, then 3 V, an overload, 2 V.\<close>

definition bench_readings :: "view_reading list" where
  "bench_readings = [extremes_bench (DFin False 100) False Resistance, extremes_bench (DFin False 3) False Voltage,
     extremes_bench (DNan False) True Voltage, extremes_bench (DFin False 2) False Voltage]"

theorem min_max_of_readings_witness:
  "mm_count (fold (\<lambda>r m. snd (mm_feed r m)) bench_readings min_max0) = 2"
proof -
  have "list_all plain_reading bench_readings"
    by (simp add: bench_readings_def extremes_bench_def plain_reading_def empty_beyond)
  moreover have "length (snd (snd (fold history_feed bench_readings (port0, [], [])))) = 2"
    by (simp add: bench_readings_def extremes_bench_def says_port_def noNumber_def port_valid_def port0_def Let_def)
  ultimately show ?thesis using min_max_of_readings[of bench_readings] by (simp add: Let_def)
qed

end
