(* ===== verification/Stale_Rule.thy ===== *)
theory Stale_Rule
  imports Doubles
begin

text \<open>
  \<open>src/src/core/stalerule.h\<close>: when the last value of a meter is too old to stand for the present, and that a meter with a
  rhythm, however slow, is not called silent.
\<close>

record stale_rule =
  sr_last :: int
  sr_interval :: dbl
  sr_gapBefore :: bool

definition kMinMs :: int where "kMinMs = 1000"
definition kMaxMs :: int where "kMaxMs = 30000"
definition kDefaultMs :: int where "kDefaultMs = 3000"

definition stale_rule0 :: stale_rule where
  "stale_rule0 = \<lparr>sr_last = - 1, sr_interval = d_zero, sr_gapBefore = False\<rparr>"

definition maxAgeMs :: "stale_rule \<Rightarrow> int" where
  "maxAgeMs s =
     (if d_le (sr_interval s) d_zero then kDefaultMs
      else max kMinMs (min kMaxMs (d_to_i64 (d_add (d_mul (dlit 3) (sr_interval s)) (dlit (1 / 2))))))"

definition st_average :: "dbl \<Rightarrow> int \<Rightarrow> dbl" where
  "st_average x dt = d_add (d_mul (dlit (4 / 5)) x) (d_mul (dlit (1 / 5)) (dbl_of (of_int dt)))"

definition st_arrived :: "int \<Rightarrow> stale_rule \<Rightarrow> stale_rule" where
  "st_arrived t s =
     (let dt = t - sr_last s;
          s1 = (if sr_last s \<ge> 0 then
                  (if dt > 0 \<and> dt \<le> maxAgeMs s then
                     s\<lparr>sr_interval := (if d_lt d_zero (sr_interval s) then st_average (sr_interval s) dt else dbl_of (of_int dt)),
                       sr_gapBefore := False\<rparr>
                   else if dt > 0 then
                     s\<lparr>sr_interval := (if sr_gapBefore s then dbl_of (of_int dt) else sr_interval s),
                       sr_gapBefore := (\<not> sr_gapBefore s)\<rparr>
                   else s)
                else s)
      in s1\<lparr>sr_last := t\<rparr>)"

definition st_stale :: "int \<Rightarrow> stale_rule \<Rightarrow> bool" where
  "st_stale t s \<longleftrightarrow> sr_last s < 0 \<or> t - sr_last s > maxAgeMs s"

definition st_reset :: "stale_rule \<Rightarrow> stale_rule" where
  "st_reset s = s\<lparr>sr_last := - 1, sr_interval := d_zero, sr_gapBefore := False\<rparr>"

lemma maxAge_bounds: "kMinMs \<le> maxAgeMs s" "maxAgeMs s \<le> kMaxMs"
  by (simp_all add: maxAgeMs_def kMinMs_def kMaxMs_def kDefaultMs_def)

lemma arrived_last [simp]: "sr_last (st_arrived t s) = t"
  by (simp add: st_arrived_def Let_def)

subsection \<open>A meter with a rhythm\<close>

lemma dbl_mag_lies:
  assumes "of_int k \<le> p" "p \<le> of_int n" "0 \<le> k" "n < 2 ^ 53"
  shows "\<exists>m. dbl_mag s p = DFin s m \<and> of_int k \<le> m \<and> m \<le> of_int n"
proof -
  have "(of_int k :: rat) \<le> of_int n" using assms(1,2) by (rule order_trans)
  then have "k \<le> n" by simp
  have "rnd p \<le> rnd (of_int n)" "rnd (of_int k) \<le> rnd p" using assms(1,2) by (simp_all add: rnd_mono)
  then have r: "rnd p \<le> of_int n" "of_int k \<le> rnd p" using rnd_int[of n] rnd_int[of k] assms(3,4) \<open>k \<le> n\<close> by simp_all
  have "pow2 53 \<le> pow2 1024" by (rule pow2_mono) simp
  moreover have "pow2 53 = (2 :: rat) ^ 53" by (simp add: pow2_def)
  ultimately have "(2 :: rat) ^ 53 \<le> pow2 1024" by (simp only:)
  moreover have "(of_int n :: rat) < of_int (2 ^ 53)" using assms(4) by (simp only: of_int_less_iff)
  then have "(of_int n :: rat) < 2 ^ 53" by simp
  ultimately have "rnd p < pow2 1024" using r(1) by linarith
  then show ?thesis using r by (simp add: dbl_mag_def Let_def)
qed

lemma dbl_of_lies:
  "of_int k \<le> p \<Longrightarrow> p \<le> of_int n \<Longrightarrow> 0 \<le> k \<Longrightarrow> n < 2 ^ 53 \<Longrightarrow> \<exists>m. dbl_of p = DFin False m \<and> of_int k \<le> m \<and> m \<le> of_int n"
  using dbl_mag_lies[of k p n False] of_int_0_le_iff[of k, where 'a = rat] by (auto simp: dbl_of_def)

lemma dbl_of_ms: "0 \<le> d \<Longrightarrow> d < 2 ^ 53 \<Longrightarrow> dbl_of (of_int d) = DFin False (of_int d)"
  using dbl_of_lies[of d "of_int d" d] by auto

definition lies :: "int \<Rightarrow> int \<Rightarrow> dbl \<Rightarrow> bool" where
  "lies k n x \<longleftrightarrow> (\<exists>m. x = DFin False m \<and> of_int k \<le> m \<and> m \<le> of_int n)"

lemma lies_add: "lies k n x \<Longrightarrow> lies l m y \<Longrightarrow> 0 \<le> k \<Longrightarrow> 0 \<le> l \<Longrightarrow> n + m < 2 ^ 53 \<Longrightarrow> lies (k + l) (n + m) (d_add x y)"
proof -
  assume a: "lies k n x" "lies l m y" "0 \<le> k" "0 \<le> l" "n + m < 2 ^ 53"
  obtain p q where x: "x = DFin False p" "of_int k \<le> p" "p \<le> of_int n" and y: "y = DFin False q" "of_int l \<le> q" "q \<le> of_int m"
    using a(1,2) by (auto simp: lies_def)
  have s: "of_int (k + l) \<le> p + q" "p + q \<le> of_int (n + m)" "0 \<le> k + l" using x y a(3,4) by simp_all
  have "d_add x y = (if p + q = 0 then DFin False 0 else dbl_of (p + q))" by (simp add: x y Let_def)
  moreover have "p + q = 0 \<Longrightarrow> lies (k + l) (n + m) (DFin False 0)"
    using s unfolding lies_def by (intro exI[of _ 0]) (simp del: of_int_add)
  ultimately show ?thesis using dbl_of_lies[OF s a(5)] unfolding lies_def by auto
qed

lemma literals:
  "dlit (4 / 5) = DFin False (3602879701896397 / 4503599627370496)"
  "dlit (1 / 5) = DFin False (3602879701896397 / 18014398509481984)"
  "lies 0 1 (dlit (1 / 2))" "dlit 3 = DFin False 3"
proof -
  have r: "rnd (4 / 5) = 3602879701896397 / 4503599627370496" "rnd (1 / 5) = 3602879701896397 / 18014398509481984"
    by code_simp+
  show "dlit (4 / 5) = DFin False (3602879701896397 / 4503599627370496)"
    "dlit (1 / 5) = DFin False (3602879701896397 / 18014398509481984)"
    using dbl_of_lies[of 0 "4 / 5" 1] dbl_of_lies[of 0 "1 / 5" 1] by (auto simp: dbl_of_def dbl_mag_def Let_def r split: if_splits)
  show "lies 0 1 (dlit (1 / 2))" using dbl_of_lies[of 0 "1 / 2" 1] by (simp add: lies_def)
  show "dlit 3 = DFin False 3" using dbl_of_ms[of 3] by simp
qed

lemma lies_mul:
  assumes "lies k n x" "c = DFin False e" "0 \<le> e" "0 \<le> k" "of_int l \<le> e * of_int k" "e * of_int n \<le> of_int u" "0 \<le> l" "u < 2 ^ 53"
  shows "lies l u (d_mul c x)"
proof -
  obtain m where m: "x = DFin False m" "of_int k \<le> m" "m \<le> of_int n" using assms(1) by (auto simp: lies_def)
  have "of_int l \<le> e * m" using assms(5) mult_left_mono[OF m(2) assms(3)] by (rule order_trans)
  moreover have "e * m \<le> of_int u" using mult_left_mono[OF m(3) assms(3)] assms(6) by (rule order_trans)
  ultimately show ?thesis using dbl_mag_lies[of l "e * m" u False] assms(7,8) by (simp add: assms(2) m(1) lies_def)
qed

text \<open>With gaps between \<open>a\<close> and \<open>b\<close> the average stays within about ten milliseconds of them.\<close>

lemma average_lies:
  assumes "lies (a - 10) (b + 11) x" "a \<le> d" "d \<le> b" "20 \<le> a" "b \<le> 30000"
  shows "lies (a - 10) (b + 11) (st_average x d)"
proof -
  let ?L = "a - 10" and ?U = "b + 11"
  have b: "(of_int b :: rat) \<le> 30000" using assms(5) by simp
  have "lies (4 * ?L div 5) (4 * ?U div 5 + 1) (d_mul (dlit (4 / 5)) x)"
  proof (rule lies_mul[OF assms(1) literals(1)])
    have "5 * (4 * ?L div 5) \<le> 4 * ?L" by simp
    then have "(of_int (4 * ?L div 5) :: rat) \<le> 4 / 5 * of_int ?L" by linarith
    moreover have "(4 / 5 :: rat) * of_int ?L \<le> 3602879701896397 / 4503599627370496 * of_int ?L"
      using assms(4) by (intro mult_right_mono) simp_all
    ultimately show "of_int (4 * ?L div 5) \<le> (3602879701896397 / 4503599627370496 :: rat) * of_int ?L" by (rule order_trans)
    have "4 * ?U < 5 * (4 * ?U div 5 + 1)" by presburger
    then have "4 * ?U + 1 \<le> 5 * (4 * ?U div 5 + 1)" by simp
    then have "(4 / 5 :: rat) * of_int ?U + 1 / 5 \<le> of_int (4 * ?U div 5 + 1)" by linarith
    moreover have "(3602879701896397 / 4503599627370496 :: rat) * of_int ?U \<le> 4 / 5 * of_int ?U + 1 / 5"
      using b by (simp add: field_simps)
    ultimately show "(3602879701896397 / 4503599627370496 :: rat) * of_int ?U \<le> of_int (4 * ?U div 5 + 1)"
      by (rule order_trans[rotated])
  qed (use assms in \<open>simp_all\<close>)
  moreover have "lies (a div 5) (b div 5 + 1) (d_mul (dlit (1 / 5)) (dbl_of (of_int d)))"
  proof (rule lies_mul[OF _ literals(2)])
    show "lies a b (dbl_of (of_int d))" using assms dbl_of_ms[of d] by (simp add: lies_def)
    have "5 * (a div 5) \<le> a" by simp
    then have "(of_int (a div 5) :: rat) \<le> 1 / 5 * of_int a" by linarith
    moreover have "(1 / 5 :: rat) * of_int a \<le> 3602879701896397 / 18014398509481984 * of_int a"
      using assms(4) by (intro mult_right_mono) simp_all
    ultimately show "of_int (a div 5) \<le> (3602879701896397 / 18014398509481984 :: rat) * of_int a" by (rule order_trans)
    have "b + 1 \<le> 5 * (b div 5 + 1)" by presburger
    then have "(1 / 5 :: rat) * of_int b + 1 / 5 \<le> of_int (b div 5 + 1)" by linarith
    moreover have "(3602879701896397 / 18014398509481984 :: rat) * of_int b \<le> 1 / 5 * of_int b + 1 / 5"
      using b by (simp add: field_simps)
    ultimately show "(3602879701896397 / 18014398509481984 :: rat) * of_int b \<le> of_int (b div 5 + 1)"
      by (rule order_trans[rotated])
  qed (use assms in \<open>simp_all\<close>)
  ultimately have "lies (4 * ?L div 5 + a div 5) (4 * ?U div 5 + 1 + (b div 5 + 1)) (st_average x d)"
    unfolding st_average_def using assms by (intro lies_add) simp_all
  moreover have "?L \<le> 4 * ?L div 5 + a div 5" "4 * ?U div 5 + 1 + (b div 5 + 1) \<le> ?U" by presburger+
  ultimately show ?thesis unfolding lies_def by (meson of_int_le_iff order_trans)
qed

lemma maxAge_rhythm:
  assumes "lies (a - 10) (b + 11) (sr_interval s)" "20 \<le> a" "a \<le> b" "b \<le> 30000" "b \<le> 2 * a"
  shows "b \<le> maxAgeMs s"
proof -
  have "lies (3 * (a - 10)) (3 * (b + 11)) (d_mul (dlit 3) (sr_interval s))"
    by (rule lies_mul[OF assms(1) literals(4)]) (use assms in simp_all)
  from lies_add[OF this literals(3)] assms have "lies (3 * (a - 10) + 0) (3 * (b + 11) + 1)
      (d_add (d_mul (dlit 3) (sr_interval s)) (dlit (1 / 2)))" by simp
  then obtain m where m: "d_add (d_mul (dlit 3) (sr_interval s)) (dlit (1 / 2)) = DFin False m"
    "of_int (3 * (a - 10)) \<le> m" "m \<le> of_int (3 * (b + 11) + 1)" unfolding lies_def by auto
  have "3 * (a - 10) \<le> \<lfloor>m\<rfloor>" using m(2) by (simp only: le_floor_iff)
  moreover have "\<lfloor>m\<rfloor> \<le> 3 * (b + 11) + 1" using floor_mono[OF m(3)] by (simp only: floor_of_int)
  moreover have lo: "0 \<le> \<lfloor>m\<rfloor>" using calculation(1) assms(2) by presburger
  moreover have hi: "\<lfloor>m\<rfloor> \<le> 90034" using calculation(2) assms(4) by presburger
  moreover have "- (2 ^ 63) \<le> \<lfloor>m\<rfloor>" by (rule order_trans[OF _ lo]) simp
  moreover have "\<lfloor>m\<rfloor> < 2 ^ 63" by (rule le_less_trans[OF hi]) simp
  ultimately have i: "3 * (a - 10) \<le> d_to_i64 (DFin False m)" by (simp only: d_to_i64.simps Let_def if_False if_True simp_thms)
  obtain x where "sr_interval s = DFin False x" "of_int (a - 10) \<le> x" using assms(1) by (auto simp: lies_def)
  moreover have "(10 :: rat) \<le> of_int (a - 10)" using assms(2) by simp
  ultimately have "\<not> d_le (sr_interval s) d_zero" by (simp add: d_le_def d_zero_def)
  then show ?thesis using i assms by (simp add: maxAgeMs_def m(1) kMinMs_def kMaxMs_def del: d_to_i64.simps)
qed

definition in_rhythm :: "int \<Rightarrow> int \<Rightarrow> stale_rule \<Rightarrow> bool" where
  "in_rhythm a b s \<longleftrightarrow> lies (a - 10) (b + 11) (sr_interval s) \<and> \<not> sr_gapBefore s \<and> 0 \<le> sr_last s"

lemma rhythm_goes_on:
  assumes "in_rhythm a b s" "a \<le> d" "d \<le> b" "20 \<le> a" "b \<le> 30000" "b \<le> 2 * a"
  shows "in_rhythm a b (st_arrived (sr_last s + d) s)"
proof -
  have i: "lies (a - 10) (b + 11) (sr_interval s)" "\<not> sr_gapBefore s" "0 \<le> sr_last s" using assms(1) by (simp_all add: in_rhythm_def)
  have "d \<le> maxAgeMs s" using maxAge_rhythm[OF i(1)] assms by simp
  moreover have "d_lt d_zero (sr_interval s)"
  proof -
    obtain x where "sr_interval s = DFin False x" "of_int (a - 10) \<le> x" using i(1) by (auto simp: lies_def)
    moreover have "(10 :: rat) \<le> of_int (a - 10)" using assms(4) by simp
    ultimately show ?thesis by (simp add: d_zero_def)
  qed
  ultimately show ?thesis using assms i average_lies[OF i(1) assms(2,3,4,5)] by (simp add: st_arrived_def Let_def in_rhythm_def)
qed

definition st_intervals :: "int list \<Rightarrow> stale_rule \<Rightarrow> stale_rule" where
  "st_intervals ds s = fold (\<lambda>d s. st_arrived (sr_last s + d) s) ds s"

lemma intervals_last: "sr_last (st_intervals ds s) = sr_last s + sum_list ds"
  by (induction ds arbitrary: s) (simp_all add: st_intervals_def)

lemma rhythm_found:
  assumes "a \<le> d1" "d1 \<le> b" "a \<le> d2" "d2 \<le> b" "20 \<le> a" "b \<le> 30000" "b \<le> 2 * a" "0 \<le> t"
  shows "in_rhythm a b (st_intervals [d1, d2] (st_arrived t stale_rule0))"
proof -
  define s0 where "s0 = st_arrived t stale_rule0"
  have s0: "s0 = \<lparr>sr_last = t, sr_interval = d_zero, sr_gapBefore = False\<rparr>" by (simp add: s0_def st_arrived_def stale_rule0_def)
  have ms: "lies (a - 10) (b + 11) (dbl_of (of_int d))" if "a \<le> d" "d \<le> b" for d
  proof -
    have "(of_int (a - 10) :: rat) \<le> of_int d" "(of_int d :: rat) \<le> of_int (b + 11)" using that by (simp_all only: of_int_le_iff)
    then show ?thesis using that assms dbl_of_ms[of d] by (simp add: lies_def)
  qed
  define s1 where "s1 = st_arrived (t + d1) s0"
  have zero: "maxAgeMs s = 3000" if "sr_interval s = d_zero" for s
    using that by (simp add: maxAgeMs_def kDefaultMs_def d_zero_def d_le_def)
  show ?thesis
  proof (cases "d1 \<le> 3000")
    case True
    then have "in_rhythm a b s1"
      using assms ms[of d1] by (simp add: s1_def s0 st_arrived_def Let_def zero in_rhythm_def d_zero_def)
    from rhythm_goes_on[OF this assms(3-7)] show ?thesis by (simp add: st_intervals_def s0_def[symmetric] s0 s1_def)
  next
    case False
    then have slow: "s1 = \<lparr>sr_last = t + d1, sr_interval = d_zero, sr_gapBefore = True\<rparr>"
      using assms by (simp add: s1_def s0 st_arrived_def Let_def zero)
    then have "in_rhythm a b (st_arrived (t + d1 + d2) s1)"
      using assms ms[of d2] by (cases "d2 \<le> 3000") (simp_all add: st_arrived_def Let_def zero in_rhythm_def d_zero_def)
    then show ?thesis using slow by (simp add: st_intervals_def s0_def[symmetric] s0 s1_def)
  qed
qed

text \<open>
  C35: A meter with a rhythm is not called silent: when its readings come at intervals between \<open>a\<close> and \<open>b\<close> milliseconds, \<open>b\<close> at
  most twice \<open>a\<close> and at most 30 s, then from the third reading on its value is current until the next one is due, slower
  than the first limit of 3 s or not; and a meter that falls silent is called so after 30 s at the latest.
\<close>

theorem rhythm_not_stale:
  assumes "20 \<le> a" "b \<le> 2 * a" "b \<le> 30000" "0 \<le> t" "\<forall>d \<in> set ds. a \<le> d \<and> d \<le> b" "2 \<le> length ds"
  shows "let s = st_intervals ds (st_arrived t stale_rule0); lst = t + sum_list ds in
    (\<forall>u. u \<le> lst + b \<longrightarrow> \<not> st_stale u s) \<and> (\<forall>u. lst + 30000 < u \<longrightarrow> st_stale u s)"
proof -
  obtain d1 d2 es where ds: "ds = d1 # d2 # es"
    using assms(6) by (metis One_nat_def Suc_1 Suc_le_length_iff)
  have go: "in_rhythm a b s \<Longrightarrow> \<forall>d \<in> set es. a \<le> d \<and> d \<le> b \<Longrightarrow> in_rhythm a b (st_intervals es s)" for s
  proof (induction es arbitrary: s)
    case (Cons d es)
    then show ?case using rhythm_goes_on[OF Cons.prems(1), of d] assms(1-3) by (simp add: st_intervals_def)
  qed (simp add: st_intervals_def)
  have "in_rhythm a b (st_intervals es (st_intervals [d1, d2] (st_arrived t stale_rule0)))"
    by (rule go[OF rhythm_found]) (use assms ds in auto)
  then have r: "in_rhythm a b (st_intervals ds (st_arrived t stale_rule0))" by (simp add: st_intervals_def ds)
  have "sr_last (st_intervals ds (st_arrived t stale_rule0)) = t + sum_list ds" by (simp add: intervals_last)
  moreover have "b \<le> maxAgeMs (st_intervals ds (st_arrived t stale_rule0))"
    using maxAge_rhythm[of a b] r assms ds by (auto simp: in_rhythm_def)
  moreover have "0 \<le> t + sum_list ds" using assms by (auto intro!: add_nonneg_nonneg sum_list_nonneg)
  ultimately show ?thesis
    using maxAge_bounds(2)[of "st_intervals ds (st_arrived t stale_rule0)"] by (simp add: Let_def st_stale_def kMaxMs_def)
qed

text \<open>A reading every nine seconds.\<close>

theorem rhythm_not_stale_witness:
  "\<not> st_stale 31000 (st_intervals [9000, 9100, 8900] (st_arrived 0 stale_rule0))"
  using rhythm_not_stale[of 8000 10000 0 "[9000, 9100, 8900]"] by (simp add: Let_def)

end
