(* ===== verification/Meter_Connection.thy ===== *)
theory Meter_Connection
  imports Frame_Reader Scpi_Device
begin

text \<open>
  \<open>src/src/device/meterconnection.h\<close> and \<open>meterconnection.cpp\<close>, with \<open>Transport\<close> (\<open>device/transport.*\<close>): one meter's connection,
  its state, its watchdog and the port that is opened again after a loss. A port device is a number, the buffers of the one
  the reader holds are the reader's; what a device answers when it is created, opened and set up is a \<open>port_try\<close>, what it
  tells the watchdog a \<open>tick_env\<close>, and the clock an argument. What the event loop runs while the box on a missing permission
  is shown is the parameter \<open>during\<close>. \<open>None\<close> is a write through a null or dangling pointer. The texts are the untranslated ones;
  the advice on a missing permission is \<open>pt_hint\<close>.
\<close>

subsection \<open>The connection\<close>

datatype link_state = Closed | Connecting | Connected | Timeout | LinkError

datatype port_type = NoPort | SerialPort | HidPort | HidHoltekPort | SigrokPort | RFC2217Port | CalcPort | BlePort | BleGattPort

text \<open>The decoder object: what the reader asks it, \<open>decode\<close> and the keys.\<close>

record 'd meter_decoder =
  de_type :: frame_format
  de_frames :: "'d frame_decoder"
  de_decode :: "bytes \<Rightarrow> int \<Rightarrow> 'd \<Rightarrow> dmm_response option \<times> 'd"
  de_keyRequest :: "qstring \<Rightarrow> bytes"
  de_hasKey :: "qstring \<Rightarrow> qstring \<Rightarrow> bool"

datatype mc_signal =
    LinkStateChanged link_state qstring
  | ErrorText qstring
  | Response dmm_response
  | ValueSignal dmm_channel qstring bool bool
  | KeyWritten bytes

record 'd meter_connection =
  mc_portType :: port_type
  mc_device :: qstring
  mc_info :: dmm_info
  mc_error :: qstring
  mc_state :: link_state
  mc_wanted :: bool
  mc_timeoutMs :: int
  mc_reconnectSeconds :: int
  mc_secondsInError :: int
  mc_lastFrame :: int
  mc_delayTimer :: bool
  mc_decoder :: "'d meter_decoder option"
  mc_reader :: "'d reader"
  mc_handle :: "nat option"
  mc_port :: "nat option"
  mc_portOpen :: bool
  mc_nextPort :: nat
  mc_signals :: "mc_signal list"

definition connection0 :: "dmm_info \<Rightarrow> bytes \<Rightarrow> 'd \<Rightarrow> 'd meter_connection" where
  "connection0 info ring d = \<lparr>mc_portType = NoPort, mc_device = [], mc_info = info, mc_error = [], mc_state = Closed,
     mc_wanted = False, mc_timeoutMs = 3000, mc_reconnectSeconds = 5, mc_secondsInError = 0, mc_lastFrame = 0,
     mc_delayTimer = False, mc_decoder = None, mc_reader = reader0 ring d, mc_handle = None, mc_port = None,
     mc_portOpen = False, mc_nextPort = 0, mc_signals = []\<rparr>"

definition mc_emit :: "mc_signal list \<Rightarrow> 'd meter_connection \<Rightarrow> 'd meter_connection" where
  "mc_emit sg m = m\<lparr>mc_signals := mc_signals m @ sg\<rparr>"

subsection \<open>Configuration\<close>

definition str2portType :: "qt \<Rightarrow> qstring \<Rightarrow> port_type" where
  "str2portType q s =
     (let t = qt_lower q s in
      if t = lit ''serial'' then SerialPort else if t = lit ''hid'' then HidPort
      else if t = lit ''hidholtek'' then HidHoltekPort else if t = lit ''sigrok'' then SigrokPort
      else if t = lit ''rfc2217'' then RFC2217Port else if t = lit ''calc'' then CalcPort
      else if t = lit ''ble'' then BlePort else if t = lit ''blegatt'' then BleGattPort else NoPort)"

definition setDevice :: "qt \<Rightarrow> qstring \<Rightarrow> 'd meter_connection \<Rightarrow> 'd meter_connection" where
  "setDevice q device m =
     (let parts = q_split 32 device; t = str2portType q (hd parts)
      in m\<lparr>mc_portType := t,
           mc_device := (if t \<in> {CalcPort, BlePort, HidPort, HidHoltekPort} then q_trim (q_join 32 (tl parts)) else last parts)\<rparr>)"

definition mc_setFormat :: "(frame_format \<Rightarrow> 'd meter_decoder option \<times> 'd) \<Rightarrow> frame_format \<Rightarrow> 'd meter_connection \<Rightarrow> 'd meter_connection" where
  "mc_setFormat inst df m =
     (if (case mc_decoder m of None \<Rightarrow> True | Some d \<Rightarrow> de_type d \<noteq> df)
      then (case inst df of (d, st) \<Rightarrow>
              m\<lparr>mc_decoder := d, mc_reader := setDecoder (map_option de_frames d) st (mc_reader m)\<rparr>)
      else m)"

definition mc_setFramesPerReading :: "nat \<Rightarrow> 'd meter_connection \<Rightarrow> 'd meter_connection" where
  "mc_setFramesPerReading n m = m\<lparr>mc_reader := setFramesPerReading n (mc_reader m)\<rparr>"

definition keyNames :: "qstring list" where
  "keyNames = map lit [''fn_v'', ''fn_a'', ''fn_a_long'', ''fn_ohm'', ''fn_ncv'', ''fn_ncv_long'', ''fn_auto'', ''fn_cap'', ''fn_diode'',
     ''fn_hz'', ''select1'', ''select2'', ''range'', ''auto'', ''hold'', ''rel'', ''zero'', ''minmax'', ''minmax_off'', ''peak'',
     ''peak_off'', ''max'', ''min'', ''avg'', ''unit'', ''unit2'', ''weighting'', ''lamp'']"

definition mc_keys :: "'d meter_connection \<Rightarrow> qstring list" where
  "mc_keys m = (case mc_decoder m of None \<Rightarrow> [] | Some d \<Rightarrow> filter (\<lambda>k. de_hasKey d k (di_model (mc_info m))) keyNames)"

text \<open>\<open>sendKey\<close>: the frame goes to the port; a GATT link still being set up refuses it (\<open>accepts\<close>).\<close>

definition sendKey :: "bool \<Rightarrow> qstring \<Rightarrow> 'd meter_connection \<Rightarrow> bool \<times> 'd meter_connection" where
  "sendKey accepts key m =
     (let frame = (case mc_decoder m of None \<Rightarrow> [] | Some d \<Rightarrow> de_keyRequest d key)
      in if frame = [] \<or> mc_port m = None \<or> \<not> mc_portOpen m \<or> \<not> accepts then (False, m)
         else (True, mc_emit [KeyWritten frame] m))"

subsection \<open>Texts\<close>

definition deviceName :: "'d meter_connection \<Rightarrow> qstring" where
  "deviceName m =
     (if mc_portType m = BlePort then hd (q_split 32 (mc_device m))
      else if mc_portType m \<in> {HidPort, HidHoltekPort} then last (q_split 32 (mc_device m))
      else mc_device m)"

definition contains_ci :: "qt \<Rightarrow> qstring \<Rightarrow> qstring \<Rightarrow> bool" where
  "contains_ci q p s = list_ex (\<lambda>i. qt_ci_eq q (take (length p) (drop i s)) p) [0..<Suc (length s - length p)]"

definition has_acm :: "qstring \<Rightarrow> bool" where
  "has_acm s = list_ex (\<lambda>i. take 3 (drop i s) = lit ''ACM'') [0..<length s]"

definition connectedMessage :: "qt \<Rightarrow> 'd meter_connection \<Rightarrow> qstring" where
  "connectedMessage q m =
     (if mc_portType m = CalcPort then
        (if di_model (mc_info m) = lit ''Simulated meter'' then lit ''Simulated'' else lit ''Calculated'')
      else
        (let way = (case mc_portType m of
                      BlePort \<Rightarrow> lit ''Bluetooth'' | BleGattPort \<Rightarrow> lit ''Bluetooth'' | RFC2217Port \<Rightarrow> lit ''network''
                    | SigrokPort \<Rightarrow> lit ''sigrok''
                    | SerialPort \<Rightarrow> if \<not> contains_ci q (lit ''usb'') (mc_device m) \<and> \<not> has_acm (mc_device m)
                                    then lit ''serial port'' else lit ''USB''
                    | _ \<Rightarrow> lit ''USB'')
         in lit ''connected ('' @ way @ lit '')'' @ 10 # deviceName m))"

definition timeoutMessage :: "bool \<Rightarrow> 'd meter_connection \<Rightarrow> qstring" where
  "timeoutMessage cableSilent m =
     (if cableSilent
      then lit ''The USB cable answers, but the meter sends nothing.'' @ 10 #
        lit ''Switch on the meter's serial output (on UNI-T meters: hold the RS232/USB button).''
      else lit ''Timeout on device '' @ deviceName m @ lit ''.'' @ 10 # lit ''DMM connected and switched on?'')"

definition retryText :: "'d meter_connection \<Rightarrow> qstring" where
  "retryText m = lit ''Retrying every '' @ dec_int (mc_reconnectSeconds m) @ lit '' s.''"

definition shortState :: "'d meter_connection \<Rightarrow> qstring" where
  "shortState m = (case mc_state m of Closed \<Rightarrow> lit ''not connected'' | Connecting \<Rightarrow> lit ''connecting ...'' | Connected \<Rightarrow> []
     | Timeout \<Rightarrow> lit ''no data'' | LinkError \<Rightarrow> lit ''no connection'')"

definition setState :: "link_state \<Rightarrow> qstring \<Rightarrow> 'd meter_connection \<Rightarrow> 'd meter_connection" where
  "setState st message m =
     (let changed = (st \<noteq> mc_state m \<or> message \<noteq> mc_error m); m1 = m\<lparr>mc_state := st, mc_error := message\<rparr>
      in if changed then mc_emit [LinkStateChanged st message, ErrorText message] m1 else m1)"

subsection \<open>The port\<close>

datatype serial_error = PermissionError | DeviceNotFoundError | OtherError

record port_try =
  pt_created :: bool
  pt_opened :: bool
  pt_code :: serial_error
  pt_errorString :: qstring
  pt_hint :: qstring
  pt_init :: bool

record tick_env =
  te_now :: int
  te_gattWaiting :: bool
  te_cableSilent :: bool

text \<open>
  \<open>Transport::close\<close> and \<open>create\<close>. A port that closes while the reader is connected to it resets the frame number
  (\<open>socketClose\<close>).
\<close>

definition transport_close :: "'d meter_connection \<Rightarrow> 'd meter_connection" where
  "transport_close m =
     (case mc_port m of
        None \<Rightarrow> m
      | Some p \<Rightarrow> m\<lparr>mc_port := None, mc_portOpen := False,
          mc_reader := (if mc_handle m = Some p \<and> mc_portOpen m then socketClose (mc_reader m) else mc_reader m)\<rparr>)"

definition transport_create :: "port_try \<Rightarrow> 'd meter_connection \<Rightarrow> bool \<times> 'd meter_connection" where
  "transport_create pt m =
     (let m1 = transport_close m
      in if pt_created pt \<and> mc_portType m \<noteq> NoPort
         then (True, m1\<lparr>mc_port := Some (mc_nextPort m1), mc_portOpen := False, mc_nextPort := Suc (mc_nextPort m1)\<rparr>)
         else (False, m1))"

definition mc_setHandle :: "nat option \<Rightarrow> 'd meter_connection \<Rightarrow> 'd meter_connection" where
  "mc_setHandle h m =
     m\<lparr>mc_handle := h, mc_reader := setHandle (map_option (\<lambda>p. \<lparr>po_in = [], po_out = []\<rparr>) h) (mc_reader m)\<rparr>"

definition closePort :: "'d meter_connection \<Rightarrow> 'd meter_connection" where
  "closePort m =
     (let m1 = mc_setHandle None m
      in if mc_port m1 \<noteq> None \<and> \<not> di_externalSetup (mc_info m1) then transport_close m1 else m1)"

text \<open>The part of \<open>timerEvent\<close> with a port: request, silence watchdog.\<close>

definition watchdog :: "tick_env \<Rightarrow> 'd meter_connection \<Rightarrow> 'd meter_connection" where
  "watchdog te m =
     (let m1 = m\<lparr>mc_reader := startRead (mc_reader m)\<rparr>
      in if mc_portType m = BleGattPort \<and> te_gattWaiting te then
           setState Connecting (lit ''Connecting to '' @ deviceName m @ lit '' over Bluetooth ...'') (m1\<lparr>mc_lastFrame := te_now te\<rparr>)
         else if mc_state m1 \<in> {Connecting, Connected, Timeout} \<and> te_now te - mc_lastFrame m1 > mc_timeoutMs m1
         then setState Timeout (timeoutMessage (te_cableSilent te) m1) m1
         else m1)"

definition deviceTells :: "port_type \<Rightarrow> bool" where
  "deviceTells t \<longleftrightarrow> t \<in> {CalcPort, RFC2217Port, HidHoltekPort, BlePort, BleGattPort, HidPort}"

definition bluetooth :: "port_type \<Rightarrow> bool" where
  "bluetooth t \<longleftrightarrow> t \<in> {BlePort, BleGattPort}"

text \<open>A port that could not be opened: its text is shown, the port given up.\<close>

definition openFailed :: "qstring \<Rightarrow> 'd meter_connection \<Rightarrow> 'd meter_connection" where
  "openFailed text m = transport_close (mc_emit [ErrorText text] (m\<lparr>mc_error := text\<rparr>))"

definition openPort :: "('d meter_connection \<Rightarrow> 'd meter_connection option) \<Rightarrow> port_try \<Rightarrow> tick_env \<Rightarrow> 'd meter_connection
    \<Rightarrow> (bool \<times> 'd meter_connection) option" where
  "openPort during pt te m =
     (case transport_create pt m of
        (False, m1) \<Rightarrow>
          (let text = (if bluetooth (mc_portType m) then lit ''This QtDMM was built without Bluetooth support.''
                       else lit ''Error creating port '' @ deviceName m @ lit ''.'')
           in Some (False, mc_emit [ErrorText text] (m1\<lparr>mc_error := text\<rparr>)))
      | (True, m1) \<Rightarrow>
          if \<not> pt_opened pt then
            (if deviceTells (mc_portType m1) then Some (False, openFailed (pt_errorString pt) m1)
             else if mc_portType m1 = SerialPort \<and> pt_code pt = PermissionError then
               map_option (\<lambda>m2. (False, transport_close (mc_emit [ErrorText (mc_error m2)] m2)))
                 (during (m1\<lparr>mc_error := pt_hint pt\<rparr>))
             else if mc_portType m1 = SerialPort \<and> pt_code pt = DeviceNotFoundError then
               Some (False, openFailed (lit ''No such device '' @ deviceName m1 @ lit ''.'') m1)
             else
               Some (False, openFailed (lit ''Error opening '' @ deviceName m1 @ lit ''.'' @ 10 # lit ''DMM connected and switched on?'') m1))
          else
            (let m2 = m1\<lparr>mc_portOpen := True\<rparr>
             in if \<not> di_externalSetup (mc_info m2) \<and> \<not> pt_init pt then
                  Some (False, openFailed (lit ''Error configuring serial port '' @ deviceName m2 @ lit ''.'') m2)
                else
                  (let m3 = (mc_setHandle (mc_port m2) m2)\<lparr>mc_lastFrame := te_now te, mc_secondsInError := 0\<rparr>;
                       m4 = setState Connecting (lit ''Connecting ...'') m3;
                       m5 = (if mc_wanted m4 then watchdog te m4 else m4)
                   in Some (True, m5\<lparr>mc_delayTimer := True\<rparr>))))"

subsection \<open>What happens to a connection\<close>

definition mc_open :: "('d meter_connection \<Rightarrow> 'd meter_connection option) \<Rightarrow> port_try \<Rightarrow> tick_env \<Rightarrow> 'd meter_connection
    \<Rightarrow> (bool \<times> 'd meter_connection) option" where
  "mc_open during pt te m =
     (case openPort during pt te (m\<lparr>mc_wanted := True\<rparr>) of
        None \<Rightarrow> None
      | Some (True, m') \<Rightarrow> Some (True, m')
      | Some (False, m') \<Rightarrow> Some (False, m'\<lparr>mc_wanted := False\<rparr>))"

definition mc_close :: "'d meter_connection \<Rightarrow> 'd meter_connection" where
  "mc_close m = setState Closed (lit ''Not connected'') (closePort (m\<lparr>mc_wanted := False, mc_delayTimer := False\<rparr>))"

text \<open>The device \<open>from\<close> says it is gone.\<close>

definition portLost :: "nat \<Rightarrow> qstring \<Rightarrow> 'd meter_connection \<Rightarrow> 'd meter_connection" where
  "portLost from reason m =
     (if \<not> mc_wanted m \<or> mc_port m \<noteq> Some from then m
      else
        (let m1 = (closePort m)\<lparr>mc_secondsInError := 0\<rparr>;
             text = lit ''Lost connection to '' @ deviceName m @ lit ''.'' @ (if reason \<noteq> [] then 10 # reason else []) @
               (if mc_reconnectSeconds m > 0 then 10 # retryText m else [])
         in setState LinkError text m1))"

definition mc_tick :: "('d meter_connection \<Rightarrow> 'd meter_connection option) \<Rightarrow> port_try \<Rightarrow> tick_env \<Rightarrow> 'd meter_connection
    \<Rightarrow> 'd meter_connection option" where
  "mc_tick during pt te m =
     (if \<not> mc_wanted m then Some m
      else if mc_port m = None then
        (let m1 = (if mc_reconnectSeconds m > 0 then m\<lparr>mc_secondsInError := mc_secondsInError m + 1\<rparr> else m)
         in if mc_reconnectSeconds m1 > 0 \<and> mc_secondsInError m1 \<ge> mc_reconnectSeconds m1 then
              (case openPort during pt te (m1\<lparr>mc_secondsInError := 0\<rparr>) of
                 None \<Rightarrow> None
               | Some (True, m2) \<Rightarrow> Some m2
               | Some (False, m2) \<Rightarrow> Some (setState LinkError (mc_error m2 @ 10 # retryText m2) m2))
            else Some m1)
      else Some (watchdog te m))"

text \<open>The reader's own timer: the request goes to the device of its handle, which must still be there.\<close>

definition mc_readerTimer :: "'d meter_connection \<Rightarrow> 'd meter_connection option" where
  "mc_readerTimer m =
     (case reader_timer (mc_reader m) of
        None \<Rightarrow> None
      | Some r \<Rightarrow> if mc_handle m \<noteq> None \<and> mc_handle m \<noteq> mc_port m \<and> fr_port r \<noteq> fr_port (mc_reader m) then None
                   else Some (m\<lparr>mc_reader := r\<rparr>))"

definition readEvent :: "qt \<Rightarrow> int \<Rightarrow> frame_event \<Rightarrow> 'd meter_connection \<Rightarrow> 'd meter_connection" where
  "readEvent q now ev m =
     (case mc_decoder m of
        None \<Rightarrow> m
      | Some d \<Rightarrow>
          (case de_decode d (ev_data ev) (int (ev_id ev)) (fr_dstate (mc_reader m)) of
             (dec, st) \<Rightarrow>
               (let m1 = m\<lparr>mc_lastFrame := now, mc_reader := (mc_reader m)\<lparr>fr_dstate := st\<rparr>\<rparr>
                in case dec of
                     None \<Rightarrow> setState Connected (lit ''Error '' @ deviceName m1) m1
                   | Some r0 \<Rightarrow>
                       (let r = r0\<lparr>re_received := ev_t ev, re_receivedWall := ev_wall ev\<rparr>;
                            m2 = mc_emit (Response r # map (\<lambda>c. ValueSignal c (re_range r) (re_hold r) (re_showBar r)) (re_channels r)) m1
                        in if mc_portType m2 = CalcPort then setState Connected (mc_error m2) m2
                           else setState Connected
                             (if re_error r = [] then connectedMessage q m2 else re_error r @ 32 # deviceName m2) m2))))"

text \<open>\<open>CalcDevice::status\<close>\<close>

definition calcStatus :: "qt \<Rightarrow> qstring \<Rightarrow> 'd meter_connection \<Rightarrow> 'd meter_connection" where
  "calcStatus q message m =
     (if mc_state m \<in> {Connected, Connecting}
      then setState (mc_state m) (if message = [] then connectedMessage q m else message) m else m)"

text \<open>Bytes arrive at the port the reader is connected to; every frame they complete is decoded.\<close>

definition mc_bytes :: "qt \<Rightarrow> bytes \<Rightarrow> int \<Rightarrow> int \<Rightarrow> 'd meter_connection \<Rightarrow> 'd meter_connection" where
  "mc_bytes q bs t wall m =
     (if mc_handle m = None \<or> mc_handle m \<noteq> mc_port m then m
      else case arrive (bs, t, wall) (mc_reader m) of
             (r, evs) \<Rightarrow> foldl (\<lambda>m ev. readEvent q t ev m) (m\<lparr>mc_reader := r\<rparr>) evs)"


subsection \<open>Reachable connections\<close>

text \<open>
  One step of a connection that sets its ports up itself; it is opened when it is not wanted, and nothing runs inside
  \<open>openPort\<close>. \<open>None\<close> is the crash.
\<close>

inductive conn_step :: "qt \<Rightarrow> 'd meter_connection \<Rightarrow> 'd meter_connection option \<Rightarrow> bool" for q where
  step_open: "\<not> mc_wanted m \<Longrightarrow> conn_step q m (map_option snd (mc_open Some pt te m))"
| step_close: "conn_step q m (Some (mc_close m))"
| step_tick: "conn_step q m (mc_tick Some pt te m)"
| step_reader: "conn_step q m (mc_readerTimer m)"
| step_bytes: "conn_step q m (Some (mc_bytes q bs t wall m))"
| step_lost: "conn_step q m (Some (portLost from reason m))"
| step_calc: "conn_step q m (Some (calcStatus q message m))"
| step_key: "conn_step q m (Some (snd (sendKey accepts key m)))"
| step_configure: "\<not> di_externalSetup info \<Longrightarrow>
    conn_step q m (Some (mc_setFramesPerReading n (mc_setFormat inst df (setDevice q device (m\<lparr>mc_info := info\<rparr>)))))"

inductive conn_reach :: "qt \<Rightarrow> 'd meter_connection \<Rightarrow> bool" for q where
  reach_start: "\<not> di_externalSetup info \<Longrightarrow> conn_reach q (connection0 info ring d)"
| reach_step: "conn_reach q m \<Longrightarrow> conn_step q m (Some m') \<Longrightarrow> conn_reach q m'"

definition conn_inv :: "'d meter_connection \<Rightarrow> bool" where
  "conn_inv m \<longleftrightarrow>
     \<not> di_externalSetup (mc_info m) \<and>
     (mc_state m = Closed \<longleftrightarrow> \<not> mc_wanted m) \<and>
     (mc_state m = LinkError \<longleftrightarrow> mc_wanted m \<and> mc_port m = None) \<and>
     (mc_port m \<noteq> None \<longrightarrow> mc_wanted m \<and> mc_portOpen m) \<and>
     (mc_wanted m \<longrightarrow> mc_delayTimer m) \<and>
     mc_handle m = mc_port m \<and> (fr_port (mc_reader m) = None \<longleftrightarrow> mc_handle m = None) \<and>
     (mc_handle m = None \<longrightarrow> \<not> fr_readValue (mc_reader m))"

lemma mc_emit_simps [simp]:
  "mc_portType (mc_emit sg m) = mc_portType m" "mc_device (mc_emit sg m) = mc_device m" "mc_info (mc_emit sg m) = mc_info m"
  "mc_error (mc_emit sg m) = mc_error m" "mc_state (mc_emit sg m) = mc_state m" "mc_wanted (mc_emit sg m) = mc_wanted m"
  "mc_timeoutMs (mc_emit sg m) = mc_timeoutMs m" "mc_reconnectSeconds (mc_emit sg m) = mc_reconnectSeconds m"
  "mc_secondsInError (mc_emit sg m) = mc_secondsInError m" "mc_lastFrame (mc_emit sg m) = mc_lastFrame m"
  "mc_delayTimer (mc_emit sg m) = mc_delayTimer m" "mc_decoder (mc_emit sg m) = mc_decoder m"
  "mc_reader (mc_emit sg m) = mc_reader m" "mc_handle (mc_emit sg m) = mc_handle m" "mc_port (mc_emit sg m) = mc_port m"
  "mc_portOpen (mc_emit sg m) = mc_portOpen m" "mc_nextPort (mc_emit sg m) = mc_nextPort m"
  by (simp_all add: mc_emit_def)

lemma setState_simps [simp]:
  "mc_portType (setState st t m) = mc_portType m" "mc_device (setState st t m) = mc_device m" "mc_info (setState st t m) = mc_info m"
  "mc_error (setState st t m) = t" "mc_state (setState st t m) = st" "mc_wanted (setState st t m) = mc_wanted m"
  "mc_timeoutMs (setState st t m) = mc_timeoutMs m" "mc_reconnectSeconds (setState st t m) = mc_reconnectSeconds m"
  "mc_secondsInError (setState st t m) = mc_secondsInError m" "mc_lastFrame (setState st t m) = mc_lastFrame m"
  "mc_delayTimer (setState st t m) = mc_delayTimer m" "mc_decoder (setState st t m) = mc_decoder m"
  "mc_reader (setState st t m) = mc_reader m" "mc_handle (setState st t m) = mc_handle m" "mc_port (setState st t m) = mc_port m"
  "mc_portOpen (setState st t m) = mc_portOpen m" "mc_nextPort (setState st t m) = mc_nextPort m"
  by (simp_all add: setState_def Let_def)

lemma reader_port_simps [simp]:
  "fr_port (startRead r) = fr_port r" "fr_port (socketClose r) = fr_port r" "fr_port (setHandle h r) = h"
  "fr_port (setDecoder d st r) = fr_port r" "fr_port (setFramesPerReading n r) = fr_port r" "fr_port (reader0 ring st) = None"
  "fr_readValue (socketClose r) = fr_readValue r" "\<not> fr_readValue (setHandle h r)"
  "fr_readValue (setDecoder d st r) = fr_readValue r" "fr_readValue (setFramesPerReading n r) = fr_readValue r"
  "\<not> fr_readValue (reader0 ring st)"
  by (simp_all add: startRead_def socketClose_def setHandle_def setDecoder_def setFramesPerReading_def reader0_def)

lemma transport_close_simps [simp]:
  "mc_portType (transport_close m) = mc_portType m" "mc_device (transport_close m) = mc_device m"
  "mc_info (transport_close m) = mc_info m" "mc_error (transport_close m) = mc_error m" "mc_state (transport_close m) = mc_state m"
  "mc_wanted (transport_close m) = mc_wanted m" "mc_timeoutMs (transport_close m) = mc_timeoutMs m"
  "mc_reconnectSeconds (transport_close m) = mc_reconnectSeconds m" "mc_secondsInError (transport_close m) = mc_secondsInError m"
  "mc_lastFrame (transport_close m) = mc_lastFrame m" "mc_delayTimer (transport_close m) = mc_delayTimer m"
  "mc_decoder (transport_close m) = mc_decoder m" "mc_handle (transport_close m) = mc_handle m" "mc_port (transport_close m) = None"
  "mc_nextPort (transport_close m) = mc_nextPort m" "fr_port (mc_reader (transport_close m)) = fr_port (mc_reader m)"
  "fr_readValue (mc_reader (transport_close m)) = fr_readValue (mc_reader m)"
  by (simp_all add: transport_close_def split: option.splits)

lemma mc_setHandle_simps [simp]:
  "mc_portType (mc_setHandle h m) = mc_portType m" "mc_device (mc_setHandle h m) = mc_device m"
  "mc_info (mc_setHandle h m) = mc_info m" "mc_error (mc_setHandle h m) = mc_error m" "mc_state (mc_setHandle h m) = mc_state m"
  "mc_wanted (mc_setHandle h m) = mc_wanted m" "mc_timeoutMs (mc_setHandle h m) = mc_timeoutMs m"
  "mc_reconnectSeconds (mc_setHandle h m) = mc_reconnectSeconds m" "mc_secondsInError (mc_setHandle h m) = mc_secondsInError m"
  "mc_lastFrame (mc_setHandle h m) = mc_lastFrame m" "mc_delayTimer (mc_setHandle h m) = mc_delayTimer m"
  "mc_handle (mc_setHandle h m) = h" "mc_port (mc_setHandle h m) = mc_port m" "mc_portOpen (mc_setHandle h m) = mc_portOpen m"
  "mc_decoder (mc_setHandle h m) = mc_decoder m"
  "fr_port (mc_reader (mc_setHandle h m)) = map_option (\<lambda>p. \<lparr>po_in = [], po_out = []\<rparr>) h"
  by (simp_all add: mc_setHandle_def)

lemma watchdog_simps [simp]:
  "mc_portType (watchdog te m) = mc_portType m" "mc_info (watchdog te m) = mc_info m" "mc_wanted (watchdog te m) = mc_wanted m"
  "mc_delayTimer (watchdog te m) = mc_delayTimer m" "mc_handle (watchdog te m) = mc_handle m" "mc_port (watchdog te m) = mc_port m"
  "mc_portOpen (watchdog te m) = mc_portOpen m" "fr_port (mc_reader (watchdog te m)) = fr_port (mc_reader m)"
  "mc_timeoutMs (watchdog te m) = mc_timeoutMs m" "mc_reconnectSeconds (watchdog te m) = mc_reconnectSeconds m"
  "mc_secondsInError (watchdog te m) = mc_secondsInError m" "mc_decoder (watchdog te m) = mc_decoder m"
  by (simp_all add: watchdog_def Let_def)

lemma watchdog_state:
  "mc_state (watchdog te m) = (if mc_portType m = BleGattPort \<and> te_gattWaiting te then Connecting
     else if mc_state m \<in> {Connecting, Connected, Timeout} \<and> te_now te - mc_lastFrame m > mc_timeoutMs m then Timeout else mc_state m)"
  by (simp add: watchdog_def Let_def)

lemma closePort_simps:
  "\<not> fr_readValue (mc_reader (closePort m))"
  "\<not> di_externalSetup (mc_info m) \<Longrightarrow> mc_port (closePort m) = None" "mc_handle (closePort m) = None"
  "mc_wanted (closePort m) = mc_wanted m" "mc_info (closePort m) = mc_info m" "mc_state (closePort m) = mc_state m"
  "mc_delayTimer (closePort m) = mc_delayTimer m" "fr_port (mc_reader (closePort m)) = None"
  "mc_portType (closePort m) = mc_portType m" "mc_reconnectSeconds (closePort m) = mc_reconnectSeconds m"
  "mc_timeoutMs (closePort m) = mc_timeoutMs m" "mc_device (closePort m) = mc_device m"
  by (auto simp: closePort_def Let_def mc_setHandle_def)

text \<open>Opening, without anything run inside: either connecting with the new port, or without one.\<close>

definition opened :: "'d meter_connection \<Rightarrow> 'd meter_connection \<Rightarrow> bool" where
  "opened m m' \<longleftrightarrow> mc_port m' \<noteq> None \<and> mc_portOpen m' \<and> mc_handle m' = mc_port m' \<and> fr_port (mc_reader m') \<noteq> None \<and> mc_delayTimer m' \<and>
     mc_state m' \<in> {Connecting, Timeout} \<and> (0 \<le> mc_timeoutMs m \<longrightarrow> mc_state m' = Connecting) \<and> mc_secondsInError m' = 0"

definition not_opened :: "'d meter_connection \<Rightarrow> 'd meter_connection \<Rightarrow> bool" where
  "not_opened m m' \<longleftrightarrow> mc_port m' = None \<and> mc_handle m' = mc_handle m \<and> fr_port (mc_reader m') = fr_port (mc_reader m) \<and>
     fr_readValue (mc_reader m') = fr_readValue (mc_reader m) \<and> mc_delayTimer m' = mc_delayTimer m \<and> mc_state m' = mc_state m \<and> mc_secondsInError m' = mc_secondsInError m"

definition try_works :: "port_try \<Rightarrow> 'd meter_connection \<Rightarrow> bool" where
  "try_works pt m \<longleftrightarrow> pt_created pt \<and> mc_portType m \<noteq> NoPort \<and> pt_opened pt \<and> (di_externalSetup (mc_info m) \<or> pt_init pt)"

lemma openPort_result:
  "\<exists>ok m'. openPort Some pt te m = Some (ok, m') \<and> (ok \<longleftrightarrow> try_works pt m) \<and> mc_wanted m' = mc_wanted m \<and> mc_info m' = mc_info m \<and>
     mc_portType m' = mc_portType m \<and> mc_reconnectSeconds m' = mc_reconnectSeconds m \<and> mc_timeoutMs m' = mc_timeoutMs m \<and>
     mc_decoder m' = mc_decoder m \<and> (if ok then opened m m' else not_opened m m')"
  by (auto simp: openPort_def transport_create_def Let_def try_works_def opened_def not_opened_def openFailed_def watchdog_state
      split: if_splits)

lemma conn_inv_open:
  assumes i: "conn_inv m" and w: "\<not> mc_wanted m"
  shows "\<exists>m'. map_option snd (mc_open Some pt te m) = Some m' \<and> conn_inv m'"
proof -
  let ?m = "m\<lparr>mc_wanted := True\<rparr>"
  obtain ok m' where r: "openPort Some pt te ?m = Some (ok, m')" "mc_wanted m'" "mc_info m' = mc_info m"
    "if ok then opened ?m m' else not_opened ?m m'"
    using openPort_result[of pt te ?m] by auto
  show ?thesis
    using r i w by (cases ok) (auto simp: mc_open_def conn_inv_def opened_def not_opened_def)
qed

lemma conn_inv_tick:
  assumes i: "conn_inv m"
  shows "\<exists>m'. mc_tick Some pt te m = Some m' \<and> conn_inv m'"
proof (cases "mc_wanted m \<and> mc_port m = None")
  case lost: True
  let ?s = "mc_secondsInError m + 1"
  let ?m = "m\<lparr>mc_secondsInError := 0\<rparr>"
  obtain ok m' where r: "openPort Some pt te ?m = Some (ok, m')" "mc_wanted m' = mc_wanted m" "mc_info m' = mc_info m"
    "if ok then opened ?m m' else not_opened ?m m'"
    using openPort_result[of pt te ?m] by auto
  show ?thesis
    using r i lost by (cases ok) (auto simp: mc_tick_def Let_def conn_inv_def opened_def not_opened_def)
next
  case False
  then show ?thesis using i by (auto simp: mc_tick_def conn_inv_def watchdog_state)
qed

lemma readEvent_keeps:
  "mc_info (readEvent q now ev m) = mc_info m" "mc_wanted (readEvent q now ev m) = mc_wanted m"
  "mc_port (readEvent q now ev m) = mc_port m" "mc_handle (readEvent q now ev m) = mc_handle m"
  "mc_portOpen (readEvent q now ev m) = mc_portOpen m" "mc_delayTimer (readEvent q now ev m) = mc_delayTimer m"
  "fr_port (mc_reader (readEvent q now ev m)) = fr_port (mc_reader m)"
  "mc_state (readEvent q now ev m) = (if mc_decoder m = None then mc_state m else Connected)"
  "mc_timeoutMs (readEvent q now ev m) = mc_timeoutMs m" "mc_portType (readEvent q now ev m) = mc_portType m"
  "mc_lastFrame (readEvent q now ev m) = (if mc_decoder m = None then mc_lastFrame m else now)"
  "mc_decoder (readEvent q now ev m) = mc_decoder m"
  by (auto simp: readEvent_def Let_def split: option.split prod.split)

lemma conn_inv_readEvent: "conn_inv m \<Longrightarrow> mc_port m \<noteq> None \<Longrightarrow> conn_inv (readEvent q now ev m)"
  by (auto simp: conn_inv_def readEvent_keeps)

lemma conn_inv_readEvents:
  "conn_inv m \<Longrightarrow> mc_port m \<noteq> None \<Longrightarrow> conn_inv (foldl (\<lambda>m ev. readEvent q t ev m) m evs)"
  by (induction evs arbitrary: m) (simp_all add: conn_inv_readEvent readEvent_keeps)

lemma arrive_port: "fr_port (fst (arrive a r)) = None \<longleftrightarrow> fr_port r = None"
  by (auto simp: arrive_def socketNotifierSLOT_def split: prod.splits option.splits)

lemma conn_inv_bytes: "conn_inv m \<Longrightarrow> conn_inv (mc_bytes q bs t wall m)"
proof (cases "mc_handle m = None \<or> mc_handle m \<noteq> mc_port m")
  case False
  assume i: "conn_inv m"
  obtain r evs where r: "arrive (bs, t, wall) (mc_reader m) = (r, evs)" by fastforce
  have "conn_inv (m\<lparr>mc_reader := r\<rparr>)"
    using i False arrive_port[of "(bs, t, wall)" "mc_reader m"] by (auto simp: conn_inv_def r)
  moreover have "mc_port m \<noteq> None" using False by metis
  ultimately have "conn_inv (foldl (\<lambda>m ev. readEvent q t ev m) (m\<lparr>mc_reader := r\<rparr>) evs)" by (intro conn_inv_readEvents) simp_all
  then show ?thesis unfolding mc_bytes_def if_not_P[OF False] r by simp
qed (simp add: mc_bytes_def)

lemma sendReadRequest_port:
  "fr_port r \<noteq> None \<Longrightarrow> \<exists>r'. sendReadRequest r = Some r' \<and> fr_port r' \<noteq> None"
  by (auto simp: sendReadRequest_def split: option.splits prod.splits)

lemma reader_timer_without:
  "fr_port r = None \<Longrightarrow> \<not> fr_readValue r \<Longrightarrow> reader_timer r = Some r"
  by (simp add: reader_timer_def)

lemma conn_inv_readerTimer:
  assumes i: "conn_inv m"
  shows "\<exists>m'. mc_readerTimer m = Some m' \<and> conn_inv m'"
proof (cases "mc_handle m")
  case None
  then have "fr_port (mc_reader m) = None" "\<not> fr_readValue (mc_reader m)" using i by (auto simp: conn_inv_def)
  then show ?thesis using i None by (simp add: mc_readerTimer_def reader_timer_def)
next
  case (Some h)
  then have "fr_port (mc_reader m) \<noteq> None" "mc_handle m = mc_port m" using i by (auto simp: conn_inv_def)
  then have "\<exists>r. reader_timer (mc_reader m) = Some r \<and> fr_port r \<noteq> None"
    using sendReadRequest_port[of "mc_reader m"] by (cases "fr_readValue (mc_reader m)") (auto simp: reader_timer_def)
  then obtain r where "reader_timer (mc_reader m) = Some r" "fr_port r \<noteq> None" by blast
  then show ?thesis using i Some \<open>mc_handle m = mc_port m\<close> by (auto simp: mc_readerTimer_def conn_inv_def)
qed

lemma conn_step_inv:
  assumes "conn_step q m r" "conn_inv m"
  shows "\<exists>m'. r = Some m' \<and> conn_inv m'"
  using assms
proof cases
  case (step_open pt te)
  then show ?thesis using conn_inv_open[OF assms(2)] by blast
next
  case (step_tick pt te)
  then show ?thesis using conn_inv_tick[OF assms(2)] by blast
next
  case step_reader
  then show ?thesis using conn_inv_readerTimer[OF assms(2)] by blast
next
  case (step_bytes bs t wall)
  then show ?thesis using conn_inv_bytes assms(2) by simp
next
  case step_close
  then show ?thesis using assms(2) closePort_simps[of "m\<lparr>mc_wanted := False, mc_delayTimer := False\<rparr>"]
    by (simp add: mc_close_def conn_inv_def)
next
  case (step_lost device reason)
  then show ?thesis using assms(2) closePort_simps[of m] by (auto simp: portLost_def conn_inv_def Let_def)
next
  case (step_calc message)
  then show ?thesis using assms(2) by (auto simp: calcStatus_def conn_inv_def)
next
  case (step_key accepts key)
  then show ?thesis using assms(2) by (auto simp: sendKey_def conn_inv_def Let_def)
next
  case (step_configure info n inst df device)
  then show ?thesis using assms(2)
    by (auto simp: mc_setFramesPerReading_def mc_setFormat_def setDevice_def conn_inv_def Let_def split: prod.splits)
qed

lemma conn_reach_inv: "conn_reach q m \<Longrightarrow> conn_inv m"
proof (induction rule: conn_reach.induct)
  case (reach_start info ring d)
  then show ?case by (simp add: conn_inv_def connection0_def)
next
  case (reach_step m m')
  then show ?case using conn_step_inv by blast
qed


subsection \<open>A lost port is opened again\<close>

fun mc_ticks :: "('d meter_connection \<Rightarrow> 'd meter_connection option) \<Rightarrow> (port_try \<times> tick_env) list \<Rightarrow> 'd meter_connection
    \<Rightarrow> 'd meter_connection option" where
  "mc_ticks during [] m = Some m"
| "mc_ticks during ((pt, te) # ts) m = (case mc_tick during pt te m of None \<Rightarrow> None | Some m' \<Rightarrow> mc_ticks during ts m')"

lemma mc_ticks_append:
  "mc_ticks during (as @ bs) m = (case mc_ticks during as m of None \<Rightarrow> None | Some m' \<Rightarrow> mc_ticks during bs m')"
  by (induction as arbitrary: m) (auto split: option.splits)

definition lost :: "'d meter_connection \<Rightarrow> bool" where
  "lost m \<longleftrightarrow> mc_wanted m \<and> mc_port m = None \<and> mc_handle m = None \<and> mc_state m = LinkError \<and> mc_secondsInError m = 0 \<and>
     0 < mc_reconnectSeconds m \<and> \<not> di_externalSetup (mc_info m)"

lemma lost_waits:
  "\<lbrakk>lost m; int (length ts) < mc_reconnectSeconds m\<rbrakk> \<Longrightarrow> mc_ticks during ts m = Some (m\<lparr>mc_secondsInError := int (length ts)\<rparr>)"
proof (induction ts rule: rev_induct)
  case Nil
  then show ?case by (simp add: lost_def)
next
  case (snoc t ts)
  then show ?case by (cases t) (simp add: mc_ticks_append mc_tick_def lost_def Let_def)
qed

lemma retry_round:
  assumes "lost m" "int (length ts) + 1 = mc_reconnectSeconds m"
  shows "\<exists>m'. mc_ticks Some (ts @ [(pt, te)]) m = Some m' \<and> mc_info m' = mc_info m \<and> mc_portType m' = mc_portType m \<and>
    mc_reconnectSeconds m' = mc_reconnectSeconds m \<and> mc_timeoutMs m' = mc_timeoutMs m \<and> mc_wanted m' \<and>
    (if try_works pt m then opened m m' else lost m')"
proof -
  let ?m = "m\<lparr>mc_secondsInError := 0\<rparr>"
  obtain ok m' where r: "openPort Some pt te ?m = Some (ok, m')" "ok \<longleftrightarrow> try_works pt m" "mc_wanted m' = mc_wanted m"
    "mc_info m' = mc_info m" "mc_portType m' = mc_portType m" "mc_reconnectSeconds m' = mc_reconnectSeconds m"
    "mc_timeoutMs m' = mc_timeoutMs m" "if ok then opened ?m m' else not_opened ?m m'"
    using openPort_result[of pt te ?m] by (auto simp: try_works_def)
  have "mc_ticks Some (ts @ [(pt, te)]) m = (case openPort Some pt te ?m of None \<Rightarrow> None
      | Some (True, m2) \<Rightarrow> Some m2 | Some (False, m2) \<Rightarrow> Some (setState LinkError (mc_error m2 @ 10 # retryText m2) m2))"
    using lost_waits[of m ts] assms by (simp add: mc_ticks_append mc_tick_def lost_def Let_def split: option.splits)
  then show ?thesis
    using r assms(1) by (cases ok) (auto simp: lost_def opened_def not_opened_def)
qed

lemma retry_rounds:
  assumes "lost m" "\<forall>ts \<in> set fails. int (length ts) = mc_reconnectSeconds m \<and> \<not> try_works (fst (last ts)) m"
  shows "\<exists>m'. mc_ticks Some (concat fails) m = Some m' \<and> lost m' \<and> mc_info m' = mc_info m \<and> mc_portType m' = mc_portType m \<and>
    mc_reconnectSeconds m' = mc_reconnectSeconds m \<and> mc_timeoutMs m' = mc_timeoutMs m"
  using assms
proof (induction fails arbitrary: m)
  case (Cons ts fails)
  have "ts \<noteq> []" using Cons.prems by (auto simp: lost_def)
  then obtain as pt te where ts: "ts = as @ [(pt, te)]" by (metis append_butlast_last_id surj_pair)
  obtain m1 where m1: "mc_ticks Some ts m = Some m1" "lost m1" "mc_info m1 = mc_info m" "mc_portType m1 = mc_portType m"
    "mc_reconnectSeconds m1 = mc_reconnectSeconds m" "mc_timeoutMs m1 = mc_timeoutMs m"
    using retry_round[of m as pt te] Cons.prems by (auto simp: ts)
  have "\<forall>ts \<in> set fails. int (length ts) = mc_reconnectSeconds m1 \<and> \<not> try_works (fst (last ts)) m1"
    using Cons.prems(2) m1 by (simp add: try_works_def)
  from Cons.IH[OF m1(2) this] show ?case using m1 by (simp add: mc_ticks_append)
qed simp

lemma portLost_lost:
  assumes "mc_wanted m" "mc_port m = Some p" "\<not> di_externalSetup (mc_info m)" "0 < mc_reconnectSeconds m"
  shows "lost (portLost p reason m)" "mc_portType (portLost p reason m) = mc_portType m" "mc_info (portLost p reason m) = mc_info m"
    "mc_reconnectSeconds (portLost p reason m) = mc_reconnectSeconds m" "mc_timeoutMs (portLost p reason m) = mc_timeoutMs m"
  using assms closePort_simps[of m] by (simp_all add: portLost_def lost_def Let_def)


subsection \<open>Silence\<close>

text \<open>The state after a frame and some ticks of the watchdog: \<open>Timeout\<close> when one of them came too late.\<close>

lemma watchdog_ticks:
  assumes "mc_wanted m" "mc_port m \<noteq> None" "mc_state m \<in> {Connecting, Connected, Timeout}" "mc_portType m \<noteq> BleGattPort"
  shows "\<exists>m'. mc_ticks during ts m = Some m' \<and> mc_wanted m' \<and> mc_port m' = mc_port m \<and> mc_portType m' = mc_portType m \<and>
    mc_lastFrame m' = mc_lastFrame m \<and> mc_timeoutMs m' = mc_timeoutMs m \<and>
    mc_state m' = (if list_ex (\<lambda>t. te_now (snd t) - mc_lastFrame m > mc_timeoutMs m) ts then Timeout else mc_state m)"
  using assms
proof (induction ts arbitrary: m)
  case (Cons t ts)
  obtain pt te where t: "t = (pt, te)" by fastforce
  have m1: "mc_tick during pt te m = Some (watchdog te m)" using Cons.prems(1,2) by (auto simp: mc_tick_def)
  have l: "mc_lastFrame (watchdog te m) = mc_lastFrame m" using Cons.prems by (simp add: watchdog_def Let_def)
  have "mc_state (watchdog te m) \<in> {Connecting, Connected, Timeout}" using Cons.prems by (simp add: watchdog_state)
  from Cons.IH[OF _ _ this] show ?case using Cons.prems by (auto simp: t m1 l watchdog_state)
qed simp

text \<open>
  After a frame at \<open>now\<close> the connection is shown as silent exactly when one of the watchdog's ticks since then came more than
  the timeout later; before that it is connected. (A Bluetooth link being set up is not silent.)
\<close>

theorem silence_is_timeout:
  assumes "mc_wanted m" "mc_port m \<noteq> None" "mc_decoder m \<noteq> None" "mc_portType m \<noteq> BleGattPort"
  shows "\<exists>m'. mc_ticks during ts (readEvent q now ev m) = Some m' \<and>
    mc_state m' = (if list_ex (\<lambda>t. te_now (snd t) - now > mc_timeoutMs m) ts then Timeout else Connected)"
proof -
  have s: "mc_state (readEvent q now ev m) = Connected" "mc_lastFrame (readEvent q now ev m) = now"
    using assms(3) by (auto simp: readEvent_keeps)
  show ?thesis
    using watchdog_ticks[of "readEvent q now ev m" during ts] assms unfolding s readEvent_keeps if_not_P[OF assms(3)] by auto
qed

subsection \<open>A polled meter on a serial port\<close>

definition polled_frames :: "unit frame_decoder" where
  "polled_frames = \<lparr>fd_packetLength = 2, fd_checkFormat = (\<lambda>ring i. ring ! i = 13), fd_pollRequest = (\<lambda>s. ([0x44], s))\<rparr>"

definition polled_decoder :: "unit meter_decoder" where
  "polled_decoder = \<lparr>de_type = Metex14, de_frames = polled_frames, de_decode = (\<lambda>bs i s. (Some response0, s)),
     de_keyRequest = (\<lambda>k. []), de_hasKey = (\<lambda>k m. False)\<rparr>"

definition info_plain :: "bool \<Rightarrow> dmm_info" where
  "info_plain external = \<lparr>di_vendor = [], di_model = [], di_name = [], di_baud = 2400, di_protocol = Metex14, di_bits = 7,
     di_stopBits = 2, di_framesPerReading = 2, di_parity = 0, di_display = 4000, di_externalSetup = external, di_rts = True,
     di_dtr = True, di_sigrokExe = [], di_sigrokDriver = [], di_channels = 0\<rparr>"

definition polled_meter :: "bool \<Rightarrow> unit meter_connection" where
  "polled_meter external = mc_setFramesPerReading 2 (mc_setFormat (\<lambda>f. (Some polled_decoder, ())) Metex14
     (setDevice qt_plain (lit ''serial /dev/ttyS0'') ((connection0 (info_plain external) (replicate 100 0) ())
        \<lparr>mc_info := info_plain external\<rparr>)))"

definition try_ok :: port_try where
  "try_ok = \<lparr>pt_created = True, pt_opened = True, pt_code = OtherError, pt_errorString = [], pt_hint = [], pt_init = True\<rparr>"

definition try_fails :: "serial_error \<Rightarrow> port_try" where
  "try_fails c = try_ok\<lparr>pt_opened := False, pt_code := c\<rparr>"

definition at_ms :: "int \<Rightarrow> tick_env" where
  "at_ms t = \<lparr>te_now = t, te_gattWaiting = False, te_cableSilent = False\<rparr>"

definition opened_meter :: "bool \<Rightarrow> unit meter_connection" where
  "opened_meter external = (case mc_open Some try_ok (at_ms 0) (polled_meter external) of Some (ok, m) \<Rightarrow> m | None \<Rightarrow> polled_meter external)"

lemma opened_meter_is:
  "mc_open Some try_ok (at_ms 0) (polled_meter external) = Some (True, opened_meter external)"
  "mc_wanted (opened_meter external)" "mc_port (opened_meter external) \<noteq> None" "mc_portType (opened_meter external) = SerialPort"
  "mc_decoder (opened_meter external) = Some polled_decoder" "mc_info (opened_meter external) = info_plain external"
  "mc_reconnectSeconds (opened_meter external) = 5" "mc_timeoutMs (opened_meter external) = 3000"
proof -
  let ?m = "(polled_meter external)\<lparr>mc_wanted := True\<rparr>"
  have p: "mc_portType ?m = SerialPort" by (cases external; code_simp)
  then have w: "try_works try_ok ?m" by (simp add: try_works_def try_ok_def)
  have f: "mc_decoder ?m = Some polled_decoder" "mc_info ?m = info_plain external" "mc_reconnectSeconds ?m = 5" "mc_timeoutMs ?m = 3000"
    by (simp_all add: polled_meter_def mc_setFramesPerReading_def mc_setFormat_def setDevice_def Let_def connection0_def)
  obtain m' where r: "openPort Some try_ok (at_ms 0) ?m = Some (True, m')" "opened ?m m'" "mc_wanted m'" "mc_info m' = mc_info ?m"
    "mc_portType m' = mc_portType ?m" "mc_reconnectSeconds m' = mc_reconnectSeconds ?m" "mc_timeoutMs m' = mc_timeoutMs ?m"
    "mc_decoder m' = mc_decoder ?m"
    using openPort_result[of try_ok "at_ms 0" ?m] w by auto
  then have o: "mc_open Some try_ok (at_ms 0) (polled_meter external) = Some (True, m')" by (simp add: mc_open_def)
  then have "opened_meter external = m'" by (simp add: opened_meter_def)
  then show "mc_open Some try_ok (at_ms 0) (polled_meter external) = Some (True, opened_meter external)"
    "mc_wanted (opened_meter external)" "mc_port (opened_meter external) \<noteq> None" "mc_portType (opened_meter external) = SerialPort"
    "mc_decoder (opened_meter external) = Some polled_decoder" "mc_info (opened_meter external) = info_plain external"
    "mc_reconnectSeconds (opened_meter external) = 5" "mc_timeoutMs (opened_meter external) = 3000"
    using o r p f by (simp_all add: opened_def)
qed

text \<open>
  A port set up by another tool is not closed when it is lost: the connection still has it and is never opened again; the
  next request goes through the null pointer the reader was left with.
\<close>

lemma external_port_stays:
  "(case mc_tick Some try_ok (at_ms 1000) (portLost 0 [] (opened_meter True)) of
      Some m \<Rightarrow> mc_port m = Some 0 \<and> mc_state m = LinkError \<and> fr_port (mc_reader m) = None \<and> Option.is_none (mc_readerTimer m)
    | None \<Rightarrow> False)"
  by code_simp

text \<open>The box on a missing permission, during a try to open a lost port again: the timers run on while it is shown.\<close>

lemma permission_box_crash:
  "(case mc_ticks Some (replicate 4 (try_ok, at_ms 0)) (portLost 0 [] (opened_meter False)) of
      Some m \<Rightarrow> Option.is_none (mc_tick (\<lambda>m. Option.bind (mc_tick Some try_ok (at_ms 6000) m) mc_readerTimer) (try_fails PermissionError) (at_ms 5000) m)
    | None \<Rightarrow> False)"
  by code_simp

text \<open>A meter that is open is opened once more and the port does not open: the reader keeps the deleted one.\<close>

lemma reopen_crash:
  "(case mc_open Some (try_fails OtherError) (at_ms 1000) (opened_meter False) of
      Some (ok, m) \<Rightarrow> \<not> ok \<and> mc_port m = None \<and> mc_handle m = Some 0 \<and> Option.is_none (mc_readerTimer m)
    | None \<Rightarrow> False)"
  by code_simp

text \<open>The number of the next frame and the bytes of a frame begun outlive the port: it is disconnected before it is closed.\<close>

lemma closePort_keeps_frame_state:
  "fr_id (mc_reader (closePort m)) = fr_id (mc_reader m)" "fr_length (mc_reader (closePort m)) = fr_length (mc_reader m)"
  by (auto simp: closePort_def mc_setHandle_def setHandle_def transport_close_def Let_def split: option.splits)

lemma opened_meter_reachable: "conn_reach qt_plain (opened_meter False)"
proof -
  have i: "\<not> di_externalSetup (info_plain False)" by (simp add: info_plain_def)
  have "conn_reach qt_plain (polled_meter False)"
    unfolding polled_meter_def by (rule reach_step[OF reach_start[OF i] step_configure[OF i]])
  moreover have "\<not> mc_wanted (polled_meter False)" by code_simp
  ultimately show ?thesis
    using step_open[of "polled_meter False" qt_plain try_ok "at_ms 0"] opened_meter_is(1)[of False] by (auto intro: reach_step)
qed



theorem silence_is_timeout_witness:
  "\<exists>m'. mc_ticks Some [(try_ok, at_ms 2000), (try_ok, at_ms 4000)]
      (readEvent qt_plain 500 \<lparr>ev_data = [], ev_id = 0, ev_t = 500, ev_wall = 0\<rparr> (opened_meter False)) = Some m' \<and> mc_state m' = Timeout"
  using silence_is_timeout[of "opened_meter False" Some "[(try_ok, at_ms 2000), (try_ok, at_ms 4000)]" qt_plain 500
      "\<lparr>ev_data = [], ev_id = 0, ev_t = 500, ev_wall = 0\<rparr>"] opened_meter_is[of False]
  by (simp add: at_ms_def)

end
