(* ===== verification/Telnet.thy ===== *)
theory Telnet
  imports Framing Dmm_Decoder
begin

text \<open>
  \<open>src/src/device/transports/rfc2217serial.cpp\<close>: a meter on a serial port that is shared over the network. The bytes of the
  meter come through a telnet connection: \<open>filterTelnet\<close> takes the commands of the server out and undoes the doubling
  of 0xFF; \<open>writeData\<close> and the line settings go out with 0xFF doubled. The socket is its list of written bytes.
\<close>

subsection \<open>Receiving\<close>

datatype telnet_state = Data | Iac | Option | Sub | SubIac

definition IAC :: byte where "IAC = 0xFF"
definition SB :: byte where "SB = 0xFA"
definition SE :: byte where "SE = 0xF0"
definition WILL :: byte where "WILL = 0xFB"
definition DONT :: byte where "DONT = 0xFE"

text \<open>The parser state, and \<open>m_rx\<close>: what was received and is not read yet.\<close>

fun telnet_byte :: "telnet_state \<times> bytes \<Rightarrow> byte \<Rightarrow> telnet_state \<times> bytes" where
  "telnet_byte (Data, rx) b = (if b = IAC then (Iac, rx) else (Data, rx @ [b]))"
| "telnet_byte (Iac, rx) b =
     (if b = IAC then (Data, rx @ [b])
      else if b = SB then (Sub, rx)
      else if b \<ge> WILL \<and> b \<le> DONT then (Option, rx)
      else (Data, rx))"
| "telnet_byte (Option, rx) b = (Data, rx)"
| "telnet_byte (Sub, rx) b = (if b = IAC then (SubIac, rx) else (Sub, rx))"
| "telnet_byte (SubIac, rx) b = (if b = IAC then (Sub, rx) else (Data, rx))"

definition filterTelnet :: "telnet_state \<times> bytes \<Rightarrow> bytes \<Rightarrow> telnet_state \<times> bytes" where
  "filterTelnet s raw = foldl telnet_byte s raw"

text \<open>\<open>BufferedDevice::readData\<close>: the bytes read, and what stays.\<close>

definition readData :: "bytes \<Rightarrow> nat \<Rightarrow> bytes \<times> bytes" where
  "readData rx maxSize = (take maxSize rx, drop maxSize rx)"

subsection \<open>Sending\<close>

definition appendEscaped :: "bytes \<Rightarrow> bytes \<Rightarrow> bytes" where
  "appendEscaped out data = out @ concat (map (\<lambda>c. if c = IAC then [c, c] else [c]) data)"

definition sendPortOption :: "byte \<Rightarrow> bytes \<Rightarrow> bytes" where
  "sendPortOption option data = appendEscaped [IAC, SB, 0x2C, option] data @ [IAC, SE]"

definition parity_code :: "int \<Rightarrow> byte" where
  "parity_code p = (if p = 0 then 1 else if p = 1 then 3 else if p = 2 then 2 else 1)"

definition baudBytes :: "u32 \<Rightarrow> bytes" where
  "baudBytes baud = [ucast (drop_bit 24 baud AND 0xFF), ucast (drop_bit 16 baud AND 0xFF),
     ucast (drop_bit 8 baud AND 0xFF), ucast (baud AND 0xFF)]"

definition port_options :: "dmm_info \<Rightarrow> (byte \<times> bytes) list" where
  "port_options i =
     [(1, baudBytes (word_of_int (di_baud i))),
      (2, [word_of_int (di_bits i)]),
      (3, [parity_code (di_parity i)]),
      (4, [word_of_int (di_stopBits i)]),
      (5, [if di_dtr i then 0x08 else 0x09]),
      (5, [if di_rts i then 0x0B else 0x0C])]"

definition sendRFC2217Negotiation :: "dmm_info \<Rightarrow> bytes" where
  "sendRFC2217Negotiation i = concat (map (\<lambda>(option, data). sendPortOption option data) (port_options i))"

subsection \<open>What a telnet peer may send\<close>

text \<open>
  RFC 854 and RFC 2217: a byte of data, a command without an argument, the negotiation of an option, and a
  subnegotiation with its data. \<open>telnet_encode\<close> is how they are put on the wire.
\<close>

datatype telnet_item = Byte byte | Command byte | Negotiate byte byte | Subnegotiation bytes

definition escape :: "bytes \<Rightarrow> bytes" where
  "escape data = appendEscaped [] data"

fun telnet_encode :: "telnet_item \<Rightarrow> bytes" where
  "telnet_encode (Byte b) = escape [b]"
| "telnet_encode (Command c) = [IAC, c]"
| "telnet_encode (Negotiate v opt) = [IAC, v, opt]"
| "telnet_encode (Subnegotiation d) = [IAC, SB] @ escape d @ [IAC, SE]"

fun telnet_ok :: "telnet_item \<Rightarrow> bool" where
  "telnet_ok (Byte b) = True"
| "telnet_ok (Command c) = (c < SB)"
| "telnet_ok (Negotiate v opt) = (WILL \<le> v \<and> v \<le> DONT)"
| "telnet_ok (Subnegotiation d) = True"

fun item_data :: "telnet_item \<Rightarrow> bytes" where
  "item_data (Byte b) = [b]"
| "item_data i = []"

text \<open>What a telnet peer with the same rules takes out of a stream: its subnegotiations, in order.\<close>

definition port_option_item :: "byte \<times> bytes \<Rightarrow> telnet_item" where
  "port_option_item p = Subnegotiation (0x2C # fst p # snd p)"

subsection \<open>The filter is a stream consumer\<close>

interpretation tn: stream_consumer filterTelnet
  by unfold_locales (simp add: filterTelnet_def)

lemmas iac_defs = IAC_def SB_def SE_def WILL_def DONT_def

lemma escape_simps [simp]: "escape [] = []" "escape (c # d) = (if c = IAC then [c, c] else [c]) @ escape d"
  by (simp_all add: escape_def appendEscaped_def)

lemma appendEscaped_escape: "appendEscaped out d = out @ escape d"
  by (simp add: escape_def appendEscaped_def)

lemma filter_append: "filterTelnet s (a @ b) = filterTelnet (filterTelnet s a) b"
  by (simp add: filterTelnet_def)

lemma filter_Cons: "filterTelnet s (a # b) = filterTelnet (telnet_byte s a) b"
  by (simp add: filterTelnet_def)

lemma filter_Nil [simp]: "filterTelnet s [] = s"
  by (simp add: filterTelnet_def)

lemma filter_sub_data: "filterTelnet (Sub, rx) (escape d) = (Sub, rx)"
  by (induction d) (auto simp: filter_Cons)

lemma filter_escape: "filterTelnet (Data, rx) (escape d) = (Data, rx @ d)"
  by (induction d arbitrary: rx) (auto simp: filter_Cons)

lemma filter_item: "telnet_ok i \<Longrightarrow> filterTelnet (Data, rx) (telnet_encode i) = (Data, rx @ item_data i)"
proof (cases i)
  case (Subnegotiation d)
  have "filterTelnet (Data, rx) ([IAC, SB] @ escape d @ [IAC, SE]) = filterTelnet (Sub, rx) (escape d @ [IAC, SE])"
    by (simp add: filter_Cons) (simp add: iac_defs)
  also have "\<dots> = (Data, rx)"
    by (simp add: filter_append filter_sub_data filter_Cons) (simp add: iac_defs)
  finally show ?thesis using Subnegotiation by simp
qed (auto simp: filter_Cons iac_defs word_le_nat_alt word_less_nat_alt)

lemma filter_items:
  assumes "list_all telnet_ok is"
  shows "filterTelnet (Data, rx) (concat (map telnet_encode is)) = (Data, rx @ concat (map item_data is))"
  using assms by (induction "is" arbitrary: rx) (simp_all add: filter_append filter_item)

text \<open>
  Whatever the server sends between the meter's bytes - commands, negotiations, answers to the line settings - and
  however the network cuts the stream, the reader gets the meter's bytes and nothing else: every one, also 0xFF,
  once and in order.
\<close>

theorem telnet_transparent:
  assumes "list_all telnet_ok is" and "concat cs = concat (map telnet_encode is)"
  shows "foldl filterTelnet (Data, rx) cs = (Data, rx @ concat (map item_data is))"
proof -
  have "foldl filterTelnet (Data, rx) cs = filterTelnet (Data, rx) (concat cs)"
    using tn.feed_chunks[of "(Data, rx)" "[]" cs] by simp
  then show ?thesis using assms(2) filter_items[OF assms(1)] by simp
qed

definition ser2net_stream :: "telnet_item list" where
  "ser2net_stream = [Negotiate 0xFB 0x2C, Byte 0x31, Subnegotiation [0x2C, 0x65, 0xFF, 0, 0x25, 0x80], Byte 0xFF,
     Command 0xF1, Byte 0x0A]"

theorem telnet_transparent_witness:
  "foldl filterTelnet (Data, []) [[0xFF, 0xFB], [0x2C, 0x31, 0xFF], [0xFA, 0x2C, 0x65, 0xFF], [0xFF, 0, 0x25, 0x80, 0xFF],
     [0xF0, 0xFF], [0xFF, 0xFF, 0xF1, 0x0A]] = (Data, [0x31, 0xFF, 0x0A])"
proof -
  let ?cs = "[[0xFF, 0xFB], [0x2C, 0x31, 0xFF], [0xFA, 0x2C, 0x65, 0xFF], [0xFF, 0, 0x25, 0x80, 0xFF],
     [0xF0, 0xFF], [0xFF, 0xFF, 0xF1, 0x0A]] :: bytes list"
  have "list_all telnet_ok ser2net_stream" by (simp add: ser2net_stream_def iac_defs)
  moreover have "concat ?cs = concat (map telnet_encode ser2net_stream)"
    by (simp add: ser2net_stream_def iac_defs)
  ultimately have "foldl filterTelnet (Data, []) ?cs = (Data, [] @ concat (map item_data ser2net_stream))"
    by (rule telnet_transparent)
  also have "\<dots> = (Data, [0x31, 0xFF, 0x0A])" by (simp add: ser2net_stream_def)
  finally show ?thesis .
qed

lemma low_byte_at: "ucast (drop_bit k w AND 0xFF :: u32) = (of_nat (unat w div 2 ^ k) :: byte)"
proof -
  have "(x :: u32) AND 0xFF = take_bit 8 x" for x by (simp add: take_bit_eq_mask mask_eq_exp_minus_1)
  then show ?thesis
    by (intro bit_word_eqI) (auto simp: bit_simps drop_bit_eq_div[symmetric])
qed

lemma baudBytes_be32: "baudBytes w = be32 w"
proof -
  have four: "(4 :: nat) = Suc (Suc (Suc (Suc 0)))" by simp
  have be4: "be_bytes 4 v = [of_nat (v div 256 div 256 div 256 mod 256), of_nat (v div 256 div 256 mod 256),
      of_nat (v div 256 mod 256), of_nat (v mod 256)]" for v
    unfolding four be_bytes.simps by (simp only: append.simps)
  have m: "(of_nat (v mod 256) :: byte) = of_nat v" for v
    by (rule word_unat_eq_iff[THEN iffD2]) (simp add: unat_of_nat)
  have d: "v div 2 ^ 24 = v div 256 div 256 div 256" "v div 2 ^ 16 = v div 256 div 256" "v div 2 ^ 8 = v div 256"
    for v :: nat by (simp_all add: div_mult2_eq[symmetric])
  have "baudBytes w = [of_nat (unat w div 2 ^ 24), of_nat (unat w div 2 ^ 16), of_nat (unat w div 2 ^ 8), of_nat (unat w)]"
    unfolding baudBytes_def low_byte_at using low_byte_at[of 0 w] by simp
  then show ?thesis unfolding be32_def be4 m d .
qed

text \<open>
  The line settings a connection starts with are six well-formed COM-PORT-OPTION subnegotiations, in any value of the
  baud rate, and a peer with the same rules finds no data in them.
\<close>

theorem negotiation_wellformed:
  "sendRFC2217Negotiation i = concat (map (\<lambda>p. telnet_encode (port_option_item p)) (port_options i)) \<and>
   filterTelnet (Data, rx) (sendRFC2217Negotiation i) = (Data, rx) \<and>
   be_val (snd (port_options i ! 0)) = nat (di_baud i mod 2 ^ 32)"
proof (intro conjI)
  have opt: "sendPortOption op d = telnet_encode (port_option_item (op, d))" if "op \<noteq> IAC" for op d
    using that by (simp add: sendPortOption_def port_option_item_def appendEscaped_escape iac_defs)
  have plain: "list_all (\<lambda>p. fst p \<noteq> IAC) (port_options i)" by (simp add: port_options_def IAC_def)
  then show *: "sendRFC2217Negotiation i = concat (map (\<lambda>p. telnet_encode (port_option_item p)) (port_options i))"
    unfolding sendRFC2217Negotiation_def list_all_iff
    by (intro arg_cong[of _ _ concat] map_cong refl) (auto simp: opt split: prod.split)
  have "filterTelnet (Data, rx) (concat (map telnet_encode (map port_option_item ps))) = (Data, rx)" for ps
    using filter_items[of "map port_option_item ps" rx]
    by (simp add: list_all_iff port_option_item_def comp_def del: telnet_encode.simps map_map)
  then show "filterTelnet (Data, rx) (sendRFC2217Negotiation i) = (Data, rx)"
    by (simp add: * comp_def)
  show "be_val (snd (port_options i ! 0)) = nat (di_baud i mod 2 ^ 32)"
    using unat_less_pow[of "word_of_int (di_baud i) :: u32"]
    by (simp add: port_options_def baudBytes_be32 be32_def be_val_be_bytes unsigned_of_int take_bit_eq_mod)
qed

end
