(* ===== verification/Vc820.thy ===== *)
theory Vc820
  imports Frame_Reader
begin

text \<open>
  \<open>src/src/device/decoders/vc820.cpp\<close>: the frames of the FS9721 meters (Voltcraft VC820, Uni-Trend UT60A and many more). A frame is
  the picture of the display: 14 bytes with their number in the high nibble and four segments or signs in the low one.
\<close>

subsection \<open>The decoder\<close>

definition kFrameLength :: nat where "kFrameLength = 14"

definition vc820_sequence :: "bytes \<Rightarrow> bool" where
  "vc820_sequence f \<longleftrightarrow> (\<forall>i \<in> set [0..<kFrameLength]. drop_bit 4 (f ! i) = of_nat (i + 1))"

definition vc820_checkFormat :: "bytes \<Rightarrow> nat \<Rightarrow> bool" where
  "vc820_checkFormat data idx \<longleftrightarrow>
     (if data ! idx AND 0xF0 \<noteq> 0xE0 then False else vc820_sequence (lastBytes data idx kFrameLength))"

definition vc820_table :: "(byte \<times> qstring) list" where
  "vc820_table = [(0x7D, lit ''0''), (0x05, lit ''1''), (0x5B, lit ''2''), (0x1F, lit ''3''), (0x27, lit ''4''),
     (0x3E, lit ''5''), (0x7E, lit ''6''), (0x15, lit ''7''), (0x7F, lit ''8''), (0x3F, lit ''9'')]"

text \<open>No text for segments that are no digit: appending a null pointer to a \<open>QString\<close> appends nothing.\<close>

definition vc820Digit :: "byte \<Rightarrow> qstring" where
  "vc820Digit b = (case find (\<lambda>e. b AND 0x7F = fst e) vc820_table of Some e \<Rightarrow> snd e | None \<Rightarrow> [])"

definition vc820_overload :: "bytes \<Rightarrow> bool" where
  "vc820_overload d \<longleftrightarrow> d ! 3 AND 0x07 = 0x07 \<and> d ! 4 AND 0x0F = 0x0D \<and> d ! 5 AND 0x07 = 0x06 \<and> d ! 6 AND 0x0F = 0x08"

definition vc820_digits :: "bytes \<Rightarrow> qstring" where
  "vc820_digits d = concat (map (\<lambda>i. vc820Digit ((push_bit 4 (d ! (1 + 2 * i)) AND 0xF0) OR (d ! (2 + 2 * i) AND 0x0F))) [0..<4])"

definition vc820_text :: "bytes \<Rightarrow> qstring" where
  "vc820_text d =
     (let v = (if vc820_overload d then lit ''  0L''
               else (if d ! 1 AND 0x08 \<noteq> 0 then lit '' -'' else lit ''  '') @ vc820_digits d)
      in if d ! 3 AND 0x08 \<noteq> 0 then insertComma v 1
         else if d ! 5 AND 0x08 \<noteq> 0 then insertComma v 2
         else if d ! 7 AND 0x08 \<noteq> 0 then insertComma v 3
         else v)"

definition vc820_prefix :: "bytes \<Rightarrow> qstring" where
  "vc820_prefix d =
     (if d ! 9 AND 0x04 \<noteq> 0 then lit ''n''
      else if d ! 9 AND 0x08 \<noteq> 0 then lit ''u''
      else if d ! 10 AND 0x08 \<noteq> 0 then lit ''m''
      else if d ! 9 AND 0x02 \<noteq> 0 then lit ''k''
      else if d ! 10 AND 0x02 \<noteq> 0 then lit ''M''
      else [])"

text \<open>The unit without its prefix, and the mode.\<close>

definition vc820_mode :: "bytes \<Rightarrow> qstring \<times> qstring" where
  "vc820_mode d =
     (let special = (if d ! 9 AND 0x01 \<noteq> 0 then lit ''DI'' else if d ! 0 AND 0x08 \<noteq> 0 then lit ''AC'' else lit ''DC'')
      in if d ! 11 AND 0x08 \<noteq> 0 then (lit ''F'', lit ''CA'')
         else if d ! 11 AND 0x04 \<noteq> 0 then (lit ''Ohm'', lit ''OH'')
         else if d ! 12 AND 0x08 \<noteq> 0 then (lit ''A'', special)
         else if d ! 12 AND 0x02 \<noteq> 0 then (lit ''Hz'', lit ''HZ'')
         else if d ! 12 AND 0x04 \<noteq> 0 then (lit ''V'', special)
         else if d ! 10 AND 0x04 \<noteq> 0 then (lit ''%'', lit ''PC'')
         else if d ! 13 AND 0x01 \<noteq> 0 \<or> d ! 13 AND 0x04 \<noteq> 0 then (lit ''C'', lit ''TE'')
         else ([], special))"

definition vc820_decode :: "(qstring \<Rightarrow> dbl option) \<Rightarrow> bytes \<Rightarrow> int \<Rightarrow> dmm_response option" where
  "vc820_decode to_double d i =
     Some (upd_main (\<lambda>c. c\<lparr>ch_id := i,
         ch_states := (if d ! 11 AND 0x02 \<noteq> 0 then ch_states c OR Relative else ch_states c),
         ch_dval := d_mul (double_or_0 (to_double (vc820_text d))) (prefixFactor (vc820_prefix d)),
         ch_special := snd (vc820_mode d), ch_val := vc820_text d, ch_unit := vc820_prefix d @ fst (vc820_mode d)\<rparr>)
       (response0\<lparr>re_hold := (d ! 11 AND 0x01 \<noteq> 0), re_lowBat := (d ! 12 AND 0x01 \<noteq> 0), re_showBar := True,
          re_range := (if data_bit d 0 1 then lit ''AUTO'' else lit ''MANU'')\<rparr>))"

definition vc820 :: "'d frame_decoder" where
  "vc820 = \<lparr>fd_packetLength = kFrameLength, fd_checkFormat = vc820_checkFormat, fd_pollRequest = (\<lambda>s. ([], s))\<rparr>"

subsection \<open>The display\<close>

text \<open>
  What the meter shows, and the frame it sends for it: the table in the head of \<open>vc820.cpp\<close>. The segments of a digit
  are lettered there A (lower left), B (upper left), C (top), D (bottom), E (lower right), F (middle), G (upper right).
\<close>

record lcd =
  lcd_ac :: bool
  lcd_dc :: bool
  lcd_auto :: bool
  lcd_rs232 :: bool
  lcd_neg :: bool
  lcd_segments :: "nat \<Rightarrow> nat"
  lcd_point :: nat
  lcd_micro :: bool
  lcd_nano :: bool
  lcd_kilo :: bool
  lcd_diode :: bool
  lcd_milli :: bool
  lcd_percent :: bool
  lcd_mega :: bool
  lcd_beep :: bool
  lcd_farad :: bool
  lcd_ohm :: bool
  lcd_rel :: bool
  lcd_hold :: bool
  lcd_amp :: bool
  lcd_volt :: bool
  lcd_hertz :: bool
  lcd_lowbat :: bool
  lcd_user :: "nat \<Rightarrow> bool"

definition segments :: "nat \<Rightarrow> bool list" where
  "segments n =
     [n \<in> {0, 2, 6, 8}, n \<in> {0, 4, 5, 6, 8, 9}, n \<in> {0, 2, 3, 5, 6, 7, 8, 9},
      n \<in> {0, 2, 3, 5, 6, 8, 9}, n \<in> {0, 1, 3, 4, 5, 6, 7, 8, 9}, n \<in> {2, 3, 4, 5, 6, 8, 9}, n \<in> {0, 1, 2, 3, 4, 7, 8, 9}]"

definition nib :: "byte \<Rightarrow> bool \<Rightarrow> bool \<Rightarrow> bool \<Rightarrow> bool \<Rightarrow> byte" where
  "nib h a b c d = push_bit 4 h OR ((if a then 8 else 0) + (if b then 4 else 0) + (if c then 2 else 0) + (if d then 1 else 0))"

definition lcd_frame :: "lcd \<Rightarrow> bytes" where
  "lcd_frame l =
     (let s = (\<lambda>k. segments (lcd_segments l k)); p = (\<lambda>k. lcd_point l = k) in
     [nib 1 (lcd_ac l) (lcd_dc l) (lcd_auto l) (lcd_rs232 l),
      nib 2 (lcd_neg l) (s 0 ! 0) (s 0 ! 1) (s 0 ! 2), nib 3 (s 0 ! 3) (s 0 ! 4) (s 0 ! 5) (s 0 ! 6),
      nib 4 (p 1) (s 1 ! 0) (s 1 ! 1) (s 1 ! 2), nib 5 (s 1 ! 3) (s 1 ! 4) (s 1 ! 5) (s 1 ! 6),
      nib 6 (p 2) (s 2 ! 0) (s 2 ! 1) (s 2 ! 2), nib 7 (s 2 ! 3) (s 2 ! 4) (s 2 ! 5) (s 2 ! 6),
      nib 8 (p 3) (s 3 ! 0) (s 3 ! 1) (s 3 ! 2), nib 9 (s 3 ! 3) (s 3 ! 4) (s 3 ! 5) (s 3 ! 6),
      nib 10 (lcd_micro l) (lcd_nano l) (lcd_kilo l) (lcd_diode l),
      nib 11 (lcd_milli l) (lcd_percent l) (lcd_mega l) (lcd_beep l),
      nib 12 (lcd_farad l) (lcd_ohm l) (lcd_rel l) (lcd_hold l),
      nib 13 (lcd_amp l) (lcd_volt l) (lcd_hertz l) (lcd_lowbat l),
      nib 14 (lcd_user l 3) (lcd_user l 2) (lcd_user l 1) (lcd_user l 0)])"

text \<open>Four decimal digits and at most one point, behind the first, second or third digit.\<close>

definition lcd_ok :: "lcd \<Rightarrow> bool" where
  "lcd_ok l \<longleftrightarrow> (\<forall>k < 4. lcd_segments l k < 10) \<and> lcd_point l \<le> 3"

definition lcd_digits :: "lcd \<Rightarrow> qstring" where
  "lcd_digits l = map (\<lambda>k. 48 + of_nat (lcd_segments l k)) [0..<4]"

definition lcd_text :: "lcd \<Rightarrow> qstring" where
  "lcd_text l =
     (if lcd_neg l then lit '' -'' else lit ''  '') @
     (if lcd_point l = 0 then lcd_digits l
      else take (lcd_point l) (lcd_digits l) @ lit ''.'' @ drop (lcd_point l) (lcd_digits l))"

text \<open>The number shown, in units of the unit shown: \<open>-12.34\<close> is minus 1234 divided by 100.\<close>

definition lcd_number :: "lcd \<Rightarrow> rat" where
  "lcd_number l = of_nat (digits_val (lcd_digits l)) / 10 ^ (if lcd_point l = 0 then 0 else 4 - lcd_point l)"

subsection \<open>Facts on nibbles\<close>

lemma low_nibble: "(push_bit 4 h OR x) AND 0x0F = (x AND 0x0F :: byte)"
proof -
  have "y AND 0x0F = take_bit 4 y" for y :: byte by (simp add: take_bit_eq_mask mask_eq_exp_minus_1)
  then show ?thesis by (simp add: take_bit_or take_bit_push_bit)
qed

lemma nib_mask:
  assumes "m \<in> {1, 2, 4, 8 :: byte}"
  shows "nib h a b c d AND m = ((if a then 8 else 0) + (if b then 4 else 0) + (if c then 2 else 0) + (if d then 1 else 0)) AND m"
proof -
  have m: "0x0F AND m = m" using assms by auto
  have part: "x AND m = (x AND 0x0F) AND m" for x :: byte by (simp only: and.assoc m)
  show ?thesis unfolding nib_def by (subst (1 2) part) (simp only: low_nibble)
qed

lemma nib_bits:
  "nib h a b c d AND 0x08 = (if a then 8 else 0)" "nib h a b c d AND 0x04 = (if b then 4 else 0)"
  "nib h a b c d AND 0x02 = (if c then 2 else 0)" "nib h a b c d AND 0x01 = (if d then 1 else 0)"
  by (simp_all only: nib_mask insert_iff simp_thms) (cases a; cases b; cases c; cases d; simp)+

lemma nib_seq: "h \<in> {1, 2, 3, 4, 5, 6, 7, 8, 9, 10, 11, 12, 13, 14} \<Longrightarrow> drop_bit 4 (nib h a b c d) = h"
proof -
  assume "h \<in> {1, 2, 3, 4, 5, 6, 7, 8, 9, 10, 11, 12, 13, 14}"
  then have "drop_bit 4 (push_bit 4 h) = h" by (elim insertE emptyE) simp_all
  moreover have "drop_bit 4 ((if a then 8 else 0) + (if b then 4 else 0) + (if c then 2 else 0) + (if d then 1 else 0) :: byte) = 0"
    by (cases a; cases b; cases c; cases d; simp)
  ultimately show ?thesis by (simp only: nib_def drop_bit_or or.right_neutral)
qed

lemma below_10: "n < 10 \<Longrightarrow> n = 0 \<or> n = 1 \<or> n = 2 \<or> n = 3 \<or> n = 4 \<or> n = 5 \<or> n = 6 \<or> n = 7 \<or> n = 8 \<or> n = (9 :: nat)"
  by arith

lemma vc820_digit_of:
  assumes "n < 10" and "h \<in> {2, 4, 6, 8}"
  shows "vc820Digit ((push_bit 4 (nib h x (segments n ! 0) (segments n ! 1) (segments n ! 2)) AND 0xF0) OR
      (nib (h + 1) (segments n ! 3) (segments n ! 4) (segments n ! 5) (segments n ! 6) AND 0x0F)) = [48 + of_nat n]"
  using below_10[OF assms(1)] assms(2)
  by (elim disjE insertE emptyE; cases x; simp add: segments_def nib_def vc820Digit_def vc820_table_def)

text \<open>No four digits are mistaken for the overload: an L is no digit.\<close>

lemma vc820_no_overload:
  assumes "lcd_ok l"
  shows "\<not> vc820_overload (lcd_frame l)"
proof -
  have "lcd_segments l 2 < 10" using assms by (simp add: lcd_ok_def)
  then have "nib 6 x (segments (lcd_segments l 2) ! 0) (segments (lcd_segments l 2) ! 1) (segments (lcd_segments l 2) ! 2) AND 0x07 = 0x06
      \<longrightarrow> nib 7 (segments (lcd_segments l 2) ! 3) (segments (lcd_segments l 2) ! 4) (segments (lcd_segments l 2) ! 5)
            (segments (lcd_segments l 2) ! 6) AND 0x0F \<noteq> 0x08" for x
    by (elim disjE[OF below_10] disjE; cases x; simp add: segments_def nib_def)
  then show ?thesis by (simp add: vc820_overload_def lcd_frame_def Let_def)
qed

lemma upt_4: "[0..<4] = [0, 1, 2, 3 :: nat]"
  by (simp add: upt_rec)

lemma vc820_digits_frame: "lcd_ok l \<Longrightarrow> vc820_digits (lcd_frame l) = lcd_digits l"
  using vc820_digit_of[of "lcd_segments l 0" 2 "lcd_neg l"] vc820_digit_of[of "lcd_segments l 1" 4 "lcd_point l = 1"]
    vc820_digit_of[of "lcd_segments l 2" 6 "lcd_point l = 2"] vc820_digit_of[of "lcd_segments l 3" 8 "lcd_point l = 3"]
  by (simp add: vc820_digits_def upt_4 lcd_digits_def lcd_ok_def) (simp add: lcd_frame_def Let_def)

lemma vc820_text_frame: 
  assumes "lcd_ok l"
  shows "vc820_text (lcd_frame l) = lcd_text l"
proof -
  have bits: "lcd_frame l ! Suc 0 AND 0x08 \<noteq> 0 \<longleftrightarrow> lcd_neg l" "lcd_frame l ! 3 AND 0x08 \<noteq> 0 \<longleftrightarrow> lcd_point l = 1"
      "lcd_frame l ! 5 AND 0x08 \<noteq> 0 \<longleftrightarrow> lcd_point l = 2" "lcd_frame l ! 7 AND 0x08 \<noteq> 0 \<longleftrightarrow> lcd_point l = 3"
    by (simp_all add: lcd_frame_def Let_def nib_bits)
  have four: "length (lcd_digits l) = 4" by (simp add: lcd_digits_def)
  have comma: "insertComma (s @ lcd_digits l) p = s @ take p (lcd_digits l) @ lit ''.'' @ drop p (lcd_digits l)"
    if "length s = 2" "p \<le> 4" for s p
    using that four by (simp add: insertComma_def)
  have "lcd_point l \<in> {0, 1, 2, 3}" using assms by (auto simp: lcd_ok_def)
  then show ?thesis
    using comma[of "lit '' -''"] comma[of "lit ''  ''"]
    by (auto simp: vc820_text_def lcd_text_def Let_def bits vc820_no_overload[OF assms] vc820_digits_frame[OF assms])
qed

subsection \<open>Frames in the stream\<close>

definition vc820_good :: "bytes \<Rightarrow> bool" where
  "vc820_good f \<longleftrightarrow> length f = kFrameLength \<and> vc820_sequence f"

definition vc820_end :: "byte \<Rightarrow> bool" where
  "vc820_end b \<longleftrightarrow> b AND 0xF0 = 0xE0"

lemma high_nibble: "(b :: byte) AND 0xF0 = push_bit 4 (drop_bit 4 b)"
proof (rule bit_word_eqI)
  fix n assume "n < LENGTH(8)"
  then have "n = 0 \<or> n = 1 \<or> n = 2 \<or> n = 3 \<or> n = 4 \<or> n = 5 \<or> n = 6 \<or> n = 7" by simp arith
  then show "bit (b AND 0xF0) n = bit (push_bit 4 (drop_bit 4 b)) n"
    by (elim disjE) (simp_all add: bit_and_iff bit_push_bit_iff bit_drop_bit_eq)
qed

lemma vc820_end_seq: "vc820_end b \<longleftrightarrow> drop_bit 4 b = 14"
proof
  assume "drop_bit 4 b = 14"
  then show "vc820_end b" by (simp add: vc820_end_def high_nibble)
next
  assume e: "vc820_end b"
  have "unat b < 256" using unat_less_pow[of b] by simp
  then have "unat (drop_bit 4 b) < 16" unfolding unat_drop_bit_eq by (simp add: drop_bit_eq_div)
  moreover have "unat (push_bit 4 (drop_bit 4 b)) = unat (14 * 16 :: byte)"
    using e by (simp add: vc820_end_def high_nibble)
  ultimately have "unat (drop_bit 4 b) = 14"
    by (simp add: push_bit_eq_mult unat_word_ariths)
  then show "drop_bit 4 b = 14" by (simp add: word_unat_eq_iff)
qed

lemma vc820_sequence_nth: "vc820_sequence f \<Longrightarrow> i < 14 \<Longrightarrow> drop_bit 4 (f ! i) = of_nat (i + 1)"
  unfolding vc820_sequence_def kFrameLength_def by (metis atLeastLessThan_upt atLeastLessThan_iff le0)

lemma vc820_good_check:
  assumes "length ring = FIFO_LENGTH" and "i < FIFO_LENGTH" and "vc820_good (lastBytes ring i kFrameLength)"
  shows "vc820_checkFormat ring i"
proof -
  have "lastBytes ring i kFrameLength ! 13 = ring ! i"
    using assms(2) by (simp add: lastBytes_def ringByte_def kFrameLength_def del: upt_Suc)
  then have "drop_bit 4 (ring ! i) = 14"
    using vc820_sequence_nth[of "lastBytes ring i kFrameLength" 13] assms(3) by (simp add: vc820_good_def)
  then show ?thesis
    using assms(3) vc820_end_seq[of "ring ! i"] by (simp add: vc820_checkFormat_def vc820_good_def vc820_end_def)
qed

interpretation vc: packet_code vc820_checkFormat kFrameLength vc820_good vc820_end
proof unfold_locales
  show "0 < kFrameLength" "kFrameLength \<le> FIFO_LENGTH" by (simp_all add: kFrameLength_def FIFO_LENGTH_def)
  show "vc820_checkFormat ring i \<Longrightarrow> vc820_end (ring ! i)" for ring i
    by (simp add: vc820_checkFormat_def vc820_end_def split: if_splits)
  show "vc820_good f \<Longrightarrow> length f = kFrameLength" for f by (simp add: vc820_good_def)
  show "vc820_end (last f) \<and> (\<forall>b \<in> set (butlast f). \<not> vc820_end b)" if g: "vc820_good f" for f
  proof -
    have l: "length f = 14" using g by (simp add: vc820_good_def kFrameLength_def)
    have s: "drop_bit 4 (f ! i) = of_nat (i + 1)" if "i < 14" for i
      using g vc820_sequence_nth that by (simp add: vc820_good_def)
    have "last f = f ! 13" using l by (subst last_conv_nth) auto
    moreover have "drop_bit 4 b \<noteq> 14" if b: "b \<in> set (butlast f)" for b
    proof -
      obtain i where i: "i < 13" "b = f ! i"
        using b l by (auto simp: in_set_conv_nth nth_butlast)
      have ne: "of_nat k \<noteq> (14 :: byte)" if "k < 14" for k
        using that by (simp add: word_unat_eq_iff unat_of_nat)
      have "of_nat (i + 1) \<noteq> (14 :: byte)" by (rule ne) (use i(1) in simp)
      then show ?thesis using s[of i] i by simp
    qed
    ultimately show ?thesis using s[of 13] by (simp add: vc820_end_seq)
  qed
  show "vc820_checkFormat ring i"
    if "length ring = FIFO_LENGTH" "i < FIFO_LENGTH" "vc820_good (lastBytes ring i kFrameLength)" for ring i
    using that by (rule vc820_good_check)
qed

subsection \<open>What is decoded\<close>

definition lcd_prefix :: "lcd \<Rightarrow> qstring" where
  "lcd_prefix l =
     (if lcd_nano l then lit ''n'' else if lcd_micro l then lit ''u'' else if lcd_milli l then lit ''m''
      else if lcd_kilo l then lit ''k'' else if lcd_mega l then lit ''M'' else [])"

lemma lcd_text_decimal:
  assumes "lcd_ok l"
  shows "\<exists>ws ds fs. lcd_text l = decimal_text ws (lcd_neg l) ds fs \<and> set ws \<subseteq> {32} \<and> ds \<noteq> [] \<and>
    list_all q_digit (ds @ fs) \<and> decimal_value ds fs = lcd_number l"
proof -
  let ?d = "lcd_digits l" and ?p = "lcd_point l"
  let ?ws = "if lcd_neg l then [32] else [32, 32]" and ?n = "if ?p = 0 then 4 else ?p"
  have len: "length ?d = 4" by (simp add: lcd_digits_def)
  have dig: "list_all q_digit ?d"
    using assms dec_digit by (auto simp: lcd_digits_def lcd_ok_def list_all_iff)
  have p: "?p \<le> 3" using assms by (simp add: lcd_ok_def)
  have "lcd_text l = decimal_text ?ws (lcd_neg l) (take ?n ?d) (drop ?n ?d)"
    using len p by (auto simp: lcd_text_def decimal_text_def)
  moreover have "take ?n ?d \<noteq> []" using len p by auto
  moreover have "list_all q_digit (take ?n ?d @ drop ?n ?d)" using dig by simp
  moreover have "decimal_value (take ?n ?d) (drop ?n ?d) = lcd_number l"
    using len p by (simp add: decimal_value_def lcd_number_def)
  ultimately show ?thesis by (intro exI[of _ ?ws] exI conjI) auto
qed

lemma lcd_frame_bits:
  "data_bit (lcd_frame l) 0 (Suc 0) = lcd_auto l"
  "lcd_frame l ! 11 AND 0x01 \<noteq> 0 \<longleftrightarrow> lcd_hold l" "lcd_frame l ! 12 AND 0x01 \<noteq> 0 \<longleftrightarrow> lcd_lowbat l"
  "lcd_frame l ! 11 AND 0x02 \<noteq> 0 \<longleftrightarrow> lcd_rel l"
  "vc820_prefix (lcd_frame l) = lcd_prefix l"
  by (simp_all add: lcd_frame_def Let_def nib_bits data_bit_def vc820_prefix_def lcd_prefix_def)

lemma vc820_decodes_display:
  assumes "lcd_ok l" and "reads_decimals to_double"
  shows "\<exists>r base. vc820_decode to_double (lcd_frame l) i = Some r \<and> ch_id (re_main r) = i \<and>
    ch_val (re_main r) = lcd_text l \<and> ch_unit (re_main r) = lcd_prefix l @ base \<and>
    ch_dval (re_main r) = d_mul (dbl_mag (lcd_neg l) (lcd_number l)) (si_factor (lcd_prefix l)) \<and>
    re_hold r = lcd_hold l \<and> re_lowBat r = lcd_lowbat l \<and>
    re_range r = (if lcd_auto l then lit ''AUTO'' else lit ''MANU'') \<and>
    has_flag (ch_states (re_main r)) Relative = lcd_rel l"
proof -
  obtain ws ds fs where d: "lcd_text l = decimal_text ws (lcd_neg l) ds fs" "set ws \<subseteq> {32}" "ds \<noteq> []"
      "list_all q_digit (ds @ fs)" "decimal_value ds fs = lcd_number l"
    using lcd_text_decimal[OF assms(1)] by blast
  then have "to_double (lcd_text l) = Some (dbl_mag (lcd_neg l) (lcd_number l))"
    using assms(2) unfolding reads_decimals_def by metis
  moreover have "has_flag (0 OR Relative) Relative" "\<not> has_flag 0 Relative"
    by (simp_all add: has_flag_def Relative_def)
  ultimately show ?thesis
    by (simp add: vc820_decode_def vc820_text_frame[OF assms(1)] lcd_frame_bits double_or_0_def prefixFactor_def
        response0_def channel0_def re_main_def)
qed

text \<open>
  Whatever four digits, sign, point, prefix and signs the meter shows, its frame is decoded to the text on the display
  and to the number it stands for in SI base units, the prefix of the unit multiplied in; the signs of the display
  come out as they are.
\<close>

theorem vc820_shows_display:
  assumes "lcd_ok l" and "reads_decimals to_double"
  shows "\<exists>r base. vc820_decode to_double (lcd_frame l) i = Some r \<and> ch_id (re_main r) = i \<and>
    ch_val (re_main r) = lcd_text l \<and> ch_unit (re_main r) = lcd_prefix l @ base \<and>
    ch_dval (re_main r) = d_mul (dbl_mag (lcd_neg l) (lcd_number l)) (si_factor (lcd_prefix l)) \<and>
    re_hold r = lcd_hold l \<and> re_lowBat r = lcd_lowbat l \<and>
    re_range r = (if lcd_auto l then lit ''AUTO'' else lit ''MANU'') \<and>
    has_flag (ch_states (re_main r)) Relative = lcd_rel l"
  using assms by (rule vc820_decodes_display)

text \<open>A meter that shows -12.34 mV DC with HOLD, as in the log of a UT60A.\<close>

definition lcd_example :: lcd where
  "lcd_example = \<lparr>lcd_ac = False, lcd_dc = True, lcd_auto = True, lcd_rs232 = True, lcd_neg = True,
     lcd_segments = (\<lambda>k. k + 1), lcd_point = 2, lcd_micro = False, lcd_nano = False, lcd_kilo = False, lcd_diode = False,
     lcd_milli = True, lcd_percent = False, lcd_mega = False, lcd_beep = False, lcd_farad = False, lcd_ohm = False,
     lcd_rel = False, lcd_hold = True, lcd_amp = False, lcd_volt = True, lcd_hertz = False, lcd_lowbat = False,
     lcd_user = (\<lambda>k. k = 3)\<rparr>"

theorem vc820_shows_display_witness:
  "\<exists>r. vc820_decode plain_double (lcd_frame lcd_example) 0 = Some r \<and> ch_val (re_main r) = lit '' -12.34'' \<and> re_hold r"
proof -
  have ok: "lcd_ok lcd_example" by (simp add: lcd_ok_def lcd_example_def)
  have "lcd_text lcd_example = lit '' -12.34''"
    by (simp add: lcd_text_def lcd_digits_def lcd_example_def upt_4)
  moreover have "lcd_hold lcd_example" by (simp add: lcd_example_def)
  ultimately show ?thesis
    using vc820_shows_display[OF ok plain_double_reads, of 0] by auto
qed

text \<open>
  A VC820 frame that arrives whole is read, whatever bytes came before it - a frame cut in the middle, noise, what is
  left in the ring - and however the port delivers it; frames follow one another without loss, and no byte of them
  stays in the port.
\<close>

theorem vc820_frames_delivered:
  assumes "reader_ok r" and "fr_decoder r = Some vc820" and "fr_port r \<noteq> None" and "\<forall>f \<in> set fs. vc820_good f"
    and "fs \<noteq> []" and "as \<noteq> []" and "waiting r @ concat (map fst as) = g @ concat fs"
  shows "map ev_data (snd (arrivals as r)) = snd (feed_bytes g r) @ fs \<and> waiting (fst (arrivals as r)) = []"
proof -
  have "vc.reads r"
    using assms(1,2) by (simp add: vc.reads_def packetLength_def complete_at_def vc820_def)
  from vc.delivery[OF this assms(3-7)] show ?thesis by blast
qed

definition vc820_reader :: "unit reader" where
  "vc820_reader = (reader0 (replicate 100 0) ())\<lparr>fr_decoder := Some vc820, fr_port := Some \<lparr>po_in = [], po_out = []\<rparr>\<rparr>"

lemma lcd_frame_good: "vc820_good (lcd_frame l)"
proof -
  have "vc820_sequence (lcd_frame l)"
    unfolding vc820_sequence_def kFrameLength_def
    by (simp add: upt_rec lcd_frame_def Let_def nib_seq)
  then show ?thesis by (simp add: vc820_good_def lcd_frame_def Let_def kFrameLength_def)
qed

theorem vc820_frames_delivered_witness:
  "map ev_data (snd (arrivals [([0xD4, 0xE8], 5, 6), (take 3 (lcd_frame lcd_example), 7, 8),
      (drop 3 (lcd_frame lcd_example), 9, 10)] vc820_reader)) =
    snd (feed_bytes [0xD4, 0xE8] vc820_reader) @ [lcd_frame lcd_example]"
proof -
  have "reader_ok vc820_reader" by (simp add: reader_ok_def vc820_reader_def reader0_def FIFO_LENGTH_def)
  moreover have "fr_decoder vc820_reader = Some vc820" "fr_port vc820_reader \<noteq> None" "waiting vc820_reader = []"
    by (simp_all add: vc820_reader_def waiting_def)
  ultimately show ?thesis
    using vc820_frames_delivered[of vc820_reader "[lcd_frame lcd_example]"
        "[([0xD4, 0xE8], 5, 6), (take 3 (lcd_frame lcd_example), 7, 8), (drop 3 (lcd_frame lcd_example), 9, 10)]"
        "[0xD4, 0xE8]"] lcd_frame_good[of lcd_example]
    by simp
qed

subsection \<open>What the decoder gets wrong\<close>

text \<open>
  The frame of an overload in the log of the UT60A (\<open>docs/protocols/sources/UT60AE.log\<close>, MOhm): the overload has four
  characters where the digits have six, so the point is put behind a text that is then repeated.
\<close>

definition ut60a_overload :: bytes where
  "ut60a_overload = [0x13, 0x20, 0x30, 0x47, 0x5D, 0x6E, 0x78, 0x80, 0x90, 0xA0, 0xB2, 0xC4, 0xD0, 0xE8]"

theorem vc820_overload_text: "vc820_text ut60a_overload = lit ''  0L.0L''"
  by (simp add: vc820_text_def vc820_overload_def ut60a_overload_def insertComma_def)

text \<open>
  The same with a digit whose segments are in no row of the table: its place is left out, and the text gets a digit
  twice. The frame of a display with a blank first digit and 3.45 behind it is decoded to 34.45.
\<close>

definition blank_digit_frame :: bytes where
  "blank_digit_frame = [0x17, 0x20, 0x30, 0x41, 0x5F, 0x6A, 0x77, 0x83, 0x9E, 0xA0, 0xB8, 0xC0, 0xD4, 0xE8]"

theorem vc820_blank_digit_doubles: "vc820_text blank_digit_frame = lit ''  34.45''"
  by (simp add: vc820_text_def vc820_overload_def blank_digit_frame_def vc820_digits_def upt_4 vc820Digit_def
      vc820_table_def insertComma_def)

text \<open>
  The head of \<open>checkFormat\<close> says that a second half without its first one is not read with the first half of the frame
  before. It is when a frame lay across the end of the ring: the reader starts the next one at 0, and the bytes before
  it, at the end of the ring, are still the first half. After 93 bytes of noise and a frame, the second half of
  another frame makes a reading of its own.
\<close>

definition half_a :: bytes where
  "half_a = [0x17, 0x27, 0x3D, 0x40, 0x55, 0x67, 0x7F]"

definition half_b :: "byte \<Rightarrow> bytes" where
  "half_b x = [0x8B, 0x9F, 0xA0, x, 0xC0, 0xD4, 0xE8]"

theorem vc820_stale_half:
  "map ev_data (snd (arrivals [(replicate 93 0, 1, 1), (half_a @ half_b 0xB8, 2, 2), (half_b 0xB0, 3, 3)] vc820_reader)) =
    [half_a @ half_b 0xB8, half_a @ half_b 0xB0]"
  by code_simp

end
