(* ===== verification/Meter_Path.thy ===== *)
theory Meter_Path
  imports Meter_Connection Telnet Vc820 Reading_Adapter
begin

text \<open>
  The way of a reading through the program, put together from the parts: the socket of \<open>RFC2217SerialDevice::onReadyRead\<close>, the
  frame reader, the decoder, \<open>MeterConnection::readEventSLOT\<close>, and \<open>MeterController::responseSLOT\<close>
  (\<open>src/src/service/metercontroller.cpp\<close>), which adapts each response to the readings the program works with.
\<close>

subsection \<open>From the network to the responses\<close>

text \<open>\<open>RFC2217SerialDevice::onReadyRead\<close>: the reader is told only when there is something to read.\<close>

definition net_bytes :: "qt \<Rightarrow> bytes \<times> int \<times> int \<Rightarrow> telnet_state \<times> 'd meter_connection \<Rightarrow> telnet_state \<times> 'd meter_connection" where
  "net_bytes q a x =
     (case a of (raw, t, wall) \<Rightarrow>
        case filterTelnet (fst x, []) raw of
          (s, rx) \<Rightarrow> (s, if waiting (mc_reader (snd x)) @ rx = [] then snd x else mc_bytes q rx t wall (snd x)))"

definition responses :: "'d meter_connection \<Rightarrow> dmm_response list" where
  "responses m = List.map_filter (\<lambda>s. case s of Response r \<Rightarrow> Some r | _ \<Rightarrow> None) (mc_signals m)"

text \<open>\<open>MeterController::responseSLOT\<close>, for the responses of a connection: the readings that are published.\<close>

definition responseSLOT :: "qt \<Rightarrow> (dbl \<Rightarrow> dbl) \<Rightarrow> int \<Rightarrow> int \<Rightarrow> qstring \<Rightarrow> frame_format \<Rightarrow> dmm_response \<Rightarrow> adapter
    \<Rightarrow> adapter \<times> view_reading list" where
  "responseSLOT q to_float now wall from format r a =
     (case adapt q to_float now r wall (a\<lparr>ad_format := format\<rparr>) of
        (a', pss) \<Rightarrow> (a', map (\<lambda>ps. (vr_of ps)\<lparr>vr_source := from\<rparr>) pss))"

fun published :: "qt \<Rightarrow> (dbl \<Rightarrow> dbl) \<Rightarrow> int \<Rightarrow> int \<Rightarrow> qstring \<Rightarrow> frame_format \<Rightarrow> dmm_response list \<Rightarrow> adapter
    \<Rightarrow> adapter \<times> view_reading list" where
  "published q to_float now wall from format [] a = (a, [])"
| "published q to_float now wall from format (r # rs) a =
     (case responseSLOT q to_float now wall from format r a of
        (a', vrs) \<Rightarrow> (case published q to_float now wall from format rs a' of (a'', vrs') \<Rightarrow> (a'', vrs @ vrs')))"

definition vc820_meter :: "(qstring \<Rightarrow> dbl option) \<Rightarrow> 'd meter_decoder" where
  "vc820_meter to_double = \<lparr>de_type = VC820Continuous, de_frames = vc820, de_decode = (\<lambda>bs i s. (vc820_decode to_double bs i, s)),
     de_keyRequest = (\<lambda>k. []), de_hasKey = (\<lambda>k m. False)\<rparr>"

subsection \<open>The network is transparent\<close>

lemma filter_rx: "filterTelnet (s, rx @ x) c = (fst (filterTelnet (s, x) c), rx @ snd (filterTelnet (s, x) c))"
proof (induction c arbitrary: s x)
  case (Cons b c)
  have "telnet_byte (s, rx @ x) b = (fst (telnet_byte (s, x) b), rx @ snd (telnet_byte (s, x) b))"
    by (cases s) auto
  then show ?case
    using Cons.IH[of "fst (telnet_byte (s, x) b)" "snd (telnet_byte (s, x) b)"] by (simp add: filter_Cons)
qed simp

lemma foldl_filter_rx:
  "foldl filterTelnet (s, rx) cs = (fst (foldl filterTelnet (s, []) cs), rx @ snd (foldl filterTelnet (s, []) cs))"
proof (induction cs arbitrary: s rx)
  case (Cons c cs)
  obtain s1 x where 1: "filterTelnet (s, []) c = (s1, x)" by fastforce
  have "filterTelnet (s, rx) c = (s1, rx @ x)" using filter_rx[of s rx "[]" c] 1 by simp
  then show ?case using Cons.IH[of s1 "rx @ x"] Cons.IH[of s1 x] 1 by simp
qed simp

text \<open>The bytes the filter gives for each piece, with the times of the piece.\<close>

fun filtered :: "telnet_state \<Rightarrow> (bytes \<times> int \<times> int) list \<Rightarrow> (bytes \<times> int \<times> int) list" where
  "filtered s [] = []"
| "filtered s ((raw, t, wall) # as) =
     (case filterTelnet (s, []) raw of (s', rx) \<Rightarrow> (rx, t, wall) # filtered s' as)"

lemma filtered_bytes: "concat (map fst (filtered s as)) = snd (foldl filterTelnet (s, []) (map fst as))"
proof (induction as arbitrary: s)
  case (Cons a as)
  obtain raw t wall where a: "a = (raw, t, wall)" by (cases a) auto
  obtain s' rx where f: "filterTelnet (s, []) raw = (s', rx)" by fastforce
  show ?case using Cons.IH[of s'] foldl_filter_rx[of s' rx "map fst as"] by (simp add: a f)
qed simp

lemma filtered_length [simp]: "length (filtered s as) = length as"
  by (induction s as rule: filtered.induct) (auto split: prod.splits)


subsection \<open>From the bytes to the responses\<close>

definition vc820_response :: "(qstring \<Rightarrow> dbl option) \<Rightarrow> frame_event \<Rightarrow> dmm_response" where
  "vc820_response to_double ev =
     (the (vc820_decode to_double (ev_data ev) (int (ev_id ev))))\<lparr>re_received := ev_t ev, re_receivedWall := ev_wall ev\<rparr>"

lemma responses_emit: "responses (mc_emit sg m) = responses m @ List.map_filter (\<lambda>s. case s of Response r \<Rightarrow> Some r | _ \<Rightarrow> None) sg"
  by (simp add: responses_def mc_emit_def map_filter_def)

lemma responses_values: "List.map_filter (\<lambda>s. case s of Response r \<Rightarrow> Some r | _ \<Rightarrow> None) (map (\<lambda>c. ValueSignal c x y z) cs) = []"
  by (induction cs) (simp_all add: List.map_filter_simps)

lemma responses_setState [simp]: "responses (setState st t m) = responses m"
  by (simp add: setState_def Let_def responses_emit List.map_filter_simps) (simp add: responses_def)

lemma readEvent_vc820:
  assumes "mc_decoder m = Some (vc820_meter to_double)"
  shows "mc_reader (readEvent q now ev m) = mc_reader m"
    "responses (readEvent q now ev m) = responses m @ [vc820_response to_double ev]"
proof -
  have r: "fr_dstate_update (\<lambda>_. fr_dstate x) x = x" for x :: "'x reader" by simp
  obtain r0 where d: "vc820_decode to_double (ev_data ev) (int (ev_id ev)) = Some r0" by (auto simp: vc820_decode_def)
  show "mc_reader (readEvent q now ev m) = mc_reader m"
    using assms by (simp add: readEvent_def vc820_meter_def d Let_def)
  show "responses (readEvent q now ev m) = responses m @ [vc820_response to_double ev]"
    using assms by (simp add: readEvent_def vc820_meter_def d Let_def vc820_response_def responses_emit List.map_filter_simps responses_values)
      (simp add: responses_def)
qed

definition vc820_link :: "(qstring \<Rightarrow> dbl option) \<Rightarrow> 'd meter_connection \<Rightarrow> bool" where
  "vc820_link to_double m \<longleftrightarrow> mc_decoder m = Some (vc820_meter to_double) \<and> fr_decoder (mc_reader m) = Some vc820 \<and>
     reader_ok (mc_reader m) \<and> mc_port m \<noteq> None \<and> mc_handle m = mc_port m \<and> fr_port (mc_reader m) \<noteq> None"

lemma readEvents_vc820:
  assumes "mc_decoder m = Some (vc820_meter to_double)"
  shows "mc_reader (foldl (\<lambda>m ev. readEvent q t ev m) m evs) = mc_reader m \<and>
    responses (foldl (\<lambda>m ev. readEvent q t ev m) m evs) = responses m @ map (vc820_response to_double) evs \<and>
    mc_port (foldl (\<lambda>m ev. readEvent q t ev m) m evs) = mc_port m \<and>
    mc_handle (foldl (\<lambda>m ev. readEvent q t ev m) m evs) = mc_handle m \<and>
    mc_decoder (foldl (\<lambda>m ev. readEvent q t ev m) m evs) = mc_decoder m \<and>
    mc_state (foldl (\<lambda>m ev. readEvent q t ev m) m evs) = (if evs = [] then mc_state m else Connected)"
  using assms
proof (induction evs arbitrary: m)
  case (Cons ev evs)
  have "mc_decoder (readEvent q t ev m) = Some (vc820_meter to_double)" using Cons.prems by (simp add: readEvent_keeps)
  from Cons.IH[OF this] show ?case using Cons.prems readEvent_vc820[OF Cons.prems, of q t ev] by (simp add: readEvent_keeps)
qed simp

lemma arrive_nothing: "fr_port r \<noteq> None \<Longrightarrow> waiting r = [] \<Longrightarrow> arrive ([], t, wall) r = (r, [])"
  by (auto simp: arrive_def socketNotifierSLOT_def waiting_def)

lemma arrive_keeps:
  assumes "fr_port r \<noteq> None"
  shows "fr_decoder (fst (arrive a r)) = fr_decoder r" "reader_ok r \<Longrightarrow> reader_ok (fst (arrive a r))" "fr_port (fst (arrive a r)) \<noteq> None"
proof -
  obtain used x where "fst (arrive a r) = (fst (feed_bytes used r))\<lparr>fr_port := Some x\<rparr>"
    using arrive_feed[OF assms, of a] by blast
  moreover have "reader_ok (s\<lparr>fr_port := y\<rparr>) = reader_ok s" for s :: "'a reader" and y by (simp add: reader_ok_def)
  ultimately show "fr_decoder (fst (arrive a r)) = fr_decoder r" "reader_ok r \<Longrightarrow> reader_ok (fst (arrive a r))"
    "fr_port (fst (arrive a r)) \<noteq> None" by simp_all
qed

lemma net_bytes_vc820:
  assumes l: "vc820_link to_double m"
  shows "\<exists>m'. net_bytes q (raw, t, wall) (s, m) = (fst (filterTelnet (s, []) raw), m') \<and> vc820_link to_double m' \<and>
    mc_reader m' = fst (arrive (snd (filterTelnet (s, []) raw), t, wall) (mc_reader m)) \<and>
    responses m' = responses m @ map (vc820_response to_double) (snd (arrive (snd (filterTelnet (s, []) raw), t, wall) (mc_reader m))) \<and>
    mc_state m' = (if snd (arrive (snd (filterTelnet (s, []) raw), t, wall) (mc_reader m)) = [] then mc_state m else Connected)"
proof -
  obtain s' rx where f: "filterTelnet (s, []) raw = (s', rx)" by fastforce
  obtain r evs where r: "arrive (rx, t, wall) (mc_reader m) = (r, evs)" by fastforce
  have port: "fr_port (mc_reader m) \<noteq> None" and h: "\<not> (mc_handle m = None \<or> mc_handle m \<noteq> mc_port m)"
    using l by (auto simp: vc820_link_def)
  show ?thesis
  proof (cases "waiting (mc_reader m) @ rx = []")
    case True
    then show ?thesis using arrive_nothing[OF port, of t wall] l by (simp add: net_bytes_def f)
  next
    case False
    let ?m = "m\<lparr>mc_reader := r\<rparr>"
    have d: "mc_decoder ?m = Some (vc820_meter to_double)" using l by (simp add: vc820_link_def)
    have "net_bytes q (raw, t, wall) (s, m) = (s', foldl (\<lambda>m ev. readEvent q t ev m) ?m evs)"
      using False unfolding net_bytes_def prod.case f fst_conv snd_conv mc_bytes_def if_not_P[OF h] r by auto
    moreover have "responses ?m = responses m" by (simp add: responses_def)
    ultimately show ?thesis
      using readEvents_vc820[OF d, of q t evs] arrive_keeps[OF port, of "(rx, t, wall)"] l
      by (simp add: f r vc820_link_def)
  qed
qed

lemma net_run:
  assumes "vc820_link to_double m"
  shows "\<exists>m'. foldl (\<lambda>x a. net_bytes q a x) (s, m) as = (fst (foldl filterTelnet (s, []) (map fst as)), m') \<and> vc820_link to_double m' \<and>
    mc_reader m' = fst (arrivals (filtered s as) (mc_reader m)) \<and>
    responses m' = responses m @ map (vc820_response to_double) (snd (arrivals (filtered s as) (mc_reader m))) \<and>
    mc_state m' = (if snd (arrivals (filtered s as) (mc_reader m)) = [] then mc_state m else Connected)"
  using assms
proof (induction as arbitrary: s m)
  case (Cons a as)
  obtain raw t wall where a: "a = (raw, t, wall)" by (cases a) auto
  obtain s1 rx where f: "filterTelnet (s, []) raw = (s1, rx)" by fastforce
  obtain m1 where m1: "net_bytes q (raw, t, wall) (s, m) = (s1, m1)" "vc820_link to_double m1"
    "mc_reader m1 = fst (arrive (rx, t, wall) (mc_reader m))"
    "responses m1 = responses m @ map (vc820_response to_double) (snd (arrive (rx, t, wall) (mc_reader m)))"
    "mc_state m1 = (if snd (arrive (rx, t, wall) (mc_reader m)) = [] then mc_state m else Connected)"
    using net_bytes_vc820[OF Cons.prems, of q raw t wall s] by (auto simp: f)
  have t: "fst (foldl filterTelnet (s1, rx) (map fst as)) = fst (foldl filterTelnet (s1, []) (map fst as))"
    by (subst foldl_filter_rx) simp
  show ?case
    using Cons.IH[OF m1(2), of s1] m1 t by (auto simp: a f split: prod.splits)
qed simp


subsection \<open>From the display to the reading\<close>

text \<open>The reading of a display: its text, as a number in SI base units, on HOLD and on AUTO as the meter shows them.\<close>

definition shows_display :: "lcd \<Rightarrow> view_reading \<Rightarrow> bool" where
  "shows_display l v \<longleftrightarrow> vr_text v = lcd_text l \<and> vr_quality v = Valid \<and> \<not> vr_overload v \<and>
     vr_value v = d_mul (dbl_mag (lcd_neg l) (lcd_number l)) (si_factor (lcd_prefix l)) \<and>
     vr_range v = (if lcd_auto l then lit ''AUTO'' else lit ''MANU'')"

lemma vc820_response_channel:
  assumes "lcd_ok l" "reads_decimals to_double" "ev_data ev = lcd_frame l"
  shows "\<exists>c. re_channels (vc820_response to_double ev) = [c] \<and> ch_id c = int (ev_id ev) \<and> ch_val c = lcd_text l \<and> ch_fault c = [] \<and> \<not> ch_noValue c \<and>
    ch_dval c = d_mul (dbl_mag (lcd_neg l) (lcd_number l)) (si_factor (lcd_prefix l))"
    "re_range (vc820_response to_double ev) = (if lcd_auto l then lit ''AUTO'' else lit ''MANU'')"
proof -
  obtain r where r: "vc820_decode to_double (lcd_frame l) (int (ev_id ev)) = Some r" "ch_id (re_main r) = int (ev_id ev)" "ch_val (re_main r) = lcd_text l"
    "ch_dval (re_main r) = d_mul (dbl_mag (lcd_neg l) (lcd_number l)) (si_factor (lcd_prefix l))"
    "re_range r = (if lcd_auto l then lit ''AUTO'' else lit ''MANU'')"
    using vc820_decodes_display[OF assms(1,2), of "int (ev_id ev)"] by blast
  have "re_channels r = [re_main r] \<and> ch_fault (re_main r) = [] \<and> \<not> ch_noValue (re_main r)"
    using r(1) by (auto simp: vc820_decode_def re_main_def upd_main_def response0_def channel0_def)
  then show "\<exists>c. re_channels (vc820_response to_double ev) = [c] \<and> ch_id c = int (ev_id ev) \<and> ch_val c = lcd_text l \<and> ch_fault c = [] \<and> \<not> ch_noValue c \<and>
    ch_dval c = d_mul (dbl_mag (lcd_neg l) (lcd_number l)) (si_factor (lcd_prefix l))"
    "re_range (vc820_response to_double ev) = (if lcd_auto l then lit ''AUTO'' else lit ''MANU'')"
    using r by (simp_all add: vc820_response_def assms(3))
qed

lemma adaptValue_rangeText:
  "adaptValue q to_float now dval text unit special rng hold bar low i wall shown a = (a', ps) \<Longrightarrow> ps_rangeText ps = rng"
  by (auto simp: adaptValue_def Let_def split: prod.splits)

lemma published_display:
  assumes "lcd_ok l" "reads_decimals to_double" "ev_data ev = lcd_frame l"
  shows "\<exists>v. snd (responseSLOT q to_float now wall from format (vc820_response to_double ev) a) = [v] \<and> shows_display l v \<and>
    vr_source v = from \<and> vr_id v = int (ev_id ev) \<and> vr_msecs v = (if ev_wall ev \<noteq> 0 then ev_wall ev else wall)"
proof -
  let ?r = "vc820_response to_double ev" and ?a = "a\<lparr>ad_format := format\<rparr>"
  note rc = vc820_response_channel[OF assms]
  obtain c where ci: "ch_id c = int (ev_id ev)" and c: "re_channels ?r = [c]" "ch_val c = lcd_text l" "ch_fault c = []" "\<not> ch_noValue c"
    "ch_dval c = d_mul (dbl_mag (lcd_neg l) (lcd_number l)) (si_factor (lcd_prefix l))"
    using rc(1) by blast
  obtain a' ps where ad: "adapt_channel q to_float now ?r wall c ?a = (a', ps)" by fastforce
  have s: "sample_of_channel c (ps_sample ps)" using adapt_channel_fields(2)[OF ad] .
  obtain ws ds fs where d: "lcd_text l = decimal_text ws (lcd_neg l) ds fs" "set ws \<subseteq> {32}" "ds \<noteq> []" "list_all q_digit (ds @ fs)"
    using lcd_text_decimal[OF assms(1)] by blast
  note n = decimal_text_number[OF d(2-4), of "lcd_neg l"]
  have q: "sa_text (ps_sample ps) = lcd_text l \<and> sa_quality (ps_sample ps) = Valid \<and> sa_value (ps_sample ps) = ch_dval c"
    using s c(2-4) n unfolding sample_of_channel_def d(1) by (auto split: quality.splits)
  have rng: "ps_rangeText ps = re_range ?r"
    using ad unfolding adapt_channel_def Let_def by (auto split: prod.splits dest!: adaptValue_rangeText)
  have "snd (responseSLOT q to_float now wall from format ?r a) = [(vr_of ps)\<lparr>vr_source := from\<rparr>]"
    by (simp add: responseSLOT_def adapt_def c(1) ad)
  moreover have "ps_id ps = int (ev_id ev)" "sa_wall (ps_sample ps) = (if ev_wall ev \<noteq> 0 then ev_wall ev else wall)"
    using adapt_channel_fields(1,6)[OF ad] ci by (simp_all add: vc820_response_def)
  ultimately show ?thesis using q rng rc(2) c(5) by (simp add: shows_display_def vr_of_def Let_def)
qed

lemma published_displays:
  assumes "list_all2 (\<lambda>l ev. lcd_ok l \<and> ev_data ev = lcd_frame l) ls evs" "reads_decimals to_double"
  shows "list_all2 (\<lambda>l v. shows_display l v \<and> vr_source v = from) ls
    (snd (published q to_float now wall from format (map (vc820_response to_double) evs) a))"
  using assms(1)
proof (induction ls evs arbitrary: a rule: list_all2_induct)
  case (Cons l ls ev evs)
  obtain a' vrs where r: "responseSLOT q to_float now wall from format (vc820_response to_double ev) a = (a', vrs)" by fastforce
  obtain v where "vrs = [v]" "shows_display l v" "vr_source v = from"
    using published_display[of l to_double ev q to_float now wall "from" format a] Cons.hyps assms(2) r by auto
  then show ?case using Cons.IH[of a'] r by (simp split: prod.splits) (metis snd_conv)
qed simp

text \<open>
  C22: whatever a VC820 shows, and however the network cuts the stream into pieces and puts telnet commands and negotiations
  between the meter's bytes: when what comes before the first whole frame makes no frame of its own, every display is
  published, once and in order, as a valid reading with its text and its number in SI base units, and the meter is connected.
\<close>

theorem meter_path:
  assumes "vc820_link to_double m" "reads_decimals to_double" "responses m = []" "waiting (mc_reader m) = []"
    and "list_all telnet_ok is" "concat (map fst as) = concat (map telnet_encode is)"
    and "concat (map item_data is) = g @ concat (map lcd_frame ls)" "snd (feed_bytes g (mc_reader m)) = []"
    and "\<forall>l \<in> set ls. lcd_ok l" "ls \<noteq> []" "as \<noteq> []"
    and "m' = snd (foldl (\<lambda>x a. net_bytes q a x) (Data, m) as)"
  shows "mc_state m' = Connected \<and>
    list_all2 (\<lambda>l v. shows_display l v \<and> vr_source v = from) ls (snd (published q to_float now wall from format (responses m') a))"
proof -
  let ?as = "filtered Data as" and ?r = "mc_reader m"
  have "concat (map fst ?as) = snd (foldl filterTelnet (Data, []) (map fst as))" by (rule filtered_bytes)
  also have "foldl filterTelnet (Data, []) (map fst as) = filterTelnet (Data, []) (concat (map fst as))"
    using tn.feed_chunks[of "(Data, [])" "[]" "map fst as"] by simp
  finally have bytes: "concat (map fst ?as) = g @ concat (map lcd_frame ls)"
    using filter_items[OF assms(5), of "[]"] assms(6,7) by simp
  have port: "fr_port ?r \<noteq> None" and rd: "vc.reads ?r"
    using assms(1) by (simp_all add: vc820_link_def vc.reads_def packetLength_def complete_at_def vc820_def)
  have "?as \<noteq> []" using assms(11) filtered_length[of Data as] by (metis length_0_conv)
  then have evs: "map ev_data (snd (arrivals ?as ?r)) = map lcd_frame ls"
    using vc.delivery(1)[OF rd port, of "map lcd_frame ls" ?as g] assms(4,8,10) lcd_frame_good bytes by auto
  obtain m1 where m1: "foldl (\<lambda>x a. net_bytes q a x) (Data, m) as = (fst (foldl filterTelnet (Data, []) (map fst as)), m1)"
    "responses m1 = responses m @ map (vc820_response to_double) (snd (arrivals ?as ?r))"
    "mc_state m1 = (if snd (arrivals ?as ?r) = [] then mc_state m else Connected)"
    using net_run[OF assms(1), of q Data as] by blast
  have "snd (arrivals ?as ?r) \<noteq> []" using evs assms(10) by auto
  moreover have "list_all2 (\<lambda>l ev. lcd_ok l \<and> ev_data ev = lcd_frame l) ls (snd (arrivals ?as ?r))"
    using evs assms(9) by (auto simp: list_all2_conv_all_nth dest: map_eq_imp_length_eq) (metis length_map nth_map)
  ultimately show ?thesis
    using published_displays[of ls "snd (arrivals ?as ?r)" to_double "from" q to_float now wall format a] assms(2,3,12) m1 by simp
qed


definition vc820_online :: "unit meter_connection" where
  "vc820_online = (connection0 (info_plain False) [] ())\<lparr>mc_portType := RFC2217Port, mc_state := Connecting, mc_wanted := True,
     mc_decoder := Some (vc820_meter plain_double), mc_reader := vc820_reader, mc_port := Some 0, mc_handle := Some 0,
     mc_portOpen := True\<rparr>"

definition lcd_stream :: "telnet_item list" where
  "lcd_stream = Negotiate 0xFB 0x2C # map Byte (lcd_frame lcd_example)"

theorem meter_path_witness:
  "\<exists>v. snd (published qt_plain (\<lambda>d. d) 9 9 (lit ''device:1'') VC820Continuous (responses (snd (foldl (\<lambda>x a. net_bytes qt_plain a x)
       (Data, vc820_online) [(concat (map telnet_encode lcd_stream), 7, 8)]))) (adapter0 VC820Continuous)) = [v] \<and>
     shows_display lcd_example v \<and> vr_text v = lit '' -12.34''"
proof -
  have l: "vc820_link plain_double vc820_online"
    by (simp add: vc820_link_def vc820_online_def connection0_def vc820_reader_def reader_ok_def reader0_def FIFO_LENGTH_def)
  have w: "responses vc820_online = []" "waiting (mc_reader vc820_online) = []"
    by (simp_all add: responses_def vc820_online_def connection0_def vc820_reader_def waiting_def List.map_filter_simps)
  have i: "list_all telnet_ok lcd_stream" by (simp add: lcd_stream_def iac_defs list_all_iff)
  have d: "concat (map item_data lcd_stream) = [] @ concat (map lcd_frame [lcd_example])"
    by (simp add: lcd_stream_def comp_def)
  have ok: "lcd_ok lcd_example" by (simp add: lcd_ok_def lcd_example_def)
  let ?m' = "snd (foldl (\<lambda>x a. net_bytes qt_plain a x) (Data, vc820_online) [(concat (map telnet_encode lcd_stream), 7, 8)])"
  have "list_all2 (\<lambda>l v. shows_display l v \<and> vr_source v = lit ''device:1'') [lcd_example]
    (snd (published qt_plain (\<lambda>d. d) 9 9 (lit ''device:1'') VC820Continuous (responses ?m') (adapter0 VC820Continuous)))"
    using meter_path[OF l plain_double_reads w i _ d, of "[(concat (map telnet_encode lcd_stream), 7, 8)]" ?m' qt_plain
        "lit ''device:1''" "\<lambda>d. d" 9 9 VC820Continuous "adapter0 VC820Continuous"] ok by simp
  moreover have "lcd_text lcd_example = lit '' -12.34''"
    by (simp add: lcd_text_def lcd_digits_def lcd_example_def upt_4)
  ultimately show ?thesis by (auto simp: list_all2_Cons1 shows_display_def simp del: list.map)
qed

end
