(* ===== verification/Meter_Controller.thy ===== *)
theory Meter_Controller
  imports Recording_Listeners Min_Max Stale_Rule Meter_Path Alarms
begin

text \<open>
  \<open>src/src/service/metercontroller.h\<close> and \<open>metercontroller.cpp\<close>: the session of one meter. A reading is judged by the limit
  test, remembered (minimum and maximum), recorded, shown, given to the alarms and to SCPI. What the controller emits is
  appended to \<open>ct_log\<close> in the order in which the outside hears it; its own slots (the recorder, SCPI's flag) run first, as they are
  connected first. A text for people is what it is made of (\<open>ct_text\<close>). What the session and the window do when they are asked to
  start or stop recording is an argument: the calls they make on the recorder (\<open>session\<close>). The program of an alarm is outside.
\<close>

subsection \<open>The state\<close>

datatype refusal = AlreadyRecording | NotSaved | AlreadyStarting

datatype ct_text =
  TxAlarm alarm dbl qstring bool | TxCleared alarm | TxMeterShows qstring | TxRecordingStopped qstring qstring
  | TxRefused alarm refusal | TxScpi refusal | TxTitle qstring | TxFunctionChanged | TxFault qstring

datatype queued = QueuedStart | QueuedStop | QueuedConnect bool

datatype ct_signal =
  CtReading view_reading | MinimumChanged dbl qstring qstring | MaximumChanged dbl qstring qstring | MinMaxReset
  | ValueMinMaxChanged int dbl dbl | UnitChanged qstring | BaseUnitChanged qstring | CtStaleChanged bool
  | CtError ct_text | CtInfo ct_text | AlarmRaised nat alarm ct_text | AlarmCleared nat alarm | AlarmsChanged "alarm list"
  | AlarmBannerChanged "(alarm \<times> qstring) list" qcolor | AlertColorChanged qcolor
  | LimitJudged int verdict dbl | LimitCountChanged limit_count | LimitTestChanged limit_test
  | RecordingRequested bool | CtMarkRequested qcolor ct_text bool bool | AlarmProgram alarm dbl qstring
  | ScpiInitIgnored | ConnectRequested bool

record 'w controller =
  ct_alarms :: alarm_mgr
  ct_recorder :: rec_store
  ct_scpi :: "'w scpi_device"
  ct_followsWindow :: bool
  ct_minMax :: min_max
  ct_minMaxId :: int
  ct_valueMinMax :: "min_max list"
  ct_lastUnit :: qstring
  ct_lastMain :: "view_reading option"
  ct_lastReadings :: "(int \<times> view_reading) list"
  ct_baseUnit :: qstring
  ct_valueUnits :: "int \<rightharpoonup> qstring"
  ct_valueOverload :: "int \<rightharpoonup> bool"
  ct_valueFault :: "int \<rightharpoonup> qstring"
  ct_overload :: bool
  ct_alertColor :: qcolor
  ct_limitTest :: limit_test
  ct_verdict :: verdict
  ct_limitCount :: limit_count
  ct_stale :: stale_rule
  ct_staleShown :: bool
  ct_startPending :: bool
  ct_connectPending :: "bool option"
  ct_queue :: "queued list"
  ct_log :: "ct_signal list"

definition controller0 :: "clocks \<Rightarrow> 'w controller" where
  "controller0 ck = \<lparr>ct_alarms = alarm_mgr0, ct_recorder = rs_new ck, ct_scpi = scpi_device0, ct_followsWindow = False,
     ct_minMax = min_max0, ct_minMaxId = 0, ct_valueMinMax = replicate (nat kMaxValues) min_max0, ct_lastUnit = [],
     ct_lastMain = None, ct_lastReadings = [], ct_baseUnit = [], ct_valueUnits = Map.empty, ct_valueOverload = Map.empty,
     ct_valueFault = Map.empty, ct_overload = False, ct_alertColor = Invalid_Color, ct_limitTest = limit_test0,
     ct_verdict = NoVerdict, ct_limitCount = limit_count0, ct_stale = stale_rule0, ct_staleShown = False,
     ct_startPending = False, ct_connectPending = None, ct_queue = [], ct_log = []\<rparr>"

definition ct_emit :: "ct_signal list \<Rightarrow> 'w controller \<Rightarrow> 'w controller" where
  "ct_emit es c = c\<lparr>ct_log := ct_log c @ es\<rparr>"

definition map_value :: "'v \<Rightarrow> (int \<rightharpoonup> 'v) \<Rightarrow> int \<Rightarrow> 'v" where
  "map_value d f i = (case f i of Some v \<Rightarrow> v | None \<Rightarrow> d)"

subsection \<open>The recorder\<close>

text \<open>The slots on the recorder's signals: SCPI learns when it starts and stops, and what ended a recording is said.\<close>

fun ct_recorder_heard :: "rec_signal \<Rightarrow> 'w controller \<Rightarrow> 'w controller" where
  "ct_recorder_heard (RunningChanged b) c = c\<lparr>ct_scpi := (ct_scpi c)\<lparr>sd_recording := b\<rparr>\<rparr>"
| "ct_recorder_heard (FunctionChanged a b) c =
     ct_emit [CtError (TxRecordingStopped a b), CtMarkRequested (Rgb 0xff 0x8c 0x00) TxFunctionChanged True False] c"
| "ct_recorder_heard _ c = c"

definition ct_record :: "(rec_store \<Rightarrow> rec_store) \<Rightarrow> 'w controller \<Rightarrow> 'w controller" where
  "ct_record f c =
     (let s = ct_recorder c; t = f s
      in fold ct_recorder_heard (drop (length (rs_log s)) (rs_log t)) (c\<lparr>ct_recorder := t\<rparr>))"

definition ct_reading :: "clocks \<Rightarrow> view_reading \<Rightarrow> 'w controller \<Rightarrow> 'w controller" where
  "ct_reading ck rd c = ct_emit [CtReading rd] (ct_record (setReading ck rd) c)"

definition ct_unitChanged :: "qstring \<Rightarrow> 'w controller \<Rightarrow> 'w controller" where
  "ct_unitChanged u c = ct_emit [UnitChanged u] (ct_record (setUnit (snd (si_split u))) c)"

definition mayStartRecording :: "'w controller \<Rightarrow> refusal option" where
  "mayStartRecording c =
     (let s = ct_recorder c in
      if rs_state s = Record then Some AlreadyRecording
      else if rs_state s = View \<and> rs_dirty s \<and> \<not> ct_followsWindow c then Some NotSaved else None)"

subsection \<open>Alarms\<close>

definition valueUnit :: "'w controller \<Rightarrow> int \<Rightarrow> qstring" where
  "valueUnit c i = (if i = 0 then ct_baseUnit c else map_value [] (ct_valueUnits c) i)"

definition banner_alarms :: "alarm_mgr \<Rightarrow> alarm list" where
  "banner_alarms m =
     map (\<lambda>i. am_alarms m ! i) (filter (\<lambda>i. am_st i m = Raised \<and> al_banner (am_alarms m ! i)) [0 ..< length (am_alarms m)])"

definition first_color :: "alarm list \<Rightarrow> qcolor" where
  "first_color als = (case filter (\<lambda>c. c \<noteq> Invalid_Color) (map al_color als) of [] \<Rightarrow> Invalid_Color | c # cs \<Rightarrow> c)"

definition updateBanner :: "'w controller \<Rightarrow> 'w controller" where
  "updateBanner c =
     (let als = banner_alarms (ct_alarms c);
          c1 = ct_emit [AlarmBannerChanged (map (\<lambda>al. (al, valueUnit c (value_ref.vr_id (al_value al)))) als) (first_color als)] c;
          alert = displayColor (ct_alarms c1)
      in if alert \<noteq> ct_alertColor c1 then ct_emit [AlertColorChanged alert] (c1\<lparr>ct_alertColor := alert\<rparr>) else c1)"

text \<open>The session is asked to start or stop recording; what it does is over when the signal returns.\<close>

type_synonym 'w ct_session = "bool \<Rightarrow> 'w controller \<Rightarrow> (clocks \<times> rec_call) list"

definition ct_requested :: "'w ct_session \<Rightarrow> bool \<Rightarrow> 'w controller \<Rightarrow> 'w controller" where
  "ct_requested session on c =
     fold (\<lambda>(ck, k). ct_record (rec_step ck k)) (session on c) (ct_emit [RecordingRequested on] c)"

definition onAlarmRaised :: "'w ct_session \<Rightarrow> nat \<Rightarrow> alarm \<Rightarrow> dbl \<Rightarrow> 'w controller \<Rightarrow> 'w controller" where
  "onAlarmRaised session i al v c =
     (let vi = value_ref.vr_id (al_value al); unit = valueUnit c vi; text = TxAlarm al v unit (map_value False (ct_valueOverload c) vi);
          c1 = ct_emit [CtError text] c;
          c2 = (case al_recorder al of
              RecorderStart \<Rightarrow> (case mayStartRecording c1 of None \<Rightarrow> ct_requested session True c1
                | Some why \<Rightarrow> ct_emit [CtInfo (TxRefused al why)] c1)
            | RecorderStop \<Rightarrow> ct_requested session False c1
            | RecorderNone \<Rightarrow> c1);
          mark = (if al_markGraph al \<or> al_markTable al
                  then [CtMarkRequested (al_color al) (TxTitle (al_name al)) (al_markGraph al) (al_markTable al)] else []);
          program = (if al_command al \<noteq> [] then [AlarmProgram al v unit] else [])
      in updateBanner (ct_emit (mark @ program @ [AlarmRaised i al text]) c2))"

fun ct_alarm_heard :: "'w ct_session \<Rightarrow> alarm_event \<Rightarrow> 'w controller \<Rightarrow> 'w controller" where
  "ct_alarm_heard session (Raised_Event i al v) c = onAlarmRaised session i al v c"
| "ct_alarm_heard session (Cleared_Event i al) c = updateBanner (ct_emit [CtInfo (TxCleared al), AlarmCleared i al] c)"

text \<open>A step of the manager, and what the controller does on its signals before the next one.\<close>

definition ct_alarm_step :: "'w ct_session \<Rightarrow> (alarm_mgr \<Rightarrow> alarm_mgr) \<Rightarrow> 'w controller \<Rightarrow> 'w controller" where
  "ct_alarm_step session f c =
     (let m = ct_alarms c; m' = f m
      in fold (ct_alarm_heard session) (drop (length (am_log m)) (am_log m')) (c\<lparr>ct_alarms := m'\<rparr>))"

definition ct_feed :: "'w ct_session \<Rightarrow> dbl \<Rightarrow> bool \<Rightarrow> int \<Rightarrow> int \<Rightarrow> qstring \<Rightarrow> 'w controller \<Rightarrow> 'w controller" where
  "ct_feed session value overload nowMs valueId source c =
     (let m = ct_alarms c;
          m1 = (if valueId = 0 then m\<lparr>am_lastReading := nowMs, am_lastValue := value, am_lastOverload := overload\<rparr> else m)
      in fold (\<lambda>i. ct_alarm_step session (am_feed_at value overload nowMs valueId source i)) [0 ..< length (am_alarms m)]
           (c\<lparr>ct_alarms := m1\<rparr>))"

definition ct_alarms_tick :: "'w ct_session \<Rightarrow> int \<Rightarrow> 'w controller \<Rightarrow> 'w controller" where
  "ct_alarms_tick session nowMs c =
     fold (\<lambda>i. ct_alarm_step session (am_tick_at nowMs i)) [0 ..< length (am_alarms (ct_alarms c))] c"

definition ct_alarms_connected :: "'w ct_session \<Rightarrow> bool \<Rightarrow> int \<Rightarrow> 'w controller \<Rightarrow> 'w controller" where
  "ct_alarms_connected session on nowMs c =
     (let m = ct_alarms c in
      if on = (am_silenceFrom m \<ge> 0) then c
      else (let c1 = c\<lparr>ct_alarms := m\<lparr>am_silenceFrom := (if on then nowMs else - 1), am_lastReading := - 1\<rparr>\<rparr>
            in if on then c1 else fold (\<lambda>i. ct_alarm_step session (am_disconnect_at i)) [0 ..< length (am_alarms m)] c1))"

text \<open>\<open>json\<close> is the text of a list of alarms.\<close>

definition ct_setAlarms :: "(alarm list \<Rightarrow> qstring) \<Rightarrow> alarm list \<Rightarrow> 'w controller \<Rightarrow> 'w controller" where
  "ct_setAlarms json als c =
     (let other = (json als \<noteq> json (am_alarms (ct_alarms c)));
          c1 = updateBanner (c\<lparr>ct_alarms := setAlarms als (ct_alarms c)\<rparr>)
      in if other then ct_emit [AlarmsChanged als] c1 else c1)"

definition acknowledgeAlarms :: "'w controller \<Rightarrow> 'w controller" where
  "acknowledgeAlarms c = updateBanner (c\<lparr>ct_alarms := am_acknowledgeAll (ct_alarms c)\<rparr>)"

subsection \<open>Limit test, minimum and maximum\<close>

definition ct_setLimitTest :: "limit_test \<Rightarrow> 'w controller \<Rightarrow> 'w controller" where
  "ct_setLimitTest t c =
     ct_emit [LimitTestChanged t, LimitJudged (value_ref.vr_id (lt_value t)) NoVerdict (DNan False), LimitCountChanged limit_count0]
       (c\<lparr>ct_limitTest := t, ct_verdict := NoVerdict, ct_limitCount := limit_count0\<rparr>)"

definition resetLimitCount :: "'w controller \<Rightarrow> 'w controller" where
  "resetLimitCount c = ct_emit [LimitCountChanged limit_count0] (c\<lparr>ct_limitCount := limit_count0\<rparr>)"

definition valueMinMax :: "'w controller \<Rightarrow> int \<Rightarrow> min_max" where
  "valueMinMax c i = ct_valueMinMax c ! nat (max 0 (min i (kMaxValues - 1)))"

definition emitValueMinMax :: "int \<Rightarrow> 'w controller \<Rightarrow> 'w controller" where
  "emitValueMinMax i c =
     (let m = valueMinMax c i
      in ct_emit [if mm_isEmpty m then ValueMinMaxChanged i (DNan False) (DNan False) else ValueMinMaxChanged i (mm_min m) (mm_max m)] c)"

definition setMinMaxValue :: "int \<Rightarrow> 'w controller \<Rightarrow> 'w controller" where
  "setMinMaxValue i c =
     (if i = ct_minMaxId c then c else ct_emit [MinMaxReset] (c\<lparr>ct_minMaxId := i, ct_minMax := mm_clear (ct_minMax c)\<rparr>))"

definition resetMinMax :: "'w controller \<Rightarrow> 'w controller" where
  "resetMinMax c =
     resetLimitCount (fold emitValueMinMax [0 .. kMaxValues - 1]
       (ct_emit [MinMaxReset] (c\<lparr>ct_minMax := mm_clear (ct_minMax c), ct_valueMinMax := map mm_clear (ct_valueMinMax c)\<rparr>)))"

definition forgetUnit :: "'w controller \<Rightarrow> 'w controller" where
  "forgetUnit c =
     ct_emit [BaseUnitChanged []] (ct_unitChanged []
       (c\<lparr>ct_lastUnit := [], ct_baseUnit := [], ct_valueUnits := Map.empty, ct_scpi := sd_clearReadings (ct_scpi c)\<rparr>))"

subsection \<open>A reading\<close>

definition judges :: "view_reading \<Rightarrow> 'w controller \<Rightarrow> bool" where
  "judges r c \<longleftrightarrow> lt_enabled (ct_limitTest c) \<and> vref_matches (lt_value (ct_limitTest c)) (vr_id r) (vr_source r) \<and>
     \<not> (vr_id r > 0 \<and> vr_text r = [])"

definition verdict_of :: "limit_test \<Rightarrow> view_reading \<Rightarrow> verdict" where
  "verdict_of t r =
     (if noNumber r then NoVerdict
      else lt_judge t (vr_value r) (vr_overload r) (q_starts (lit ''-'') (q_trim (vr_text r))))"

definition with_verdict :: "verdict \<Rightarrow> view_reading \<Rightarrow> view_reading" where
  "with_verdict v r = r\<lparr>vr_flags := (vr_flags r AND NOT LimitFlags) OR verdict_flags v\<rparr>"

definition ct_judge :: "view_reading \<Rightarrow> 'w controller \<Rightarrow> view_reading \<times> 'w controller" where
  "ct_judge r c =
     (if judges r c then
        (let v = verdict_of (ct_limitTest c) r; c1 = c\<lparr>ct_verdict := v\<rparr>
         in (with_verdict v r,
             if v \<noteq> NoVerdict
             then (let n = lc_add v (ct_limitCount c1) in ct_emit [LimitCountChanged n] (c1\<lparr>ct_limitCount := n\<rparr>)) else c1))
      else (r, c))"

definition ct_unit_seen :: "view_reading \<Rightarrow> 'w controller \<Rightarrow> 'w controller" where
  "ct_unit_seen r c =
     (if vr_id r = 0 \<and> \<not> vr_hold r then
        (let u = vr_prefix r @ vr_baseUnit r; c1 = (if ct_lastUnit c \<noteq> u then ct_unitChanged u c else c)
         in c1\<lparr>ct_lastUnit := u\<rparr>)
      else c)"

definition ct_value_extremes :: "view_reading \<Rightarrow> 'w controller \<Rightarrow> bool \<times> 'w controller" where
  "ct_value_extremes r c =
     (if \<not> vr_hold r \<and> vr_id r \<ge> 0 \<and> vr_id r < kMaxValues then
        (case mm_feed r (ct_valueMinMax c ! nat (vr_id r)) of
           (res, m) \<Rightarrow> (mr_reset res \<or> mr_newMin res \<or> mr_newMax res, c\<lparr>ct_valueMinMax := (ct_valueMinMax c)[nat (vr_id r) := m]\<rparr>))
      else (False, c))"

definition ct_shown_extremes :: "view_reading \<Rightarrow> 'w controller \<Rightarrow> bool \<times> bool \<times> 'w controller" where
  "ct_shown_extremes r c =
     (if vr_id r = ct_minMaxId c \<and> \<not> vr_hold r then
        (case mm_feed r (ct_minMax c) of
           (res, m) \<Rightarrow> (mr_newMin res, mr_newMax res,
             (let c1 = c\<lparr>ct_minMax := m\<rparr> in if mr_reset res then ct_emit [MinMaxReset] c1 else c1)))
      else (False, False, c))"

definition ct_fault :: "view_reading \<Rightarrow> 'w controller \<Rightarrow> 'w controller" where
  "ct_fault r c =
     (let fault = (if vr_quality r = Fault then q_trim (vr_text r) else []) in
      if fault \<noteq> map_value [] (ct_valueFault c) (vr_id r) then
        (let c1 = (if fault \<noteq> []
                   then ct_emit [CtError (TxMeterShows fault), CtMarkRequested (Rgb 0xd3 0x2f 0x2f) (TxFault fault) True True] c else c)
         in c1\<lparr>ct_valueFault := (ct_valueFault c1)(vr_id r \<mapsto> fault)\<rparr>)
      else c)"

definition ct_say_extremes :: "view_reading \<Rightarrow> bool \<Rightarrow> bool \<Rightarrow> bool \<Rightarrow> 'w controller \<Rightarrow> 'w controller" where
  "ct_say_extremes r newMin newMax valueNew c =
     (let c1 = (if newMax then ct_emit [MaximumChanged (mm_max (ct_minMax c)) (vr_text r) (vr_unit r)] c else c);
          c2 = (if newMin then ct_emit [MinimumChanged (mm_min (ct_minMax c1)) (vr_text r) (vr_unit r)] c1 else c1)
      in if valueNew then emitValueMinMax (vr_id r) c2 else c2)"

definition ct_remember :: "int \<Rightarrow> view_reading \<Rightarrow> 'w controller \<Rightarrow> 'w controller" where
  "ct_remember now r c =
     (let c1 = c\<lparr>ct_lastReadings := qmap_insert (vr_id r) r (ct_lastReadings c)\<rparr> in
      if vr_id r = 0 then
        (let c2 = c1\<lparr>ct_lastMain := Some r, ct_stale := st_arrived now (ct_stale c1), ct_overload := vr_overload r\<rparr>
         in if ct_baseUnit c2 \<noteq> vr_baseUnit r
            then ct_emit [BaseUnitChanged (vr_baseUnit r)] (c2\<lparr>ct_baseUnit := vr_baseUnit r\<rparr>) else c2)
      else c1)"

definition ct_alarmed :: "'w ct_session \<Rightarrow> view_reading \<Rightarrow> 'w controller \<Rightarrow> 'w controller" where
  "ct_alarmed session r c =
     (let c1 = (if vr_baseUnit r \<noteq> [] then c\<lparr>ct_valueUnits := (ct_valueUnits c)(vr_id r \<mapsto> vr_baseUnit r)\<rparr> else c)
      in ct_feed session (vr_value r) (vr_overload r) (vr_msecs r) (vr_id r) (vr_source r)
           (c1\<lparr>ct_valueOverload := (ct_valueOverload c1)(vr_id r \<mapsto> vr_overload r)\<rparr>))"

definition ct_say_verdict :: "view_reading \<Rightarrow> 'w controller \<Rightarrow> 'w controller" where
  "ct_say_verdict r c =
     ct_emit [LimitJudged (vr_id r) (ct_verdict c)
       (if vr_overload r \<or> ct_verdict c = NoVerdict then DNan False else lt_deviation (ct_limitTest c) (vr_value r))] c"

definition scpi_reading :: "view_reading \<Rightarrow> reading" where
  "scpi_reading r = \<lparr>rd_value = vr_value r, rd_unit = vr_baseUnit r, rd_port = vr_port r, rd_range = vr_range r,
     rd_overload = vr_overload r, rd_hold = vr_hold r, rd_valid = (\<not> noNumber r), rd_msecs = vr_msecs r\<rparr>"

text \<open>\<open>now\<close> is the time of the stale check's clock.\<close>

definition publish :: "'w ct_session \<Rightarrow> clocks \<Rightarrow> int \<Rightarrow> view_reading \<Rightarrow> 'w controller \<Rightarrow> 'w controller" where
  "publish session ck now r0 c0 =
     (let judged = judges r0 c0 in
      case ct_judge r0 c0 of (r, c1) \<Rightarrow>
      if vr_id r > 0 \<and> vr_text r = [] then ct_reading ck r c1
      else
        (case ct_value_extremes r (ct_unit_seen r c1) of (valueNew, c2) \<Rightarrow>
         case ct_shown_extremes r c2 of (newMin, newMax, c3) \<Rightarrow>
           (let c4 = ct_say_extremes r newMin newMax valueNew (ct_fault r (ct_reading ck r c3));
                c5 = ct_alarmed session r (ct_remember now r c4);
                c6 = (if judged then ct_say_verdict r c5 else c5)
            in c6\<lparr>ct_scpi := sd_setReading (vr_id r) (scpi_reading r) (ct_scpi c6)\<rparr>)))"

text \<open>\<open>responseSLOT\<close>: all values of a response of the meter.\<close>

definition ct_response :: "'w ct_session \<Rightarrow> qt \<Rightarrow> (dbl \<Rightarrow> dbl) \<Rightarrow> clocks \<Rightarrow> int \<Rightarrow> qstring \<Rightarrow> frame_format \<Rightarrow> dmm_response
    \<Rightarrow> adapter \<times> 'w controller \<Rightarrow> adapter \<times> 'w controller" where
  "ct_response session q to_float ck now from format resp ac =
     (case responseSLOT q to_float (ck_mono ck) (ck_wall ck) from format resp (fst ac) of
        (a, rs) \<Rightarrow> (a, fold (publish session ck now) rs (snd ac)))"

subsection \<open>The timer and the connection\<close>

definition ct_timer :: "'w ct_session \<Rightarrow> clocks \<Rightarrow> int \<Rightarrow> 'w controller \<Rightarrow> 'w controller" where
  "ct_timer session ck now c =
     (let c1 = ct_record (rec_step ck (CStaleAfter (maxAgeMs (ct_stale c)))) c;
          stale = st_stale now (ct_stale c1);
          c2 = (if stale \<noteq> ct_staleShown c1
                then ct_emit [CtStaleChanged stale] (ct_record (setStale ck stale) (c1\<lparr>ct_staleShown := stale\<rparr>)) else c1)
      in ct_alarms_tick session (ck_wall ck) c2)"

text \<open>\<open>isOpen\<close>: whether the port is open after the attempt to open or close it.\<close>

definition connectMeter :: "'w ct_session \<Rightarrow> bool \<Rightarrow> int \<Rightarrow> 'w controller \<Rightarrow> 'w controller" where
  "connectMeter session isOpen nowMs c =
     (let c1 = ct_alarms_connected session isOpen nowMs (c\<lparr>ct_stale := st_reset (ct_stale c)\<rparr>)
      in if \<not> isOpen \<and> ct_verdict c1 \<noteq> NoVerdict
         then ct_emit [LimitJudged (value_ref.vr_id (lt_value (ct_limitTest c1))) NoVerdict (DNan False)] (c1\<lparr>ct_verdict := NoVerdict\<rparr>)
         else c1)"

definition ct_linkState :: "bool \<Rightarrow> 'w controller \<Rightarrow> 'w controller" where
  "ct_linkState up c = c\<lparr>ct_scpi := (ct_scpi c)\<lparr>sd_connected := up\<rparr>\<rparr>"

subsection \<open>What a SCPI client asks for\<close>

text \<open>A request is checked at once, and runs after the command, from the event loop.\<close>

definition ct_startRecording :: "'w controller \<Rightarrow> 'w controller" where
  "ct_startRecording c =
     (case (if ct_startPending c then Some AlreadyStarting else mayStartRecording c) of
        None \<Rightarrow> c\<lparr>ct_startPending := True, ct_queue := ct_queue c @ [QueuedStart]\<rparr>
      | Some why \<Rightarrow> ct_emit [ScpiInitIgnored, CtInfo (TxScpi why)] c)"

definition ct_stopRecording :: "'w controller \<Rightarrow> 'w controller" where
  "ct_stopRecording c = c\<lparr>ct_queue := ct_queue c @ [QueuedStop]\<rparr>"

text \<open>\<open>wanted\<close>: \<open>MeterConnection::isWanted\<close>.\<close>

definition ct_connectRequested :: "bool \<Rightarrow> bool \<Rightarrow> 'w controller \<Rightarrow> 'w controller" where
  "ct_connectRequested wanted on c =
     (if on = (case ct_connectPending c of Some b \<Rightarrow> b | None \<Rightarrow> wanted) then c
      else c\<lparr>ct_connectPending := Some on, ct_queue := ct_queue c @ [QueuedConnect on]\<rparr>)"

fun ct_run :: "'w ct_session \<Rightarrow> bool \<Rightarrow> queued \<Rightarrow> 'w controller \<Rightarrow> 'w controller" where
  "ct_run session wanted QueuedStart c =
     (case mayStartRecording c of None \<Rightarrow> ct_requested session True c | Some why \<Rightarrow> ct_emit [CtInfo (TxScpi why)] c)
       \<lparr>ct_startPending := False\<rparr>"
| "ct_run session wanted QueuedStop c = ct_requested session False c"
| "ct_run session wanted (QueuedConnect on) c =
     (let c1 = (if on \<noteq> wanted then ct_emit [ConnectRequested on] c else c)
      in if ct_connectPending c1 = Some on then c1\<lparr>ct_connectPending := None\<rparr> else c1)"

definition ct_event_loop :: "'w ct_session \<Rightarrow> bool \<Rightarrow> 'w controller \<Rightarrow> 'w controller" where
  "ct_event_loop session wanted c =
     (case ct_queue c of [] \<Rightarrow> c | q # qs \<Rightarrow> ct_run session wanted q (c\<lparr>ct_queue := qs\<rparr>))"

end
