(* ===== verification/Controller_Facts.thy ===== *)
theory Controller_Facts
  imports Meter_Controller
begin

text \<open>
  The controller as a whole: its calls, what holds between the recorder, SCPI, the alarms and the display whatever the calls,
  and what a judged reading leaves in a recording.
\<close>

subsection \<open>What the recorder says since\<close>

definition grows :: "rec_store \<Rightarrow> rec_store \<Rightarrow> bool" where
  "grows s t \<longleftrightarrow> (\<exists>es. rs_log t = rs_log s @ es)"

lemma grows_same: "rs_log t = rs_log s \<Longrightarrow> grows s t"
  by (simp add: grows_def)

lemma grows_trans: "grows s t \<Longrightarrow> grows t u \<Longrightarrow> grows s u"
  by (auto simp: grows_def)

lemma grows_quiet: "quiet s t \<Longrightarrow> grows s t"
  by (auto simp: quiet_def grows_def)

lemma grows_emit: "grows s t \<Longrightarrow> grows s (rs_emit e t)"
  by (auto simp: grows_def rs_emit_def)

lemma grows_log: "grows s t \<Longrightarrow> rs_log u = rs_log t \<Longrightarrow> grows s u"
  by (simp add: grows_def)

lemma grows_if: "grows s t \<Longrightarrow> grows s u \<Longrightarrow> grows s (if b then t else u)"
  by simp

lemma grows_refl [simp]: "grows s s"
  by (simp add: grows_def)

lemma grows_updates [simp]:
  "grows s (t\<lparr>rs_stopT := a1\<rparr>) = grows s t" "grows s (t\<lparr>rs_reading := a2\<rparr>) = grows s t"
  "grows s (t\<lparr>rs_lastVal := a3\<rparr>) = grows s t" "grows s (t\<lparr>rs_lastValValid := a4\<rparr>) = grows s t"
  "grows s (t\<lparr>rs_mode := a5\<rparr>) = grows s t" "grows s (t\<lparr>rs_startTime := a6\<rparr>) = grows s t"
  "grows s (t\<lparr>rs_falling := a3\<rparr>) = grows s t" "grows s (t\<lparr>rs_raising := a3\<rparr>) = grows s t"
  "grows s (t\<lparr>rs_trigger := a7\<rparr>) = grows s t" "grows s (t\<lparr>rs_readings := a8\<rparr>) = grows s t"
  by (simp_all add: grows_def)

lemma grows_after: "grows (rs_emit e s) t \<Longrightarrow> grows s t"
  by (rule grows_trans[OF grows_emit[OF grows_refl]])

lemma grows_readings [simp]:
  "grows s (logRow row s)" "grows s (logReading r s)" "grows s (logRows rows s)" "grows s (setReadingCapacity n s)"
  "grows s (clearReadings s)" "grows s (markLastReading c nm s)"
proof -
  have drop: "grows s (removeOldestReadings n u)" if "grows s u" for n u
    using that by (auto simp: removeOldestReadings_def Let_def grows_def rs_emit_def)
  have add: "grows s (rs_emit e ((rs_emit e' u)\<lparr>rs_readings := x\<rparr>))" if "grows s u" for e e' u x
    using that by (auto simp: grows_def rs_emit_def)
  show row: "grows s (logRow row s)" for row
    using add[OF grows_if[OF drop[OF grows_refl] grows_refl]] by (simp add: logRow_def Let_def)
  show "grows s (logReading r s)" using logReading_row[of r s] row by (metis grows_refl)
  show "grows s (logRows rows s)"
    using add[OF grows_if[OF drop[OF grows_refl] grows_refl]] by (simp add: logRows_def Let_def)
  show "grows s (setReadingCapacity n s)"
    using drop[OF grows_same, of "s\<lparr>rs_readingCapacity := max 1 n\<rparr>"] by (simp add: setReadingCapacity_def Let_def grows_same)
  show "grows s (clearReadings s)" using add[OF grows_refl] by (simp add: clearReadings_def)
  show "grows s (markLastReading c nm s)" by (simp add: markLastReading_def Let_def grows_emit grows_same)
qed

lemma grows_started: "quiet (s\<lparr>rs_state := st\<rparr>) t \<Longrightarrow> grows s (started was t)"
  by (auto simp: quiet_def grows_def started_sel)

lemma grows_begin [simp]: "grows s (rs_begin ck ms s)" "grows s (rs_start_now ck s)" "grows s (startAt ck t0 w s)"
  using begin_quiet[of s ck ms] begin_quiet[of s ck 0] startAt_quiet[of s ck t0 w] grows_started
  by (auto simp: rs_start_now_def)

lemma grows_view [simp]: "grows s (rs_stop ck s)" "grows s (rs_live ck s)" "grows s (load r s)"
proof -
  show "grows s (rs_stop ck s)" by (simp add: rs_stop_def Let_def grows_emit grows_same)
  have by_signals: "grows s u" if "quiet (s\<lparr>rs_state := st\<rparr>) t" "rs_log u = rs_log t @ es" for st t u es
    using that by (auto simp: quiet_def grows_def)
  show "grows s (rs_live ck s)" using live_quiet[of s ck] by_signals by blast
  show "grows s (load r s)" using load_quiet[of s r] by_signals by blast
qed

lemma grows_length [simp]: "grows s (snd (lengthReached ck t s))"
proof -
  have "grows s (rs_stop ck (rs_emit Alert s))" by (rule grows_after[of Alert]) simp
  then show ?thesis by (simp add: lengthReached_def Let_def)
qed

lemma grows_trigger [simp]: "grows s (snd (trigger ck v s))"
proof -
  have "grows s (rs_begin ck (rs_preMs s) (rs_emit Alert s))" by (rule grows_after[of Alert]) simp
  then show ?thesis by (simp only: trigger_def Let_def snd_conv split: if_split) simp
qed

lemma grows_poll [simp]: "grows s (poll ck s)"
proof -
  define s1 where "s1 = (if rs_state s = Live \<and> rs_mode s = AtTime \<and> secsTo (rs_startTime s) (ck_time ck) \<ge> 0 \<and>
    secsTo (rs_startTime s) (ck_time ck) < 2 then rs_start_now ck (rs_emit Alert s) else s)"
  have "grows s s1" using grows_after[OF grows_begin(2)] by (simp add: s1_def)
  then have "grows s s1" "grows s (snd (lengthReached ck t s1))" for t using grows_trans grows_length by blast+
  then show ?thesis by (simp add: poll_def Let_def s1_def[symmetric] case_prod_beta grows_emit)
qed

lemma grows_store [simp]: "grows s (store_reading ck r s)"
proof -
  define u where "u = begin_time r (closeSilentExtras (vr_t r) s)"
  have "quiet s (closeSilentExtras (vr_t r) s)" by simp
  moreover have "grows v (begin_time r v)" for v by (simp add: begin_time_def grows_emit grows_same)
  ultimately have u: "grows s u" unfolding u_def using grows_quiet grows_trans by blast
  have a: "grows w (rs_append ck p w)" for p w by (rule grows_quiet) simp
  have "grows u (store_reading ck r s)"
    using grows_trans[OF a grows_trigger] grows_trans[OF grows_length a]
    by (simp add: store_reading_def Let_def u_def[symmetric] case_prod_beta a)
  with u show ?thesis by (rule grows_trans)
qed

lemma grows_setReading [simp]: "grows s (setReading ck r s)"
proof -
  have q: "grows u (appendExtra r u)" "grows u (rs_clear ck u)" for u by (simp_all add: grows_quiet)
  define s1 where "s1 = (logReading r s)\<lparr>rs_reading := Some r\<rparr>"
  have s1: "grows s s1" by (simp add: s1_def)
  have tf: "grows u (take_function r u)" for u by (simp add: take_function_def grows_same)
  have extra: "grows s (appendExtra r (logReading r s))" by (rule grows_trans[OF _ q(1)]) simp
  have cleared: "grows s ((rs_clear ck s1)\<lparr>rs_lastValValid := False\<rparr>)"
    using grows_trans[OF s1 q(2)] by simp
  have stopped: "grows s (rs_emit x (rs_stop ck s1))" for x by (rule grows_emit[OF grows_trans[OF s1]]) simp
  show ?thesis
    by (simp add: setReading_def Let_def s1_def[symmetric] s1 extra grows_trans[OF extra] grows_trans[OF s1]
        grows_trans[OF grows_trans[OF s1 tf]] grows_trans[OF grows_trans[OF cleared tf]] stopped)
qed

lemma grows_setup [simp]: "grows s (applySetup ck su lead s)"
proof -
  have len: "grows u (setSampleLength ck n u)" for u n
    unfolding setSampleLength_def by (rule grows_trans[OF _ grows_quiet[OF quiet_trim(6)]]) (simp add: grows_same)
  have pre: "grows u (setPreTrigger ck n u)" for u n
    unfolding setPreTrigger_def by (rule grows_trans[OF _ grows_quiet[OF quiet_trim(6)]]) (simp add: grows_same)
  have tim: "grows u (setSampleTime n u)" for u n by (simp add: setSampleTime_def grows_same)
  have "grows s (setPreTrigger ck a (setSampleLength ck b (setSampleTime d s)))" for a b d
    using grows_trans[OF grows_trans[OF tim len] pre] .
  then show ?thesis by (simp add: applySetup_def Let_def setThresholds_def setTriggerValue_def)
qed

lemma grows_step: "grows s (rec_step ck c s)"
proof -
  have live: "grows s (in_live ck t)" if "rs_log t = rs_log s" for t
    using grows_trans[OF grows_same[OF that] grows_quiet[OF quiet_trim(6)]] .
  have "grows s (rs_clear ck s)" "grows s (setStale ck b s)" for b by (simp_all add: grows_quiet)
  then show ?thesis
    by (cases c) (simp_all add: forgetReading_def holdOrigin_def addMark_def Let_def grows_emit grows_same rs_write_def
        setSampleTime_def setSampleLength_def setPreTrigger_def setLiveWidth_def live setThresholds_def setTriggerValue_def setUnit_def)
qed

subsection \<open>What SCPI says of the recorder\<close>

definition ct_flag :: "'w controller \<Rightarrow> bool" where
  "ct_flag c \<longleftrightarrow> sd_recording (ct_scpi c)"

lemma heard_by_controller:
  "\<exists>es. ct_recorder_heard e c = c\<lparr>ct_scpi := (ct_scpi c)\<lparr>sd_recording := ct_flag (ct_recorder_heard e c)\<rparr>, ct_log := ct_log c @ es\<rparr>"
proof -
  have "\<exists>b es. ct_recorder_heard e c = c\<lparr>ct_scpi := (ct_scpi c)\<lparr>sd_recording := b\<rparr>, ct_log := ct_log c @ es\<rparr>"
  proof (cases e)
    case (RunningChanged b)
    then show ?thesis by (intro exI[of _ b] exI[of _ "[]"]) simp
  next
    case (FunctionChanged a b)
    then show ?thesis
      by (intro exI[of _ "sd_recording (ct_scpi c)"]
          exI[of _ "[CtError (TxRecordingStopped a b), CtMarkRequested (Rgb 0xff 0x8c 0x00) TxFunctionChanged True False]"])
        (simp add: ct_emit_def)
  qed (rule exI[of _ "sd_recording (ct_scpi c)"], rule exI[of _ "[]"], simp)+
  then show ?thesis by (auto simp: ct_flag_def)
qed

lemma all_heard_by_controller:
  "\<exists>es. fold ct_recorder_heard xs c = c\<lparr>ct_scpi := (ct_scpi c)\<lparr>sd_recording := ct_flag (fold ct_recorder_heard xs c)\<rparr>, ct_log := ct_log c @ es\<rparr>"
proof (induction xs arbitrary: c)
  case Nil
  then show ?case by (rule exI[of _ "[]"]) (simp add: ct_flag_def)
next
  case (Cons x xs)
  obtain es where "ct_recorder_heard x c = c\<lparr>ct_scpi := (ct_scpi c)\<lparr>sd_recording := ct_flag (ct_recorder_heard x c)\<rparr>, ct_log := ct_log c @ es\<rparr>"
    using heard_by_controller by blast
  then obtain b where b: "ct_recorder_heard x c = c\<lparr>ct_scpi := (ct_scpi c)\<lparr>sd_recording := b\<rparr>, ct_log := ct_log c @ es\<rparr>" by blast
  obtain fs where "fold ct_recorder_heard (x # xs) c = (ct_recorder_heard x c)\<lparr>ct_scpi := (ct_scpi (ct_recorder_heard x c))\<lparr>sd_recording :=
      ct_flag (fold ct_recorder_heard (x # xs) c)\<rparr>, ct_log := ct_log (ct_recorder_heard x c) @ fs\<rparr>"
    using Cons.IH[of "ct_recorder_heard x c"] by auto
  then show ?case unfolding b by (intro exI[of _ "es @ fs"]) simp
qed

lemma flag_follows:
  assumes "hears xs l = Some l'" "ct_flag c = li_running l"
  shows "ct_flag (fold ct_recorder_heard xs c) = li_running l'"
  using assms
proof (induction xs arbitrary: l c)
  case (Cons x xs)
  obtain l1 where 1: "heard x l = Some l1" "hears xs l1 = Some l'" using Cons.prems(1) by (auto split: Option.bind_splits)
  have "ct_flag (ct_recorder_heard x c) = li_running l1"
    using 1(1) Cons.prems(2)
    by (cases x) (auto simp: ct_flag_def ct_emit_def begins_def ends_def split: if_splits option.splits)
  then show ?case using Cons.IH[OF 1(2)] by simp
qed simp

definition rec_good :: "rec_store \<Rightarrow> bool" where
  "rec_good s \<longleftrightarrow> followed s \<and> rec_inv s"

lemma rec_good_step: "rec_good s \<Longrightarrow> rec_good (rec_step ck k s)"
  by (simp add: rec_good_def followed_step rec_step_inv)

text \<open>A call of the recorder changes the recorder, the flag that SCPI has of it, and says something.\<close>

lemma record_step:
  assumes "rec_good (ct_recorder c)" "ct_flag c = (rs_state (ct_recorder c) = Record)"
  shows "\<exists>es. ct_record (rec_step ck k) c = c\<lparr>ct_recorder := rec_step ck k (ct_recorder c),
    ct_scpi := (ct_scpi c)\<lparr>sd_recording := (rs_state (rec_step ck k (ct_recorder c)) = Record)\<rparr>, ct_log := ct_log c @ es\<rparr>"
proof -
  let ?s = "ct_recorder c"
  let ?t = "rec_step ck k ?s"
  obtain es where e: "rs_log ?t = rs_log ?s @ es" using grows_step[of ?s ck k] by (auto simp: grows_def)
  have "hears (rs_log ?t) listener0 = Some (listener_of ?t)" "hears (rs_log ?s) listener0 = Some (listener_of ?s)"
    using assms(1) rec_good_step[of ?s ck k] by (simp_all add: rec_good_def followed_def)
  then have h: "hears es (listener_of ?s) = Some (listener_of ?t)" by (simp add: e hears_append)
  define d where "d = c\<lparr>ct_recorder := ?t\<rparr>"
  have "ct_flag d = li_running (listener_of ?s)" using assms(2) by (simp add: ct_flag_def listener_of_def d_def)
  from flag_follows[OF h this] have "ct_flag (fold ct_recorder_heard es d) = (rs_state ?t = Record)" by (simp add: listener_of_def)
  moreover have "ct_record (rec_step ck k) c = fold ct_recorder_heard es d" by (simp add: ct_record_def Let_def e d_def)
  ultimately show ?thesis using all_heard_by_controller[of es d] by (auto simp: d_def)
qed

subsection \<open>What a signal of the alarms changes\<close>

text \<open>
  \<open>steady c d\<close>: from \<open>c\<close> to \<open>d\<close> nothing changes but the alarms' states, the recorder (by its calls) with the flag of SCPI,
  the colour of the display, and what was said; and the recorder and that flag still agree.
\<close>

definition ct_core :: "'w controller \<Rightarrow> bool" where
  "ct_core c \<longleftrightarrow> rec_good (ct_recorder c) \<and> ct_flag c = (rs_state (ct_recorder c) = Record) \<and> am_wf (ct_alarms c)"

definition beside :: "'w controller \<Rightarrow> 'w controller \<Rightarrow> bool" where
  "beside c d \<longleftrightarrow> d = c\<lparr>ct_alarms := ct_alarms d, ct_recorder := ct_recorder d, ct_scpi := (ct_scpi c)\<lparr>sd_recording := ct_flag d\<rparr>,
     ct_alertColor := ct_alertColor d, ct_log := ct_log d\<rparr>"

definition steady :: "'w controller \<Rightarrow> 'w controller \<Rightarrow> bool" where
  "steady c d \<longleftrightarrow> ct_core c \<longrightarrow> ct_core d \<and> beside c d \<and> am_alarms (ct_alarms d) = am_alarms (ct_alarms c) \<and> (\<exists>es. ct_log d = ct_log c @ es)"

definition shows_alert :: "'w controller \<Rightarrow> bool" where
  "shows_alert c \<longleftrightarrow> ct_alertColor c = displayColor (ct_alarms c)"

lemma beside_refl [simp]: "beside c c"
  by (simp add: beside_def ct_flag_def)

lemma beside_trans:
  assumes "beside c d" "beside d e"
  shows "beside c e"
proof -
  obtain a1 r1 b1 k1 l1 where d: "d = c\<lparr>ct_alarms := a1, ct_recorder := r1, ct_scpi := (ct_scpi c)\<lparr>sd_recording := b1\<rparr>,
     ct_alertColor := k1, ct_log := l1\<rparr>" using assms(1) unfolding beside_def by blast
  obtain a2 r2 b2 k2 l2 where e: "e = d\<lparr>ct_alarms := a2, ct_recorder := r2, ct_scpi := (ct_scpi d)\<lparr>sd_recording := b2\<rparr>,
     ct_alertColor := k2, ct_log := l2\<rparr>" using assms(2) unfolding beside_def by blast
  show ?thesis by (simp add: beside_def e d ct_flag_def)
qed

lemma beside_sel:
  assumes "beside c d"
  shows "ct_lastReadings d = ct_lastReadings c" "sd_readings (ct_scpi d) = sd_readings (ct_scpi c)" "ct_lastUnit d = ct_lastUnit c"
    "ct_startPending d = ct_startPending c" "ct_queue d = ct_queue c" "ct_verdict d = ct_verdict c" "ct_limitTest d = ct_limitTest c"
    "ct_limitCount d = ct_limitCount c" "ct_valueMinMax d = ct_valueMinMax c" "ct_minMax d = ct_minMax c" "ct_minMaxId d = ct_minMaxId c"
    "sd_connected (ct_scpi d) = sd_connected (ct_scpi c)"
proof -
  obtain a1 r1 b1 k1 l1 where "d = c\<lparr>ct_alarms := a1, ct_recorder := r1, ct_scpi := (ct_scpi c)\<lparr>sd_recording := b1\<rparr>,
     ct_alertColor := k1, ct_log := l1\<rparr>" using assms unfolding beside_def by blast
  then show "ct_lastReadings d = ct_lastReadings c" "sd_readings (ct_scpi d) = sd_readings (ct_scpi c)" "ct_lastUnit d = ct_lastUnit c"
    "ct_startPending d = ct_startPending c" "ct_queue d = ct_queue c" "ct_verdict d = ct_verdict c" "ct_limitTest d = ct_limitTest c"
    "ct_limitCount d = ct_limitCount c" "ct_valueMinMax d = ct_valueMinMax c" "ct_minMax d = ct_minMax c" "ct_minMaxId d = ct_minMaxId c"
    "sd_connected (ct_scpi d) = sd_connected (ct_scpi c)"
    by simp_all
qed

lemma steady_refl [simp]: "steady c c"
  by (simp add: steady_def)

lemma steady_trans: "steady c d \<Longrightarrow> steady d e \<Longrightarrow> steady c e"
  by (auto simp: steady_def intro: beside_trans)

lemma steady_fold: "(\<And>x d. steady d (f x d)) \<Longrightarrow> steady c (fold f xs c)"
  by (induction xs arbitrary: c) (auto intro: steady_trans)

lemma emit_sel [simp]:
  "ct_alarms (ct_emit es c) = ct_alarms c" "ct_recorder (ct_emit es c) = ct_recorder c" "ct_scpi (ct_emit es c) = ct_scpi c"
  "ct_alertColor (ct_emit es c) = ct_alertColor c" "ct_flag (ct_emit es c) = ct_flag c" "ct_log (ct_emit es c) = ct_log c @ es"
  "ct_core (ct_emit es c) = ct_core c" "shows_alert (ct_emit es c) = shows_alert c"
  "ct_lastReadings (ct_emit es c) = ct_lastReadings c" "ct_startPending (ct_emit es c) = ct_startPending c"
  "ct_queue (ct_emit es c) = ct_queue c" "ct_verdict (ct_emit es c) = ct_verdict c" "ct_limitTest (ct_emit es c) = ct_limitTest c"
  "ct_valueMinMax (ct_emit es c) = ct_valueMinMax c" "ct_lastUnit (ct_emit es c) = ct_lastUnit c"
  "ct_limitCount (ct_emit es c) = ct_limitCount c" "ct_minMax (ct_emit es c) = ct_minMax c" "ct_minMaxId (ct_emit es c) = ct_minMaxId c"
  by (simp_all add: ct_emit_def ct_flag_def ct_core_def shows_alert_def)

lemma steady_emit [simp]: "steady c (ct_emit es c)"
  by (simp add: steady_def) (simp add: beside_def ct_emit_def ct_flag_def)

lemma record_core:
  assumes "ct_core c"
  shows "ct_core (ct_record (rec_step ck k) c)" "beside c (ct_record (rec_step ck k) c)"
    "ct_alarms (ct_record (rec_step ck k) c) = ct_alarms c" "ct_alertColor (ct_record (rec_step ck k) c) = ct_alertColor c"
    "ct_recorder (ct_record (rec_step ck k) c) = rec_step ck k (ct_recorder c)" "\<exists>es. ct_log (ct_record (rec_step ck k) c) = ct_log c @ es"
proof -
  have r: "rec_good (ct_recorder c)" "ct_flag c = (rs_state (ct_recorder c) = Record)" using assms by (simp_all add: ct_core_def)
  obtain es where e: "ct_record (rec_step ck k) c = c\<lparr>ct_recorder := rec_step ck k (ct_recorder c),
    ct_scpi := (ct_scpi c)\<lparr>sd_recording := (rs_state (rec_step ck k (ct_recorder c)) = Record)\<rparr>, ct_log := ct_log c @ es\<rparr>"
    using record_step[OF r] by blast
  show "ct_core (ct_record (rec_step ck k) c)" "beside c (ct_record (rec_step ck k) c)"
    "ct_alarms (ct_record (rec_step ck k) c) = ct_alarms c" "ct_alertColor (ct_record (rec_step ck k) c) = ct_alertColor c"
    "ct_recorder (ct_record (rec_step ck k) c) = rec_step ck k (ct_recorder c)" "\<exists>es. ct_log (ct_record (rec_step ck k) c) = ct_log c @ es"
    using assms rec_good_step[OF r(1)] by (simp_all add: e ct_core_def ct_flag_def beside_def)
qed

lemma steady_record [simp]: "steady c (ct_record (rec_step ck k) c)"
  using record_core[of c ck k] by (simp add: steady_def)

text \<open>Calls that leave the alarms and the colour alone.\<close>

definition same_alarms :: "'w controller \<Rightarrow> 'w controller \<Rightarrow> bool" where
  "same_alarms c d \<longleftrightarrow> (ct_core c \<longrightarrow> ct_alarms d = ct_alarms c \<and> ct_alertColor d = ct_alertColor c)"

lemma requested_steady [simp]: "steady c (ct_requested ses on c)" "same_alarms c (ct_requested ses on c)"
proof -
  have "steady d (fold (\<lambda>(ck, k). ct_record (rec_step ck k)) xs d)" for xs and d :: "'a controller"
    by (rule steady_fold) (simp split: prod.split)
  then show "steady c (ct_requested ses on c)" unfolding ct_requested_def using steady_trans steady_emit by blast
  have "ct_core d \<Longrightarrow> ct_alarms (fold (\<lambda>(ck, k). ct_record (rec_step ck k)) xs d) = ct_alarms d \<and>
     ct_alertColor (fold (\<lambda>(ck, k). ct_record (rec_step ck k)) xs d) = ct_alertColor d" for xs and d :: "'a controller"
    by (induction xs arbitrary: d) (auto simp: record_core)
  then show "same_alarms c (ct_requested ses on c)" by (simp add: same_alarms_def ct_requested_def)
qed

lemma banner [simp]:
  "steady c (updateBanner c)" "ct_alarms (updateBanner c) = ct_alarms c" "shows_alert (updateBanner c)"
  "ct_recorder (updateBanner c) = ct_recorder c"
proof -
  have "steady d (d\<lparr>ct_alertColor := x\<rparr>)" for d :: "'a controller" and x
    by (simp add: steady_def beside_def ct_core_def ct_flag_def)
  then have "steady c (ct_emit es d)" "steady c (ct_emit es (d\<lparr>ct_alertColor := x\<rparr>))" if "steady c d" for es x d
    using that steady_trans steady_emit by blast+
  then show "steady c (updateBanner c)" by (simp add: updateBanner_def Let_def)
  show "ct_alarms (updateBanner c) = ct_alarms c" "shows_alert (updateBanner c)" "ct_recorder (updateBanner c) = ct_recorder c"
    by (simp_all add: updateBanner_def Let_def) (simp add: shows_alert_def)
qed

lemma raised_steady: "steady c (onAlarmRaised ses i al v c)"
  and raised_alarms: "ct_core c \<Longrightarrow> ct_alarms (onAlarmRaised ses i al v c) = ct_alarms c"
  and raised_alert: "shows_alert (onAlarmRaised ses i al v c)"
  and raised_recorder: "al_recorder al = RecorderNone \<Longrightarrow> ct_recorder (onAlarmRaised ses i al v c) = ct_recorder c"
proof -
  define unit where "unit = valueUnit c (value_ref.vr_id (al_value al))"
  define said where "said = TxAlarm al v unit (map_value False (ct_valueOverload c) (value_ref.vr_id (al_value al)))"
  define c1 where "c1 = ct_emit [CtError said] c"
  define c2 where "c2 = (case al_recorder al of
      RecorderStart \<Rightarrow> (case mayStartRecording c1 of None \<Rightarrow> ct_requested ses True c1
        | Some why \<Rightarrow> ct_emit [CtInfo (TxRefused al why)] c1)
    | RecorderStop \<Rightarrow> ct_requested ses False c1
    | RecorderNone \<Rightarrow> c1)"
  define es where "es = (if al_markGraph al \<or> al_markTable al
        then [CtMarkRequested (al_color al) (TxTitle (al_name al)) (al_markGraph al) (al_markTable al)] else []) @
    (if al_command al \<noteq> [] then [AlarmProgram al v unit] else []) @ [AlarmRaised i al said]"
  have o: "onAlarmRaised ses i al v c = updateBanner (ct_emit es c2)"
    by (simp only: onAlarmRaised_def Let_def unit_def[symmetric] said_def[symmetric] c1_def[symmetric] c2_def[symmetric]
        es_def[symmetric])
  have 1: "steady c c1" "ct_alarms c1 = ct_alarms c" "ct_core c1 = ct_core c" by (simp_all add: c1_def)
  have req: "steady c (ct_requested ses b c1)" "steady c (ct_emit x c1)" for b x using 1(1) steady_trans by fastforce+
  have st: "steady c c2" "ct_core c \<Longrightarrow> ct_alarms c2 = ct_alarms c"
    using 1 req requested_steady(2)[of c1 ses]
    by (auto simp: c2_def same_alarms_def split: recorder_action.split option.split)
  show "steady c (onAlarmRaised ses i al v c)" unfolding o using steady_trans[OF steady_trans[OF st(1) steady_emit] banner(1)] .
  show "ct_core c \<Longrightarrow> ct_alarms (onAlarmRaised ses i al v c) = ct_alarms c" "shows_alert (onAlarmRaised ses i al v c)"
    unfolding o using st(2) by simp_all
  show "al_recorder al = RecorderNone \<Longrightarrow> ct_recorder (onAlarmRaised ses i al v c) = ct_recorder c"
    unfolding o by (simp add: c2_def c1_def)
qed

text \<open>A step of the manager says what changes the colour, and of the alarm it is about.\<close>

fun ev_alarm :: "alarm_event \<Rightarrow> alarm" where
  "ev_alarm (Raised_Event i al v) = al" | "ev_alarm (Cleared_Event i al) = al"

definition speaks :: "nat \<Rightarrow> (alarm_mgr \<Rightarrow> alarm_mgr) \<Rightarrow> bool" where
  "speaks i f \<longleftrightarrow> (\<forall>m. am_wf m \<longrightarrow> am_wf (f m) \<and> am_alarms (f m) = am_alarms m \<and>
     (\<exists>es. am_log (f m) = am_log m @ es \<and> (\<forall>e \<in> set es. ev_alarm e = am_alarms m ! i) \<and>
        (es = [] \<longrightarrow> displayColor (f m) = displayColor m)))"

lemma color_cong:
  assumes "am_alarms m' = am_alarms m" "am_raiseOrder m' = am_raiseOrder m"
    and "\<And>j. (am_st j m' = Raised \<or> am_st j m' = Acknowledged) = (am_st j m = Raised \<or> am_st j m = Acknowledged)"
  shows "displayColor m' = displayColor m"
  unfolding displayColor_def assms by (rule refl)

lemma color_set [simp]:
  "displayColor (am_set_since i t m) = displayColor m"
  "st \<noteq> Raised \<Longrightarrow> st \<noteq> Acknowledged \<Longrightarrow> am_st i m \<noteq> Raised \<Longrightarrow> am_st i m \<noteq> Acknowledged \<Longrightarrow>
     displayColor (am_set i st m) = displayColor m"
proof -
  have "am_raiseOrder (am_set_since i t m) = am_raiseOrder m" "am_raiseOrder (am_set i st m) = am_raiseOrder m"
    by (simp_all add: am_set_since_def am_set_def)
  then show "displayColor (am_set_since i t m) = displayColor m"
    "st \<noteq> Raised \<Longrightarrow> st \<noteq> Acknowledged \<Longrightarrow> am_st i m \<noteq> Raised \<Longrightarrow> am_st i m \<noteq> Acknowledged \<Longrightarrow>
     displayColor (am_set i st m) = displayColor m"
    by (auto intro!: color_cong split: if_splits)
qed

lemma alarms_raised [simp]: "am_alarms (am_raise i al v m) = am_alarms m" "am_alarms (am_clear i al m) = am_alarms m"
  by (simp_all add: am_raise_def am_clear_def)

lemma speaks_feed: "speaks i (am_feed_at v ov now vid src i)"
proof -
  have e: "am_alarms (am_evaluate i p r v now m) = am_alarms m \<and> (\<exists>es. am_log (am_evaluate i p r v now m) = am_log m @ es \<and>
      (\<forall>e \<in> set es. ev_alarm e = am_alarms m ! i) \<and> (es = [] \<longrightarrow> displayColor (am_evaluate i p r v now m) = displayColor m))" for p r m
    by (cases "am_st i m") (simp_all add: am_evaluate_def Let_def)
  show ?thesis
    using e by (auto simp: speaks_def am_feed_at_def Let_def evaluate_keeps)
qed

lemma speaks_tick: "speaks i (am_tick_at now i)"
  by (auto simp: speaks_def am_tick_at_def Let_def)

lemma speaks_disconnect: "speaks i (am_disconnect_at i)"
  by (auto simp: speaks_def am_disconnect_at_def Let_def)

lemma heard_alarm:
  "steady c (ct_alarm_heard ses e c)" "ct_core c \<Longrightarrow> ct_alarms (ct_alarm_heard ses e c) = ct_alarms c"
  "shows_alert (ct_alarm_heard ses e c)"
  "al_recorder (ev_alarm e) = RecorderNone \<Longrightarrow> ct_recorder (ct_alarm_heard ses e c) = ct_recorder c"
proof -
  have b: "steady c (updateBanner (ct_emit es c))" for es by (rule steady_trans[OF steady_emit banner(1)])
  show "steady c (ct_alarm_heard ses e c)" by (cases e) (simp_all only: ct_alarm_heard.simps raised_steady b)
  show "ct_core c \<Longrightarrow> ct_alarms (ct_alarm_heard ses e c) = ct_alarms c" by (cases e) (simp_all add: raised_alarms)
  show "shows_alert (ct_alarm_heard ses e c)" by (cases e) (simp_all add: raised_alert)
  show "al_recorder (ev_alarm e) = RecorderNone \<Longrightarrow> ct_recorder (ct_alarm_heard ses e c) = ct_recorder c"
    by (cases e) (simp_all add: raised_recorder)
qed

lemma heard_alarms:
  assumes "ct_core c"
  shows "steady c (fold (ct_alarm_heard ses) es c) \<and> ct_alarms (fold (ct_alarm_heard ses) es c) = ct_alarms c \<and>
    (es \<noteq> [] \<or> shows_alert c \<longrightarrow> shows_alert (fold (ct_alarm_heard ses) es c)) \<and>
    ((\<forall>e \<in> set es. al_recorder (ev_alarm e) = RecorderNone) \<longrightarrow> ct_recorder (fold (ct_alarm_heard ses) es c) = ct_recorder c)"
  using assms
proof (induction es arbitrary: c)
  case (Cons e es)
  let ?d = "ct_alarm_heard ses e c"
  have d: "ct_core ?d" "ct_alarms ?d = ct_alarms c" using Cons.prems heard_alarm(1)[of c ses e] heard_alarm(2) by (auto simp: steady_def)
  show ?case
    using Cons.IH[OF d(1)] d(2) heard_alarm(3)[of ses e c] heard_alarm(4)[of e ses c] steady_trans[OF heard_alarm(1)[of c ses e]] by simp
qed simp

lemma alarm_step:
  assumes "speaks i f" "ct_core c"
  shows "steady c (ct_alarm_step ses f c)" "ct_alarms (ct_alarm_step ses f c) = f (ct_alarms c)"
    "shows_alert c \<Longrightarrow> shows_alert (ct_alarm_step ses f c)"
    "al_recorder (am_alarms (ct_alarms c) ! i) = RecorderNone \<Longrightarrow> ct_recorder (ct_alarm_step ses f c) = ct_recorder c"
proof -
  let ?m = "ct_alarms c"
  let ?d = "c\<lparr>ct_alarms := f ?m\<rparr>"
  obtain es where m: "am_wf (f ?m)" "am_alarms (f ?m) = am_alarms ?m" "am_log (f ?m) = am_log ?m @ es"
    "\<forall>e \<in> set es. ev_alarm e = am_alarms ?m ! i" "es = [] \<longrightarrow> displayColor (f ?m) = displayColor ?m"
    using assms unfolding speaks_def ct_core_def by blast
  have st: "ct_alarm_step ses f c = fold (ct_alarm_heard ses) es ?d" by (simp add: ct_alarm_step_def m(3))
  have d: "steady c ?d" "ct_core ?d"
    using assms(2) m(1,2) by (simp_all add: steady_def ct_core_def ct_flag_def beside_def)
  note h = heard_alarms[OF d(2), of ses es]
  show "steady c (ct_alarm_step ses f c)" "ct_alarms (ct_alarm_step ses f c) = f ?m"
    using h steady_trans[OF d(1)] by (simp_all add: st)
  show "shows_alert c \<Longrightarrow> shows_alert (ct_alarm_step ses f c)"
    using h m(5) by (cases es) (simp_all add: st shows_alert_def)
  show "al_recorder (am_alarms ?m ! i) = RecorderNone \<Longrightarrow> ct_recorder (ct_alarm_step ses f c) = ct_recorder c"
    using h m(4) by (simp add: st)
qed

text \<open>A pass over all alarms is the manager's pass.\<close>

lemma alarm_pass:
  fixes ses :: "'w ct_session" and xs :: "nat list"
  assumes "\<And>i. speaks i (f i)" "ct_core c"
  defines "d \<equiv> fold (\<lambda>i. ct_alarm_step ses (f i)) xs c"
  shows "steady c d \<and> ct_alarms d = fold f xs (ct_alarms c) \<and> (shows_alert c \<longrightarrow> shows_alert d) \<and>
    ((\<forall>i \<in> set xs. al_recorder (am_alarms (ct_alarms c) ! i) = RecorderNone) \<longrightarrow> ct_recorder d = ct_recorder c)"
  using assms(2) unfolding d_def
proof (induction xs arbitrary: c)
  case (Cons x xs)
  let ?d = "ct_alarm_step ses (f x) c"
  note s = alarm_step[OF assms(1)[of x] Cons.prems, of ses]
  have d: "ct_core ?d" "am_alarms (ct_alarms ?d) = am_alarms (ct_alarms c)" using s(1) Cons.prems by (auto simp: steady_def)
  show ?case using Cons.IH[OF d(1)] s steady_trans[OF s(1)] d(2) by auto
qed simp

lemma feed_steady:
  fixes ses :: "'w ct_session" and v :: dbl and ov :: bool and now vid :: int and src :: qstring
  assumes "ct_core c"
  defines "d \<equiv> ct_feed ses v ov now vid src c"
  shows "steady c d" "ct_alarms d = am_feed v ov now vid src (ct_alarms c)" "shows_alert c \<Longrightarrow> shows_alert d"
    "\<forall>al \<in> set (am_alarms (ct_alarms c)). al_recorder al = RecorderNone \<Longrightarrow> ct_recorder d = ct_recorder c"
proof -
  define m1 where "m1 = (if vid = 0 then (ct_alarms c)\<lparr>am_lastReading := now, am_lastValue := v, am_lastOverload := ov\<rparr> else ct_alarms c)"
  define c1 where "c1 = c\<lparr>ct_alarms := m1\<rparr>"
  have m1: "am_alarms m1 = am_alarms (ct_alarms c)" "displayColor m1 = displayColor (ct_alarms c)" "am_wf m1 = am_wf (ct_alarms c)"
    by (simp add: m1_def, rule color_cong) (simp_all add: m1_def am_wf_def am_st_def)
  have c1: "steady c c1" "ct_core c1" "ct_alarms c1 = m1" "ct_recorder c1 = ct_recorder c" "shows_alert c \<Longrightarrow> shows_alert c1"
    using assms(1) m1 by (simp_all add: c1_def steady_def beside_def ct_core_def ct_flag_def shows_alert_def)
  have d: "d = fold (\<lambda>i. ct_alarm_step ses (am_feed_at v ov now vid src i)) [0 ..< length (am_alarms (ct_alarms c))] c1"
    by (simp add: d_def ct_feed_def Let_def m1_def c1_def)
  note p = alarm_pass[where f = "am_feed_at v ov now vid src", OF speaks_feed c1(2), of ses "[0 ..< length (am_alarms (ct_alarms c))]", folded d]
  show "steady c d" "shows_alert c \<Longrightarrow> shows_alert d" using p c1 steady_trans by blast+
  show "ct_alarms d = am_feed v ov now vid src (ct_alarms c)"
    using p c1(3) m1(1) by (simp add: am_feed_def m1_def Let_def)
  show "\<forall>al \<in> set (am_alarms (ct_alarms c)). al_recorder al = RecorderNone \<Longrightarrow> ct_recorder d = ct_recorder c"
    using p c1(3,4) m1(1) by simp
qed

subsection \<open>The calls of the controller\<close>

datatype ct_call =
  KReading clocks int view_reading | KTimer clocks int | KConnect bool int | KLink bool | KAlarms "alarm list" | KAcknowledge
  | KLimitTest limit_test | KResetCount | KMinMaxValue int | KResetMinMax | KForgetUnit | KRecorder clocks rec_call
  | KFollowsWindow bool | KScpiStart | KScpiStop | KScpiConnect bool bool | KEventLoop bool

fun ct_step :: "'w ct_session \<Rightarrow> (alarm list \<Rightarrow> qstring) \<Rightarrow> ct_call \<Rightarrow> 'w controller \<Rightarrow> 'w controller" where
  "ct_step ses json (KReading ck now r) c = publish ses ck now r c"
| "ct_step ses json (KTimer ck now) c = ct_timer ses ck now c"
| "ct_step ses json (KConnect isOpen now) c = connectMeter ses isOpen now c"
| "ct_step ses json (KLink up) c = ct_linkState up c"
| "ct_step ses json (KAlarms als) c = ct_setAlarms json als c"
| "ct_step ses json KAcknowledge c = acknowledgeAlarms c"
| "ct_step ses json (KLimitTest t) c = ct_setLimitTest t c"
| "ct_step ses json KResetCount c = resetLimitCount c"
| "ct_step ses json (KMinMaxValue i) c = setMinMaxValue i c"
| "ct_step ses json KResetMinMax c = resetMinMax c"
| "ct_step ses json KForgetUnit c = forgetUnit c"
| "ct_step ses json (KRecorder ck k) c = ct_record (rec_step ck k) c"
| "ct_step ses json (KFollowsWindow b) c = c\<lparr>ct_followsWindow := b\<rparr>"
| "ct_step ses json KScpiStart c = ct_startRecording c"
| "ct_step ses json KScpiStop c = ct_stopRecording c"
| "ct_step ses json (KScpiConnect wanted on) c = ct_connectRequested wanted on c"
| "ct_step ses json (KEventLoop wanted) c = ct_event_loop ses wanted c"

inductive ct_reach :: "'w ct_session \<Rightarrow> (alarm list \<Rightarrow> qstring) \<Rightarrow> 'w controller \<Rightarrow> bool" for ses json where
  fresh: "ct_reach ses json (controller0 ck)"
| call: "ct_reach ses json c \<Longrightarrow> ct_reach ses json (ct_step ses json k c)"

definition readings_agree :: "'w controller \<Rightarrow> bool" where
  "readings_agree c \<longleftrightarrow> (\<forall>i q. map_of (sd_readings (ct_scpi c)) i = Some q \<longrightarrow>
     i \<ge> 0 \<and> (\<exists>r. map_of (ct_lastReadings c) i = Some r \<and> q = scpi_reading r))"

definition starts_queued :: "'w controller \<Rightarrow> nat" where
  "starts_queued c = length (filter (\<lambda>q. q = QueuedStart) (ct_queue c))"

definition ct_inv :: "'w controller \<Rightarrow> bool" where
  "ct_inv c \<longleftrightarrow> ct_core c \<and> shows_alert c \<and> readings_agree c \<and> starts_queued c = (if ct_startPending c then 1 else 0) \<and>
     (ct_verdict c \<noteq> NoVerdict \<longrightarrow> lt_enabled (ct_limitTest c))"

lemma inv_core: "ct_inv c \<Longrightarrow> ct_core c"
  by (simp add: ct_inv_def)

subsection \<open>What leaves the rest alone\<close>

definition ct_view :: "'w controller \<Rightarrow> (int \<times> view_reading) list \<times> (int \<times> reading) list \<times> bool \<times> queued list \<times> verdict \<times> limit_test \<times> bool" where
  "ct_view c = (ct_lastReadings c, sd_readings (ct_scpi c), ct_startPending c, ct_queue c, ct_verdict c, ct_limitTest c,
     sd_connected (ct_scpi c))"

definition minor :: "'w controller \<Rightarrow> 'w controller \<Rightarrow> bool" where
  "minor c d \<longleftrightarrow> (ct_core c \<longrightarrow> ct_core d \<and> (shows_alert c \<longrightarrow> shows_alert d) \<and> ct_view d = ct_view c)"

lemma minor_refl [simp]: "minor c c"
  by (simp add: minor_def)

lemma minor_trans: "minor c d \<Longrightarrow> minor d e \<Longrightarrow> minor c e"
  by (auto simp: minor_def)

lemma minor_inv: "minor c d \<Longrightarrow> ct_inv c \<Longrightarrow> ct_inv d"
  by (simp add: minor_def ct_inv_def ct_view_def readings_agree_def starts_queued_def)

lemma steady_minor: "steady c d \<Longrightarrow> (ct_core c \<Longrightarrow> shows_alert c \<Longrightarrow> shows_alert d) \<Longrightarrow> minor c d"
  using beside_sel[of c d] by (simp add: minor_def steady_def ct_view_def)

lemma minor_emit: "minor c d \<Longrightarrow> minor c (ct_emit es d)"
  by (simp add: minor_def ct_view_def)

lemma minor_fields [simp]:
  "minor c (d\<lparr>ct_lastUnit := a1\<rparr>) = minor c d" "minor c (d\<lparr>ct_valueMinMax := a2\<rparr>) = minor c d"
  "minor c (d\<lparr>ct_minMax := a3\<rparr>) = minor c d" "minor c (d\<lparr>ct_valueFault := a4\<rparr>) = minor c d"
  "minor c (d\<lparr>ct_lastMain := a5\<rparr>) = minor c d" "minor c (d\<lparr>ct_stale := a6\<rparr>) = minor c d"
  "minor c (d\<lparr>ct_overload := a7\<rparr>) = minor c d" "minor c (d\<lparr>ct_baseUnit := a1\<rparr>) = minor c d"
  "minor c (d\<lparr>ct_valueUnits := a4\<rparr>) = minor c d" "minor c (d\<lparr>ct_valueOverload := a8\<rparr>) = minor c d"
  "minor c (d\<lparr>ct_staleShown := a7\<rparr>) = minor c d" "minor c (d\<lparr>ct_limitCount := a9\<rparr>) = minor c d"
  "minor c (d\<lparr>ct_minMaxId := a10\<rparr>) = minor c d" "minor c (d\<lparr>ct_followsWindow := a7\<rparr>) = minor c d"
  "minor c (d\<lparr>ct_connectPending := a11\<rparr>) = minor c d"
  by (simp_all add: minor_def ct_core_def ct_flag_def shows_alert_def ct_view_def)

lemma minor_record: "minor c d \<Longrightarrow> minor c (ct_record (rec_step ck k) d)"
  using steady_minor[OF steady_record, of d ck k] record_core[of d ck k] minor_trans by (auto simp: shows_alert_def)

lemma rec_calls:
  "setReading ck r = rec_step ck (CReading r)" "setUnit u = rec_step ck (CUnit u)" "setStale ck b = rec_step ck (CStale b)"
  by (simp_all add: fun_eq_iff)

lemma minor_reading: "minor c d \<Longrightarrow> minor c (ct_reading ck r d)"
  unfolding ct_reading_def rec_calls(1) by (rule minor_emit[OF minor_record])

lemma minor_unit: "minor c d \<Longrightarrow> minor c (ct_unitChanged u d)"
  unfolding ct_unitChanged_def rec_calls(2)[of _ undefined] by (rule minor_emit[OF minor_record])

lemma minor_requested: "minor c d \<Longrightarrow> minor c (ct_requested ses on d)"
  using steady_minor[OF requested_steady(1), of d ses on] requested_steady(2)[of d ses on] minor_trans
  by (auto simp: same_alarms_def shows_alert_def)

lemma minor_feed: "minor c d \<Longrightarrow> minor c (ct_feed ses v ov now vid src d)"
  using feed_steady(1,3)[of d ses v ov now vid src] steady_minor[of d "ct_feed ses v ov now vid src d"] minor_trans
  by (auto simp: minor_def)

lemma minor_pass: "(\<And>i. speaks i (f i)) \<Longrightarrow> minor c d \<Longrightarrow> minor c (fold (\<lambda>i. ct_alarm_step ses (f i)) xs d)"
  using alarm_pass[of f d ses xs] steady_minor[of d "fold (\<lambda>i. ct_alarm_step ses (f i)) xs d"] minor_trans
  by (auto simp: minor_def)

lemma minor_alarms:
  assumes "minor c d" "am_wf m \<longleftrightarrow> am_wf (ct_alarms d)" "displayColor m = displayColor (ct_alarms d)"
  shows "minor c (d\<lparr>ct_alarms := m\<rparr>)"
  using assms by (simp add: minor_def ct_core_def ct_flag_def shows_alert_def ct_view_def)

lemma minor_parts:
  "minor c d \<Longrightarrow> minor c (ct_unit_seen r d)" "minor c d \<Longrightarrow> minor c (snd (ct_value_extremes r d))"
  "minor c d \<Longrightarrow> minor c (snd (snd (ct_shown_extremes r d)))" "minor c d \<Longrightarrow> minor c (ct_fault r d)"
  "minor c d \<Longrightarrow> minor c (ct_say_extremes r a b e d)" "minor c d \<Longrightarrow> minor c (ct_alarmed ses r d)"
  "minor c d \<Longrightarrow> minor c (ct_say_verdict r d)"
proof -
  assume d: "minor c d"
  have e: "minor c (emitValueMinMax i x)" if "minor c x" for i x using that by (simp add: emitValueMinMax_def Let_def minor_emit)
  have s1: "minor c (if b then ct_emit es x else x)" if "minor c x" for b es x using that by (simp add: minor_emit)
  show "minor c (ct_unit_seen r d)" using d by (simp add: ct_unit_seen_def Let_def minor_unit)
  show "minor c (snd (ct_value_extremes r d))" using d by (simp add: ct_value_extremes_def split: prod.split)
  show "minor c (snd (snd (ct_shown_extremes r d)))" using d by (simp add: ct_shown_extremes_def Let_def minor_emit split: prod.split)
  show "minor c (ct_fault r d)" using d by (simp add: ct_fault_def Let_def minor_emit)
  show "minor c (ct_say_extremes r a b e d)" unfolding ct_say_extremes_def Let_def
    by (cases e; simp only: if_True if_False) (intro e s1 d)+
  show "minor c (ct_alarmed ses r d)" unfolding ct_alarmed_def Let_def using d by (intro minor_feed) simp
  show "minor c (ct_say_verdict r d)" using d by (simp add: ct_say_verdict_def minor_emit)
qed

lemma map_of_qmap_insert [simp]: "map_of (qmap_insert k v xs) = (map_of xs)(k \<mapsto> v)"
  by (induction k v xs rule: qmap_insert.induct) (auto simp: fun_eq_iff)

text \<open>A reading: what the limit test and the memories make of it, and that SCPI has what was remembered last.\<close>

lemma judge_inv: "ct_inv c \<Longrightarrow> ct_inv (snd (ct_judge r c))"
proof -
  assume c: "ct_inv c"
  have "ct_inv (c\<lparr>ct_verdict := v\<rparr>)" if "lt_enabled (ct_limitTest c)" for v
    using c that by (simp add: ct_inv_def ct_core_def ct_flag_def shows_alert_def readings_agree_def starts_queued_def)
  then have "ct_inv (ct_emit es (c\<lparr>ct_verdict := v, ct_limitCount := n\<rparr>))" "ct_inv (c\<lparr>ct_verdict := v\<rparr>)"
    if "lt_enabled (ct_limitTest c)" for v n es
    using that minor_inv[of "c\<lparr>ct_verdict := v\<rparr>"] minor_emit by (metis minor_fields(12) minor_refl)+
  then show ?thesis using c by (auto simp: ct_judge_def judges_def Let_def)
qed

lemma judge_id [simp]: "vr_id (fst (ct_judge r c)) = vr_id r" "vr_text (fst (ct_judge r c)) = vr_text r"
  by (simp_all add: ct_judge_def with_verdict_def Let_def)

lemma minor_remember:
  "minor (c\<lparr>ct_lastReadings := qmap_insert (vr_id r) r (ct_lastReadings c)\<rparr>) (ct_remember now r c)"
  by (simp add: ct_remember_def Let_def minor_emit)

lemma publish_keeps:
  assumes "ct_inv c"
  shows "ct_inv (publish ses ck now r0 c) \<and> sd_connected (ct_scpi (publish ses ck now r0 c)) = sd_connected (ct_scpi c)"
proof -
  obtain r c1 where j: "ct_judge r0 c = (r, c1)" by fastforce
  have c1: "ct_inv c1" using judge_inv[OF assms, of r0] j by simp
  have con: "sd_connected (ct_scpi c1) = sd_connected (ct_scpi c)"
    using arg_cong[OF j, of "\<lambda>x. ct_scpi (snd x)"] by (simp add: ct_judge_def Let_def split: if_splits)
  have keeps: "sd_connected (ct_scpi d) = sd_connected (ct_scpi c)" if "minor c1 d" for d
    using that inv_core[OF c1] con by (simp add: minor_def ct_view_def)
  show ?thesis
  proof (cases "vr_id r > 0 \<and> vr_text r = []")
    case True
    then show ?thesis
      using minor_inv[OF minor_reading[OF minor_refl] c1] keeps[OF minor_reading[OF minor_refl]] by (simp add: publish_def j Let_def)
  next
    case False
    obtain b c2 where 2: "ct_value_extremes r (ct_unit_seen r c1) = (b, c2)" by fastforce
    obtain n x c3 where 3: "ct_shown_extremes r c2 = (n, x, c3)" by (metis prod_cases3)
    define c4 where "c4 = ct_say_extremes r n x b (ct_fault r (ct_reading ck r c3))"
    define d where "d = c4\<lparr>ct_lastReadings := qmap_insert (vr_id r) r (ct_lastReadings c4)\<rparr>"
    define e where "e = (if judges r0 c then ct_say_verdict r (ct_alarmed ses r (ct_remember now r c4)) else ct_alarmed ses r (ct_remember now r c4))"
    have "minor c1 c2" using minor_parts(2)[OF minor_parts(1)[OF minor_refl], of c1 r r] 2 by simp
    then have "minor c1 c3" using minor_parts(3)[of c1 c2 r] 3 by simp
    then have "minor c1 c4" unfolding c4_def by (intro minor_parts minor_reading)
    then have c4: "ct_inv c4" "sd_connected (ct_scpi c4) = sd_connected (ct_scpi c)" using minor_inv c1 keeps by blast+
    have m: "minor d e" unfolding e_def d_def using minor_parts(6,7)[OF minor_remember] by (auto intro: minor_parts minor_remember)
    have d: "ct_core d" "shows_alert d" "ct_view d = (qmap_insert (vr_id r) r (ct_lastReadings c4), snd (ct_view c4))"
      using c4(1) by (simp_all add: d_def ct_inv_def ct_core_def ct_flag_def shows_alert_def ct_view_def)
    then have e: "ct_core e" "shows_alert e" "ct_view e = (qmap_insert (vr_id r) r (ct_lastReadings c4), snd (ct_view c4))"
      using m by (simp_all add: minor_def)
    have p: "publish ses ck now r0 c = e\<lparr>ct_scpi := sd_setReading (vr_id r) (scpi_reading r) (ct_scpi e)\<rparr>"
      by (simp only: publish_def Let_def j prod.case if_not_P[OF False] 2 3 c4_def e_def)
    let ?p = "e\<lparr>ct_scpi := sd_setReading (vr_id r) (scpi_reading r) (ct_scpi e)\<rparr>"
    have "ct_core ?p" "shows_alert ?p" "starts_queued ?p = (if ct_startPending ?p then 1 else 0)"
      "ct_verdict ?p \<noteq> NoVerdict \<longrightarrow> lt_enabled (ct_limitTest ?p)"
      using e c4(1) by (simp_all add: ct_core_def ct_flag_def shows_alert_def sd_setReading_def starts_queued_def ct_view_def ct_inv_def)
    moreover have "readings_agree ?p"
      using e(3) c4(1) by (auto simp: readings_agree_def sd_setReading_def ct_view_def ct_inv_def)
    moreover have "sd_connected (ct_scpi ?p) = sd_connected (ct_scpi c)"
      using e(3) c4(2) by (simp add: ct_view_def sd_setReading_def)
    ultimately show ?thesis by (simp only: p ct_inv_def)
  qed
qed

lemmas publish_inv = publish_keeps[THEN conjunct1]

lemma minor_tick: "minor c d \<Longrightarrow> minor c (ct_alarms_tick ses now d)"
  unfolding ct_alarms_tick_def by (rule minor_pass[where f = "am_tick_at now"]) (rule speaks_tick)

lemma minor_timer: "minor c (ct_timer ses ck now c)"
proof -
  have 1: "minor c (ct_record (rec_step ck (CStaleAfter n)) c)" for n by (rule minor_record) simp
  have "minor c (ct_emit es (ct_record (setStale ck b) (d\<lparr>ct_staleShown := b\<rparr>)))" if "minor c d" for es b d
    unfolding rec_calls(3) using that by (intro minor_emit minor_record) simp
  then show ?thesis unfolding ct_timer_def Let_def using 1 by (intro minor_tick) auto
qed

lemma minor_connected: "minor c d \<Longrightarrow> minor c (ct_alarms_connected ses on now d)"
proof -
  assume d: "minor c d"
  have same: "displayColor (m\<lparr>am_silenceFrom := a, am_lastReading := b\<rparr>) = displayColor m" for m a b
    by (rule color_cong) (simp_all add: am_st_def)
  have "minor c (d\<lparr>ct_alarms := (ct_alarms d)\<lparr>am_silenceFrom := a, am_lastReading := b\<rparr>\<rparr>)" for a b
    by (rule minor_alarms[OF d]) (simp_all add: am_wf_def same)
  note m = this and p = minor_pass[where f = am_disconnect_at, OF speaks_disconnect this]
  show ?thesis unfolding ct_alarms_connected_def Let_def using d m p by (simp split: if_split)
qed

lemma connect_inv: "ct_inv c \<Longrightarrow> ct_inv (connectMeter ses up now c)"
proof -
  assume c: "ct_inv c"
  define d where "d = ct_alarms_connected ses up now (c\<lparr>ct_stale := st_reset (ct_stale c)\<rparr>)"
  have "minor c d" unfolding d_def by (rule minor_connected) simp
  then have d: "ct_inv d" using minor_inv c by blast
  then have "ct_inv (ct_emit es (d\<lparr>ct_verdict := NoVerdict\<rparr>))" for es
    by (simp add: ct_inv_def starts_queued_def readings_agree_def) (simp add: ct_core_def ct_flag_def shows_alert_def)
  with d show ?thesis unfolding connectMeter_def Let_def d_def[symmetric] by simp
qed

lemma banner_inv:
  assumes "ct_inv c" "am_wf m"
  shows "ct_inv (updateBanner (c\<lparr>ct_alarms := m\<rparr>))"
proof -
  let ?d = "c\<lparr>ct_alarms := m\<rparr>"
  have d: "ct_core ?d" "ct_view ?d = ct_view c"
    using assms by (simp_all add: ct_inv_def ct_core_def ct_flag_def ct_view_def)
  then have "ct_core (updateBanner ?d)" "beside ?d (updateBanner ?d)" using banner(1)[of ?d] by (simp_all add: steady_def)
  moreover have "ct_view (updateBanner ?d) = ct_view c"
    using beside_sel[OF calculation(2)] d(2) by (simp add: ct_view_def)
  ultimately show ?thesis
    using assms(1) banner(3)[of ?d] by (simp add: ct_inv_def ct_view_def readings_agree_def starts_queued_def)
qed

lemma acknowledge_wf: "am_wf m \<Longrightarrow> am_wf (am_acknowledgeAll m)"
proof -
  have one: "am_wf (am_acknowledge i m)" if "am_wf m" for i m using that by (simp add: am_acknowledge_def)
  have "am_wf m \<Longrightarrow> am_wf (fold (\<lambda>i. am_acknowledge (int i)) xs m)" for xs
    by (induction xs arbitrary: m) (simp_all add: one)
  then show "am_wf m \<Longrightarrow> am_wf (am_acknowledgeAll m)" by (simp add: am_acknowledgeAll_def)
qed

lemma forget_inv: "ct_inv c \<Longrightarrow> ct_inv (forgetUnit c)"
proof -
  assume c: "ct_inv c"
  let ?d = "c\<lparr>ct_lastUnit := [], ct_baseUnit := [], ct_valueUnits := Map.empty, ct_scpi := sd_clearReadings (ct_scpi c)\<rparr>"
  have "ct_inv ?d"
    using c by (simp add: ct_inv_def starts_queued_def readings_agree_def ct_core_def ct_flag_def shows_alert_def sd_clearReadings_def)
  moreover have "minor ?d (ct_emit es (ct_unitChanged [] ?d))" for es by (intro minor_emit minor_unit minor_refl)
  ultimately have "ct_inv (ct_emit es (ct_unitChanged [] ?d))" for es using minor_inv by blast
  then show ?thesis by (simp add: forgetUnit_def)
qed

lemma requests_inv:
  assumes "ct_inv c"
  shows "ct_inv (ct_startRecording c)" "ct_inv (ct_stopRecording c)" "ct_inv (ct_connectRequested w on c)"
    "ct_inv (ct_event_loop ses w c)"
proof -
  have q: "ct_inv (c\<lparr>ct_startPending := p, ct_queue := qs\<rparr>)" if "length (filter (\<lambda>q. q = QueuedStart) qs) = (if p then 1 else 0)" for p qs
    using assms that by (simp add: ct_inv_def starts_queued_def readings_agree_def ct_core_def ct_flag_def shows_alert_def)
  have n: "length (filter (\<lambda>q. q = QueuedStart) (ct_queue c)) = (if ct_startPending c then 1 else 0)"
    using assms by (simp add: ct_inv_def starts_queued_def)
  show "ct_inv (ct_startRecording c)"
    using assms minor_inv[OF minor_emit[OF minor_refl] assms] q[of "ct_queue c @ [QueuedStart]" True] n
    by (auto simp: ct_startRecording_def split: option.split)
  have keep: "c\<lparr>ct_queue := qs\<rparr> = c\<lparr>ct_startPending := ct_startPending c, ct_queue := qs\<rparr>" for qs by simp
  show "ct_inv (ct_stopRecording c)" unfolding ct_stopRecording_def keep by (rule q) (simp add: n)
  have "ct_inv (c\<lparr>ct_queue := ct_queue c @ [QueuedConnect on]\<rparr>)" unfolding keep by (rule q) (simp add: n)
  then have "ct_inv ((c\<lparr>ct_queue := ct_queue c @ [QueuedConnect on]\<rparr>)\<lparr>ct_connectPending := Some on\<rparr>)" by (rule minor_inv[rotated]) simp
  moreover have "(c\<lparr>ct_queue := qs\<rparr>)\<lparr>ct_connectPending := x\<rparr> = c\<lparr>ct_connectPending := x, ct_queue := qs\<rparr>" for x qs
    by (cases c) simp
  ultimately have "ct_inv (c\<lparr>ct_connectPending := Some on, ct_queue := ct_queue c @ [QueuedConnect on]\<rparr>)" by metis
  then show "ct_inv (ct_connectRequested w on c)" unfolding ct_connectRequested_def using assms by (split if_split) blast
  show "ct_inv (ct_event_loop ses w c)"
  proof (cases "ct_queue c")
    case (Cons x xs)
    show ?thesis
    proof (cases x)
      case QueuedStart
      define d where "d = c\<lparr>ct_queue := xs\<rparr>"
      define e where "e = (case mayStartRecording d of None \<Rightarrow> ct_requested ses True d | Some why \<Rightarrow> ct_emit [CtInfo (TxScpi why)] d)"
      have p: "ct_startPending c" "length (filter (\<lambda>q. q = QueuedStart) xs) = 0"
        using n by (auto simp: Cons QueuedStart split: if_splits)
      have m: "minor d e" by (auto simp: e_def intro: minor_emit minor_requested split: option.split)
      have "d\<lparr>ct_startPending := False\<rparr> = c\<lparr>ct_startPending := False, ct_queue := xs\<rparr>" by (cases c) (simp add: d_def)
      then have "ct_inv (d\<lparr>ct_startPending := False\<rparr>)" using q[of xs False] p by simp
      moreover have "minor (d\<lparr>ct_startPending := False\<rparr>) (e\<lparr>ct_startPending := False\<rparr>)"
        using m by (simp add: minor_def ct_view_def ct_core_def ct_flag_def shows_alert_def)
      moreover have "ct_event_loop ses w c = e\<lparr>ct_startPending := False\<rparr>"
        by (simp only: ct_event_loop_def Cons QueuedStart list.case ct_run.simps d_def[symmetric] e_def[symmetric])
      ultimately show ?thesis using minor_inv by simp
    next
      case QueuedStop
      have "ct_inv (c\<lparr>ct_queue := xs\<rparr>)" unfolding keep by (rule q) (use n Cons QueuedStop in simp)
      from minor_inv[OF minor_requested[OF minor_refl] this] show ?thesis by (simp add: ct_event_loop_def Cons QueuedStop)
    next
      case (QueuedConnect b)
      have "ct_inv (c\<lparr>ct_queue := xs\<rparr>)" unfolding keep by (rule q) (use n Cons QueuedConnect in simp)
      from minor_inv[OF _ this] show ?thesis
        by (simp add: ct_event_loop_def Cons QueuedConnect Let_def minor_emit)
    qed
  qed (simp add: ct_event_loop_def assms)
qed

lemma ct_step_inv: "ct_inv c \<Longrightarrow> ct_inv (ct_step ses json k c)"
proof -
  assume c: "ct_inv c"
  have m: "minor c d \<Longrightarrow> ct_inv d" for d using minor_inv c by blast
  have e: "minor d (emitValueMinMax i d)" for d :: "'a controller" and i by (simp add: emitValueMinMax_def Let_def minor_emit)
  have f: "minor d (fold emitValueMinMax xs d)" for d :: "'a controller" and xs
    by (induction xs arbitrary: d) (auto intro: minor_trans[OF e])
  have wf: "am_wf (setAlarms als (ct_alarms c))" for als by (simp add: am_wf_def setAlarms_def)
  have wfa: "am_wf (am_acknowledgeAll (ct_alarms c))" using c by (intro acknowledge_wf) (simp add: ct_inv_def ct_core_def)
  have l: "ct_inv (ct_emit es (c\<lparr>ct_limitTest := t, ct_verdict := NoVerdict, ct_limitCount := n\<rparr>))" for t n es
    using c by (simp add: ct_inv_def starts_queued_def readings_agree_def) (simp add: ct_core_def ct_flag_def shows_alert_def)
  show ?thesis
  proof (cases k)
    case (KReading ck now r)
    then show ?thesis using publish_inv[OF c] by simp
  next
    case (KTimer ck now)
    then show ?thesis using m[OF minor_timer] by simp
  next
    case (KConnect up now)
    then show ?thesis using connect_inv[OF c] by simp
  next
    case (KLink up)
    then show ?thesis using c
      by (simp add: ct_linkState_def ct_inv_def starts_queued_def readings_agree_def ct_core_def ct_flag_def shows_alert_def)
  next
    case (KAlarms als)
    have "ct_inv (updateBanner (c\<lparr>ct_alarms := setAlarms als (ct_alarms c)\<rparr>))" by (rule banner_inv[OF c wf])
    moreover from this have "ct_inv (ct_emit es (updateBanner (c\<lparr>ct_alarms := setAlarms als (ct_alarms c)\<rparr>)))" for es
      by (rule minor_inv[OF minor_emit[OF minor_refl]])
    ultimately show ?thesis by (simp add: KAlarms ct_setAlarms_def Let_def)
  next
    case KAcknowledge
    then show ?thesis using banner_inv[OF c wfa] by (simp add: acknowledgeAlarms_def)
  next
    case (KLimitTest t)
    then show ?thesis using l by (simp add: ct_setLimitTest_def)
  next
    case KResetCount
    then show ?thesis using m by (simp add: resetLimitCount_def minor_emit)
  next
    case (KMinMaxValue i)
    then show ?thesis using m c by (simp add: setMinMaxValue_def minor_emit)
  next
    case KResetMinMax
    let ?d = "ct_emit [MinMaxReset] (c\<lparr>ct_minMax := mm_clear (ct_minMax c), ct_valueMinMax := map mm_clear (ct_valueMinMax c)\<rparr>)"
    have "minor c (fold emitValueMinMax xs ?d)" for xs by (rule minor_trans[OF _ f]) (simp add: minor_emit)
    then show ?thesis using m by (simp add: KResetMinMax resetMinMax_def resetLimitCount_def minor_emit)
  next
    case KForgetUnit
    then show ?thesis using forget_inv[OF c] by simp
  next
    case (KRecorder ck x)
    then show ?thesis using m[OF minor_record[OF minor_refl]] by simp
  next
    case (KFollowsWindow b)
    then show ?thesis using m by simp
  qed (simp_all add: requests_inv[OF c])
qed

lemma fresh_good: "rec_good (rs_new ck)"
proof -
  have "setMaxPoints ck kMaxPoints (rs_new ck) = rs_new ck"
    by (simp add: setMaxPoints_def trimForLimits_def trim_def trimMain_def trimExtras_def rs_new_def series0_def se_isEmpty_def
        se_count_def kMaxPoints_def Let_def)
  then show ?thesis using followed_reach[OF rec_reach.fresh[of ck kMaxPoints]] by (simp add: rec_good_def)
qed

lemma ct_reach_inv: "ct_reach ses json c \<Longrightarrow> ct_inv c"
proof (induction rule: ct_reach.induct)
  case (fresh ck)
  show ?case
    using fresh_good
    by (simp add: ct_inv_def ct_core_def ct_flag_def shows_alert_def readings_agree_def starts_queued_def controller0_def
        scpi_device0_def alarm_mgr0_def am_wf_def displayColor_def rs_new_def)
qed (rule ct_step_inv)

end
