(* ===== verification/Controller_Runs.thy ===== *)
theory Controller_Runs
  imports Controller_Facts
begin

text \<open>
  What the controller promises: the recorder, SCPI, the alarms and the display agree whatever the calls, a start asked for
  several times is one start, and a verdict stays with the reading it was made of.
\<close>

subsection \<open>Whatever the calls\<close>

text \<open>
  C36: After any calls of the controller, in any order and at any times, SCPI's recording flag says whether the recorder
  records, the display has the colour the alarms ask for, every reading SCPI answers with is the last one of that value, a
  start that was accepted is planned exactly once, and a verdict stands only while the limit test is on.
\<close>

theorem controller_consistent:
  assumes "ct_reach ses json c"
  shows "sd_recording (ct_scpi c) = (rs_state (ct_recorder c) = Record) \<and>
    ct_alertColor c = displayColor (ct_alarms c) \<and>
    (\<forall>i q. map_of (sd_readings (ct_scpi c)) i = Some q \<longrightarrow> (\<exists>r. map_of (ct_lastReadings c) i = Some r \<and> q = scpi_reading r)) \<and>
    length (filter (\<lambda>q. q = QueuedStart) (ct_queue c)) = (if ct_startPending c then 1 else 0) \<and>
    (ct_verdict c = NoVerdict \<or> lt_enabled (ct_limitTest c))"
  using ct_reach_inv[OF assms]
  by (auto simp: ct_inv_def ct_core_def ct_flag_def shows_alert_def readings_agree_def starts_queued_def)

definition bench_clock :: clocks where
  "bench_clock = \<lparr>ck_mono = 5000, ck_wall = 1700000000000, ck_time = 0\<rparr>"

definition bench_controller :: "unit controller" where
  "bench_controller = ct_step (\<lambda>_ _. []) (\<lambda>_. []) (KRecorder bench_clock CStart) (controller0 bench_clock)"

lemma bench_controller_reach: "ct_reach (\<lambda>_ _. []) (\<lambda>_. []) bench_controller"
  unfolding bench_controller_def by (rule ct_reach.call[OF ct_reach.fresh])

lemma bench_controller_record: "rs_state (ct_recorder bench_controller) = Record"
proof -
  have "ct_core (controller0 bench_clock :: unit controller)" by (rule inv_core[OF ct_reach_inv[OF ct_reach.fresh]])
  from record_core(5)[OF this, of bench_clock CStart]
  show ?thesis
    by (simp add: bench_controller_def controller0_def rs_new_def rs_start_now_def rs_begin_def Let_def appendCurrent_def
        started_def rs_emit_def rs_clear_def)
qed

theorem controller_consistent_witness: "sd_recording (ct_scpi bench_controller)"
  using controller_consistent[OF bench_controller_reach] bench_controller_record by simp

subsection \<open>A start asked for several times\<close>

definition init_refused :: "ct_signal list" where
  "init_refused = [ScpiInitIgnored, CtInfo (TxScpi AlreadyStarting)]"

lemma start_again:
  "ct_startPending c \<Longrightarrow> (ct_startRecording ^^ n) c = ct_emit (concat (replicate n init_refused)) c"
proof (induction n)
  case (Suc n)
  have r: "concat (replicate n init_refused) @ init_refused = concat (replicate (Suc n) init_refused)"
    by (simp flip: replicate_append_same)
  have "ct_startRecording (ct_emit es c) = ct_emit (es @ init_refused) c" for es
    using Suc.prems by (simp add: ct_startRecording_def init_refused_def) (simp add: ct_emit_def)
  then show ?case using Suc r by simp
qed (simp add: ct_emit_def)

text \<open>
  C37: However often a SCPI client asks for a recording before the program comes to it, it is asked for once: the first
  request is planned, every other is an error (-213) and says so, and when its turn comes the session is asked to record
  exactly then, after which a new request may come.
\<close>

theorem init_starts_once:
  assumes "ct_reach ses json c" "\<not> ct_startPending c" "mayStartRecording c = None" "ct_queue c = []"
  shows "let d = (ct_startRecording ^^ Suc n) c; e = ct_event_loop ses wanted d in
    ct_queue d = [QueuedStart] \<and> ct_log d = ct_log c @ concat (replicate n init_refused) \<and>
    ct_queue e = [] \<and> \<not> ct_startPending e \<and> (\<exists>es. ct_log e = ct_log d @ RecordingRequested True # es)"
proof -
  define p where "p = c\<lparr>ct_startPending := True, ct_queue := [QueuedStart]\<rparr>"
  define d where "d = (ct_startRecording ^^ Suc n) c"
  have "ct_startRecording c = p" using assms(2-4) by (simp add: ct_startRecording_def p_def)
  then have d: "d = ct_emit (concat (replicate n init_refused)) p"
    using start_again[of p n] by (simp only: d_def funpow_Suc_right comp_apply) (simp add: p_def)
  define q where "q = d\<lparr>ct_queue := []\<rparr>"
  have core: "ct_core (ct_emit es q)" for es
    using inv_core[OF ct_reach_inv[OF assms(1)]] by (simp add: q_def d p_def) (simp add: ct_core_def ct_flag_def)
  have "mayStartRecording q = None"
    using assms(3) by (auto simp: q_def d p_def mayStartRecording_def ct_emit_def Let_def split: if_splits)
  then have e: "ct_event_loop ses wanted d = (ct_requested ses True q)\<lparr>ct_startPending := False\<rparr>"
    by (simp add: ct_event_loop_def d p_def q_def)
  have "steady q (ct_requested ses True q)" by simp
  then have b: "ct_queue (ct_requested ses True q) = []"
    using core[of "[]"] beside_sel(5)[of q "ct_requested ses True q"] by (simp add: steady_def q_def)
  have "steady (ct_emit [RecordingRequested True] q) (ct_requested ses True q)"
    unfolding ct_requested_def by (rule steady_fold) (simp split: prod.split)
  then obtain es where "ct_log (ct_requested ses True q) = ct_log (ct_emit [RecordingRequested True] q) @ es"
    using core by (auto simp: steady_def)
  then show ?thesis unfolding Let_def d_def[symmetric] e using b by (simp add: d p_def q_def)
qed

theorem init_starts_once_witness:
  "ct_queue ((ct_startRecording ^^ 3) (controller0 bench_clock :: unit controller)) = [QueuedStart]"
proof -
  let ?c = "controller0 bench_clock :: unit controller"
  have "\<not> ct_startPending ?c" "mayStartRecording ?c = None" "ct_queue ?c = []"
    by (simp_all add: mayStartRecording_def controller0_def rs_new_def Let_def)
  from init_starts_once[OF ct_reach.fresh this, of 2 "\<lambda>_ _. []" False] show ?thesis
    by (simp only: Let_def eval_nat_numeral)
qed

subsection \<open>A judged reading\<close>

definition ct_judged :: "'w controller \<Rightarrow> verdict \<times> limit_count" where
  "ct_judged c = (ct_verdict c, ct_limitCount c)"

text \<open>The recorder between the unit that was announced and the reading.\<close>

lemma unit_frame:
  "rs_state (setUnit u s) = rs_state s" "rs_series (setUnit u s) = rs_series s" "rs_t0 (setUnit u s) = rs_t0 s"
  "rs_recordPort (setUnit u s) = rs_recordPort s" "rs_recordBaseUnit (setUnit u s) = rs_recordBaseUnit s"
  "rs_sampleLength (setUnit u s) = rs_sampleLength s" "rs_preUsed (setUnit u s) = rs_preUsed s"
  "rs_maxPoints (setUnit u s) = rs_maxPoints s" "rs_readingsPaused (setUnit u s) = rs_readingsPaused s"
  by (simp_all add: setUnit_def)

lemma unit_seen_recorder:
  assumes "ct_core c"
  shows "ct_core (ct_unit_seen r c)" "\<exists>u. ct_recorder (ct_unit_seen r c) = setUnit u (ct_recorder c) \<or> ct_recorder (ct_unit_seen r c) = ct_recorder c"
    "ct_alarms (ct_unit_seen r c) = ct_alarms c" "ct_judged (ct_unit_seen r c) = ct_judged c"
proof -
  have f: "ct_core (d\<lparr>ct_lastUnit := x\<rparr>) = ct_core d" for d :: "'a controller" and x by (simp add: ct_core_def ct_flag_def)
  have k: "rec_step undefined (CUnit u) = setUnit u" for u by (simp add: fun_eq_iff)
  note rc = record_core[OF assms, of undefined "CUnit (snd (si_split u))" for u, unfolded k]
  show "ct_core (ct_unit_seen r c)"
    using assms rc(1) by (simp add: ct_unit_seen_def Let_def f ct_unitChanged_def)
  show "\<exists>u. ct_recorder (ct_unit_seen r c) = setUnit u (ct_recorder c) \<or> ct_recorder (ct_unit_seen r c) = ct_recorder c"
    "ct_alarms (ct_unit_seen r c) = ct_alarms c"
    using rc(3,5) by (auto simp: ct_unit_seen_def Let_def ct_unitChanged_def)
  show "ct_judged (ct_unit_seen r c) = ct_judged c"
    using beside_sel(6,8)[OF rc(2)] by (simp add: ct_unit_seen_def Let_def ct_unitChanged_def ct_judged_def)
qed

text \<open>What a reading leaves the recorder with, when no alarm asks for a start or a stop.\<close>

lemma extremes_frame [simp]:
  "ct_recorder (snd (ct_value_extremes r c)) = ct_recorder c" "ct_alarms (snd (ct_value_extremes r c)) = ct_alarms c"
  "ct_core (snd (ct_value_extremes r c)) = ct_core c"
  "ct_recorder (snd (snd (ct_shown_extremes r c))) = ct_recorder c" "ct_alarms (snd (snd (ct_shown_extremes r c))) = ct_alarms c"
  "ct_core (snd (snd (ct_shown_extremes r c))) = ct_core c"
  "ct_judged (snd (ct_value_extremes r c)) = ct_judged c" "ct_judged (snd (snd (ct_shown_extremes r c))) = ct_judged c"
  by (simp_all add: ct_value_extremes_def ct_shown_extremes_def ct_core_def ct_flag_def ct_judged_def Let_def split: prod.split)

lemma judged_frame [simp]:
  "ct_judged (ct_emit es c) = ct_judged c" "ct_judged (c\<lparr>ct_valueFault := a1\<rparr>) = ct_judged c"
  "ct_judged (c\<lparr>ct_lastReadings := a2\<rparr>) = ct_judged c" "ct_judged (c\<lparr>ct_lastMain := a3\<rparr>) = ct_judged c"
  "ct_judged (c\<lparr>ct_stale := a4\<rparr>) = ct_judged c" "ct_judged (c\<lparr>ct_overload := a5\<rparr>) = ct_judged c"
  "ct_judged (c\<lparr>ct_baseUnit := a6\<rparr>) = ct_judged c" "ct_judged (emitValueMinMax i c) = ct_judged c"
  by (simp_all add: ct_judged_def emitValueMinMax_def Let_def)

lemma said_judged [simp]:
  "ct_judged (ct_fault r c) = ct_judged c" "ct_judged (ct_say_extremes r a b e c) = ct_judged c"
  "ct_judged (ct_remember now r c) = ct_judged c" "ct_judged (ct_say_verdict r c) = ct_judged c"
  by (simp_all add: ct_fault_def ct_say_extremes_def ct_remember_def ct_say_verdict_def Let_def)

lemma said_frame [simp]:
  "ct_recorder (ct_fault r c) = ct_recorder c" "ct_alarms (ct_fault r c) = ct_alarms c" "ct_core (ct_fault r c) = ct_core c"
  "ct_recorder (ct_say_extremes r a b e c) = ct_recorder c" "ct_alarms (ct_say_extremes r a b e c) = ct_alarms c"
  "ct_core (ct_say_extremes r a b e c) = ct_core c"
  "ct_recorder (ct_remember now r c) = ct_recorder c" "ct_alarms (ct_remember now r c) = ct_alarms c"
  "ct_core (ct_remember now r c) = ct_core c"
  "ct_recorder (ct_say_verdict r c) = ct_recorder c"
  by (simp_all add: ct_fault_def ct_say_extremes_def ct_remember_def ct_say_verdict_def emitValueMinMax_def ct_core_def ct_flag_def Let_def)

lemma alarmed_recorder:
  assumes "ct_core c" "\<forall>al \<in> set (am_alarms (ct_alarms c)). al_recorder al = RecorderNone"
  shows "ct_recorder (ct_alarmed ses r c) = ct_recorder c" "ct_judged (ct_alarmed ses r c) = ct_judged c"
proof -
  define d where "d = (let c1 = (if vr_baseUnit r \<noteq> [] then c\<lparr>ct_valueUnits := (ct_valueUnits c)(vr_id r \<mapsto> vr_baseUnit r)\<rparr> else c)
    in c1\<lparr>ct_valueOverload := (ct_valueOverload c1)(vr_id r \<mapsto> vr_overload r)\<rparr>)"
  have d: "ct_core d" "ct_alarms d = ct_alarms c" "ct_recorder d = ct_recorder c" "ct_judged d = ct_judged c"
    using assms(1) by (simp_all add: d_def Let_def ct_core_def ct_flag_def ct_judged_def)
  have a: "ct_alarmed ses r c = ct_feed ses (vr_value r) (vr_overload r) (vr_msecs r) (vr_id r) (vr_source r) d"
    by (simp add: ct_alarmed_def d_def Let_def)
  then show "ct_recorder (ct_alarmed ses r c) = ct_recorder c" using feed_steady(4)[OF d(1)] assms(2) d by simp
  show "ct_judged (ct_alarmed ses r c) = ct_judged c"
  proof -
    let ?e = "ct_feed ses (vr_value r) (vr_overload r) (vr_msecs r) (vr_id r) (vr_source r) d"
    have b: "beside d ?e" using feed_steady(1)[OF d(1)] d(1) by (simp add: steady_def)
    show ?thesis unfolding a using beside_sel(6,8)[OF b] d(4) by (simp add: ct_judged_def)
  qed
qed

lemma published_recorder:
  assumes "ct_core c0" "ct_judge r0 c0 = (r, c)" "ct_core c" "\<not> (vr_id r > 0 \<and> vr_text r = [])"
    and "\<forall>al \<in> set (am_alarms (ct_alarms c)). al_recorder al = RecorderNone"
  shows "ct_judged (publish ses ck now r0 c0) = ct_judged c"
    "\<exists>u. ct_recorder (publish ses ck now r0 c0) = setReading ck r (setUnit u (ct_recorder c)) \<or>
    ct_recorder (publish ses ck now r0 c0) = setReading ck r (ct_recorder c)"
proof -
  obtain b c2 where 2: "ct_value_extremes r (ct_unit_seen r c) = (b, c2)" by fastforce
  obtain n x c3 where 3: "ct_shown_extremes r c2 = (n, x, c3)" by (metis prod_cases3)
  have k: "rec_step ck (CReading r) = setReading ck r" by (simp add: fun_eq_iff)
  note us = unit_seen_recorder[OF assms(3), of r]
  have c3: "ct_core c3" "ct_alarms c3 = ct_alarms c" "ct_recorder c3 = ct_recorder (ct_unit_seen r c)"
    "ct_judged c3 = ct_judged c"
    using us extremes_frame(1-3,7)[of r "ct_unit_seen r c"] extremes_frame(4-6,8)[of r c2] 2 3 by simp_all
  note rc = record_core[OF c3(1), of ck "CReading r", unfolded k]
  define c4 where "c4 = ct_say_extremes r n x b (ct_fault r (ct_reading ck r c3))"
  have c4: "ct_core c4" "ct_alarms c4 = ct_alarms c" "ct_recorder c4 = setReading ck r (ct_recorder c3)"
    using rc c3 by (simp_all add: c4_def ct_reading_def)
  have j4: "ct_judged c4 = ct_judged c"
    using beside_sel(6,8)[OF rc(2)] c3(4) by (simp add: c4_def ct_reading_def) (simp add: ct_judged_def)
  define p where "p = (if judges r0 c0 then ct_say_verdict r (ct_alarmed ses r (ct_remember now r c4)) else ct_alarmed ses r (ct_remember now r c4))"
  have pub: "publish ses ck now r0 c0 = p\<lparr>ct_scpi := sd_setReading (vr_id r) (scpi_reading r) (ct_scpi p)\<rparr>"
    by (simp only: publish_def Let_def assms(2) prod.case if_not_P[OF assms(4)] 2 3 c4_def[symmetric] p_def)
  have al: "ct_core (ct_remember now r c4)" "\<forall>al \<in> set (am_alarms (ct_alarms (ct_remember now r c4))). al_recorder al = RecorderNone"
    using c4 assms(5) by simp_all
  have "ct_judged p = ct_judged c" using alarmed_recorder(2)[OF al] j4 by (simp add: p_def)
  then show "ct_judged (publish ses ck now r0 c0) = ct_judged c" by (simp add: pub ct_judged_def)
  have "ct_recorder (publish ses ck now r0 c0) = setReading ck r (ct_recorder c3)"
    using alarmed_recorder(1)[OF al] c4(3) by (simp add: pub p_def)
  then show "\<exists>u. ct_recorder (publish ses ck now r0 c0) = setReading ck r (setUnit u (ct_recorder c)) \<or>
    ct_recorder (publish ses ck now r0 c0) = setReading ck r (ct_recorder c)"
    using c3(3) us(2) by auto
qed

lemma store_rows: "rs_state s = Record \<Longrightarrow> rs_readings (store_reading ck r s) = rs_readings s"
proof -
  assume s: "rs_state s = Record"
  define u where "u = begin_time r (closeSilentExtras (vr_t r) s)"
  have q: "quiet t v \<Longrightarrow> rs_readings v = rs_readings t" for t v by (simp add: quiet_def)
  have "rs_readings (begin_time r t) = rs_readings t" for t by (simp add: begin_time_def rs_emit_def)
  then have u: "rs_readings u = rs_readings s" "rs_state u = Record"
    using q[of s "closeSilentExtras (vr_t r) s"] s by (simp_all add: u_def state_closed inv_begin_time(2))
  have l: "rs_readings (snd (lengthReached ck t v)) = rs_readings v" for t v
    by (simp add: lengthReached_def Let_def rs_stop_def rs_emit_def)
  show ?thesis using q[OF quiet_points(3)] u l by (simp add: store_reading_def Let_def u_def[symmetric] case_prod_beta)
qed

lemma reading_rows:
  assumes "vr_id r = 0" "rs_state s = Record"
  shows "rs_readings (setReading ck r s) = rs_readings (logReading r s)"
proof -
  define s1 where "s1 = (logReading r s)\<lparr>rs_reading := Some r\<rparr>"
  have s1: "rs_state s1 = Record" "rs_readings s1 = rs_readings (logReading r s)" "rs_recordPort s1 = rs_recordPort s"
    using assms(2) by (simp_all add: s1_def logged_reading)
  have t: "rs_state (take_function r s1) = Record" "rs_readings (take_function r s1) = rs_readings s1"
    using s1 by (simp_all add: take_function_def)
  have x: "rs_readings (rs_emit e (rs_stop ck s1)) = rs_readings s1" for e by (simp add: rs_stop_def rs_emit_def Let_def)
  show ?thesis
    using assms(1) s1 by (simp add: setReading_def Let_def s1_def[symmetric] store_rows t x)
qed

lemma logged_last:
  assumes "log_ok s" "\<not> rs_readingsPaused s" "vr_id r = 0"
  shows "rs_readings (logReading r s) \<noteq> [] \<and> lr_flags (last (rs_readings (logReading r s))) = vr_flags r \<and>
    lr_text (last (rs_readings (logReading r s))) = vr_text r"
  using assms by (simp add: logReading_def logRow_def Let_def rs_emit_def)

lemma kept_last: "rs_maxPoints s \<ge> 2 \<Longrightarrow> last (kept_of s (xs @ [p])) = p"
  by (simp add: kept_of_def last_drop)

lemma judge_made:
  assumes "judges r c"
  shows "fst (ct_judge r c) = with_verdict (verdict_of (ct_limitTest c) r) r"
    "ct_judged (snd (ct_judge r c)) = (verdict_of (ct_limitTest c) r, lc_add (verdict_of (ct_limitTest c) r) (ct_limitCount c))"
    "ct_recorder (snd (ct_judge r c)) = ct_recorder c" "ct_alarms (snd (ct_judge r c)) = ct_alarms c"
  using assms by (auto simp: ct_judge_def Let_def ct_judged_def lc_add_def)

text \<open>
  C38: While a recording runs, a reading of the main value that the limit test judges is recorded with its verdict: the last
  point of the recording has the value as read and reads back as that verdict, so does the new row of the log, the controller
  shows it and counts it once, and the recording goes on; unless the reading ends the recording (its length, another function)
  or an alarm may stop it.
\<close>

theorem judged_reading_recorded:
  assumes "ct_reach ses json c" "judges r c" "vr_id r = 0" "rs_state (ct_recorder c) = Record"
    and "se_view (rs_series (ct_recorder c)) \<noteq> []" "\<not> rs_readingsPaused (ct_recorder c)"
    and "\<not> function_changed r (ct_recorder c)" "\<not> at_length (max 0 (vr_t r - rs_t0 (ct_recorder c))) (ct_recorder c)"
    and "\<forall>al \<in> set (am_alarms (ct_alarms c)). al_recorder al = RecorderNone"
  shows "let v = verdict_of (ct_limitTest c) r; d = publish ses ck now r c; p = last (se_view (rs_series (ct_recorder d))) in
    ct_verdict d = v \<and> ct_limitCount d = lc_add v (ct_limitCount c) \<and> rs_state (ct_recorder d) = Record \<and>
    rp_value p = reading_value r \<and> rp_quality p = pointQuality r \<and> verdict_from_flags (rp_flags p) = v \<and>
    verdict_from_flags (lr_flags (last (rs_readings (ct_recorder d)))) = v"
proof -
  define v where "v = verdict_of (ct_limitTest c) r"
  define w where "w = with_verdict v r"
  define c1 where "c1 = snd (ct_judge r c)"
  note j = judge_made[OF assms(2), folded c1_def v_def]
  have jw: "ct_judge r c = (w, c1)" using j(1) by (simp add: c1_def w_def prod_eq_iff)
  have w: "vr_id w = 0" "function_changed w = function_changed r" "vr_t w = vr_t r" "reading_value w = reading_value r"
    "pointQuality w = pointQuality r" "verdict_from_flags (vr_flags w) = v"
    using assms(3) verdict_roundtrip
    by (simp_all add: w_def with_verdict_def function_changed_def says_function_def noNumber_def reading_value_def pointQuality_def fun_eq_iff)
  have inv: "ct_inv c" "ct_inv c1" using ct_reach_inv[OF assms(1)] judge_inv by (simp_all add: c1_def)
  note pub = published_recorder[OF inv_core[OF inv(1)] jw inv_core[OF inv(2)]]
  have pub1: "ct_judged (publish ses ck now r c) = (v, lc_add v (ct_limitCount c))"
    using pub(1) w(1) assms(9) j by simp
  obtain s where s: "ct_recorder (publish ses ck now r c) = setReading ck w s" "(\<exists>u. s = setUnit u (ct_recorder c)) \<or> s = ct_recorder c"
  proof -
    have "(\<exists>u. ct_recorder (publish ses ck now r c) = setReading ck w (setUnit u (ct_recorder c))) \<or>
      ct_recorder (publish ses ck now r c) = setReading ck w (ct_recorder c)"
      using pub(2) w(1) assms(9) j(3,4) by simp
    then show ?thesis using that by blast
  qed
  have "rec_inv (ct_recorder c)" using inv(1) by (simp add: ct_inv_def ct_core_def rec_good_def)
  then have i: "rec_inv s" using s(2) inv_setUnit by auto
  have f: "rs_state s = Record" "se_view (rs_series s) \<noteq> []" "\<not> function_changed w s" "\<not> at_length (max 0 (vr_t w - rs_t0 s)) s"
    "\<not> rs_readingsPaused s"
    using s(2) assms(4-8) w(2,3) by (auto simp: unit_frame function_changed_def at_length_def rec_limit_def)
  obtain p where p: "rs_state (setReading ck w s) = Record" "content p = (reading_value r, pointQuality r, vr_flags w)"
    "se_view (rs_series (setReading ck w s)) = kept_of s (se_view (rs_series s) @ [p])"
    using takes_reading[OF i f(1) w(1) f(2), of ck] f(3,4) w(4,5) by (auto simp: Let_def)
  have l: "last (se_view (rs_series (setReading ck w s))) = p" unfolding p(3) by (rule kept_last[OF maxPoints_inv[OF i]])
  have "log_ok s" using i by (simp add: rec_inv_def)
  then have "lr_flags (last (rs_readings (setReading ck w s))) = vr_flags w"
    using logged_last[OF _ f(5) w(1)] by (simp add: reading_rows[OF w(1) f(1)])
  then show ?thesis
    using pub1 p(1,2) w(6) by (simp add: Let_def v_def[symmetric] s(1) l content_def ct_judged_def)
qed

text \<open>A limit test from 4 to 5 V, a reading, a recording from it on.\<close>

definition bench_limits :: limit_test where
  "bench_limits = limit_test0\<lparr>lt_enabled := True, lt_form := Range, lt_lower := DFin False 4, lt_upper := DFin False 5\<rparr>"

definition bench_calls :: "ct_call list" where
  "bench_calls = [KLimitTest bench_limits, KRecorder (bench_clocks 100) (CReading (bench_volts 100 (DFin False 3))),
     KRecorder (bench_clocks 300) CStart, KRecorder (bench_clocks 300) (CPaused False)]"

definition bench_judging :: "unit controller" where
  "bench_judging = fold (ct_step (\<lambda>_ _. []) (\<lambda>_. [])) bench_calls (controller0 (bench_clocks 0))"

lemma reach_fold: "ct_reach ses json c \<Longrightarrow> ct_reach ses json (fold (ct_step ses json) ks c)"
  by (induction ks arbitrary: c) (simp_all add: ct_reach.call)

lemma record_rest:
  fixes ck :: clocks and k :: rec_call
  assumes "ct_reach ses json c"
  defines "d \<equiv> ct_step ses json (KRecorder ck k) c"
  shows "ct_recorder d = rec_step ck k (ct_recorder c)" "ct_limitTest d = ct_limitTest c" "ct_alarms d = ct_alarms c"
    "ct_limitCount d = ct_limitCount c"
proof -
  note r = record_core[OF inv_core[OF ct_reach_inv[OF assms(1)]], of ck k]
  show "ct_recorder d = rec_step ck k (ct_recorder c)" "ct_limitTest d = ct_limitTest c" "ct_alarms d = ct_alarms c"
    "ct_limitCount d = ct_limitCount c"
    using r(3,5) beside_sel(7,8)[OF r(2)] by (simp_all add: d_def)
qed

lemma bench_judging_facts:
  "ct_reach (\<lambda>_ _. []) (\<lambda>_. []) bench_judging" "ct_limitTest bench_judging = bench_limits" "ct_alarms bench_judging = alarm_mgr0"
  "rs_state (ct_recorder bench_judging) = Record" "se_view (rs_series (ct_recorder bench_judging)) \<noteq> []"
  "\<not> rs_readingsPaused (ct_recorder bench_judging)" "rs_sampleLength (ct_recorder bench_judging) = 0"
  "rs_recordPort (ct_recorder bench_judging) = port0" "ct_limitCount bench_judging = limit_count0"
proof -
  let ?r = "bench_volts 100 (DFin False 3)"
  let ?st = "ct_step (\<lambda>_ _. []) (\<lambda>_. []) :: ct_call \<Rightarrow> unit controller \<Rightarrow> unit controller"
  let ?reach = "ct_reach (\<lambda>_ _. []) (\<lambda>_. []) :: unit controller \<Rightarrow> bool"
  define c1 where "c1 = ?st (KLimitTest bench_limits) (controller0 (bench_clocks 0))"
  define c2 where "c2 = ?st (KRecorder (bench_clocks 100) (CReading ?r)) c1"
  define c3 where "c3 = ?st (KRecorder (bench_clocks 300) CStart) c2"
  define c4 where "c4 = ?st (KRecorder (bench_clocks 300) (CPaused False)) c3"
  have c4: "bench_judging = c4" by (simp add: bench_judging_def bench_calls_def c4_def c3_def c2_def c1_def)
  have reach: "?reach c1" "?reach c2" "?reach c3" "?reach c4"
    unfolding c4_def c3_def c2_def c1_def by (intro ct_reach.intros)+
  have 1: "ct_recorder c1 = rs_new (bench_clocks 0)" "ct_limitTest c1 = bench_limits" "ct_alarms c1 = alarm_mgr0"
    "ct_limitCount c1 = limit_count0"
    by (simp_all add: c1_def ct_setLimitTest_def ct_emit_def controller0_def)
  note 2 = record_rest[OF reach(1), of "bench_clocks 100" "CReading ?r", folded c2_def, unfolded 1]
  note 3 = record_rest[OF reach(2), of "bench_clocks 300" CStart, folded c3_def, unfolded 2(2-4)]
  note 4 = record_rest[OF reach(3), of "bench_clocks 300" "CPaused False", folded c4_def, unfolded 3(2-4)]
  have s: "rec_inv (ct_recorder c2)" using ct_reach_inv[OF reach(2)] by (simp add: ct_inv_def ct_core_def rec_good_def)
  have v: "rs_reading (ct_recorder c2) = Some ?r" "rs_staleMs (ct_recorder c2) = 3000" "rs_sampleLength (ct_recorder c2) = 0"
    by (simp_all add: 2(1) setReading_def Let_def bench_volts_def rs_new_def logReading_def logRow_def rs_emit_def)
  have "ck_mono (bench_clocks 300) - vr_t ?r \<le> rs_staleMs (ct_recorder c2)" by (simp add: v(2) bench_clocks_def bench_volts_def)
  note st = start_takes_current[OF s v(1) this]
  show "?reach bench_judging" "ct_limitTest bench_judging = bench_limits" "ct_alarms bench_judging = alarm_mgr0"
    "rs_state (ct_recorder bench_judging) = Record" "se_view (rs_series (ct_recorder bench_judging)) \<noteq> []"
    "\<not> rs_readingsPaused (ct_recorder bench_judging)" "rs_sampleLength (ct_recorder bench_judging) = 0"
    "rs_recordPort (ct_recorder bench_judging) = port0" "ct_limitCount bench_judging = limit_count0"
    using reach(4) st v(3) by (simp_all add: c4 4 3(1))
qed

theorem judged_reading_recorded_witness:
  "verdict_from_flags (rp_flags (last (se_view (rs_series (ct_recorder
     (publish (\<lambda>_ _. []) (bench_clocks 400) 400 (bench_volts 400 (DFin False 6)) bench_judging)))))) = High"
proof -
  let ?r = "bench_volts 400 (DFin False 6)"
  note f = bench_judging_facts
  have "lt_low bench_limits = DFin False 4" "lt_high bench_limits = DFin False 5"
    by (simp_all add: bench_limits_def lt_low_def lt_high_def d_qmin_def d_qmax_def)
  then have v: "verdict_of bench_limits ?r = High"
    by (simp add: verdict_of_def noNumber_def bench_volts_def lt_judge_def)
  have j: "judges ?r bench_judging"
    by (simp add: judges_def f(2) bench_limits_def limit_test0_def vref_matches_def vref0_def bench_volts_def)
  have i: "vr_id ?r = 0" by (simp add: bench_volts_def)
  have "\<not> function_changed ?r (ct_recorder bench_judging)" by (simp add: function_changed_def f(8))
  moreover have "\<not> at_length t (ct_recorder bench_judging)" for t by (simp add: at_length_def f(7))
  moreover have "\<forall>al \<in> set (am_alarms (ct_alarms bench_judging)). al_recorder al = RecorderNone" by (simp add: f(3) alarm_mgr0_def)
  ultimately show ?thesis
    using judged_reading_recorded[OF f(1) j i f(4-6), of "bench_clocks 400" 400] v by (simp add: Let_def f(2))
qed

end
