(* ===== verification/Controller_Scpi.thy ===== *)
theory Controller_Scpi
  imports Controller_Runs Scpi_Device
begin

text \<open>
  What the controller gives to SCPI (\<open>MeterController::installScpiSources\<close>, \<open>saveRecording\<close> in
  \<open>src/src/service/metercontroller.cpp\<close>): the answers to the queries, and a recording saved under a name that a client on the
  network chose. What the file system and the tables of Unicode do is an argument.
\<close>

subsection \<open>The name of a file\<close>

text \<open>The code points of a text; \<open>None\<close> when it is not well-formed UTF-16, where no expression matches.\<close>

fun code_points :: "qstring \<Rightarrow> nat list option" where
  "code_points [] = Some []"
| "code_points (a # xs) =
     (if 0xD800 \<le> a \<and> a \<le> 0xDBFF then
        (case xs of
           b # ys \<Rightarrow> if 0xDC00 \<le> b \<and> b \<le> 0xDFFF
             then map_option ((#) (65536 + (unat a - 0xD800) * 1024 + (unat b - 0xDC00))) (code_points ys) else None
         | [] \<Rightarrow> None)
      else if 0xDC00 \<le> a \<and> a \<le> 0xDFFF then None
      else map_option ((#) (unat a)) (code_points xs))"

text \<open>\<open>^[\w .()-]+$\<close>: the end is that of the text, or a line feed there. \<open>word\<close>: \<open>\w\<close> with the properties of Unicode.\<close>

definition name_char :: "(nat \<Rightarrow> bool) \<Rightarrow> nat \<Rightarrow> bool" where
  "name_char word c \<longleftrightarrow> word c \<or> c \<in> {0x20, 0x2E, 0x28, 0x29, 0x2D}"

definition name_chars :: "(nat \<Rightarrow> bool) \<Rightarrow> qstring \<Rightarrow> bool" where
  "name_chars word name =
     (case code_points name of
        None \<Rightarrow> False
      | Some cs \<Rightarrow>
          (let body = (if cs \<noteq> [] \<and> last cs = 10 \<and> \<not> list_all (name_char word) cs then butlast cs else cs)
           in body \<noteq> [] \<and> list_all (name_char word) body))"

definition device_names :: "string list" where
  "device_names = [''CON'', ''PRN'', ''AUX'', ''NUL''] @
     concat (map (\<lambda>p. map (\<lambda>d. p @ [d]) ''0123456789'') [''COM'', ''LPT''])"

definition device_name :: "qstring \<Rightarrow> bool" where
  "device_name s \<longleftrightarrow> map up_char s \<in> set (map lit device_names)"

text \<open>\<open>QFileInfo::suffix\<close>, \<open>QString::section('.', 0, 0)\<close>\<close>

definition file_part :: "qstring \<Rightarrow> qstring" where
  "file_part name = (case q_last_index (of_char CHR ''/'') name of None \<Rightarrow> name | Some i \<Rightarrow> drop (i + 1) name)"

definition file_suffix :: "qstring \<Rightarrow> qstring" where
  "file_suffix name =
     (case q_last_index (of_char CHR ''.'') (file_part name) of None \<Rightarrow> [] | Some i \<Rightarrow> drop (i + 1) (file_part name))"

definition first_section :: "qstring \<Rightarrow> qstring" where
  "first_section name = takeWhile (\<lambda>c. c \<noteq> of_char CHR ''.'') name"

definition plainFileName :: "(nat \<Rightarrow> bool) \<Rightarrow> (qstring \<Rightarrow> qstring) \<Rightarrow> qstring \<Rightarrow> bool" where
  "plainFileName word lower name \<longleftrightarrow>
     (let suffix = lower (file_suffix name) in
      name_chars word name \<and> hd name \<noteq> of_char CHR ''.'' \<and> last name \<noteq> of_char CHR ''.'' \<and> last name \<noteq> of_char CHR '' '' \<and>
      \<not> device_name (q_trim (first_section name)) \<and>
      (suffix = [] \<or> suffix = lit ''csv'' \<or> suffix = lit ''xlsx'' \<or> suffix = lit ''ods''))"

subsection \<open>Saving\<close>

record 'w files =
  fs_exists :: "qstring \<Rightarrow> 'w \<Rightarrow> bool"
  fs_mkpath :: "qstring \<Rightarrow> 'w \<Rightarrow> bool \<times> 'w"
  fs_write :: "qstring \<Rightarrow> bool \<Rightarrow> 'w \<Rightarrow> (bool \<times> qstring) \<times> 'w"

definition save_dir :: "qstring \<Rightarrow> qstring \<Rightarrow> qstring" where
  "save_dir documents saveDir = (if saveDir = [] then documents @ lit ''/QtDMM'' else saveDir)"

definition save_file :: "qstring \<Rightarrow> qstring" where
  "save_file name = (if file_suffix name = [] then name @ lit ''.csv'' else name)"

definition saveRecording :: "(nat \<Rightarrow> bool) \<Rightarrow> (qstring \<Rightarrow> qstring) \<Rightarrow> 'w files \<Rightarrow> qstring \<Rightarrow> qstring \<Rightarrow> rec_store \<Rightarrow> qstring \<Rightarrow> bool
    \<Rightarrow> 'w \<Rightarrow> qstring \<times> 'w" where
  "saveRecording word lower fs documents saveDir s name raw w =
     (if \<not> plainFileName word lower name
      then (lit ''-257,File name error; a file name only, .csv, .xlsx or .ods: '' @ name, w)
      else if rs_state s = Record then (lit ''-221,Settings conflict; recording, stop it first'', w)
      else if rs_state s \<noteq> View \<or> se_count (rs_series s) = 0 then (lit ''-221,Settings conflict; nothing recorded'', w)
      else
        (let dir = save_dir documents saveDir; path = dir @ of_char CHR ''/'' # save_file name in
         if fs_exists fs path w then (lit ''-257,File name error; exists already: '' @ file_part path, w)
         else (case fs_mkpath fs dir w of (made, w1) \<Rightarrow>
           if \<not> made then (lit ''-250,Mass storage error; '' @ dir, w1)
           else (case fs_write fs path raw w1 of ((ok, err), w2) \<Rightarrow>
             if \<not> ok then (lit ''-250,Mass storage error; '' @ (if err = [] then dir else err), w2) else ([], w2)))))"

text \<open>What is written: the recording with all its values, and all values of the meters that recorded with it.\<close>

definition written_ids :: "rec_store \<Rightarrow> int list" where
  "written_ids s = fold (\<lambda>sr ids. if se_id sr \<in> set ids then ids else ids @ [se_id sr]) (rs_extra s) [0]"

definition written_foreign :: "(rec_store \<times> qstring) list \<Rightarrow> foreign list" where
  "written_foreign others =
     concat (map (\<lambda>(store, device). map (\<lambda>i. \<lparr>fo_store = Some store, fo_id = i, fo_device = device\<rparr>) (written_ids store)) others)"

definition written_recording :: "clocks \<Rightarrow> bool \<Rightarrow> (rec_store \<times> qstring) list \<Rightarrow> qstring \<Rightarrow> rec_store \<Rightarrow> recording" where
  "written_recording ck raw others device s =
     toRecording ck raw [0 .. int (length (rs_extra s)) - 1] (written_foreign others) device s"

subsection \<open>The sources\<close>

definition mm_stats :: "min_max \<Rightarrow> stats" where
  "mm_stats m = (if mm_isEmpty m then Scpi_Device.stats0
     else stats.make (mm_count m) (mm_min m) (mm_max m) (mm_mean m))"

definition clearChannelStats :: "int \<Rightarrow> 'w controller \<Rightarrow> 'w controller" where
  "clearChannelStats channel c =
     (if channel \<ge> 1 \<and> channel \<le> kMaxValues
      then emitValueMinMax (channel - 1)
        (c\<lparr>ct_valueMinMax := (ct_valueMinMax c)[nat (channel - 1) := mm_clear (ct_valueMinMax c ! nat (channel - 1))]\<rparr>)
      else c)"

definition recordingState :: "clocks \<Rightarrow> rec_store \<Rightarrow> recording_state" where
  "recordingState ck s =
     recording_state.make
       (case rs_state s of rec_state.Live \<Rightarrow> recording_mode.Live | rec_state.Record \<Rightarrow> recording_mode.Record
          | rec_state.View \<Rightarrow> if se_count (rs_series s) > 0 then recording_mode.View else Idle)
       (d_div (dbl_of (of_int (duration ck s))) (dlit 1000)) (int (se_count (rs_series s))) (rs_unit s)"

definition sources_series :: "int \<Rightarrow> rec_store \<Rightarrow> series option" where
  "sources_series channel s =
     (if channel \<le> 1 then Some (rs_series s)
      else (let i = extraIndex (rs_extra s) (channel - 1) in if i \<ge> 0 then Some (rs_extra s ! nat i) else None))"

definition ct_recordingData :: "int \<Rightarrow> int \<Rightarrow> rec_store \<Rightarrow> point list" where
  "ct_recordingData count channel s =
     (case sources_series channel s of
        None \<Rightarrow> []
      | Some sr \<Rightarrow> map (\<lambda>i. let p = se_at sr i
            in \<lparr>pt_seconds = d_div (dbl_of (of_int (rp_t p))) (dlit 1000), pt_value = rp_value p, pt_overload = (rp_quality p = quality.Overload)\<rparr>)
          [nat (max 0 (int (se_count sr) - count)) ..< se_count sr])"

fun level_of :: "alarm_state \<Rightarrow> alarm_level" where
  "level_of Off = LevelOff" | "level_of Pending = LevelPending" | "level_of Raised = LevelRaised" | "level_of Acknowledged = LevelAcknowledged"

definition alarm_infos :: "alarm_mgr \<Rightarrow> alarm_info list" where
  "alarm_infos m = map (\<lambda>i. \<lparr>ai_name = al_name (am_alarms m ! i), ai_level = level_of (am_st i m)\<rparr>) [0 ..< length (am_alarms m)]"

text \<open>\<open>get\<close> and \<open>upd\<close> find the controller in the world the commands of SCPI work on.\<close>

definition installScpiSources :: "('w \<Rightarrow> 'w controller) \<Rightarrow> (('w controller \<Rightarrow> 'w controller) \<Rightarrow> 'w \<Rightarrow> 'w) \<Rightarrow> ('w \<Rightarrow> clocks)
    \<Rightarrow> (rec_store \<Rightarrow> qstring \<Rightarrow> bool \<Rightarrow> 'w \<Rightarrow> qstring \<times> 'w) \<Rightarrow> ('w \<Rightarrow> qstring list) \<Rightarrow> (qstring \<Rightarrow> 'w \<Rightarrow> bool \<times> 'w) \<Rightarrow> 'w sources" where
  "installScpiSources get upd ck save keys press =
     \<lparr>src_stats = Some (\<lambda>w. mm_stats (ct_minMax (get w))),
      src_channelStats = Some (\<lambda>channel w. mm_stats (valueMinMax (get w) (channel - 1))),
      src_clearChannelStats = Some (\<lambda>channel. upd (clearChannelStats channel)),
      src_recording = Some (\<lambda>w. recordingState (ck w) (ct_recorder (get w))),
      src_recordingData = Some (\<lambda>count channel w. ct_recordingData count channel (ct_recorder (get w))),
      src_saveRecording = Some (\<lambda>name raw w. save (ct_recorder (get w)) name raw w),
      src_alarms = Some (\<lambda>w. alarm_infos (ct_alarms (get w))),
      src_keys = Some keys, src_pressKey = Some press,
      src_limitTest = Some (\<lambda>w. ct_limitTest (get w)), src_setLimitTest = Some (\<lambda>t. upd (ct_setLimitTest t)),
      src_verdict = Some (\<lambda>w. ct_verdict (get w)), src_limitCount = Some (\<lambda>w. ct_limitCount (get w)),
      src_clearLimitCount = Some (upd resetLimitCount)\<rparr>"

subsection \<open>What a client can write\<close>

lemma code_points_in: "code_points s = Some cs \<Longrightarrow> a \<in> set s \<Longrightarrow> a < 0xD800 \<Longrightarrow> unat a \<in> set cs"
proof (induction s arbitrary: cs rule: code_points.induct)
  case (2 x xs)
  show ?case
  proof (cases "0xD800 \<le> x \<and> x \<le> 0xDBFF")
    case True
    then obtain b ys ds where y: "xs = b # ys" "0xDC00 \<le> b" "code_points ys = Some ds"
      "cs = (65536 + (unat x - 0xD800) * 1024 + (unat b - 0xDC00)) # ds"
      using "2.prems"(1) by (auto split: list.splits if_splits)
    have "a \<noteq> x" "a \<noteq> b" using True y(2) "2.prems"(3) by (auto simp: word_less_nat_alt word_le_nat_alt)
    then show ?thesis using "2.IH"(1)[OF True y(1) _ y(3)] True y "2.prems" by (auto split: if_splits)
  next
    case False
    then show ?thesis using "2.IH"(2)[OF False] "2.prems" by (auto split: if_splits)
  qed
qed simp

lemma plain_char:
  assumes "name_chars word name" "a \<in> set name" "a < 0xD800" "a \<noteq> 10"
  shows "name_char word (unat a)"
proof -
  obtain cs where c: "code_points name = Some cs" using assms(1) by (auto simp: name_chars_def split: option.splits)
  have i: "unat a \<in> set cs" by (rule code_points_in[OF c assms(2,3)])
  have n: "unat a \<noteq> 10" using assms(4) by (auto simp: word_unat_eq_iff)
  show ?thesis
  proof (cases "cs \<noteq> [] \<and> last cs = 10 \<and> \<not> list_all (name_char word) cs")
    case True
    have "last cs = 10" "cs = butlast cs @ [last cs]" using True append_butlast_last_id[of cs] by simp_all
    then have "set cs = set (butlast cs @ [10])" by metis
    then have "unat a \<in> set (butlast cs)" using i n by auto
    moreover have "list_all (name_char word) (butlast cs)"
      using assms(1) True unfolding name_chars_def c option.case Let_def if_P[OF True] by blast
    ultimately show ?thesis by (simp add: list_all_iff)
  next
    case False
    have "list_all (name_char word) cs"
      using assms(1) unfolding name_chars_def c option.case Let_def if_not_P[OF False] by blast
    then show ?thesis using i by (simp add: list_all_iff)
  qed
qed

definition separators :: "u16 set" where
  "separators = {0x2F, 0x5C, 0x3A}"

lemma plain_separators:
  assumes "name_chars word name" "\<And>c. c \<in> separators \<Longrightarrow> \<not> word (unat c)"
  shows "set name \<inter> separators = {}"
proof -
  have "a \<notin> separators" if "a \<in> set name" for a
  proof
    assume a: "a \<in> separators"
    have "name_char word (unat a)" by (rule plain_char[OF assms(1) that]) (use a in \<open>auto simp: separators_def\<close>)
    then show False using a assms(2)[OF a] by (auto simp: name_char_def separators_def)
  qed
  then show ?thesis by blast
qed

lemma q_index_none: "c \<notin> set s \<Longrightarrow> q_index c s = None"
  by (induction s) auto

lemma file_part_plain: "set name \<inter> separators = {} \<Longrightarrow> file_part name = name"
  by (auto simp: file_part_def q_last_index_def q_index_none separators_def)

lemma csv_suffix: "set name \<inter> separators = {} \<Longrightarrow> file_suffix (name @ lit ''.csv'') = lit ''csv''"
proof -
  assume n: "set name \<inter> separators = {}"
  have "set (name @ lit ''.csv'') \<inter> separators = {}" using n by (simp add: separators_def)
  then have "file_part (name @ lit ''.csv'') = name @ lit ''.csv''" by (rule file_part_plain)
  then show ?thesis by (simp add: file_suffix_def q_last_index_def)
qed

lemma csv_section: "first_section (name @ lit ''.csv'') = first_section name"
  by (auto simp: first_section_def takeWhile_append takeWhile_eq_all_conv[THEN iffD2])

text \<open>
  C39: A client on the network that saves the recording names a file and no place: whatever the name, either nothing is
  written and the client gets an error, or the only file written is a new one right in the folder for recordings, whose name
  has no separator of a path, drive or stream, does not begin with a dot, is no device, and ends in a format that is written.
\<close>

theorem save_stays_in_folder:
  fixes documents saveDir name :: qstring and fs :: "'w files" and s :: rec_store
  assumes "\<And>c. c \<in> separators \<Longrightarrow> \<not> word (unat c)" and "lower (lit ''csv'') = lit ''csv''"
    and "\<And>t. lower t = [] \<Longrightarrow> t = []"
  defines "dir \<equiv> save_dir documents saveDir" and "f \<equiv> save_file name"
  shows "case saveRecording word lower fs documents saveDir s name raw w of (error, w') \<Rightarrow>
    (error \<noteq> [] \<and> w' = w) \<or>
    (rs_state s = View \<and> se_count (rs_series s) > 0 \<and> \<not> fs_exists fs (dir @ of_char CHR ''/'' # f) w \<and>
     set f \<inter> separators = {} \<and> hd f \<noteq> of_char CHR ''.'' \<and> \<not> device_name (q_trim (first_section f)) \<and>
     lower (file_suffix f) \<in> {lit ''csv'', lit ''xlsx'', lit ''ods''} \<and>
     (case fs_mkpath fs dir w of (made, w1) \<Rightarrow>
        if made then (case fs_write fs (dir @ of_char CHR ''/'' # f) raw w1 of ((ok, err), w2) \<Rightarrow> w' = w2 \<and> (error = [] \<longleftrightarrow> ok))
        else error \<noteq> [] \<and> w' = w1))"
proof (cases "plainFileName word lower name")
  case False
  then show ?thesis by (simp add: saveRecording_def)
next
  case True
  have p: "name_chars word name" "hd name \<noteq> of_char CHR ''.''" "\<not> device_name (q_trim (first_section name))"
    "lower (file_suffix name) \<in> {[], lit ''csv'', lit ''xlsx'', lit ''ods''}"
    using True by (auto simp: plainFileName_def Let_def)
  have sep: "set name \<inter> separators = {}" by (rule plain_separators[OF p(1) assms(1)])
  have ne: "name \<noteq> []" using p(1) by (auto simp: name_chars_def)
  have f: "set f \<inter> separators = {}" "hd f \<noteq> of_char CHR ''.''" "\<not> device_name (q_trim (first_section f))"
    using sep ne p(2,3) csv_section[of name] by (auto simp: f_def save_file_def separators_def)
  have suf: "lower (file_suffix f) \<in> {lit ''csv'', lit ''xlsx'', lit ''ods''}"
  proof (cases "file_suffix name = []")
    case True
    then show ?thesis using csv_suffix[OF sep] assms(2) by (simp add: f_def save_file_def)
  next
    case False
    then show ?thesis using p(4) assms(3)[of "file_suffix name"] by (auto simp: f_def save_file_def)
  qed
  show ?thesis
    unfolding saveRecording_def Let_def f_def[symmetric] dir_def[symmetric]
    using True f suf by (auto split: prod.splits)
qed

definition ascii_word :: "nat \<Rightarrow> bool" where
  "ascii_word c \<longleftrightarrow> (48 \<le> c \<and> c \<le> 57) \<or> (65 \<le> c \<and> c \<le> 90) \<or> (97 \<le> c \<and> c \<le> 122) \<or> c = 95"

definition low_char :: "u16 \<Rightarrow> u16" where
  "low_char c = (if q_upper_letter c then c + 32 else c)"

text \<open>A folder is the list of the files in it.\<close>

definition bench_files :: "qstring list files" where
  "bench_files = \<lparr>fs_exists = (\<lambda>p w. p \<in> set w), fs_mkpath = (\<lambda>p w. (True, w)), fs_write = (\<lambda>p raw w. ((True, []), w @ [p]))\<rparr>"

lemma bench_ended_points: "rs_state bench_ended = rec_state.View" "se_count (rs_series bench_ended) > 0"
  using bench_recording_facts(1,2) by (simp_all add: bench_ended_def rs_stop_def rs_emit_def Let_def se_count_view)

theorem save_stays_in_folder_witness:
  "saveRecording ascii_word (map low_char) bench_files (lit ''docs'') (lit ''rec'') bench_ended (lit ''run 1'') False [] =
     ([], [lit ''rec/run 1.csv''])"
proof -
  let ?save = "saveRecording ascii_word (map low_char) bench_files (lit ''docs'') (lit ''rec'') bench_ended (lit ''run 1'') False []"
  have p: "plainFileName ascii_word (map low_char) (lit ''run 1'')" by code_simp
  have path: "save_dir (lit ''docs'') (lit ''rec'') @ 0x2F # save_file (lit ''run 1'') = lit ''rec/run 1.csv''" by code_simp
  have e: "fst ?save = []"
    using p bench_ended_points by (simp add: saveRecording_def Let_def bench_files_def)
  have w: "\<not> ascii_word (unat c)" if "c \<in> separators" for c using that by (auto simp: separators_def ascii_word_def)
  have l: "map low_char (lit ''csv'') = lit ''csv''" by code_simp
  have "snd ?save = [lit ''rec/run 1.csv'']"
    using save_stays_in_folder[where word = ascii_word and lower = "map low_char" and documents = "lit ''docs''" and saveDir = "lit ''rec''"
        and fs = bench_files and s = bench_ended and name = "lit ''run 1''" and raw = False and w = "[]", OF w l] e
    path by (simp add: case_prod_beta bench_files_def)
  then show ?thesis using e by (simp add: prod_eq_iff)
qed

text \<open>The end of the expression is also that of a line: a name that ends in a line feed passes.\<close>

lemma newline_name_passes: "plainFileName ascii_word (map low_char) (lit ''run'' @ [10])"
  by code_simp

end
