(* ===== verification/Display_Answered.thy ===== *)
theory Display_Answered
  imports Controller_Scpi Scpi_Facts
begin

text \<open>
  The program from the meter to the network: the frame of a display, decoded, adapted, published by the controller, and
  answered by the SCPI server.
\<close>

lemma publish_remembered:
  assumes "vr_id r = 0"
  shows "map_of (sd_readings (ct_scpi (publish ses ck now r c))) 0 = Some (scpi_reading r)"
proof -
  obtain r1 c1 where j: "ct_judge r c = (r1, c1)" by fastforce
  have r1: "vr_id r1 = 0" "scpi_reading r1 = scpi_reading r"
    using judge_id(1)[of r c] assms j by (auto simp: ct_judge_def with_verdict_def scpi_reading_def noNumber_def Let_def split: if_splits)
  obtain b c2 where 2: "ct_value_extremes r1 (ct_unit_seen r1 c1) = (b, c2)" by fastforce
  obtain n x c3 where 3: "ct_shown_extremes r1 c2 = (n, x, c3)" by (metis prod_cases3)
  have id: "\<not> (vr_id r1 > 0 \<and> vr_text r1 = [])" using r1(1) by simp
  have "\<exists>e. publish ses ck now r c = e\<lparr>ct_scpi := sd_setReading (vr_id r1) (scpi_reading r1) (ct_scpi e)\<rparr>"
    unfolding publish_def Let_def j prod.case if_not_P[OF id] 2 3 by blast
  then show ?thesis using r1 by (auto simp: sd_setReading_def)
qed

lemma display_published:
  assumes "lcd_ok l" "reads_decimals to_double" "ev_data ev = lcd_frame l" "ev_id ev = 0" "ev_wall ev \<noteq> 0"
  shows "\<exists>r. map_of (sd_readings (ct_scpi (snd (ct_response ses q to_float ck now from VC820Continuous (vc820_response to_double ev)
      (a, c))))) 0 = Some r \<and> rd_value r = d_mul (dbl_mag (lcd_neg l) (lcd_number l)) (si_factor (lcd_prefix l)) \<and>
    \<not> rd_overload r \<and> rd_valid r \<and> rd_msecs r = ev_wall ev"
proof -
  obtain a' v where v: "responseSLOT q to_float (ck_mono ck) (ck_wall ck) from VC820Continuous (vc820_response to_double ev) a = (a', [v])"
    "shows_display l v" "vr_id v = 0" "vr_msecs v = ev_wall ev"
    using published_display[OF assms(1-3), of q to_float "ck_mono ck" "ck_wall ck" "from" VC820Continuous a] assms(4,5)
    by (cases "responseSLOT q to_float (ck_mono ck) (ck_wall ck) from VC820Continuous (vc820_response to_double ev) a") auto
  have "snd (ct_response ses q to_float ck now from VC820Continuous (vc820_response to_double ev) (a, c)) = publish ses ck now v c"
    by (simp add: ct_response_def v(1))
  then show ?thesis
    using publish_remembered[OF v(3), of ses ck now c] v(2,4)
    by (simp add: scpi_reading_def shows_display_def noNumber_def)
qed

text \<open>
  C40: What the meter shows is what the network reads: whatever four digits, sign, point and prefix a VC820 shows, after its
  frame the command READ? of the SCPI server answers the number on the display in SI base units, when the meter is connected
  and the frame is no older than 5 seconds; whatever the limits, alarms, extremes and recordings of the controller were.
\<close>

theorem display_answered:
  assumes "lcd_ok l" "reads_decimals to_double" "ev_data ev = lcd_frame l" "ev_id ev = 0" "ev_wall ev \<noteq> 0"
    and "c' = snd (ct_response ses (en_qt en) to_float ck now from VC820Continuous (vc820_response to_double ev) (a, c))"
    and "qt_ascii_ok (en_qt en)" "selectedDevice s = Some i" "map_of (sc_store s) i = Some (ct_scpi c')"
    and "sd_connected (ct_scpi c')" "en_now en (sc_world s) - ev_wall ev \<le> 5000"
  shows "scpi_process en (asc ''READ?'') s =
    (qt_to_utf8 (en_qt en) (scpi_number (en_qt en) (d_mul (dbl_mag (lcd_neg l) (lcd_number l)) (si_factor (lcd_prefix l)))) @ [10], s)"
proof -
  obtain r where r: "map_of (sd_readings (ct_scpi c')) 0 = Some r"
    "rd_value r = d_mul (dbl_mag (lcd_neg l) (lcd_number l)) (si_factor (lcd_prefix l))" "\<not> rd_overload r" "rd_valid r"
    "rd_msecs r = ev_wall ev"
    using display_published[OF assms(1-5), of ses "en_qt en" to_float ck now "from" a c] assms(6) by auto
  show ?thesis using read_answer[OF assms(7-9) r(1)] r(2-5) assms(10,11) by simp
qed

definition shown_event :: frame_event where
  "shown_event = \<lparr>ev_data = lcd_frame lcd_example, ev_id = 0, ev_t = 7, ev_wall = 900\<rparr>"

definition shown_controller :: "scpi_signal list controller" where
  "shown_controller = snd (ct_response (\<lambda>_ _. []) qt_plain (\<lambda>d. d) bench_clock 7 (lit ''device:1'') VC820Continuous
     (vc820_response plain_double shown_event) (adapter0 VC820Continuous, ct_linkState True (controller0 bench_clock)))"

lemma response_keeps:
  assumes "ct_inv c"
  shows "sd_connected (ct_scpi (snd (ct_response ses q to_float ck now from format resp (a, c)))) = sd_connected (ct_scpi c)"
proof -
  have "ct_inv c \<Longrightarrow> sd_connected (ct_scpi (fold (publish ses ck now) rs c)) = sd_connected (ct_scpi c)" for rs
    by (induction rs arbitrary: c) (simp_all add: publish_keeps)
  then show ?thesis using assms by (simp add: ct_response_def split: prod.split)
qed

definition shown_bench :: "scpi_signal list scpi" where
  "shown_bench = addDevice 7 ((scpi0 [])\<lparr>sc_store := [(7, ct_scpi shown_controller)]\<rparr>)"

theorem display_answered_witness:
  "scpi_process env_plain (asc ''READ?'') shown_bench =
    (qt_to_utf8 (en_qt env_plain) (scpi_number (en_qt env_plain) (d_mul (dbl_mag True (lcd_number lcd_example))
       (si_factor (lcd_prefix lcd_example)))) @ [10], shown_bench)"
proof -
  let ?c0 = "ct_linkState True (controller0 bench_clock) :: scpi_signal list controller"
  have "ct_reach (\<lambda>_ _. []) (\<lambda>_. []) ?c0"
    using ct_reach.call[OF ct_reach.fresh, of "\<lambda>_ _. []" "\<lambda>_. []" "KLink True" bench_clock] by simp
  from response_keeps[OF ct_reach_inv[OF this]] have con: "sd_connected (ct_scpi shown_controller)"
    unfolding shown_controller_def by (simp add: ct_linkState_def)
  have ok: "lcd_ok lcd_example" "lcd_neg lcd_example" by (simp_all add: lcd_ok_def lcd_example_def)
  have ev: "ev_data shown_event = lcd_frame lcd_example" "ev_id shown_event = 0" "ev_wall shown_event \<noteq> 0"
    by (simp_all add: shown_event_def)
  have b: "selectedDevice shown_bench = Some 7" "map_of (sc_store shown_bench) 7 = Some (ct_scpi shown_controller)" "sc_world shown_bench = []"
    by (simp_all add: shown_bench_def addDevice_def scpi0_def selectedDevice_def al_has_def Let_def)
  have c': "shown_controller = snd (ct_response (\<lambda>_ _. []) (en_qt env_plain) (\<lambda>d. d) bench_clock 7 (lit ''device:1'') VC820Continuous
     (vc820_response plain_double shown_event) (adapter0 VC820Continuous, ?c0))"
    by (simp only: shown_controller_def env_plain_def scpi_env.select_convs)
  have now: "en_now env_plain (sc_world shown_bench) - ev_wall shown_event \<le> 5000"
    by (simp add: env_plain_def shown_event_def)
  show ?thesis
    using display_answered[OF ok(1) plain_double_reads ev c' bench_facts(5) b(1,2) con now] ok(2) by simp
qed

end
